(* ===== verification/Prelude.thy ===== *)
theory Prelude
  imports Main "HOL-Library.Word"
begin

text \<open>
  What every component shares: the outcome of a Rust function (a value, an error returned
  through \<open>Result\<close>, or a panic), bytes and big-endian byte strings, the integer types of the
  source at their width, and the collections of facts the component proofs use.
\<close>

section \<open>Collections of facts\<close>

named_theorems arms_simps \<open>characterisations of the match statements of the operations\<close>
named_theorems res_simps \<open>rules that take a chain of \<open>?\<close> apart\<close>
named_theorems be_simps \<open>values of big-endian byte strings\<close>

section \<open>Integers and bytes\<close>

type_synonym u8 = "8 word"
type_synonym u16 = "16 word"
type_synonym u32 = "32 word"
type_synonym u64 = "64 word"
type_synonym u128 = "128 word"
type_synonym i16 = "16 word"
type_synonym i32 = "32 word"
type_synonym bytes = "u8 list"

text \<open>
  Signed integers are words read with \<open>sint\<close>. \<open>v as i32\<close> of an \<open>i16\<close> is \<open>scast\<close>; the checked
  conversion \<open>i32 -> i16\<close> (\<open>try_into\<close>) fails outside the range of \<open>i16\<close>.
\<close>

definition i16_as_i32 :: "i16 \<Rightarrow> i32" where
  "i16_as_i32 v = word_of_int (sint v)"

definition i32_try_into_i16 :: "i32 \<Rightarrow> i16 option" where
  "i32_try_into_i16 v =
     (if - (2 ^ 15) \<le> sint v \<and> sint v < 2 ^ 15 then Some (word_of_int (sint v)) else None)"

definition u8_as_i16 :: "u8 \<Rightarrow> i16" where
  "u8_as_i16 b = of_nat (unat b)"

definition u8_as_i32 :: "u8 \<Rightarrow> i32" where
  "u8_as_i32 b = of_nat (unat b)"

section \<open>Outcomes\<close>

text \<open>
  A call returns a value, returns an error, or panics. The panics are told apart by what
  raises them: a failed \<open>assert!\<close>, an index out of bounds, an explicit \<open>panic!\<close> or \<open>todo!\<close>,
  an \<open>expect\<close> on an absent value, or a panic inside the encryption library.
\<close>

datatype panic_reason =
    AssertionFailed
  | IndexOutOfBounds
  | ExplicitPanic
  | TodoMacro
  | ExpectFailed
  | LibraryPanic

datatype (rerr: 'e, rval: 'a) res = Ok 'a | Err 'e | Panic panic_reason

text \<open>The \<open>?\<close> operator: an error or a panic ends the computation.\<close>

fun bind_res :: "('e, 'a) res \<Rightarrow> ('a \<Rightarrow> ('e, 'b) res) \<Rightarrow> ('e, 'b) res" where
  "bind_res (Ok x) f = f x"
| "bind_res (Err e) f = Err e"
| "bind_res (Panic p) f = Panic p"

text \<open>\<open>map_err\<close>.\<close>

fun map_err :: "('e \<Rightarrow> 'f) \<Rightarrow> ('e, 'a) res \<Rightarrow> ('f, 'a) res" where
  "map_err g (Ok x) = Ok x"
| "map_err g (Err e) = Err (g e)"
| "map_err g (Panic p) = Panic p"

definition panics :: "('e, 'a) res \<Rightarrow> bool" where
  "panics r \<longleftrightarrow> (case r of Panic _ \<Rightarrow> True | _ \<Rightarrow> False)"

definition is_ok :: "('e, 'a) res \<Rightarrow> bool" where
  "is_ok r \<longleftrightarrow> (case r of Ok _ \<Rightarrow> True | _ \<Rightarrow> False)"

definition is_err :: "('e, 'a) res \<Rightarrow> bool" where
  "is_err r \<longleftrightarrow> (case r of Err _ \<Rightarrow> True | _ \<Rightarrow> False)"

text \<open>\<open>assert!(b)\<close> followed by the rest of the body.\<close>

definition assert_then :: "bool \<Rightarrow> ('e, 'a) res \<Rightarrow> ('e, 'a) res" where
  "assert_then b r = (if b then r else Panic AssertionFailed)"

text \<open>\<open>xs[i]\<close>: a panic out of bounds.\<close>

definition index_then :: "'x list \<Rightarrow> nat \<Rightarrow> ('x \<Rightarrow> ('e, 'a) res) \<Rightarrow> ('e, 'a) res" where
  "index_then xs i f = (if i < length xs then f (xs ! i) else Panic IndexOutOfBounds)"

lemma panics_simps [simp]:
  "panics (Panic p)" "\<not> panics (Ok x)" "\<not> panics (Err e)"
  by (simp_all add: panics_def)

lemma is_ok_simps [simp]:
  "is_ok (Ok x)" "\<not> is_ok (Err e)" "\<not> is_ok (Panic p)"
  by (simp_all add: is_ok_def)

lemma is_err_simps [simp]:
  "is_err (Err e)" "\<not> is_err (Ok x)" "\<not> is_err (Panic p)"
  by (simp_all add: is_err_def)

lemma bind_res_eq_Ok [res_simps]:
  "bind_res m f = Ok y \<longleftrightarrow> (\<exists>x. m = Ok x \<and> f x = Ok y)"
  by (cases m) auto

lemma bind_res_eq_Err [res_simps]:
  "bind_res m f = Err e \<longleftrightarrow> m = Err e \<or> (\<exists>x. m = Ok x \<and> f x = Err e)"
  by (cases m) auto

lemma panics_bind_res [res_simps]:
  "panics (bind_res m f) \<longleftrightarrow> panics m \<or> (\<exists>x. m = Ok x \<and> panics (f x))"
  by (cases m) auto

lemma bind_res_assoc: "bind_res (bind_res m f) g = bind_res m (\<lambda>x. bind_res (f x) g)"
  by (cases m) auto

lemma map_err_eq_Ok [simp]: "map_err g m = Ok y \<longleftrightarrow> m = Ok y"
  by (cases m) auto

lemma panics_map_err [simp]: "panics (map_err g m) = panics m"
  by (cases m) auto

lemma index_then_in [simp]: "i < length xs \<Longrightarrow> index_then xs i f = f (xs ! i)"
  by (simp add: index_then_def)

lemma index_then_out [simp]: "\<not> i < length xs \<Longrightarrow> index_then xs i f = Panic IndexOutOfBounds"
  by (simp add: index_then_def)

lemma assert_then_simps [simp]:
  "assert_then True r = r" "assert_then False r = Panic AssertionFailed"
  by (simp_all add: assert_then_def)

section \<open>Big-endian byte strings\<close>

text \<open>The number a big-endian byte string stands for.\<close>

fun be_acc :: "nat \<Rightarrow> bytes \<Rightarrow> nat" where
  "be_acc acc [] = acc"
| "be_acc acc (b # bs) = be_acc (acc * 256 + unat b) bs"

definition be_val :: "bytes \<Rightarrow> nat" where
  "be_val bs = be_acc 0 bs"

text \<open>\<open>uN::from_be_bytes\<close>.\<close>

definition from_be_bytes :: "bytes \<Rightarrow> 'a::len word" where
  "from_be_bytes bs = of_nat (be_val bs)"

lemma be_acc_append: "be_acc a (xs @ ys) = be_acc (be_acc a xs) ys"
  by (induction xs arbitrary: a) auto

lemma be_acc_shift: "be_acc a bs = a * 256 ^ length bs + be_acc 0 bs"
proof (induction bs arbitrary: a)
  case Nil
  then show ?case by simp
next
  case (Cons b bs)
  have "be_acc a (b # bs) = (a * 256 + unat b) * 256 ^ length bs + be_acc 0 bs"
    by (simp add: Cons.IH [of "a * 256 + unat b"])
  moreover have "be_acc 0 (b # bs) = unat b * 256 ^ length bs + be_acc 0 bs"
    by (simp add: Cons.IH [of "unat b"])
  ultimately show ?case by (simp add: algebra_simps)
qed

lemma be_val_Nil [simp, be_simps]: "be_val [] = 0"
  by (simp add: be_val_def)

lemma be_val_append [be_simps]:
  "be_val (xs @ ys) = be_val xs * 256 ^ length ys + be_val ys"
  unfolding be_val_def be_acc_append by (subst be_acc_shift) simp

lemma be_val_single [simp, be_simps]: "be_val [b] = unat b"
  by (simp add: be_val_def)

lemma be_val_Cons [be_simps]: "be_val (b # bs) = unat b * 256 ^ length bs + be_val bs"
  using be_val_append [of "[b]" bs] by simp

lemma unat_byte_less [simp]: "unat (b :: u8) < 256"
  using unsigned_less [of b] by simp

lemma be_val_bound: "be_val bs < 256 ^ length bs"
proof (induction bs rule: rev_induct)
  case Nil
  then show ?case by simp
next
  case (snoc b bs)
  have "be_val (bs @ [b]) = be_val bs * 256 + unat b"
    by (simp add: be_val_append)
  also have "\<dots> < (be_val bs + 1) * 256"
    using unat_byte_less [of b] by simp
  also have "\<dots> \<le> 256 ^ length bs * 256"
    using snoc.IH by (intro mult_le_mono1) simp
  finally show ?case by simp
qed

lemma be_val_zeros [simp]: "be_val (replicate n 0) = 0"
  by (induction n) (simp_all add: be_val_Cons)

lemma be_val_drop: "be_val (drop n bs) = be_val bs mod 256 ^ (length bs - n)"
proof -
  have "be_val bs = be_val (take n bs) * 256 ^ (length bs - n) + be_val (drop n bs)"
    using be_val_append [of "take n bs" "drop n bs"] by simp
  moreover have "be_val (drop n bs) < 256 ^ (length bs - n)"
    using be_val_bound [of "drop n bs"] by simp
  ultimately show ?thesis by simp
qed

lemma be_val_zero_iff: "be_val bs = 0 \<longleftrightarrow> (\<forall>b \<in> set bs. b = 0)"
  by (induction bs) (auto simp: be_val_Cons unat_eq_zero)

lemma pow256: "(256 :: nat) ^ n = 2 ^ (8 * n)"
  by (simp add: power_mult)

lemma unat_from_be_bytes:
  "unat (from_be_bytes bs :: 'a::len word) = be_val bs mod 2 ^ LENGTH('a)"
  by (simp add: from_be_bytes_def unat_of_nat)

end
