(* ===== verification/FheTypes.thy ===== *)
theory FheTypes
  imports Prelude
begin

text \<open>
  The types of \<open>fhevm-engine-common/src/types.rs\<close>: the error enum, the ciphertexts the engine
  supports, the operation codes and their tables, and the methods of \<open>SupportedFheCiphertexts\<close>.
  The ciphertexts of the encryption library are of a type \<open>'c\<close> the model knows nothing about;
  the library's functions are parameters of the definitions that call them.
\<close>

section \<open>Errors\<close>

text \<open>
  \<open>FhevmError\<close>. The library's own errors are carried as the text \<open>lib_error\<close>. A field that holds
  \<open>format!("0x{}", hex::encode(bs))\<close> is modelled by the bytes \<open>bs\<close> the text is made from.
\<close>

type_synonym lib_error = string

datatype fhevm_error =
    UnknownFheOperation i32
  | UnknownFheType i32
  | DeserializationError lib_error
  | CiphertextExpansionError lib_error
  | ReRandomisationError lib_error
  | CiphertextExpansionUnsupportedCiphertextKind int
  | FheOperationOnlyOneOperandCanBeScalar i32 string nat nat
  | FheOperationDoesntSupportScalar i32 string bool bool
  | FheOperationOnlySecondOperandCanBeScalar nat nat
  | FheOperationDoesntHaveUniformTypesAsInput i32 string "i16 list"
  | FheOperationScalarDivisionByZero bytes bytes i32 string
  | FheOperationDoesntSupportEbytesAsInput bytes bytes i32 string
  | UnexpectedOperandCountForFheOperation i32 string nat nat
  | OperationDoesntSupportBooleanInputs i32 string i16
  | FheIfThenElseUnexpectedOperandTypes i32 string i16 i16 string
  | FheIfThenElseMismatchingSecondAndThirdOperatorTypes i32 string i16 i16
  | UnexpectedCastOperandTypes i32 string "string list" "string list"
  | UnexpectedCastOperandSizeForScalarOperand i32 string nat nat
  | AllInputsForTrivialEncryptionMustBeScalar i32 string
  | UnexpectedTrivialEncryptionOperandSizeForScalarOperand i32 string nat nat
  | UnexpectedRandOperandSizeForOutputType i32 string nat nat
  | RandOperationUpperBoundCannotBeZero i32 string bytes
  | RandOperationInputsMustAllBeScalar i32 string nat nat
  | BadInputs
  | MissingTfheRsData
  | InvalidHandle
  | UnsupportedFheTypes string "string list"
  | UnknownCastType string i16

section \<open>The library's ciphertext types\<close>

text \<open>
  The ciphertext types of the library the engine uses (\<open>tfhe::FheBool\<close>, \<open>tfhe::FheUint4\<close> and so
  on up to \<open>tfhe::FheUint2048\<close>), with the number of clear bits each holds.
\<close>

datatype fhe_ty =
    TBool
  | TUint4
  | TUint8
  | TUint16
  | TUint32
  | TUint64
  | TUint128
  | TUint160
  | TUint256
  | TUint512
  | TUint1024
  | TUint2048

fun ty_bits :: "fhe_ty \<Rightarrow> nat" where
  "ty_bits TBool = 1"
| "ty_bits TUint4 = 4"
| "ty_bits TUint8 = 8"
| "ty_bits TUint16 = 16"
| "ty_bits TUint32 = 32"
| "ty_bits TUint64 = 64"
| "ty_bits TUint128 = 128"
| "ty_bits TUint160 = 160"
| "ty_bits TUint256 = 256"
| "ty_bits TUint512 = 512"
| "ty_bits TUint1024 = 1024"
| "ty_bits TUint2048 = 2048"

section \<open>Supported ciphertexts\<close>

text \<open>\<open>SupportedFheCiphertexts\<close>: a library ciphertext of one of the types, or clear big-endian bytes.\<close>

datatype 'c sfc =
    FheBool 'c
  | FheUint4 'c
  | FheUint8 'c
  | FheUint16 'c
  | FheUint32 'c
  | FheUint64 'c
  | FheUint128 'c
  | FheUint160 'c
  | FheUint256 'c
  | FheBytes64 'c
  | FheBytes128 'c
  | FheBytes256 'c
  | Scalar bytes

fun type_num :: "'c sfc \<Rightarrow> i16" where
  "type_num (FheBool _) = 0"
| "type_num (FheUint4 _) = 1"
| "type_num (FheUint8 _) = 2"
| "type_num (FheUint16 _) = 3"
| "type_num (FheUint32 _) = 4"
| "type_num (FheUint64 _) = 5"
| "type_num (FheUint128 _) = 6"
| "type_num (FheUint160 _) = 7"
| "type_num (FheUint256 _) = 8"
| "type_num (FheBytes64 _) = 9"
| "type_num (FheBytes128 _) = 10"
| "type_num (FheBytes256 _) = 11"
| "type_num (Scalar _) = 200"

fun type_name :: "'c sfc \<Rightarrow> string" where
  "type_name (FheBool _) = ''FheBool''"
| "type_name (FheUint4 _) = ''FheUint4''"
| "type_name (FheUint8 _) = ''FheUint8''"
| "type_name (FheUint16 _) = ''FheUint16''"
| "type_name (FheUint32 _) = ''FheUint32''"
| "type_name (FheUint64 _) = ''FheUint64''"
| "type_name (FheUint128 _) = ''FheUint128''"
| "type_name (FheUint160 _) = ''FheUint160''"
| "type_name (FheUint256 _) = ''FheUint256''"
| "type_name (FheBytes64 _) = ''FheBytes64''"
| "type_name (FheBytes128 _) = ''FheBytes128''"
| "type_name (FheBytes256 _) = ''FheBytes256''"
| "type_name (Scalar _) = ''Scalar''"

fun is_ebytes :: "'c sfc \<Rightarrow> bool" where
  "is_ebytes (FheBool _) = False"
| "is_ebytes (FheUint4 _) = False"
| "is_ebytes (FheUint8 _) = False"
| "is_ebytes (FheUint16 _) = False"
| "is_ebytes (FheUint32 _) = False"
| "is_ebytes (FheUint64 _) = False"
| "is_ebytes (FheUint128 _) = False"
| "is_ebytes (FheUint160 _) = False"
| "is_ebytes (FheUint256 _) = False"
| "is_ebytes (FheBytes64 _) = True"
| "is_ebytes (FheBytes128 _) = True"
| "is_ebytes (FheBytes256 _) = True"
| "is_ebytes (Scalar _) = False"

text \<open>
  The type of a ciphertext together with its payload, and back: the form the proofs use. A scalar
  has no library type.
\<close>

fun ct_view :: "'c sfc \<Rightarrow> (fhe_ty \<times> 'c) option" where
  "ct_view (FheBool a) = Some (TBool, a)"
| "ct_view (FheUint4 a) = Some (TUint4, a)"
| "ct_view (FheUint8 a) = Some (TUint8, a)"
| "ct_view (FheUint16 a) = Some (TUint16, a)"
| "ct_view (FheUint32 a) = Some (TUint32, a)"
| "ct_view (FheUint64 a) = Some (TUint64, a)"
| "ct_view (FheUint128 a) = Some (TUint128, a)"
| "ct_view (FheUint160 a) = Some (TUint160, a)"
| "ct_view (FheUint256 a) = Some (TUint256, a)"
| "ct_view (FheBytes64 a) = Some (TUint512, a)"
| "ct_view (FheBytes128 a) = Some (TUint1024, a)"
| "ct_view (FheBytes256 a) = Some (TUint2048, a)"
| "ct_view (Scalar _) = None"

fun mk_ct :: "fhe_ty \<Rightarrow> 'c \<Rightarrow> 'c sfc" where
  "mk_ct TBool = FheBool"
| "mk_ct TUint4 = FheUint4"
| "mk_ct TUint8 = FheUint8"
| "mk_ct TUint16 = FheUint16"
| "mk_ct TUint32 = FheUint32"
| "mk_ct TUint64 = FheUint64"
| "mk_ct TUint128 = FheUint128"
| "mk_ct TUint160 = FheUint160"
| "mk_ct TUint256 = FheUint256"
| "mk_ct TUint512 = FheBytes64"
| "mk_ct TUint1024 = FheBytes128"
| "mk_ct TUint2048 = FheBytes256"

fun ty_num :: "fhe_ty \<Rightarrow> i16" where
  "ty_num TBool = 0"
| "ty_num TUint4 = 1"
| "ty_num TUint8 = 2"
| "ty_num TUint16 = 3"
| "ty_num TUint32 = 4"
| "ty_num TUint64 = 5"
| "ty_num TUint128 = 6"
| "ty_num TUint160 = 7"
| "ty_num TUint256 = 8"
| "ty_num TUint512 = 9"
| "ty_num TUint1024 = 10"
| "ty_num TUint2048 = 11"

lemma ct_view_mk_ct [simp]: "ct_view (mk_ct t a) = Some (t, a)"
  by (cases t) simp_all

lemma ct_view_Some: "ct_view x = Some (t, a) \<longleftrightarrow> x = mk_ct t a"
  by (cases x; cases t) auto

lemma ct_view_None: "ct_view x = None \<longleftrightarrow> (\<exists>bs. x = Scalar bs)"
  by (cases x) auto

lemma sfc_cases:
  obtains (ct) t a where "x = mk_ct t a" | (scalar) bs where "x = Scalar bs"
proof (cases "ct_view x")
  case None
  then show ?thesis using scalar by (auto simp: ct_view_None)
next
  case (Some p)
  then show ?thesis using ct by (cases p) (auto simp: ct_view_Some)
qed

lemma mk_ct_inject [simp]: "mk_ct t a = mk_ct u b \<longleftrightarrow> t = u \<and> a = b"
  by (metis ct_view_mk_ct option.inject prod.inject)

lemma mk_ct_not_Scalar [simp]: "mk_ct t a \<noteq> Scalar bs" "Scalar bs \<noteq> mk_ct t a"
  by (cases t; simp)+

lemma type_num_mk_ct [simp]: "type_num (mk_ct t a) = ty_num t"
  by (cases t) simp_all

lemma ty_num_inject [simp]: "ty_num t = ty_num u \<longleftrightarrow> t = u"
  by (cases t; cases u) simp_all

lemma ty_bits_pos [simp]: "0 < ty_bits t"
  by (cases t) simp_all

section \<open>Methods that hand the payload to the library\<close>

text \<open>
  \<open>serialize\<close>: \<open>safe_ser\<close> is the library's \<open>safe_serialization::safe_serialize\<close>, whose failure the
  wrapper \<open>safe_serialize\<close> turns into a panic (\<open>expect\<close>). A scalar panics.
\<close>

definition safe_serialize :: "('o \<Rightarrow> bytes option) \<Rightarrow> 'o \<Rightarrow> ('e, bytes) res" where
  "safe_serialize lib_ser v =
     (case lib_ser v of Some out \<Rightarrow> Ok out | None \<Rightarrow> Panic ExpectFailed)"

definition serialize_ct ::
  "(fhe_ty \<Rightarrow> 'c \<Rightarrow> bytes option) \<Rightarrow> 'c sfc \<Rightarrow> ('e, i16 \<times> bytes) res" where
  "serialize_ct lib_ser ct =
     (let num = type_num ct in
      case ct of
       FheBool v \<Rightarrow> bind_res (safe_serialize (lib_ser TBool) v) (\<lambda>b. Ok (num, b))
     | FheUint4 v \<Rightarrow> bind_res (safe_serialize (lib_ser TUint4) v) (\<lambda>b. Ok (num, b))
     | FheUint8 v \<Rightarrow> bind_res (safe_serialize (lib_ser TUint8) v) (\<lambda>b. Ok (num, b))
     | FheUint16 v \<Rightarrow> bind_res (safe_serialize (lib_ser TUint16) v) (\<lambda>b. Ok (num, b))
     | FheUint32 v \<Rightarrow> bind_res (safe_serialize (lib_ser TUint32) v) (\<lambda>b. Ok (num, b))
     | FheUint64 v \<Rightarrow> bind_res (safe_serialize (lib_ser TUint64) v) (\<lambda>b. Ok (num, b))
     | FheUint128 v \<Rightarrow> bind_res (safe_serialize (lib_ser TUint128) v) (\<lambda>b. Ok (num, b))
     | FheUint160 v \<Rightarrow> bind_res (safe_serialize (lib_ser TUint160) v) (\<lambda>b. Ok (num, b))
     | FheUint256 v \<Rightarrow> bind_res (safe_serialize (lib_ser TUint256) v) (\<lambda>b. Ok (num, b))
     | FheBytes64 v \<Rightarrow> bind_res (safe_serialize (lib_ser TUint512) v) (\<lambda>b. Ok (num, b))
     | FheBytes128 v \<Rightarrow> bind_res (safe_serialize (lib_ser TUint1024) v) (\<lambda>b. Ok (num, b))
     | FheBytes256 v \<Rightarrow> bind_res (safe_serialize (lib_ser TUint2048) v) (\<lambda>b. Ok (num, b))
     | Scalar _ \<Rightarrow> Panic ExplicitPanic)"

text \<open>
  \<open>compress\<close>: the library builds a compressed list of the one ciphertext (a failure of the build
  panics), and the list is serialised.
\<close>

definition compress_ct ::
  "(fhe_ty \<Rightarrow> 'c \<Rightarrow> 'l option) \<Rightarrow> ('l \<Rightarrow> bytes option) \<Rightarrow> 'c sfc \<Rightarrow> ('e, i16 \<times> bytes) res" where
  "compress_ct build lib_ser ct =
     (let num = type_num ct;
          pushed = (case ct of
              FheBool c \<Rightarrow> Ok (build TBool c)
            | FheUint4 c \<Rightarrow> Ok (build TUint4 c)
            | FheUint8 c \<Rightarrow> Ok (build TUint8 c)
            | FheUint16 c \<Rightarrow> Ok (build TUint16 c)
            | FheUint32 c \<Rightarrow> Ok (build TUint32 c)
            | FheUint64 c \<Rightarrow> Ok (build TUint64 c)
            | FheUint128 c \<Rightarrow> Ok (build TUint128 c)
            | FheUint160 c \<Rightarrow> Ok (build TUint160 c)
            | FheUint256 c \<Rightarrow> Ok (build TUint256 c)
            | FheBytes64 c \<Rightarrow> Ok (build TUint512 c)
            | FheBytes128 c \<Rightarrow> Ok (build TUint1024 c)
            | FheBytes256 c \<Rightarrow> Ok (build TUint2048 c)
            | Scalar _ \<Rightarrow> Panic ExplicitPanic)
      in bind_res pushed (\<lambda>built.
           case built of
             None \<Rightarrow> Panic ExpectFailed
           | Some l \<Rightarrow> bind_res (safe_serialize lib_ser l) (\<lambda>b. Ok (num, b))))"

text \<open>
  \<open>decompress_impl\<close>: \<open>list.get(0)?.ok_or(..)?\<close> for the type the number selects. \<open>get0 l t\<close> is the
  library's \<open>get(0)\<close> at type \<open>t\<close>: an error of the library, no element, or the ciphertext.
\<close>

definition get_or_missing :: "lib_error + 'c option \<Rightarrow> ('c \<Rightarrow> 'r) \<Rightarrow> (fhevm_error, 'r) res" where
  "get_or_missing r k =
     (case r of
        Inl e \<Rightarrow> Err (DeserializationError e)
      | Inr None \<Rightarrow> Err MissingTfheRsData
      | Inr (Some c) \<Rightarrow> Ok (k c))"

definition decompress_impl ::
  "('l \<Rightarrow> fhe_ty \<Rightarrow> lib_error + 'c option) \<Rightarrow> i16 \<Rightarrow> 'l \<Rightarrow> (fhevm_error, 'c sfc) res" where
  "decompress_impl get0 ct_type l =
     (if ct_type = 0 then get_or_missing (get0 l TBool) FheBool
      else if ct_type = 1 then get_or_missing (get0 l TUint4) FheUint4
      else if ct_type = 2 then get_or_missing (get0 l TUint8) FheUint8
      else if ct_type = 3 then get_or_missing (get0 l TUint16) FheUint16
      else if ct_type = 4 then get_or_missing (get0 l TUint32) FheUint32
      else if ct_type = 5 then get_or_missing (get0 l TUint64) FheUint64
      else if ct_type = 6 then get_or_missing (get0 l TUint128) FheUint128
      else if ct_type = 7 then get_or_missing (get0 l TUint160) FheUint160
      else if ct_type = 8 then get_or_missing (get0 l TUint256) FheUint256
      else if ct_type = 9 then get_or_missing (get0 l TUint512) FheBytes64
      else if ct_type = 10 then get_or_missing (get0 l TUint1024) FheBytes128
      else if ct_type = 11 then get_or_missing (get0 l TUint2048) FheBytes256
      else Err (UnknownFheType (i16_as_i32 ct_type)))"

text \<open>\<open>decompress\<close> and \<open>decompress_no_memcheck\<close>: deserialise the list, then take its element.\<close>

definition decompress_ct ::
  "(bytes \<Rightarrow> lib_error + 'l) \<Rightarrow> ('l \<Rightarrow> fhe_ty \<Rightarrow> lib_error + 'c option) \<Rightarrow> i16 \<Rightarrow> bytes
     \<Rightarrow> (fhevm_error, 'c sfc) res" where
  "decompress_ct lib_deser get0 ct_type bs =
     (case lib_deser bs of
        Inl e \<Rightarrow> Err (DeserializationError e)
      | Inr l \<Rightarrow> decompress_impl get0 ct_type l)"

text \<open>
  \<open>add_to_re_randomization_context\<close> and its namesake \<open>add_to_rerandomisation_context\<close>: the library's
  context takes the ciphertext; a scalar is left out.
\<close>

definition add_to_re_randomization_context ::
  "('x \<Rightarrow> fhe_ty \<Rightarrow> 'c \<Rightarrow> 'x) \<Rightarrow> 'c sfc \<Rightarrow> 'x \<Rightarrow> 'x" where
  "add_to_re_randomization_context add_ciphertext ct context =
     (case ct of
       FheBool c \<Rightarrow> add_ciphertext context TBool c
     | FheUint4 c \<Rightarrow> add_ciphertext context TUint4 c
     | FheUint8 c \<Rightarrow> add_ciphertext context TUint8 c
     | FheUint16 c \<Rightarrow> add_ciphertext context TUint16 c
     | FheUint32 c \<Rightarrow> add_ciphertext context TUint32 c
     | FheUint64 c \<Rightarrow> add_ciphertext context TUint64 c
     | FheUint128 c \<Rightarrow> add_ciphertext context TUint128 c
     | FheUint160 c \<Rightarrow> add_ciphertext context TUint160 c
     | FheUint256 c \<Rightarrow> add_ciphertext context TUint256 c
     | FheBytes64 c \<Rightarrow> add_ciphertext context TUint512 c
     | FheBytes128 c \<Rightarrow> add_ciphertext context TUint1024 c
     | FheBytes256 c \<Rightarrow> add_ciphertext context TUint2048 c
     | Scalar _ \<Rightarrow> context)"

definition add_to_rerandomisation_context ::
  "('x \<Rightarrow> fhe_ty \<Rightarrow> 'c \<Rightarrow> 'x) \<Rightarrow> 'c sfc \<Rightarrow> 'x \<Rightarrow> 'x" where
  "add_to_rerandomisation_context add_ciphertext ct context =
     (case ct of
       FheBool c \<Rightarrow> add_ciphertext context TBool c
     | FheUint4 c \<Rightarrow> add_ciphertext context TUint4 c
     | FheUint8 c \<Rightarrow> add_ciphertext context TUint8 c
     | FheUint16 c \<Rightarrow> add_ciphertext context TUint16 c
     | FheUint32 c \<Rightarrow> add_ciphertext context TUint32 c
     | FheUint64 c \<Rightarrow> add_ciphertext context TUint64 c
     | FheUint128 c \<Rightarrow> add_ciphertext context TUint128 c
     | FheUint160 c \<Rightarrow> add_ciphertext context TUint160 c
     | FheUint256 c \<Rightarrow> add_ciphertext context TUint256 c
     | FheBytes64 c \<Rightarrow> add_ciphertext context TUint512 c
     | FheBytes128 c \<Rightarrow> add_ciphertext context TUint1024 c
     | FheBytes256 c \<Rightarrow> add_ciphertext context TUint2048 c
     | Scalar _ \<Rightarrow> context)"

definition add_re_randomization_metadata ::
  "(fhe_ty \<Rightarrow> 'c \<Rightarrow> bytes \<Rightarrow> 'c) \<Rightarrow> 'c sfc \<Rightarrow> bytes \<Rightarrow> 'c sfc" where
  "add_re_randomization_metadata set_data ct hash_data =
     (case ct of
       FheBool c \<Rightarrow> FheBool (set_data TBool c hash_data)
     | FheUint4 c \<Rightarrow> FheUint4 (set_data TUint4 c hash_data)
     | FheUint8 c \<Rightarrow> FheUint8 (set_data TUint8 c hash_data)
     | FheUint16 c \<Rightarrow> FheUint16 (set_data TUint16 c hash_data)
     | FheUint32 c \<Rightarrow> FheUint32 (set_data TUint32 c hash_data)
     | FheUint64 c \<Rightarrow> FheUint64 (set_data TUint64 c hash_data)
     | FheUint128 c \<Rightarrow> FheUint128 (set_data TUint128 c hash_data)
     | FheUint160 c \<Rightarrow> FheUint160 (set_data TUint160 c hash_data)
     | FheUint256 c \<Rightarrow> FheUint256 (set_data TUint256 c hash_data)
     | FheBytes64 c \<Rightarrow> FheBytes64 (set_data TUint512 c hash_data)
     | FheBytes128 c \<Rightarrow> FheBytes128 (set_data TUint1024 c hash_data)
     | FheBytes256 c \<Rightarrow> FheBytes256 (set_data TUint2048 c hash_data)
     | Scalar bs \<Rightarrow> Scalar bs)"

text \<open>\<open>re_randomise\<close>: the library replaces the ciphertext in place or reports an error.\<close>

definition rerandomised :: "lib_error + 'c \<Rightarrow> ('c \<Rightarrow> 'c sfc) \<Rightarrow> (fhevm_error, 'c sfc) res" where
  "rerandomised r k = (case r of Inl e \<Rightarrow> Err (ReRandomisationError e) | Inr c \<Rightarrow> Ok (k c))"

definition re_randomise ::
  "(fhe_ty \<Rightarrow> 'c \<Rightarrow> 'pk \<Rightarrow> 'seed \<Rightarrow> lib_error + 'c) \<Rightarrow> 'c sfc \<Rightarrow> 'pk \<Rightarrow> 'seed
     \<Rightarrow> (fhevm_error, 'c sfc) res" where
  "re_randomise re_randomize ct cpk seed =
     (case ct of
       FheBool c \<Rightarrow> rerandomised (re_randomize TBool c cpk seed) FheBool
     | FheUint4 c \<Rightarrow> rerandomised (re_randomize TUint4 c cpk seed) FheUint4
     | FheUint8 c \<Rightarrow> rerandomised (re_randomize TUint8 c cpk seed) FheUint8
     | FheUint16 c \<Rightarrow> rerandomised (re_randomize TUint16 c cpk seed) FheUint16
     | FheUint32 c \<Rightarrow> rerandomised (re_randomize TUint32 c cpk seed) FheUint32
     | FheUint64 c \<Rightarrow> rerandomised (re_randomize TUint64 c cpk seed) FheUint64
     | FheUint128 c \<Rightarrow> rerandomised (re_randomize TUint128 c cpk seed) FheUint128
     | FheUint160 c \<Rightarrow> rerandomised (re_randomize TUint160 c cpk seed) FheUint160
     | FheUint256 c \<Rightarrow> rerandomised (re_randomize TUint256 c cpk seed) FheUint256
     | FheBytes64 c \<Rightarrow> rerandomised (re_randomize TUint512 c cpk seed) FheBytes64
     | FheBytes128 c \<Rightarrow> rerandomised (re_randomize TUint1024 c cpk seed) FheBytes128
     | FheBytes256 c \<Rightarrow> rerandomised (re_randomize TUint2048 c cpk seed) FheBytes256
     | Scalar bs \<Rightarrow> Ok (Scalar bs))"

end
