(* ===== verification/ScalarBytes.thy ===== *)
theory ScalarBytes
  imports FheTypes
begin

text \<open>
  The clear operands: the functions of \<open>fhevm-engine-common/src/tfhe_ops.rs\<close> that turn the
  big-endian bytes of a scalar into the clear number the library is called with
  (\<open>to_constant_size_array\<close>, \<open>to_be_u4_bit\<close> to \<open>to_be_u2048_bit\<close>, \<open>arr_non_zero\<close>), and
  \<open>be_number_random_bits\<close>, the number of random bits of a bounded random value. The locale
  \<open>scalar_reader\<close> is the contract the operations rely on: a reader returns the number the bytes
  stand for, reduced to its width.
\<close>

unbundle bit_operations_syntax

section \<open>Arrays of constant size\<close>

definition to_constant_size_array :: "nat \<Rightarrow> bytes \<Rightarrow> bytes" where
  "to_constant_size_array SIZE inp =
     (if length inp < SIZE then replicate (SIZE - length inp) 0 @ inp
      else if length inp = SIZE then inp
      else drop (length inp - SIZE) inp)"

lemma length_to_constant_size_array [simp]:
  "length (to_constant_size_array n inp) = n"
  by (simp add: to_constant_size_array_def)

lemma be_val_to_constant_size_array [be_simps]:
  "be_val (to_constant_size_array n inp) = be_val inp mod 256 ^ n"
proof -
  consider "length inp < n" | "length inp = n" | "n < length inp" by linarith
  then show ?thesis
  proof cases
    case 1
    have "be_val inp < 256 ^ n"
      using be_val_bound [of inp] 1
      by (meson le_less_trans less_imp_le order_less_le_trans power_increasing one_le_numeral)
    with 1 show ?thesis by (simp add: to_constant_size_array_def be_val_append)
  next
    case 2
    then show ?thesis using be_val_bound [of inp] by (simp add: to_constant_size_array_def)
  next
    case 3
    then show ?thesis by (simp add: to_constant_size_array_def be_val_drop)
  qed
qed

section \<open>Readers\<close>

definition last_or_zero :: "bytes \<Rightarrow> u8" where
  "last_or_zero inp = (if inp = [] then 0 else last inp)"

definition to_be_u4_bit :: "bytes \<Rightarrow> u8" where
  "to_be_u4_bit inp = last_or_zero inp AND 15"

definition to_be_u8_bit :: "bytes \<Rightarrow> u8" where
  "to_be_u8_bit inp = last_or_zero inp"

definition to_be_u16_bit :: "bytes \<Rightarrow> u16" where
  "to_be_u16_bit inp = from_be_bytes (to_constant_size_array 2 inp)"

definition to_be_u32_bit :: "bytes \<Rightarrow> u32" where
  "to_be_u32_bit inp = from_be_bytes (to_constant_size_array 4 inp)"

definition to_be_u64_bit :: "bytes \<Rightarrow> u64" where
  "to_be_u64_bit inp = from_be_bytes (to_constant_size_array 8 inp)"

definition to_be_u128_bit :: "bytes \<Rightarrow> u128" where
  "to_be_u128_bit inp = from_be_bytes (to_constant_size_array 16 inp)"

text \<open>
  The wider numbers are the library's \<open>U256\<close> and \<open>StaticUnsignedBigInt<N>\<close> (N words of 64 bits),
  filled by \<open>copy_from_be_byte_slice\<close> from an array of exactly their size: words of 256, 512, 1024
  and 2048 bits here.
\<close>

definition to_be_u160_bit :: "bytes \<Rightarrow> 256 word" where
  "to_be_u160_bit inp =
     (let arr = to_constant_size_array (160 div 8) inp;
          final_arr = to_constant_size_array (256 div 8) arr
      in from_be_bytes final_arr)"

definition to_be_u256_bit :: "bytes \<Rightarrow> 256 word" where
  "to_be_u256_bit inp = from_be_bytes (to_constant_size_array (256 div 8) inp)"

definition to_be_u512_bit :: "bytes \<Rightarrow> 512 word" where
  "to_be_u512_bit inp = from_be_bytes (to_constant_size_array 64 inp)"

definition to_be_u1024_bit :: "bytes \<Rightarrow> 1024 word" where
  "to_be_u1024_bit inp = from_be_bytes (to_constant_size_array 128 inp)"

definition to_be_u2048_bit :: "bytes \<Rightarrow> 2048 word" where
  "to_be_u2048_bit inp = from_be_bytes (to_constant_size_array 256 inp)"

fun arr_non_zero :: "bytes \<Rightarrow> bool" where
  "arr_non_zero [] = False"
| "arr_non_zero (b # bs) = (if 0 < b then True else arr_non_zero bs)"

lemma arr_non_zero_iff: "arr_non_zero bs \<longleftrightarrow> be_val bs \<noteq> 0"
  by (induction bs) (auto simp: be_val_Cons unat_eq_zero word_neq_0_conv)

section \<open>The contract of a reader\<close>

locale scalar_reader =
  fixes rd :: "bytes \<Rightarrow> 'a::len word" and w :: nat
  assumes unat_rd: "unat (rd bs) = be_val bs mod 2 ^ w"
begin

lemma rd_bound: "unat (rd bs) < 2 ^ w"
  by (simp add: unat_rd)

lemma rd_exact: "be_val bs < 2 ^ w \<Longrightarrow> unat (rd bs) = be_val bs"
  by (simp add: unat_rd)

text \<open>Leading zeros make no difference, so a scalar may be padded to any size.\<close>

lemma rd_pad: "rd (replicate n 0 @ bs) = rd bs"
  by (rule word_unat_eq_iff [THEN iffD2]) (simp add: unat_rd be_val_append)

lemma rd_cong: "be_val xs = be_val ys \<Longrightarrow> rd xs = rd ys"
  by (rule word_unat_eq_iff [THEN iffD2]) (simp add: unat_rd)

text \<open>A scalar reads as zero exactly when the width divides it: not only when it is zero.\<close>

lemma rd_zero_iff: "rd bs = 0 \<longleftrightarrow> 2 ^ w dvd be_val bs"
  by (simp add: unat_eq_zero [symmetric] unat_rd mod_eq_0_iff_dvd)

lemma rd_zero: "be_val bs = 0 \<Longrightarrow> rd bs = 0"
  by (simp add: rd_zero_iff)

end

lemma unat_last_or_zero: "unat (last_or_zero bs) = be_val bs mod 256"
proof (cases bs rule: rev_cases)
  case Nil
  then show ?thesis by (simp add: last_or_zero_def)
next
  case (snoc xs b)
  then show ?thesis by (simp add: last_or_zero_def be_val_append)
qed

lemma and_mask_15: "(n :: nat) AND 15 = n mod 16"
  using take_bit_eq_mask [of 4 n] by (simp add: take_bit_eq_mod mask_eq_exp_minus_1)

lemma unat_from_be_array:
  "unat (from_be_bytes (to_constant_size_array n bs) :: 'a::len word)
     = be_val bs mod 256 ^ n mod 2 ^ LENGTH('a)"
  by (simp add: unat_from_be_bytes be_val_to_constant_size_array)

interpretation rd4: scalar_reader to_be_u4_bit 4
proof unfold_locales
  fix bs
  have "unat (to_be_u4_bit bs) = unat (last_or_zero bs) mod 16"
    using unsigned_take_bit_eq [of 4 "last_or_zero bs", where ?'a = nat]
    by (simp add: to_be_u4_bit_def take_bit_eq_mask mask_eq_exp_minus_1)
      (simp add: and_mask_15)
  then show "unat (to_be_u4_bit bs) = be_val bs mod 2 ^ 4"
    by (simp add: unat_last_or_zero mod_mod_cancel)
qed

interpretation rd8: scalar_reader to_be_u8_bit 8
  by unfold_locales (simp add: to_be_u8_bit_def unat_last_or_zero)

interpretation rd16: scalar_reader to_be_u16_bit 16
  by unfold_locales (simp add: to_be_u16_bit_def unat_from_be_array)

interpretation rd32: scalar_reader to_be_u32_bit 32
  by unfold_locales (simp add: to_be_u32_bit_def unat_from_be_array)

interpretation rd64: scalar_reader to_be_u64_bit 64
  by unfold_locales (simp add: to_be_u64_bit_def unat_from_be_array)

interpretation rd128: scalar_reader to_be_u128_bit 128
  by unfold_locales (simp add: to_be_u128_bit_def unat_from_be_array)

interpretation rd160: scalar_reader to_be_u160_bit 160
  by unfold_locales
    (simp add: to_be_u160_bit_def unat_from_be_array be_val_to_constant_size_array)

interpretation rd256: scalar_reader to_be_u256_bit 256
  by unfold_locales (simp add: to_be_u256_bit_def unat_from_be_array)

interpretation rd512: scalar_reader to_be_u512_bit 512
  by unfold_locales (simp add: to_be_u512_bit_def unat_from_be_array)

interpretation rd1024: scalar_reader to_be_u1024_bit 1024
  by unfold_locales (simp add: to_be_u1024_bit_def unat_from_be_array)

interpretation rd2048: scalar_reader to_be_u2048_bit 2048
  by unfold_locales (simp add: to_be_u2048_bit_def unat_from_be_array)

section \<open>The bits of a bounded random value\<close>

text \<open>\<open>u8::leading_zeros\<close>: how many of the bits 7, 6, ..., 0 are clear before the first set one.\<close>

definition leading_zeros :: "u8 \<Rightarrow> nat" where
  "leading_zeros i = length (takeWhile (\<lambda>k. \<not> bit i k) [7, 6, 5, 4, 3, 2, 1, 0])"

text \<open>
  The loop runs over the bytes from the least significant one. The source counts in \<open>u32\<close>; an
  upper bound of fewer than \<open>2 ^ 29\<close> bytes, as every handle and scalar is, cannot overflow it.
\<close>

fun random_bits_loop :: "nat \<Rightarrow> bytes \<Rightarrow> nat" where
  "random_bits_loop res [] = res"
| "random_bits_loop res (i # is) =
     (if i = 0 then random_bits_loop (res + 8) is else res + (7 - leading_zeros i))"

definition be_number_random_bits :: "bytes \<Rightarrow> nat" where
  "be_number_random_bits inp = random_bits_loop 0 (rev inp)"

lemma leading_zeros_table:
  "\<forall>n \<in> {1..<256}. 2 ^ (7 - leading_zeros (of_nat n)) \<le> n \<and> n < 2 ^ (8 - leading_zeros (of_nat n))"
  by code_simp

lemma leading_zeros_bounds:
  assumes "i \<noteq> 0"
  shows "2 ^ (7 - leading_zeros i) \<le> unat i" and "unat i < 2 ^ (8 - leading_zeros i)"
proof -
  have "unat i \<in> {1..<256}"
    using assms by (simp add: unat_gt_0 Suc_leI)
  with leading_zeros_table
  have "2 ^ (7 - leading_zeros (of_nat (unat i))) \<le> unat i
      \<and> unat i < 2 ^ (8 - leading_zeros (of_nat (unat i)))" by blast
  then show "2 ^ (7 - leading_zeros i) \<le> unat i" and "unat i < 2 ^ (8 - leading_zeros i)"
    by simp_all
qed

lemma random_bits_loop_bound:
  "be_val (rev xs) \<noteq> 0 \<Longrightarrow> 2 ^ random_bits_loop res xs \<le> be_val (rev xs) * 2 ^ res"
proof (induction res xs rule: random_bits_loop.induct)
  case (1 res)
  then show ?case by simp
next
  case (2 res i "is")
  show ?case
  proof (cases "i = 0")
    case True
    with 2 show ?thesis by (simp add: be_val_append power_add algebra_simps)
  next
    case False
    have "2 ^ (7 - leading_zeros i) * 2 ^ res \<le> unat i * 2 ^ res"
      by (intro mult_le_mono1 leading_zeros_bounds False)
    also have "\<dots> \<le> be_val (rev (i # is)) * 2 ^ res"
      by (intro mult_le_mono1) (simp add: be_val_append)
    finally show ?thesis using False by (simp add: power_add mult.commute)
  qed
qed

lemma random_bits_loop_zero:
  "be_val (rev xs) = 0 \<Longrightarrow> random_bits_loop res xs = res + 8 * length xs"
  by (induction res xs rule: random_bits_loop.induct)
    (auto simp: be_val_append unat_eq_zero)

lemma leading_zeros_unique:
  assumes "i \<noteq> 0" and "2 ^ k = unat i"
  shows "7 - leading_zeros i = k"
proof -
  have "2 ^ (7 - leading_zeros i) \<le> (2::nat) ^ k" and "(2::nat) ^ k < 2 ^ (8 - leading_zeros i)"
    using leading_zeros_bounds [OF assms(1)] assms(2) by simp_all
  then have "7 - leading_zeros i \<le> k" and "k < 8 - leading_zeros i"
    by (simp_all only: power_increasing_iff power_strict_increasing_iff one_less_numeral_iff
        semiring_norm)
  then show ?thesis by linarith
qed

lemma random_bits_loop_power:
  "be_val (rev xs) = 2 ^ k \<Longrightarrow> random_bits_loop res xs = res + k"
proof (induction res xs arbitrary: k rule: random_bits_loop.induct)
  case (1 res)
  then show ?case by simp
next
  case (2 res i "is")
  have eq: "be_val (rev is) * 256 + unat i = 2 ^ k"
    using "2.prems" by (simp add: be_val_append)
  show ?case
  proof (cases "8 \<le> k")
    case True
    then obtain j where k: "k = 8 + j" using le_Suc_ex by blast
    have "unat i mod 256 = (be_val (rev is) * 256 + unat i) mod 256" by simp
    also have "\<dots> = 0" unfolding eq k by (simp add: power_add)
    finally have "i = 0" by (simp add: unat_eq_zero)
    with eq k have "be_val (rev is) = 2 ^ j" by (simp add: power_add)
    with \<open>i = 0\<close> "2.IH" k show ?thesis by simp
  next
    case False
    then have "(2::nat) ^ k < 2 ^ 8" by (intro power_strict_increasing) simp_all
    with eq have "be_val (rev is) = 0" by simp
    with eq have u: "2 ^ k = unat i" by simp
    then have "i \<noteq> 0" by auto
    with u show ?thesis by (simp add: leading_zeros_unique)
  qed
qed

lemma be_number_random_bits_power:
  "be_val inp = 2 ^ k \<Longrightarrow> be_number_random_bits inp = k"
  using random_bits_loop_power [of "rev inp" k 0] by (simp add: be_number_random_bits_def)

lemma be_number_random_bits_bound:
  "be_val inp \<noteq> 0 \<Longrightarrow> 2 ^ be_number_random_bits inp \<le> be_val inp"
  using random_bits_loop_bound [of "rev inp" 0] by (simp add: be_number_random_bits_def)

lemma be_number_random_bits_zero:
  "be_val inp = 0 \<Longrightarrow> be_number_random_bits inp = 8 * length inp"
  using random_bits_loop_zero [of "rev inp" 0] by (simp add: be_number_random_bits_def)

end
