(* ===== verification/TfheLibrary.thy ===== *)
theory TfheLibrary
  imports ScalarBytes
begin

text \<open>
  The homomorphic library (the crate \<open>tfhe\<close>) as the engine sees it. Its code is not in this
  repository, so its functions are the fields of a record the definitions take as an argument.
  \<open>tfhe_laws\<close> states what the library documents of them, through a decryption function: each
  operator on ciphertexts computes the operator of the same name on the clear values, at the
  width of the type. The properties that need it name it as a hypothesis.
\<close>

section \<open>The library's functions\<close>

datatype lib_binop =
    OpAdd | OpSub | OpMul | OpDiv | OpRem | OpAnd | OpOr | OpXor
  | OpShl | OpShr | OpRotl | OpRotr | OpMin | OpMax

datatype lib_cmpop = CmpEq | CmpNe | CmpGe | CmpGt | CmpLe | CmpLt

text \<open>
  A binary operator takes two ciphertexts of a type, or a ciphertext and a clear number, in which
  case the call may panic (\<open>None\<close>). Trivial encryption may fail (\<open>None\<close>).
\<close>

record 'c tfhe =
  lib_bin :: "lib_binop \<Rightarrow> fhe_ty \<Rightarrow> 'c \<Rightarrow> 'c \<Rightarrow> 'c"
  lib_bin_scalar :: "lib_binop \<Rightarrow> fhe_ty \<Rightarrow> 'c \<Rightarrow> nat \<Rightarrow> 'c option"
  lib_cmp :: "lib_cmpop \<Rightarrow> fhe_ty \<Rightarrow> 'c \<Rightarrow> 'c \<Rightarrow> 'c"
  lib_cmp_scalar :: "lib_cmpop \<Rightarrow> fhe_ty \<Rightarrow> 'c \<Rightarrow> nat \<Rightarrow> 'c"
  lib_not :: "fhe_ty \<Rightarrow> 'c \<Rightarrow> 'c"
  lib_neg :: "fhe_ty \<Rightarrow> 'c \<Rightarrow> 'c"
  lib_select :: "fhe_ty \<Rightarrow> 'c \<Rightarrow> 'c \<Rightarrow> 'c \<Rightarrow> 'c"
  lib_cast :: "fhe_ty \<Rightarrow> fhe_ty \<Rightarrow> 'c \<Rightarrow> 'c"
  lib_trivial :: "fhe_ty \<Rightarrow> nat \<Rightarrow> 'c option"
  lib_rand :: "fhe_ty \<Rightarrow> u128 \<Rightarrow> 'c"
  lib_rand_bounded :: "fhe_ty \<Rightarrow> u128 \<Rightarrow> nat \<Rightarrow> 'c"

section \<open>Clear arithmetic\<close>

text \<open>
  The operators on numbers below \<open>2 ^ w\<close>. Arithmetic wraps; the quotient by zero is the largest
  number and the remainder by zero the dividend. A shift or rotation by fewer than \<open>w\<close> bits is the
  usual one; what an amount of \<open>w\<close> or more gives is left open: \<open>sh\<close> is any function.
\<close>

type_synonym shift_sem = "lib_binop \<Rightarrow> nat \<Rightarrow> nat \<Rightarrow> nat \<Rightarrow> nat"

fun clear_bin :: "shift_sem \<Rightarrow> lib_binop \<Rightarrow> nat \<Rightarrow> nat \<Rightarrow> nat \<Rightarrow> nat" where
  "clear_bin sh OpAdd w a b = (a + b) mod 2 ^ w"
| "clear_bin sh OpSub w a b = (a + (2 ^ w - b)) mod 2 ^ w"
| "clear_bin sh OpMul w a b = (a * b) mod 2 ^ w"
| "clear_bin sh OpDiv w a b = (if b = 0 then 2 ^ w - 1 else a div b)"
| "clear_bin sh OpRem w a b = (if b = 0 then a else a mod b)"
| "clear_bin sh OpAnd w a b = a AND b"
| "clear_bin sh OpOr w a b = a OR b"
| "clear_bin sh OpXor w a b = a XOR b"
| "clear_bin sh OpMin w a b = min a b"
| "clear_bin sh OpMax w a b = max a b"
| "clear_bin sh OpShl w a b = (if b < w then a * 2 ^ b else sh OpShl w a b) mod 2 ^ w"
| "clear_bin sh OpShr w a b = (if b < w then a div 2 ^ b else sh OpShr w a b) mod 2 ^ w"
| "clear_bin sh OpRotl w a b =
     (if b < w then a * 2 ^ b + a div 2 ^ (w - b) else sh OpRotl w a b) mod 2 ^ w"
| "clear_bin sh OpRotr w a b =
     (if b < w then a div 2 ^ b + a * 2 ^ (w - b) else sh OpRotr w a b) mod 2 ^ w"

fun clear_cmp :: "lib_cmpop \<Rightarrow> nat \<Rightarrow> nat \<Rightarrow> bool" where
  "clear_cmp CmpEq a b \<longleftrightarrow> a = b"
| "clear_cmp CmpNe a b \<longleftrightarrow> a \<noteq> b"
| "clear_cmp CmpGe a b \<longleftrightarrow> a \<ge> b"
| "clear_cmp CmpGt a b \<longleftrightarrow> a > b"
| "clear_cmp CmpLe a b \<longleftrightarrow> a \<le> b"
| "clear_cmp CmpLt a b \<longleftrightarrow> a < b"

section \<open>What the library documents\<close>

text \<open>The clear operators the library refuses a clear zero for: a scalar division panics on it.\<close>

definition scalar_refused :: "lib_binop \<Rightarrow> nat \<Rightarrow> bool" where
  "scalar_refused f n \<longleftrightarrow> f \<in> {OpDiv, OpRem} \<and> n = 0"

definition bin_laws :: "'c tfhe \<Rightarrow> ('c \<Rightarrow> nat) \<Rightarrow> shift_sem \<Rightarrow> bool" where
  "bin_laws B dec sh \<longleftrightarrow>
     (\<forall>f t a b. dec a < 2 ^ ty_bits t \<longrightarrow> dec b < 2 ^ ty_bits t \<longrightarrow>
        dec (lib_bin B f t a b) = clear_bin sh f (ty_bits t) (dec a) (dec b))
   \<and> (\<forall>f t a n. dec a < 2 ^ ty_bits t \<longrightarrow> n < 2 ^ ty_bits t \<longrightarrow> \<not> scalar_refused f n \<longrightarrow>
        (\<exists>c. lib_bin_scalar B f t a n = Some c
           \<and> dec c = clear_bin sh f (ty_bits t) (dec a) n))
   \<and> (\<forall>f t a n. scalar_refused f n \<longrightarrow> lib_bin_scalar B f t a n = None)"

definition cmp_laws :: "'c tfhe \<Rightarrow> ('c \<Rightarrow> nat) \<Rightarrow> bool" where
  "cmp_laws B dec \<longleftrightarrow>
     (\<forall>f t a b. dec a < 2 ^ ty_bits t \<longrightarrow> dec b < 2 ^ ty_bits t \<longrightarrow>
        dec (lib_cmp B f t a b) = of_bool (clear_cmp f (dec a) (dec b)))
   \<and> (\<forall>f t a n. dec a < 2 ^ ty_bits t \<longrightarrow> n < 2 ^ ty_bits t \<longrightarrow>
        dec (lib_cmp_scalar B f t a n) = of_bool (clear_cmp f (dec a) n))"

definition unary_laws :: "'c tfhe \<Rightarrow> ('c \<Rightarrow> nat) \<Rightarrow> bool" where
  "unary_laws B dec \<longleftrightarrow>
     (\<forall>t a. dec a < 2 ^ ty_bits t \<longrightarrow> dec (lib_not B t a) = 2 ^ ty_bits t - 1 - dec a)
   \<and> (\<forall>t a. dec a < 2 ^ ty_bits t \<longrightarrow>
        dec (lib_neg B t a) = (2 ^ ty_bits t - dec a) mod 2 ^ ty_bits t)
   \<and> (\<forall>t c a b. dec (lib_select B t c a b) = (if dec c \<noteq> 0 then dec a else dec b))
   \<and> (\<forall>t u a. dec a < 2 ^ ty_bits t \<longrightarrow> dec (lib_cast B t u a) = dec a mod 2 ^ ty_bits u)"

definition create_laws :: "'c tfhe \<Rightarrow> ('c \<Rightarrow> nat) \<Rightarrow> bool" where
  "create_laws B dec \<longleftrightarrow>
     (\<forall>t n. \<exists>c. lib_trivial B t n = Some c \<and> dec c = n mod 2 ^ ty_bits t)
   \<and> (\<forall>t s. dec (lib_rand B t s) < 2 ^ ty_bits t)
   \<and> (\<forall>t s k. k \<le> ty_bits t \<longrightarrow> dec (lib_rand_bounded B t s k) < 2 ^ k)"

definition tfhe_laws :: "'c tfhe \<Rightarrow> ('c \<Rightarrow> nat) \<Rightarrow> shift_sem \<Rightarrow> bool" where
  "tfhe_laws B dec sh \<longleftrightarrow> bin_laws B dec sh \<and> cmp_laws B dec \<and> unary_laws B dec \<and> create_laws B dec"

text \<open>
  A library that satisfies the laws: its ciphertexts are the numbers themselves. The witnesses
  run the operations on it.
\<close>

definition no_shift :: shift_sem where
  "no_shift f w a b = a"

definition clear_lib :: "nat tfhe" where
  "clear_lib =
     \<lparr> lib_bin = (\<lambda>f t a b. clear_bin no_shift f (ty_bits t) a b),
       lib_bin_scalar = (\<lambda>f t a n.
          if scalar_refused f n then None else Some (clear_bin no_shift f (ty_bits t) a n)),
       lib_cmp = (\<lambda>f t a b. of_bool (clear_cmp f a b)),
       lib_cmp_scalar = (\<lambda>f t a n. of_bool (clear_cmp f a n)),
       lib_not = (\<lambda>t a. 2 ^ ty_bits t - 1 - a),
       lib_neg = (\<lambda>t a. (2 ^ ty_bits t - a) mod 2 ^ ty_bits t),
       lib_select = (\<lambda>t c a b. if c \<noteq> 0 then a else b),
       lib_cast = (\<lambda>t u a. a mod 2 ^ ty_bits u),
       lib_trivial = (\<lambda>t n. Some (n mod 2 ^ ty_bits t)),
       lib_rand = (\<lambda>t s. 0),
       lib_rand_bounded = (\<lambda>t s k. 0) \<rparr>"

definition clear_dec :: "nat \<Rightarrow> nat" where
  "clear_dec n = n"

lemma clear_lib_laws: "tfhe_laws clear_lib clear_dec no_shift"
  by (simp add: tfhe_laws_def bin_laws_def cmp_laws_def unary_laws_def create_laws_def
      clear_lib_def clear_dec_def)

section \<open>Operands and their clear values\<close>

text \<open>A ciphertext operand decrypts to a number of its type; a scalar operand is any byte string.\<close>

definition ct_ok :: "('c \<Rightarrow> nat) \<Rightarrow> 'c sfc \<Rightarrow> bool" where
  "ct_ok dec x \<longleftrightarrow> (case ct_view x of None \<Rightarrow> True | Some (t, a) \<Rightarrow> dec a < 2 ^ ty_bits t)"

definition dec_ct :: "('c \<Rightarrow> nat) \<Rightarrow> 'c sfc \<Rightarrow> nat" where
  "dec_ct dec x =
     (case ct_view x of None \<Rightarrow> (case x of Scalar bs \<Rightarrow> be_val bs | _ \<Rightarrow> 0) | Some (t, a) \<Rightarrow> dec a)"

lemma ct_ok_simps [simp]:
  "ct_ok dec (mk_ct t a) \<longleftrightarrow> dec a < 2 ^ ty_bits t"
  "ct_ok dec (Scalar bs)"
  by (simp_all add: ct_ok_def)

lemma dec_ct_simps [simp]:
  "dec_ct dec (mk_ct t a) = dec a"
  "dec_ct dec (Scalar bs) = be_val bs"
  by (simp_all add: dec_ct_def)

text \<open>The classes of types the operations support.\<close>

definition uint_ty :: "fhe_ty \<Rightarrow> bool" where
  "uint_ty t \<longleftrightarrow>
     t \<in> {TUint4, TUint8, TUint16, TUint32, TUint64, TUint128, TUint160, TUint256}"

definition ebytes_ty :: "fhe_ty \<Rightarrow> bool" where
  "ebytes_ty t \<longleftrightarrow> t \<in> {TUint512, TUint1024, TUint2048}"

text \<open>The clear number an operation at a type makes of a scalar operand.\<close>

fun scalar_of :: "fhe_ty \<Rightarrow> bytes \<Rightarrow> nat" where
  "scalar_of TBool bs = of_bool (arr_non_zero bs)"
| "scalar_of TUint4 bs = unat (to_be_u4_bit bs)"
| "scalar_of TUint8 bs = unat (to_be_u8_bit bs)"
| "scalar_of TUint16 bs = unat (to_be_u16_bit bs)"
| "scalar_of TUint32 bs = unat (to_be_u32_bit bs)"
| "scalar_of TUint64 bs = unat (to_be_u64_bit bs)"
| "scalar_of TUint128 bs = unat (to_be_u128_bit bs)"
| "scalar_of TUint160 bs = unat (to_be_u160_bit bs)"
| "scalar_of TUint256 bs = unat (to_be_u256_bit bs)"
| "scalar_of TUint512 bs = unat (to_be_u512_bit bs)"
| "scalar_of TUint1024 bs = unat (to_be_u1024_bit bs)"
| "scalar_of TUint2048 bs = unat (to_be_u2048_bit bs)"

lemma scalar_of_uint:
  assumes "t \<noteq> TBool"
  shows "scalar_of t bs = be_val bs mod 2 ^ ty_bits t"
proof (cases t)
  case TBool
  with assms show ?thesis by simp
qed (simp_all only: scalar_of.simps ty_bits.simps
       rd4.unat_rd rd8.unat_rd rd16.unat_rd rd32.unat_rd rd64.unat_rd rd128.unat_rd rd160.unat_rd
       rd256.unat_rd rd512.unat_rd rd1024.unat_rd rd2048.unat_rd)

lemma scalar_of_bool: "scalar_of TBool bs = of_bool (be_val bs \<noteq> 0)"
  by (simp add: arr_non_zero_iff)

lemma scalar_of_bound [simp]: "scalar_of t bs < 2 ^ ty_bits t"
  by (cases "t = TBool") (simp_all add: scalar_of_bool scalar_of_uint del: scalar_of.simps)

lemma clear_bin_bound:
  assumes a: "a < 2 ^ w" and b: "b < 2 ^ w"
  shows "clear_bin sh f w a b < 2 ^ w"
proof -
  have bit_lt: "x < 2 ^ w \<longleftrightarrow> take_bit w x = x" for x :: nat
    by (simp add: take_bit_nat_eq_self_iff)
  have quot: "a div b < 2 ^ w"
    using a div_le_dividend le_less_trans by blast
  have rm: "a mod b < 2 ^ w"
    using a mod_less_eq_dividend le_less_trans by blast
  have bitwise: "a AND b < 2 ^ w" "a OR b < 2 ^ w" "a XOR b < 2 ^ w"
    using a b by (simp_all add: bit_lt)
  show ?thesis
    using a b quot rm bitwise by (cases f) simp_all
qed

lemma lib_bin_dec:
  assumes "tfhe_laws B dec sh" and "dec a < 2 ^ ty_bits t" and "dec b < 2 ^ ty_bits t"
  shows "dec (lib_bin B f t a b) = clear_bin sh f (ty_bits t) (dec a) (dec b)"
  using assms by (simp add: tfhe_laws_def bin_laws_def)

lemma lib_bin_scalar_dec:
  assumes "tfhe_laws B dec sh" and "dec a < 2 ^ ty_bits t" and "n < 2 ^ ty_bits t"
    and "lib_bin_scalar B f t a n = Some c"
  shows "dec c = clear_bin sh f (ty_bits t) (dec a) n"
proof -
  have "\<not> scalar_refused f n"
    using assms(1,4) by (auto simp: tfhe_laws_def bin_laws_def)
  with assms show ?thesis by (fastforce simp: tfhe_laws_def bin_laws_def)
qed

lemma lib_bin_scalar_None_iff:
  assumes "tfhe_laws B dec sh" and "dec a < 2 ^ ty_bits t" and "n < 2 ^ ty_bits t"
  shows "lib_bin_scalar B f t a n = None \<longleftrightarrow> scalar_refused f n"
  using assms unfolding tfhe_laws_def bin_laws_def by (metis option.distinct(1))

lemma lib_cmp_dec:
  assumes "tfhe_laws B dec sh" and "dec a < 2 ^ ty_bits t" and "dec b < 2 ^ ty_bits t"
  shows "dec (lib_cmp B f t a b) = of_bool (clear_cmp f (dec a) (dec b))"
  using assms by (simp add: tfhe_laws_def cmp_laws_def)

lemma lib_cmp_scalar_dec:
  assumes "tfhe_laws B dec sh" and "dec a < 2 ^ ty_bits t" and "n < 2 ^ ty_bits t"
  shows "dec (lib_cmp_scalar B f t a n) = of_bool (clear_cmp f (dec a) n)"
  using assms by (simp add: tfhe_laws_def cmp_laws_def)

lemma lib_unary_dec:
  assumes "tfhe_laws B dec sh" and "dec a < 2 ^ ty_bits t"
  shows "dec (lib_not B t a) = 2 ^ ty_bits t - 1 - dec a"
    and "dec (lib_neg B t a) = (2 ^ ty_bits t - dec a) mod 2 ^ ty_bits t"
    and "dec (lib_cast B t u a) = dec a mod 2 ^ ty_bits u"
  using assms by (simp_all add: tfhe_laws_def unary_laws_def)

lemma lib_select_dec:
  "tfhe_laws B dec sh \<Longrightarrow> dec (lib_select B t c a b) = (if dec c \<noteq> 0 then dec a else dec b)"
  by (simp add: tfhe_laws_def unary_laws_def)

lemma lib_trivial_dec:
  assumes "tfhe_laws B dec sh"
  obtains c where "lib_trivial B t n = Some c" and "dec c = n mod 2 ^ ty_bits t"
  using assms unfolding tfhe_laws_def create_laws_def by blast

lemma lib_rand_dec:
  assumes "tfhe_laws B dec sh"
  shows "dec (lib_rand B t s) < 2 ^ ty_bits t"
    and "k \<le> ty_bits t \<Longrightarrow> dec (lib_rand_bounded B t s k) < 2 ^ k"
  using assms by (simp_all add: tfhe_laws_def create_laws_def)

end
