(* ===== verification/FheOperations.thy ===== *)
theory FheOperations
  imports FheTypes
begin

text \<open>
  \<open>SupportedFheOperations\<close> of \<open>fhevm-engine-common/src/types.rs\<close>: the operation codes, their
  classification tables and their conversions from and to the integers stored in the database,
  with the handle helpers at the end of that file. The locale \<open>tag_codec\<close> is the contract of an
  integer tag that is stored and read back.
\<close>

section \<open>Operations\<close>

datatype fhe_op =
    FheAdd
  | FheSub
  | FheMul
  | FheDiv
  | FheRem
  | FheBitAnd
  | FheBitOr
  | FheBitXor
  | FheShl
  | FheShr
  | FheRotl
  | FheRotr
  | FheEq
  | FheNe
  | FheGe
  | FheGt
  | FheLe
  | FheLt
  | FheMin
  | FheMax
  | FheNeg
  | FheNot
  | FheCast
  | FheTrivialEncrypt
  | FheIfThenElse
  | FheRand
  | FheRandBounded
  | FheGetInputCiphertext

datatype fhe_op_type = Binary | Unary | Other

text \<open>The derived \<open>Debug\<close> text, which the error messages carry.\<close>

fun op_name :: "fhe_op \<Rightarrow> string" where
  "op_name FheAdd = ''FheAdd''"
| "op_name FheSub = ''FheSub''"
| "op_name FheMul = ''FheMul''"
| "op_name FheDiv = ''FheDiv''"
| "op_name FheRem = ''FheRem''"
| "op_name FheBitAnd = ''FheBitAnd''"
| "op_name FheBitOr = ''FheBitOr''"
| "op_name FheBitXor = ''FheBitXor''"
| "op_name FheShl = ''FheShl''"
| "op_name FheShr = ''FheShr''"
| "op_name FheRotl = ''FheRotl''"
| "op_name FheRotr = ''FheRotr''"
| "op_name FheEq = ''FheEq''"
| "op_name FheNe = ''FheNe''"
| "op_name FheGe = ''FheGe''"
| "op_name FheGt = ''FheGt''"
| "op_name FheLe = ''FheLe''"
| "op_name FheLt = ''FheLt''"
| "op_name FheMin = ''FheMin''"
| "op_name FheMax = ''FheMax''"
| "op_name FheNeg = ''FheNeg''"
| "op_name FheNot = ''FheNot''"
| "op_name FheCast = ''FheCast''"
| "op_name FheTrivialEncrypt = ''FheTrivialEncrypt''"
| "op_name FheIfThenElse = ''FheIfThenElse''"
| "op_name FheRand = ''FheRand''"
| "op_name FheRandBounded = ''FheRandBounded''"
| "op_name FheGetInputCiphertext = ''FheGetInputCiphertext''"

fun op_type :: "fhe_op \<Rightarrow> fhe_op_type" where
  "op_type FheAdd = Binary"
| "op_type FheSub = Binary"
| "op_type FheMul = Binary"
| "op_type FheDiv = Binary"
| "op_type FheRem = Binary"
| "op_type FheBitAnd = Binary"
| "op_type FheBitOr = Binary"
| "op_type FheBitXor = Binary"
| "op_type FheShl = Binary"
| "op_type FheShr = Binary"
| "op_type FheRotl = Binary"
| "op_type FheRotr = Binary"
| "op_type FheEq = Binary"
| "op_type FheNe = Binary"
| "op_type FheGe = Binary"
| "op_type FheGt = Binary"
| "op_type FheLe = Binary"
| "op_type FheLt = Binary"
| "op_type FheMin = Binary"
| "op_type FheMax = Binary"
| "op_type FheNeg = Unary"
| "op_type FheNot = Unary"
| "op_type FheCast = Other"
| "op_type FheTrivialEncrypt = Other"
| "op_type FheIfThenElse = Other"
| "op_type FheRand = Other"
| "op_type FheRandBounded = Other"
| "op_type FheGetInputCiphertext = Other"

definition is_comparison :: "fhe_op \<Rightarrow> bool" where
  "is_comparison op \<longleftrightarrow>
     op \<in> {FheEq, FheNe, FheGe, FheGt, FheLe, FheLt}"

definition does_have_more_than_one_scalar :: "fhe_op \<Rightarrow> bool" where
  "does_have_more_than_one_scalar op \<longleftrightarrow>
     op \<in> {FheRand, FheRandBounded, FheTrivialEncrypt}"

definition supports_bool_inputs :: "fhe_op \<Rightarrow> bool" where
  "supports_bool_inputs op \<longleftrightarrow>
     op \<in> {FheEq, FheNe, FheNot, FheBitAnd, FheBitOr, FheBitXor}"

fun supports_ebytes_inputs :: "fhe_op \<Rightarrow> bool" where
  "supports_ebytes_inputs FheAdd = False"
| "supports_ebytes_inputs FheSub = False"
| "supports_ebytes_inputs FheMul = False"
| "supports_ebytes_inputs FheDiv = False"
| "supports_ebytes_inputs FheRem = False"
| "supports_ebytes_inputs FheBitAnd = True"
| "supports_ebytes_inputs FheBitOr = True"
| "supports_ebytes_inputs FheBitXor = True"
| "supports_ebytes_inputs FheShl = True"
| "supports_ebytes_inputs FheShr = True"
| "supports_ebytes_inputs FheRotl = True"
| "supports_ebytes_inputs FheRotr = True"
| "supports_ebytes_inputs FheEq = True"
| "supports_ebytes_inputs FheNe = True"
| "supports_ebytes_inputs FheGe = False"
| "supports_ebytes_inputs FheGt = False"
| "supports_ebytes_inputs FheLe = False"
| "supports_ebytes_inputs FheLt = False"
| "supports_ebytes_inputs FheMin = False"
| "supports_ebytes_inputs FheMax = False"
| "supports_ebytes_inputs FheNeg = False"
| "supports_ebytes_inputs FheNot = True"
| "supports_ebytes_inputs FheCast = True"
| "supports_ebytes_inputs FheTrivialEncrypt = True"
| "supports_ebytes_inputs FheIfThenElse = True"
| "supports_ebytes_inputs FheRand = True"
| "supports_ebytes_inputs FheRandBounded = True"
| "supports_ebytes_inputs FheGetInputCiphertext = False"

text \<open>\<open>value as i16\<close> of the enum, whose discriminants the source writes out.\<close>

fun op_to_i16 :: "fhe_op \<Rightarrow> i16" where
  "op_to_i16 FheAdd = 0"
| "op_to_i16 FheSub = 1"
| "op_to_i16 FheMul = 2"
| "op_to_i16 FheDiv = 3"
| "op_to_i16 FheRem = 4"
| "op_to_i16 FheBitAnd = 5"
| "op_to_i16 FheBitOr = 6"
| "op_to_i16 FheBitXor = 7"
| "op_to_i16 FheShl = 8"
| "op_to_i16 FheShr = 9"
| "op_to_i16 FheRotl = 10"
| "op_to_i16 FheRotr = 11"
| "op_to_i16 FheEq = 12"
| "op_to_i16 FheNe = 13"
| "op_to_i16 FheGe = 14"
| "op_to_i16 FheGt = 15"
| "op_to_i16 FheLe = 16"
| "op_to_i16 FheLt = 17"
| "op_to_i16 FheMin = 18"
| "op_to_i16 FheMax = 19"
| "op_to_i16 FheNeg = 20"
| "op_to_i16 FheNot = 21"
| "op_to_i16 FheCast = 23"
| "op_to_i16 FheTrivialEncrypt = 24"
| "op_to_i16 FheIfThenElse = 25"
| "op_to_i16 FheRand = 26"
| "op_to_i16 FheRandBounded = 27"
| "op_to_i16 FheGetInputCiphertext = 32"

text \<open>
  \<open>TryFrom<i16>\<close>: the match, then the assertion that the value converts back to itself.
\<close>

definition op_of_i16_match :: "i16 \<Rightarrow> (fhevm_error, fhe_op) res" where
  "op_of_i16_match v =
     (if v = 0 then Ok FheAdd
      else if v = 1 then Ok FheSub
      else if v = 2 then Ok FheMul
      else if v = 3 then Ok FheDiv
      else if v = 4 then Ok FheRem
      else if v = 5 then Ok FheBitAnd
      else if v = 6 then Ok FheBitOr
      else if v = 7 then Ok FheBitXor
      else if v = 8 then Ok FheShl
      else if v = 9 then Ok FheShr
      else if v = 10 then Ok FheRotl
      else if v = 11 then Ok FheRotr
      else if v = 12 then Ok FheEq
      else if v = 13 then Ok FheNe
      else if v = 14 then Ok FheGe
      else if v = 15 then Ok FheGt
      else if v = 16 then Ok FheLe
      else if v = 17 then Ok FheLt
      else if v = 18 then Ok FheMin
      else if v = 19 then Ok FheMax
      else if v = 20 then Ok FheNeg
      else if v = 21 then Ok FheNot
      else if v = 23 then Ok FheCast
      else if v = 24 then Ok FheTrivialEncrypt
      else if v = 25 then Ok FheIfThenElse
      else if v = 26 then Ok FheRand
      else if v = 27 then Ok FheRandBounded
      else if v = 32 then Ok FheGetInputCiphertext
      else Err (UnknownFheOperation (i16_as_i32 v)))"

definition op_try_from_i16 :: "i16 \<Rightarrow> (fhevm_error, fhe_op) res" where
  "op_try_from_i16 v =
     (case op_of_i16_match v of
        Ok op \<Rightarrow> assert_then (op_to_i16 op = v) (Ok op)
      | r \<Rightarrow> r)"

text \<open>\<open>TryFrom<i32>\<close>: through \<open>i16\<close>, since protobuf has no smaller integers.\<close>

definition op_try_from_i32 :: "i32 \<Rightarrow> (fhevm_error, fhe_op) res" where
  "op_try_from_i32 v =
     (case i32_try_into_i16 v of
        None \<Rightarrow> Err (UnknownFheOperation v)
      | Some w \<Rightarrow> op_try_from_i16 w)"

section \<open>The contract of a stored tag\<close>

text \<open>
  A client writes a tag as an integer and reads it back later, in another process. It relies on
  two laws: a written tag reads back as itself, and an integer that reads as a tag is the one the
  tag is written as.
\<close>

locale tag_codec =
  fixes enc :: "'t \<Rightarrow> 'n"
    and dec :: "'n \<Rightarrow> ('e, 't) res"
  assumes dec_enc: "dec (enc t) = Ok t"
    and enc_dec: "dec n = Ok t \<Longrightarrow> enc t = n"
begin

lemma enc_inject: "enc t = enc u \<longleftrightarrow> t = u"
  by (metis dec_enc res.inject(1))

lemma dec_Ok_iff: "dec n = Ok t \<longleftrightarrow> n = enc t"
  by (metis dec_enc enc_dec)

lemma dec_deterministic: "dec n = Ok t \<Longrightarrow> dec m = Ok t \<Longrightarrow> n = m"
  by (metis enc_dec)

lemma is_ok_dec_iff: "is_ok (dec n) \<longleftrightarrow> n \<in> range enc"
  by (cases "dec n") (force simp: dec_enc dest: enc_dec)+

end

section \<open>The operation code\<close>

lemma op_of_i16_match_code: "op_of_i16_match (op_to_i16 op) = Ok op"
  by (cases op) (simp_all add: op_of_i16_match_def)

lemma op_of_i16_match_Ok: "op_of_i16_match v = Ok op \<Longrightarrow> op_to_i16 op = v"
  by (auto simp: op_of_i16_match_def split: if_splits)

lemma op_of_i16_match_no_panic: "\<not> panics (op_of_i16_match v)"
  by (simp add: op_of_i16_match_def)

text \<open>The assertion of \<open>TryFrom<i16>\<close> never fires: the conversion is its match.\<close>

lemma op_try_from_i16_match: "op_try_from_i16 v = op_of_i16_match v"
  by (cases "op_of_i16_match v") (simp_all add: op_try_from_i16_def op_of_i16_match_Ok)

interpretation op16: tag_codec op_to_i16 op_try_from_i16
  by unfold_locales
    (simp_all add: op_try_from_i16_match op_of_i16_match_code op_of_i16_match_Ok)

section \<open>The kinds of access the ACL grants\<close>

datatype allow_events = AllowedAccount | AllowedForDecryption

datatype allow_events_error = InvalidValue i16

fun allow_events_to_i16 :: "allow_events \<Rightarrow> i16" where
  "allow_events_to_i16 AllowedAccount = 0"
| "allow_events_to_i16 AllowedForDecryption = 1"

definition allow_events_try_from_i16 :: "i16 \<Rightarrow> (allow_events_error, allow_events) res" where
  "allow_events_try_from_i16 v =
     (if v = 0 then Ok AllowedAccount
      else if v = 1 then Ok AllowedForDecryption
      else Err (InvalidValue v))"

lemma allow_events_enc: "allow_events_try_from_i16 (allow_events_to_i16 t) = Ok t"
  by (cases t) (simp_all add: allow_events_try_from_i16_def)

lemma allow_events_dec: "allow_events_try_from_i16 n = Ok t \<Longrightarrow> allow_events_to_i16 t = n"
  by (cases t) (auto simp: allow_events_try_from_i16_def split: if_splits)

interpretation allow16: tag_codec allow_events_to_i16 allow_events_try_from_i16
  by unfold_locales (fact allow_events_enc, fact allow_events_dec)

section \<open>Handles\<close>

text \<open>A handle has 32 bytes; byte 30 is the type of the ciphertext it stands for.\<close>

type_synonym handle = bytes

definition HANDLE_LEN :: nat where
  "HANDLE_LEN = 32"

definition get_ct_type :: "handle \<Rightarrow> (fhevm_error, i16) res" where
  "get_ct_type h =
     (if length h = HANDLE_LEN then index_then h 30 (\<lambda>b. Ok (u8_as_i16 b)) else Err InvalidHandle)"

definition is_ebytes_type :: "i16 \<Rightarrow> bool" where
  "is_ebytes_type inp \<longleftrightarrow> 9 \<le> sint inp \<and> sint inp \<le> 11"

lemma is_ebytes_type_num:
  "is_ebytes_type (type_num x) \<longleftrightarrow> is_ebytes x"
  by (cases x) (simp_all add: is_ebytes_type_def)

lemma get_ct_type_no_panic: "\<not> panics (get_ct_type h)"
  by (simp add: get_ct_type_def HANDLE_LEN_def)

end
