(* ===== verification/OperationArms.thy ===== *)
theory OperationArms
  imports TfheLibrary FheOperations
begin

text \<open>
  The match statements of \<open>perform_fhe_operation_impl\<close> (\<open>tfhe_ops.rs\<close>). The source writes the same
  arms once per operation, with the operator as the only difference; here each set of arms is one
  definition that takes the library's operator, and its order, patterns and scalar readers are
  those of the source. A definition returns \<open>None\<close> where the source falls through to its wildcard
  arm. Every set of arms then gets a view: the same function by type instead of by pattern.
\<close>

section \<open>Arms\<close>

text \<open>The result of a library call with a clear operand: a panic of the library ends the call.\<close>

definition of_lib :: "('c \<Rightarrow> 'c sfc) \<Rightarrow> 'c option \<Rightarrow> (fhevm_error, 'c sfc) res" where
  "of_lib k r = (case r of None \<Rightarrow> Panic LibraryPanic | Some c \<Rightarrow> Ok (k c))"

text \<open>Arithmetic, minimum and maximum: the unsigned integers of 4 to 256 bits.\<close>

definition bin_uint_arms ::
  "'c tfhe \<Rightarrow> lib_binop \<Rightarrow> 'c sfc \<Rightarrow> 'c sfc \<Rightarrow> (fhevm_error, 'c sfc) res option" where
  "bin_uint_arms B f x y =
     (case (x, y) of
       (FheUint4 a, FheUint4 b) \<Rightarrow> Some (Ok (FheUint4 (lib_bin B f TUint4 a b)))
     | (FheUint8 a, FheUint8 b) \<Rightarrow> Some (Ok (FheUint8 (lib_bin B f TUint8 a b)))
     | (FheUint16 a, FheUint16 b) \<Rightarrow> Some (Ok (FheUint16 (lib_bin B f TUint16 a b)))
     | (FheUint32 a, FheUint32 b) \<Rightarrow> Some (Ok (FheUint32 (lib_bin B f TUint32 a b)))
     | (FheUint64 a, FheUint64 b) \<Rightarrow> Some (Ok (FheUint64 (lib_bin B f TUint64 a b)))
     | (FheUint128 a, FheUint128 b) \<Rightarrow> Some (Ok (FheUint128 (lib_bin B f TUint128 a b)))
     | (FheUint160 a, FheUint160 b) \<Rightarrow> Some (Ok (FheUint160 (lib_bin B f TUint160 a b)))
     | (FheUint256 a, FheUint256 b) \<Rightarrow> Some (Ok (FheUint256 (lib_bin B f TUint256 a b)))
     | (FheUint4 a, Scalar b) \<Rightarrow> Some (of_lib FheUint4 (lib_bin_scalar B f TUint4 a (unat (to_be_u4_bit b))))
     | (FheUint8 a, Scalar b) \<Rightarrow> Some (of_lib FheUint8 (lib_bin_scalar B f TUint8 a (unat (to_be_u8_bit b))))
     | (FheUint16 a, Scalar b) \<Rightarrow> Some (of_lib FheUint16 (lib_bin_scalar B f TUint16 a (unat (to_be_u16_bit b))))
     | (FheUint32 a, Scalar b) \<Rightarrow> Some (of_lib FheUint32 (lib_bin_scalar B f TUint32 a (unat (to_be_u32_bit b))))
     | (FheUint64 a, Scalar b) \<Rightarrow> Some (of_lib FheUint64 (lib_bin_scalar B f TUint64 a (unat (to_be_u64_bit b))))
     | (FheUint128 a, Scalar b) \<Rightarrow> Some (of_lib FheUint128 (lib_bin_scalar B f TUint128 a (unat (to_be_u128_bit b))))
     | (FheUint160 a, Scalar b) \<Rightarrow> Some (of_lib FheUint160 (lib_bin_scalar B f TUint160 a (unat (to_be_u160_bit b))))
     | (FheUint256 a, Scalar b) \<Rightarrow> Some (of_lib FheUint256 (lib_bin_scalar B f TUint256 a (unat (to_be_u256_bit b))))
     | _ \<Rightarrow> None)"

text \<open>Bitwise operators: also booleans and the wide types.\<close>

definition bin_bits_arms ::
  "'c tfhe \<Rightarrow> lib_binop \<Rightarrow> 'c sfc \<Rightarrow> 'c sfc \<Rightarrow> (fhevm_error, 'c sfc) res option" where
  "bin_bits_arms B f x y =
     (case (x, y) of
       (FheBool a, FheBool b) \<Rightarrow> Some (Ok (FheBool (lib_bin B f TBool a b)))
     | (FheUint4 a, FheUint4 b) \<Rightarrow> Some (Ok (FheUint4 (lib_bin B f TUint4 a b)))
     | (FheUint8 a, FheUint8 b) \<Rightarrow> Some (Ok (FheUint8 (lib_bin B f TUint8 a b)))
     | (FheUint16 a, FheUint16 b) \<Rightarrow> Some (Ok (FheUint16 (lib_bin B f TUint16 a b)))
     | (FheUint32 a, FheUint32 b) \<Rightarrow> Some (Ok (FheUint32 (lib_bin B f TUint32 a b)))
     | (FheUint64 a, FheUint64 b) \<Rightarrow> Some (Ok (FheUint64 (lib_bin B f TUint64 a b)))
     | (FheUint128 a, FheUint128 b) \<Rightarrow> Some (Ok (FheUint128 (lib_bin B f TUint128 a b)))
     | (FheUint160 a, FheUint160 b) \<Rightarrow> Some (Ok (FheUint160 (lib_bin B f TUint160 a b)))
     | (FheUint256 a, FheUint256 b) \<Rightarrow> Some (Ok (FheUint256 (lib_bin B f TUint256 a b)))
     | (FheBytes64 a, FheBytes64 b) \<Rightarrow> Some (Ok (FheBytes64 (lib_bin B f TUint512 a b)))
     | (FheBytes128 a, FheBytes128 b) \<Rightarrow> Some (Ok (FheBytes128 (lib_bin B f TUint1024 a b)))
     | (FheBytes256 a, FheBytes256 b) \<Rightarrow> Some (Ok (FheBytes256 (lib_bin B f TUint2048 a b)))
     | (FheBool a, Scalar b) \<Rightarrow> Some (of_lib FheBool (lib_bin_scalar B f TBool a (of_bool (arr_non_zero b))))
     | (FheUint4 a, Scalar b) \<Rightarrow> Some (of_lib FheUint4 (lib_bin_scalar B f TUint4 a (unat (to_be_u4_bit b))))
     | (FheUint8 a, Scalar b) \<Rightarrow> Some (of_lib FheUint8 (lib_bin_scalar B f TUint8 a (unat (to_be_u8_bit b))))
     | (FheUint16 a, Scalar b) \<Rightarrow> Some (of_lib FheUint16 (lib_bin_scalar B f TUint16 a (unat (to_be_u16_bit b))))
     | (FheUint32 a, Scalar b) \<Rightarrow> Some (of_lib FheUint32 (lib_bin_scalar B f TUint32 a (unat (to_be_u32_bit b))))
     | (FheUint64 a, Scalar b) \<Rightarrow> Some (of_lib FheUint64 (lib_bin_scalar B f TUint64 a (unat (to_be_u64_bit b))))
     | (FheUint128 a, Scalar b) \<Rightarrow> Some (of_lib FheUint128 (lib_bin_scalar B f TUint128 a (unat (to_be_u128_bit b))))
     | (FheUint160 a, Scalar b) \<Rightarrow> Some (of_lib FheUint160 (lib_bin_scalar B f TUint160 a (unat (to_be_u160_bit b))))
     | (FheUint256 a, Scalar b) \<Rightarrow> Some (of_lib FheUint256 (lib_bin_scalar B f TUint256 a (unat (to_be_u256_bit b))))
     | (FheBytes64 a, Scalar b) \<Rightarrow> Some (of_lib FheBytes64 (lib_bin_scalar B f TUint512 a (unat (to_be_u512_bit b))))
     | (FheBytes128 a, Scalar b) \<Rightarrow> Some (of_lib FheBytes128 (lib_bin_scalar B f TUint1024 a (unat (to_be_u1024_bit b))))
     | (FheBytes256 a, Scalar b) \<Rightarrow> Some (of_lib FheBytes256 (lib_bin_scalar B f TUint2048 a (unat (to_be_u2048_bit b))))
     | _ \<Rightarrow> None)"

text \<open>Shifts and rotations: no booleans.\<close>

definition bin_shift_arms ::
  "'c tfhe \<Rightarrow> lib_binop \<Rightarrow> 'c sfc \<Rightarrow> 'c sfc \<Rightarrow> (fhevm_error, 'c sfc) res option" where
  "bin_shift_arms B f x y =
     (case (x, y) of
       (FheUint4 a, FheUint4 b) \<Rightarrow> Some (Ok (FheUint4 (lib_bin B f TUint4 a b)))
     | (FheUint8 a, FheUint8 b) \<Rightarrow> Some (Ok (FheUint8 (lib_bin B f TUint8 a b)))
     | (FheUint16 a, FheUint16 b) \<Rightarrow> Some (Ok (FheUint16 (lib_bin B f TUint16 a b)))
     | (FheUint32 a, FheUint32 b) \<Rightarrow> Some (Ok (FheUint32 (lib_bin B f TUint32 a b)))
     | (FheUint64 a, FheUint64 b) \<Rightarrow> Some (Ok (FheUint64 (lib_bin B f TUint64 a b)))
     | (FheUint128 a, FheUint128 b) \<Rightarrow> Some (Ok (FheUint128 (lib_bin B f TUint128 a b)))
     | (FheUint160 a, FheUint160 b) \<Rightarrow> Some (Ok (FheUint160 (lib_bin B f TUint160 a b)))
     | (FheUint256 a, FheUint256 b) \<Rightarrow> Some (Ok (FheUint256 (lib_bin B f TUint256 a b)))
     | (FheBytes64 a, FheBytes64 b) \<Rightarrow> Some (Ok (FheBytes64 (lib_bin B f TUint512 a b)))
     | (FheBytes128 a, FheBytes128 b) \<Rightarrow> Some (Ok (FheBytes128 (lib_bin B f TUint1024 a b)))
     | (FheBytes256 a, FheBytes256 b) \<Rightarrow> Some (Ok (FheBytes256 (lib_bin B f TUint2048 a b)))
     | (FheUint4 a, Scalar b) \<Rightarrow> Some (of_lib FheUint4 (lib_bin_scalar B f TUint4 a (unat (to_be_u4_bit b))))
     | (FheUint8 a, Scalar b) \<Rightarrow> Some (of_lib FheUint8 (lib_bin_scalar B f TUint8 a (unat (to_be_u8_bit b))))
     | (FheUint16 a, Scalar b) \<Rightarrow> Some (of_lib FheUint16 (lib_bin_scalar B f TUint16 a (unat (to_be_u16_bit b))))
     | (FheUint32 a, Scalar b) \<Rightarrow> Some (of_lib FheUint32 (lib_bin_scalar B f TUint32 a (unat (to_be_u32_bit b))))
     | (FheUint64 a, Scalar b) \<Rightarrow> Some (of_lib FheUint64 (lib_bin_scalar B f TUint64 a (unat (to_be_u64_bit b))))
     | (FheUint128 a, Scalar b) \<Rightarrow> Some (of_lib FheUint128 (lib_bin_scalar B f TUint128 a (unat (to_be_u128_bit b))))
     | (FheUint160 a, Scalar b) \<Rightarrow> Some (of_lib FheUint160 (lib_bin_scalar B f TUint160 a (unat (to_be_u160_bit b))))
     | (FheUint256 a, Scalar b) \<Rightarrow> Some (of_lib FheUint256 (lib_bin_scalar B f TUint256 a (unat (to_be_u256_bit b))))
     | (FheBytes64 a, Scalar b) \<Rightarrow> Some (of_lib FheBytes64 (lib_bin_scalar B f TUint512 a (unat (to_be_u512_bit b))))
     | (FheBytes128 a, Scalar b) \<Rightarrow> Some (of_lib FheBytes128 (lib_bin_scalar B f TUint1024 a (unat (to_be_u1024_bit b))))
     | (FheBytes256 a, Scalar b) \<Rightarrow> Some (of_lib FheBytes256 (lib_bin_scalar B f TUint2048 a (unat (to_be_u2048_bit b))))
     | _ \<Rightarrow> None)"

text \<open>Equality: every type. Order: the unsigned integers. The result is a boolean.\<close>

definition cmp_eq_arms ::
  "'c tfhe \<Rightarrow> lib_cmpop \<Rightarrow> 'c sfc \<Rightarrow> 'c sfc \<Rightarrow> (fhevm_error, 'c sfc) res option" where
  "cmp_eq_arms B f x y =
     (case (x, y) of
       (FheBool a, FheBool b) \<Rightarrow> Some (Ok (FheBool (lib_cmp B f TBool a b)))
     | (FheUint4 a, FheUint4 b) \<Rightarrow> Some (Ok (FheBool (lib_cmp B f TUint4 a b)))
     | (FheUint8 a, FheUint8 b) \<Rightarrow> Some (Ok (FheBool (lib_cmp B f TUint8 a b)))
     | (FheUint16 a, FheUint16 b) \<Rightarrow> Some (Ok (FheBool (lib_cmp B f TUint16 a b)))
     | (FheUint32 a, FheUint32 b) \<Rightarrow> Some (Ok (FheBool (lib_cmp B f TUint32 a b)))
     | (FheUint64 a, FheUint64 b) \<Rightarrow> Some (Ok (FheBool (lib_cmp B f TUint64 a b)))
     | (FheUint128 a, FheUint128 b) \<Rightarrow> Some (Ok (FheBool (lib_cmp B f TUint128 a b)))
     | (FheUint160 a, FheUint160 b) \<Rightarrow> Some (Ok (FheBool (lib_cmp B f TUint160 a b)))
     | (FheUint256 a, FheUint256 b) \<Rightarrow> Some (Ok (FheBool (lib_cmp B f TUint256 a b)))
     | (FheBytes64 a, FheBytes64 b) \<Rightarrow> Some (Ok (FheBool (lib_cmp B f TUint512 a b)))
     | (FheBytes128 a, FheBytes128 b) \<Rightarrow> Some (Ok (FheBool (lib_cmp B f TUint1024 a b)))
     | (FheBytes256 a, FheBytes256 b) \<Rightarrow> Some (Ok (FheBool (lib_cmp B f TUint2048 a b)))
     | (FheBool a, Scalar b) \<Rightarrow> Some (Ok (FheBool (lib_cmp_scalar B f TBool a (of_bool (arr_non_zero b)))))
     | (FheUint4 a, Scalar b) \<Rightarrow> Some (Ok (FheBool (lib_cmp_scalar B f TUint4 a (unat (to_be_u4_bit b)))))
     | (FheUint8 a, Scalar b) \<Rightarrow> Some (Ok (FheBool (lib_cmp_scalar B f TUint8 a (unat (to_be_u8_bit b)))))
     | (FheUint16 a, Scalar b) \<Rightarrow> Some (Ok (FheBool (lib_cmp_scalar B f TUint16 a (unat (to_be_u16_bit b)))))
     | (FheUint32 a, Scalar b) \<Rightarrow> Some (Ok (FheBool (lib_cmp_scalar B f TUint32 a (unat (to_be_u32_bit b)))))
     | (FheUint64 a, Scalar b) \<Rightarrow> Some (Ok (FheBool (lib_cmp_scalar B f TUint64 a (unat (to_be_u64_bit b)))))
     | (FheUint128 a, Scalar b) \<Rightarrow> Some (Ok (FheBool (lib_cmp_scalar B f TUint128 a (unat (to_be_u128_bit b)))))
     | (FheUint160 a, Scalar b) \<Rightarrow> Some (Ok (FheBool (lib_cmp_scalar B f TUint160 a (unat (to_be_u160_bit b)))))
     | (FheUint256 a, Scalar b) \<Rightarrow> Some (Ok (FheBool (lib_cmp_scalar B f TUint256 a (unat (to_be_u256_bit b)))))
     | (FheBytes64 a, Scalar b) \<Rightarrow> Some (Ok (FheBool (lib_cmp_scalar B f TUint512 a (unat (to_be_u512_bit b)))))
     | (FheBytes128 a, Scalar b) \<Rightarrow> Some (Ok (FheBool (lib_cmp_scalar B f TUint1024 a (unat (to_be_u1024_bit b)))))
     | (FheBytes256 a, Scalar b) \<Rightarrow> Some (Ok (FheBool (lib_cmp_scalar B f TUint2048 a (unat (to_be_u2048_bit b)))))
     | _ \<Rightarrow> None)"

definition cmp_ord_arms ::
  "'c tfhe \<Rightarrow> lib_cmpop \<Rightarrow> 'c sfc \<Rightarrow> 'c sfc \<Rightarrow> (fhevm_error, 'c sfc) res option" where
  "cmp_ord_arms B f x y =
     (case (x, y) of
       (FheUint4 a, FheUint4 b) \<Rightarrow> Some (Ok (FheBool (lib_cmp B f TUint4 a b)))
     | (FheUint8 a, FheUint8 b) \<Rightarrow> Some (Ok (FheBool (lib_cmp B f TUint8 a b)))
     | (FheUint16 a, FheUint16 b) \<Rightarrow> Some (Ok (FheBool (lib_cmp B f TUint16 a b)))
     | (FheUint32 a, FheUint32 b) \<Rightarrow> Some (Ok (FheBool (lib_cmp B f TUint32 a b)))
     | (FheUint64 a, FheUint64 b) \<Rightarrow> Some (Ok (FheBool (lib_cmp B f TUint64 a b)))
     | (FheUint128 a, FheUint128 b) \<Rightarrow> Some (Ok (FheBool (lib_cmp B f TUint128 a b)))
     | (FheUint160 a, FheUint160 b) \<Rightarrow> Some (Ok (FheBool (lib_cmp B f TUint160 a b)))
     | (FheUint256 a, FheUint256 b) \<Rightarrow> Some (Ok (FheBool (lib_cmp B f TUint256 a b)))
     | (FheUint4 a, Scalar b) \<Rightarrow> Some (Ok (FheBool (lib_cmp_scalar B f TUint4 a (unat (to_be_u4_bit b)))))
     | (FheUint8 a, Scalar b) \<Rightarrow> Some (Ok (FheBool (lib_cmp_scalar B f TUint8 a (unat (to_be_u8_bit b)))))
     | (FheUint16 a, Scalar b) \<Rightarrow> Some (Ok (FheBool (lib_cmp_scalar B f TUint16 a (unat (to_be_u16_bit b)))))
     | (FheUint32 a, Scalar b) \<Rightarrow> Some (Ok (FheBool (lib_cmp_scalar B f TUint32 a (unat (to_be_u32_bit b)))))
     | (FheUint64 a, Scalar b) \<Rightarrow> Some (Ok (FheBool (lib_cmp_scalar B f TUint64 a (unat (to_be_u64_bit b)))))
     | (FheUint128 a, Scalar b) \<Rightarrow> Some (Ok (FheBool (lib_cmp_scalar B f TUint128 a (unat (to_be_u128_bit b)))))
     | (FheUint160 a, Scalar b) \<Rightarrow> Some (Ok (FheBool (lib_cmp_scalar B f TUint160 a (unat (to_be_u160_bit b)))))
     | (FheUint256 a, Scalar b) \<Rightarrow> Some (Ok (FheBool (lib_cmp_scalar B f TUint256 a (unat (to_be_u256_bit b)))))
     | _ \<Rightarrow> None)"

text \<open>Negation, bitwise and arithmetic.\<close>

definition not_arms ::
  "'c tfhe \<Rightarrow> 'c sfc \<Rightarrow> (fhevm_error, 'c sfc) res option" where
  "not_arms B x =
     (case x of
       FheBool a \<Rightarrow> Some (Ok (FheBool (lib_not B TBool a)))
     | FheUint4 a \<Rightarrow> Some (Ok (FheUint4 (lib_not B TUint4 a)))
     | FheUint8 a \<Rightarrow> Some (Ok (FheUint8 (lib_not B TUint8 a)))
     | FheUint16 a \<Rightarrow> Some (Ok (FheUint16 (lib_not B TUint16 a)))
     | FheUint32 a \<Rightarrow> Some (Ok (FheUint32 (lib_not B TUint32 a)))
     | FheUint64 a \<Rightarrow> Some (Ok (FheUint64 (lib_not B TUint64 a)))
     | FheUint128 a \<Rightarrow> Some (Ok (FheUint128 (lib_not B TUint128 a)))
     | FheUint160 a \<Rightarrow> Some (Ok (FheUint160 (lib_not B TUint160 a)))
     | FheUint256 a \<Rightarrow> Some (Ok (FheUint256 (lib_not B TUint256 a)))
     | FheBytes64 a \<Rightarrow> Some (Ok (FheBytes64 (lib_not B TUint512 a)))
     | FheBytes128 a \<Rightarrow> Some (Ok (FheBytes128 (lib_not B TUint1024 a)))
     | FheBytes256 a \<Rightarrow> Some (Ok (FheBytes256 (lib_not B TUint2048 a)))
     | _ \<Rightarrow> None)"

definition neg_arms ::
  "'c tfhe \<Rightarrow> 'c sfc \<Rightarrow> (fhevm_error, 'c sfc) res option" where
  "neg_arms B x =
     (case x of
       FheUint4 a \<Rightarrow> Some (Ok (FheUint4 (lib_neg B TUint4 a)))
     | FheUint8 a \<Rightarrow> Some (Ok (FheUint8 (lib_neg B TUint8 a)))
     | FheUint16 a \<Rightarrow> Some (Ok (FheUint16 (lib_neg B TUint16 a)))
     | FheUint32 a \<Rightarrow> Some (Ok (FheUint32 (lib_neg B TUint32 a)))
     | FheUint64 a \<Rightarrow> Some (Ok (FheUint64 (lib_neg B TUint64 a)))
     | FheUint128 a \<Rightarrow> Some (Ok (FheUint128 (lib_neg B TUint128 a)))
     | FheUint160 a \<Rightarrow> Some (Ok (FheUint160 (lib_neg B TUint160 a)))
     | FheUint256 a \<Rightarrow> Some (Ok (FheUint256 (lib_neg B TUint256 a)))
     | _ \<Rightarrow> None)"

text \<open>Selection by an encrypted flag between two ciphertexts of one type.\<close>

definition select_arms ::
  "'c tfhe \<Rightarrow> 'c \<Rightarrow> 'c sfc \<Rightarrow> 'c sfc \<Rightarrow> (fhevm_error, 'c sfc) res option" where
  "select_arms B flag x y =
     (case (x, y) of
       (FheBool a, FheBool b) \<Rightarrow> Some (Ok (FheBool (lib_select B TBool flag a b)))
     | (FheUint4 a, FheUint4 b) \<Rightarrow> Some (Ok (FheUint4 (lib_select B TUint4 flag a b)))
     | (FheUint8 a, FheUint8 b) \<Rightarrow> Some (Ok (FheUint8 (lib_select B TUint8 flag a b)))
     | (FheUint16 a, FheUint16 b) \<Rightarrow> Some (Ok (FheUint16 (lib_select B TUint16 flag a b)))
     | (FheUint32 a, FheUint32 b) \<Rightarrow> Some (Ok (FheUint32 (lib_select B TUint32 flag a b)))
     | (FheUint64 a, FheUint64 b) \<Rightarrow> Some (Ok (FheUint64 (lib_select B TUint64 flag a b)))
     | (FheUint128 a, FheUint128 b) \<Rightarrow> Some (Ok (FheUint128 (lib_select B TUint128 flag a b)))
     | (FheUint160 a, FheUint160 b) \<Rightarrow> Some (Ok (FheUint160 (lib_select B TUint160 flag a b)))
     | (FheUint256 a, FheUint256 b) \<Rightarrow> Some (Ok (FheUint256 (lib_select B TUint256 flag a b)))
     | (FheBytes64 a, FheBytes64 b) \<Rightarrow> Some (Ok (FheBytes64 (lib_select B TUint512 flag a b)))
     | (FheBytes128 a, FheBytes128 b) \<Rightarrow> Some (Ok (FheBytes128 (lib_select B TUint1024 flag a b)))
     | (FheBytes256 a, FheBytes256 b) \<Rightarrow> Some (Ok (FheBytes256 (lib_select B TUint2048 flag a b)))
     | _ \<Rightarrow> None)"

section \<open>Views\<close>

text \<open>
  A set of arms by type: for the types \<open>S\<close>, a ciphertext with a ciphertext of the same type, or
  with a scalar. \<open>k\<close> and \<open>ks\<close> are what the arms do.
\<close>

definition typed_arms ::
  "(fhe_ty \<Rightarrow> bool) \<Rightarrow> (fhe_ty \<Rightarrow> 'c \<Rightarrow> 'c \<Rightarrow> 'r) \<Rightarrow> (fhe_ty \<Rightarrow> 'c \<Rightarrow> nat \<Rightarrow> 'r)
     \<Rightarrow> 'c sfc \<Rightarrow> 'c sfc \<Rightarrow> 'r option" where
  "typed_arms S k ks x y =
     (case ct_view x of
        None \<Rightarrow> None
      | Some (t, a) \<Rightarrow>
          if \<not> S t then None
          else case ct_view y of
                 None \<Rightarrow> (case y of Scalar bs \<Rightarrow> Some (ks t a (scalar_of t bs)) | _ \<Rightarrow> None)
               | Some (u, b) \<Rightarrow> if u = t then Some (k t a b) else None)"

lemma typed_arms_simps [simp]:
  "typed_arms S k ks (mk_ct t a) (mk_ct u b) = (if S t \<and> u = t then Some (k t a b) else None)"
  "typed_arms S k ks (mk_ct t a) (Scalar bs) = (if S t then Some (ks t a (scalar_of t bs)) else None)"
  "typed_arms S k ks (Scalar bs) y = None"
  by (simp_all add: typed_arms_def)

lemma typed_arms_Some:
  assumes "typed_arms S k ks x y = Some r"
  obtains (ct) t a b where "S t" "x = mk_ct t a" "y = mk_ct t b" "r = k t a b"
    | (scalar) t a bs where "S t" "x = mk_ct t a" "y = Scalar bs" "r = ks t a (scalar_of t bs)"
  using assms by (cases x rule: sfc_cases; cases y rule: sfc_cases) (auto split: if_splits)

abbreviation any_ty :: "fhe_ty \<Rightarrow> bool" where
  "any_ty \<equiv> \<lambda>_. True"

abbreviation uint_or_ebytes :: "fhe_ty \<Rightarrow> bool" where
  "uint_or_ebytes \<equiv> \<lambda>t. uint_ty t \<or> ebytes_ty t"

lemmas view_defs = typed_arms_def uint_ty_def ebytes_ty_def

lemma bin_uint_arms_view [arms_simps]:
  "bin_uint_arms B f x y =
     typed_arms uint_ty
         (\<lambda>t a b. Ok (mk_ct t (lib_bin B f t a b)))
         (\<lambda>t a n. of_lib (mk_ct t) (lib_bin_scalar B f t a n)) x y"
  by (cases x; cases y) (simp_all add: bin_uint_arms_def view_defs)

lemma bin_bits_arms_view [arms_simps]:
  "bin_bits_arms B f x y =
     typed_arms any_ty
         (\<lambda>t a b. Ok (mk_ct t (lib_bin B f t a b)))
         (\<lambda>t a n. of_lib (mk_ct t) (lib_bin_scalar B f t a n)) x y"
  by (cases x; cases y) (simp_all add: bin_bits_arms_def view_defs)

lemma bin_shift_arms_view [arms_simps]:
  "bin_shift_arms B f x y =
     typed_arms uint_or_ebytes
         (\<lambda>t a b. Ok (mk_ct t (lib_bin B f t a b)))
         (\<lambda>t a n. of_lib (mk_ct t) (lib_bin_scalar B f t a n)) x y"
  by (cases x; cases y) (simp_all add: bin_shift_arms_def view_defs)

lemma cmp_eq_arms_view [arms_simps]:
  "cmp_eq_arms B f x y =
     typed_arms any_ty
         (\<lambda>t a b. Ok (FheBool (lib_cmp B f t a b)))
         (\<lambda>t a n. Ok (FheBool (lib_cmp_scalar B f t a n))) x y"
  by (cases x; cases y) (simp_all add: cmp_eq_arms_def view_defs)

lemma cmp_ord_arms_view [arms_simps]:
  "cmp_ord_arms B f x y =
     typed_arms uint_ty
         (\<lambda>t a b. Ok (FheBool (lib_cmp B f t a b)))
         (\<lambda>t a n. Ok (FheBool (lib_cmp_scalar B f t a n))) x y"
  by (cases x; cases y) (simp_all add: cmp_ord_arms_def view_defs)

lemma not_arms_view [arms_simps]:
  "not_arms B x = map_option (\<lambda>(t, a). Ok (mk_ct t (lib_not B t a))) (ct_view x)"
  by (cases x) (simp_all add: not_arms_def)

lemma neg_arms_view [arms_simps]:
  "neg_arms B x =
     (case ct_view x of
        None \<Rightarrow> None
      | Some (t, a) \<Rightarrow> if uint_ty t then Some (Ok (mk_ct t (lib_neg B t a))) else None)"
  by (cases x) (simp_all add: neg_arms_def uint_ty_def)

lemma select_arms_view [arms_simps]:
  "select_arms B flag x y =
     (case (ct_view x, ct_view y) of
        (Some (t, a), Some (u, b)) \<Rightarrow>
          if u = t then Some (Ok (mk_ct t (lib_select B t flag a b))) else None
      | _ \<Rightarrow> None)"
  by (cases x; cases y) (simp_all add: select_arms_def)

end
