(* ===== verification/CastArms.thy ===== *)
theory CastArms
  imports OperationArms
begin

text \<open>
  The \<open>FheCast\<close> branch of \<open>perform_fhe_operation_impl\<close> (\<open>tfhe_ops.rs\<close>): one definition per source
  type, each with the eleven target types of the source and its own last arm. The target is the
  number in the second operand, a scalar.
\<close>

section \<open>One definition per source type\<close>

definition cast_from_bool ::
  "'c tfhe \<Rightarrow> 'c \<Rightarrow> bytes \<Rightarrow> (fhevm_error, 'c sfc) res" where
  "cast_from_bool B inp sc =
     (let l = to_be_u16_bit sc; type_id = type_num (FheBool inp)
      in if l = type_id then Ok (FheBool inp)
         else if l = 1 then Ok (FheUint4 (lib_cast B TBool TUint4 inp))
         else if l = 2 then Ok (FheUint8 (lib_cast B TBool TUint8 inp))
         else if l = 3 then Ok (FheUint16 (lib_cast B TBool TUint16 inp))
         else if l = 4 then Ok (FheUint32 (lib_cast B TBool TUint32 inp))
         else if l = 5 then Ok (FheUint64 (lib_cast B TBool TUint64 inp))
         else if l = 6 then Ok (FheUint128 (lib_cast B TBool TUint128 inp))
         else if l = 7 then Ok (FheUint160 (lib_cast B TBool TUint160 inp))
         else if l = 8 then Ok (FheUint256 (lib_cast B TBool TUint256 inp))
         else if l = 9 then Ok (FheBytes64 (lib_cast B TBool TUint512 inp))
         else if l = 10 then Ok (FheBytes128 (lib_cast B TBool TUint1024 inp))
         else if l = 11 then Ok (FheBytes256 (lib_cast B TBool TUint2048 inp))
         else Err (UnknownCastType (op_name FheCast) l))"

definition cast_from_uint4 ::
  "'c tfhe \<Rightarrow> 'c \<Rightarrow> bytes \<Rightarrow> (fhevm_error, 'c sfc) res" where
  "cast_from_uint4 B inp sc =
     (let l = to_be_u16_bit sc; type_id = type_num (FheUint4 inp)
      in if l = type_id then Ok (FheUint4 inp)
         else if l = 0 then Ok (FheBool (lib_cmp_scalar B CmpGt TUint4 inp 0))
         else if l = 2 then Ok (FheUint8 (lib_cast B TUint4 TUint8 inp))
         else if l = 3 then Ok (FheUint16 (lib_cast B TUint4 TUint16 inp))
         else if l = 4 then Ok (FheUint32 (lib_cast B TUint4 TUint32 inp))
         else if l = 5 then Ok (FheUint64 (lib_cast B TUint4 TUint64 inp))
         else if l = 6 then Ok (FheUint128 (lib_cast B TUint4 TUint128 inp))
         else if l = 7 then Ok (FheUint160 (lib_cast B TUint4 TUint160 inp))
         else if l = 8 then Ok (FheUint256 (lib_cast B TUint4 TUint256 inp))
         else if l = 9 then Ok (FheBytes64 (lib_cast B TUint4 TUint512 inp))
         else if l = 10 then Ok (FheBytes128 (lib_cast B TUint4 TUint1024 inp))
         else if l = 11 then Ok (FheBytes256 (lib_cast B TUint4 TUint2048 inp))
         else Err (UnknownCastType (op_name FheCast) l))"

definition cast_from_uint8 ::
  "'c tfhe \<Rightarrow> 'c \<Rightarrow> bytes \<Rightarrow> (fhevm_error, 'c sfc) res" where
  "cast_from_uint8 B inp sc =
     (let l = to_be_u16_bit sc; type_id = type_num (FheUint8 inp)
      in if l = type_id then Ok (FheUint8 inp)
         else if l = 0 then Ok (FheBool (lib_cmp_scalar B CmpGt TUint8 inp 0))
         else if l = 1 then Ok (FheUint4 (lib_cast B TUint8 TUint4 inp))
         else if l = 3 then Ok (FheUint16 (lib_cast B TUint8 TUint16 inp))
         else if l = 4 then Ok (FheUint32 (lib_cast B TUint8 TUint32 inp))
         else if l = 5 then Ok (FheUint64 (lib_cast B TUint8 TUint64 inp))
         else if l = 6 then Ok (FheUint128 (lib_cast B TUint8 TUint128 inp))
         else if l = 7 then Ok (FheUint160 (lib_cast B TUint8 TUint160 inp))
         else if l = 8 then Ok (FheUint256 (lib_cast B TUint8 TUint256 inp))
         else if l = 9 then Ok (FheBytes64 (lib_cast B TUint8 TUint512 inp))
         else if l = 10 then Ok (FheBytes128 (lib_cast B TUint8 TUint1024 inp))
         else if l = 11 then Ok (FheBytes256 (lib_cast B TUint8 TUint2048 inp))
         else Err (UnknownCastType (op_name FheCast) l))"

definition cast_from_uint16 ::
  "'c tfhe \<Rightarrow> 'c \<Rightarrow> bytes \<Rightarrow> (fhevm_error, 'c sfc) res" where
  "cast_from_uint16 B inp sc =
     (let l = to_be_u16_bit sc; type_id = type_num (FheUint16 inp)
      in if l = type_id then Ok (FheUint16 inp)
         else if l = 0 then Ok (FheBool (lib_cmp_scalar B CmpGt TUint16 inp 0))
         else if l = 1 then Ok (FheUint4 (lib_cast B TUint16 TUint4 inp))
         else if l = 2 then Ok (FheUint8 (lib_cast B TUint16 TUint8 inp))
         else if l = 4 then Ok (FheUint32 (lib_cast B TUint16 TUint32 inp))
         else if l = 5 then Ok (FheUint64 (lib_cast B TUint16 TUint64 inp))
         else if l = 6 then Ok (FheUint128 (lib_cast B TUint16 TUint128 inp))
         else if l = 7 then Ok (FheUint160 (lib_cast B TUint16 TUint160 inp))
         else if l = 8 then Ok (FheUint256 (lib_cast B TUint16 TUint256 inp))
         else if l = 9 then Ok (FheBytes64 (lib_cast B TUint16 TUint512 inp))
         else if l = 10 then Ok (FheBytes128 (lib_cast B TUint16 TUint1024 inp))
         else if l = 11 then Ok (FheBytes256 (lib_cast B TUint16 TUint2048 inp))
         else Err (UnknownCastType (op_name FheCast) l))"

definition cast_from_uint32 ::
  "'c tfhe \<Rightarrow> 'c \<Rightarrow> bytes \<Rightarrow> (fhevm_error, 'c sfc) res" where
  "cast_from_uint32 B inp sc =
     (let l = to_be_u16_bit sc; type_id = type_num (FheUint32 inp)
      in if l = type_id then Ok (FheUint32 inp)
         else if l = 0 then Ok (FheBool (lib_cmp_scalar B CmpGt TUint32 inp 0))
         else if l = 1 then Ok (FheUint4 (lib_cast B TUint32 TUint4 inp))
         else if l = 2 then Ok (FheUint8 (lib_cast B TUint32 TUint8 inp))
         else if l = 3 then Ok (FheUint16 (lib_cast B TUint32 TUint16 inp))
         else if l = 5 then Ok (FheUint64 (lib_cast B TUint32 TUint64 inp))
         else if l = 6 then Ok (FheUint128 (lib_cast B TUint32 TUint128 inp))
         else if l = 7 then Ok (FheUint160 (lib_cast B TUint32 TUint160 inp))
         else if l = 8 then Ok (FheUint256 (lib_cast B TUint32 TUint256 inp))
         else if l = 9 then Ok (FheBytes64 (lib_cast B TUint32 TUint512 inp))
         else if l = 10 then Ok (FheBytes128 (lib_cast B TUint32 TUint1024 inp))
         else if l = 11 then Ok (FheBytes256 (lib_cast B TUint32 TUint2048 inp))
         else Err (UnknownCastType (op_name FheCast) l))"

definition cast_from_uint64 ::
  "'c tfhe \<Rightarrow> 'c \<Rightarrow> bytes \<Rightarrow> (fhevm_error, 'c sfc) res" where
  "cast_from_uint64 B inp sc =
     (let l = to_be_u16_bit sc; type_id = type_num (FheUint64 inp)
      in if l = type_id then Ok (FheUint64 inp)
         else if l = 0 then Ok (FheBool (lib_cmp_scalar B CmpGt TUint64 inp 0))
         else if l = 1 then Ok (FheUint4 (lib_cast B TUint64 TUint4 inp))
         else if l = 2 then Ok (FheUint8 (lib_cast B TUint64 TUint8 inp))
         else if l = 3 then Ok (FheUint16 (lib_cast B TUint64 TUint16 inp))
         else if l = 4 then Ok (FheUint32 (lib_cast B TUint64 TUint32 inp))
         else if l = 6 then Ok (FheUint128 (lib_cast B TUint64 TUint128 inp))
         else if l = 7 then Ok (FheUint160 (lib_cast B TUint64 TUint160 inp))
         else if l = 8 then Ok (FheUint256 (lib_cast B TUint64 TUint256 inp))
         else if l = 9 then Ok (FheBytes64 (lib_cast B TUint64 TUint512 inp))
         else if l = 10 then Ok (FheBytes128 (lib_cast B TUint64 TUint1024 inp))
         else if l = 11 then Ok (FheBytes256 (lib_cast B TUint64 TUint2048 inp))
         else Err (UnknownCastType (op_name FheCast) l))"

definition cast_from_uint128 ::
  "'c tfhe \<Rightarrow> 'c \<Rightarrow> bytes \<Rightarrow> (fhevm_error, 'c sfc) res" where
  "cast_from_uint128 B inp sc =
     (let l = to_be_u16_bit sc; type_id = type_num (FheUint128 inp)
      in if l = type_id then Ok (FheUint128 inp)
         else if l = 0 then Ok (FheBool (lib_cmp_scalar B CmpGt TUint128 inp 0))
         else if l = 1 then Ok (FheUint4 (lib_cast B TUint128 TUint4 inp))
         else if l = 2 then Ok (FheUint8 (lib_cast B TUint128 TUint8 inp))
         else if l = 3 then Ok (FheUint16 (lib_cast B TUint128 TUint16 inp))
         else if l = 4 then Ok (FheUint32 (lib_cast B TUint128 TUint32 inp))
         else if l = 5 then Ok (FheUint64 (lib_cast B TUint128 TUint64 inp))
         else if l = 7 then Ok (FheUint160 (lib_cast B TUint128 TUint160 inp))
         else if l = 8 then Ok (FheUint256 (lib_cast B TUint128 TUint256 inp))
         else if l = 9 then Ok (FheBytes64 (lib_cast B TUint128 TUint512 inp))
         else if l = 10 then Ok (FheBytes128 (lib_cast B TUint128 TUint1024 inp))
         else if l = 11 then Ok (FheBytes256 (lib_cast B TUint128 TUint2048 inp))
         else Err (UnknownCastType (op_name FheCast) l))"

definition cast_from_uint160 ::
  "'c tfhe \<Rightarrow> 'c \<Rightarrow> bytes \<Rightarrow> (fhevm_error, 'c sfc) res" where
  "cast_from_uint160 B inp sc =
     (let l = to_be_u16_bit sc; type_id = type_num (FheUint160 inp)
      in if l = type_id then Ok (FheUint160 inp)
         else if l = 0 then Ok (FheBool (lib_cmp_scalar B CmpGt TUint160 inp 0))
         else if l = 1 then Ok (FheUint4 (lib_cast B TUint160 TUint4 inp))
         else if l = 2 then Ok (FheUint8 (lib_cast B TUint160 TUint8 inp))
         else if l = 3 then Ok (FheUint16 (lib_cast B TUint160 TUint16 inp))
         else if l = 4 then Ok (FheUint32 (lib_cast B TUint160 TUint32 inp))
         else if l = 5 then Ok (FheUint64 (lib_cast B TUint160 TUint64 inp))
         else if l = 6 then Ok (FheUint128 (lib_cast B TUint160 TUint128 inp))
         else if l = 8 then Ok (FheUint256 (lib_cast B TUint160 TUint256 inp))
         else if l = 9 then Ok (FheBytes64 (lib_cast B TUint160 TUint512 inp))
         else if l = 10 then Ok (FheBytes128 (lib_cast B TUint160 TUint1024 inp))
         else if l = 11 then Ok (FheBytes256 (lib_cast B TUint160 TUint2048 inp))
         else Err (UnknownCastType (op_name FheCast) l))"

definition cast_from_uint256 ::
  "'c tfhe \<Rightarrow> 'c \<Rightarrow> bytes \<Rightarrow> (fhevm_error, 'c sfc) res" where
  "cast_from_uint256 B inp sc =
     (let l = to_be_u16_bit sc; type_id = type_num (FheUint256 inp)
      in if l = type_id then Ok (FheUint256 inp)
         else if l = 0 then Ok (FheBool (lib_cmp_scalar B CmpGt TUint256 inp 0))
         else if l = 1 then Ok (FheUint4 (lib_cast B TUint256 TUint4 inp))
         else if l = 2 then Ok (FheUint8 (lib_cast B TUint256 TUint8 inp))
         else if l = 3 then Ok (FheUint16 (lib_cast B TUint256 TUint16 inp))
         else if l = 4 then Ok (FheUint32 (lib_cast B TUint256 TUint32 inp))
         else if l = 5 then Ok (FheUint64 (lib_cast B TUint256 TUint64 inp))
         else if l = 6 then Ok (FheUint128 (lib_cast B TUint256 TUint128 inp))
         else if l = 7 then Ok (FheUint160 (lib_cast B TUint256 TUint160 inp))
         else if l = 9 then Ok (FheBytes64 (lib_cast B TUint256 TUint512 inp))
         else if l = 10 then Ok (FheBytes128 (lib_cast B TUint256 TUint1024 inp))
         else if l = 11 then Ok (FheBytes256 (lib_cast B TUint256 TUint2048 inp))
         else Err (UnknownCastType (op_name FheCast) l))"

definition cast_from_bytes64 ::
  "'c tfhe \<Rightarrow> 'c \<Rightarrow> bytes \<Rightarrow> (fhevm_error, 'c sfc) res" where
  "cast_from_bytes64 B inp sc =
     (let l = to_be_u16_bit sc; type_id = type_num (FheBytes64 inp)
      in if l = type_id then Ok (FheBytes64 inp)
         else if l = 0 then Ok (FheBool (lib_cmp_scalar B CmpGt TUint512 inp 0))
         else if l = 1 then Ok (FheUint4 (lib_cast B TUint512 TUint4 inp))
         else if l = 2 then Ok (FheUint8 (lib_cast B TUint512 TUint8 inp))
         else if l = 3 then Ok (FheUint16 (lib_cast B TUint512 TUint16 inp))
         else if l = 4 then Ok (FheUint32 (lib_cast B TUint512 TUint32 inp))
         else if l = 5 then Ok (FheUint64 (lib_cast B TUint512 TUint64 inp))
         else if l = 6 then Ok (FheUint128 (lib_cast B TUint512 TUint128 inp))
         else if l = 7 then Ok (FheUint160 (lib_cast B TUint512 TUint160 inp))
         else if l = 8 then Ok (FheUint256 (lib_cast B TUint512 TUint256 inp))
         else if l = 10 then Ok (FheBytes128 (lib_cast B TUint512 TUint1024 inp))
         else if l = 11 then Ok (FheBytes256 (lib_cast B TUint512 TUint2048 inp))
         else Err (UnknownCastType (op_name FheCast) l))"

definition cast_from_bytes128 ::
  "'c tfhe \<Rightarrow> 'c \<Rightarrow> bytes \<Rightarrow> (fhevm_error, 'c sfc) res" where
  "cast_from_bytes128 B inp sc =
     (let l = to_be_u16_bit sc; type_id = type_num (FheBytes128 inp)
      in if l = type_id then Ok (FheBytes128 inp)
         else if l = 0 then Ok (FheBool (lib_cmp_scalar B CmpGt TUint1024 inp 0))
         else if l = 1 then Ok (FheUint4 (lib_cast B TUint1024 TUint4 inp))
         else if l = 2 then Ok (FheUint8 (lib_cast B TUint1024 TUint8 inp))
         else if l = 3 then Ok (FheUint16 (lib_cast B TUint1024 TUint16 inp))
         else if l = 4 then Ok (FheUint32 (lib_cast B TUint1024 TUint32 inp))
         else if l = 5 then Ok (FheUint64 (lib_cast B TUint1024 TUint64 inp))
         else if l = 6 then Ok (FheUint128 (lib_cast B TUint1024 TUint128 inp))
         else if l = 7 then Ok (FheUint160 (lib_cast B TUint1024 TUint160 inp))
         else if l = 8 then Ok (FheUint256 (lib_cast B TUint1024 TUint256 inp))
         else if l = 9 then Ok (FheBytes64 (lib_cast B TUint1024 TUint512 inp))
         else if l = 11 then Ok (FheBytes256 (lib_cast B TUint1024 TUint2048 inp))
         else Err (UnknownCastType (op_name FheCast) l))"

definition cast_from_bytes256 ::
  "'c tfhe \<Rightarrow> 'c \<Rightarrow> bytes \<Rightarrow> (fhevm_error, 'c sfc) res" where
  "cast_from_bytes256 B inp sc =
     (let l = to_be_u16_bit sc; type_id = type_num (FheBytes256 inp)
      in if l = type_id then Ok (FheBytes256 inp)
         else if l = 0 then Ok (FheBool (lib_cmp_scalar B CmpGt TUint2048 inp 0))
         else if l = 1 then Ok (FheUint4 (lib_cast B TUint2048 TUint4 inp))
         else if l = 2 then Ok (FheUint8 (lib_cast B TUint2048 TUint8 inp))
         else if l = 3 then Ok (FheUint16 (lib_cast B TUint2048 TUint16 inp))
         else if l = 4 then Ok (FheUint32 (lib_cast B TUint2048 TUint32 inp))
         else if l = 5 then Ok (FheUint64 (lib_cast B TUint2048 TUint64 inp))
         else if l = 6 then Ok (FheUint128 (lib_cast B TUint2048 TUint128 inp))
         else if l = 7 then Ok (FheUint160 (lib_cast B TUint2048 TUint160 inp))
         else if l = 8 then Ok (FheUint256 (lib_cast B TUint2048 TUint256 inp))
         else if l = 9 then Ok (FheBytes64 (lib_cast B TUint2048 TUint512 inp))
         else if l = 10 then Ok (FheBytes128 (lib_cast B TUint2048 TUint1024 inp))
         else Panic ExplicitPanic)"

definition cast_arms ::
  "'c tfhe \<Rightarrow> 'c sfc \<Rightarrow> 'c sfc \<Rightarrow> (fhevm_error, 'c sfc) res option" where
  "cast_arms B x y =
     (case (x, y) of
       (FheBool inp, Scalar sc) \<Rightarrow> Some (cast_from_bool B inp sc)
     | (FheUint4 inp, Scalar sc) \<Rightarrow> Some (cast_from_uint4 B inp sc)
     | (FheUint8 inp, Scalar sc) \<Rightarrow> Some (cast_from_uint8 B inp sc)
     | (FheUint16 inp, Scalar sc) \<Rightarrow> Some (cast_from_uint16 B inp sc)
     | (FheUint32 inp, Scalar sc) \<Rightarrow> Some (cast_from_uint32 B inp sc)
     | (FheUint64 inp, Scalar sc) \<Rightarrow> Some (cast_from_uint64 B inp sc)
     | (FheUint128 inp, Scalar sc) \<Rightarrow> Some (cast_from_uint128 B inp sc)
     | (FheUint160 inp, Scalar sc) \<Rightarrow> Some (cast_from_uint160 B inp sc)
     | (FheUint256 inp, Scalar sc) \<Rightarrow> Some (cast_from_uint256 B inp sc)
     | (FheBytes64 inp, Scalar sc) \<Rightarrow> Some (cast_from_bytes64 B inp sc)
     | (FheBytes128 inp, Scalar sc) \<Rightarrow> Some (cast_from_bytes128 B inp sc)
     | (FheBytes256 inp, Scalar sc) \<Rightarrow> Some (cast_from_bytes256 B inp sc)
     | _ \<Rightarrow> None)"

section \<open>All casts at once\<close>

text \<open>The type a number stands for.\<close>

definition ty_of_num :: "i16 \<Rightarrow> fhe_ty option" where
  "ty_of_num l =
     (if l = 0 then Some TBool
      else if l = 1 then Some TUint4
      else if l = 2 then Some TUint8
      else if l = 3 then Some TUint16
      else if l = 4 then Some TUint32
      else if l = 5 then Some TUint64
      else if l = 6 then Some TUint128
      else if l = 7 then Some TUint160
      else if l = 8 then Some TUint256
      else if l = 9 then Some TUint512
      else if l = 10 then Some TUint1024
      else if l = 11 then Some TUint2048
      else None)"

lemma ty_of_num_ty_num [simp]: "ty_of_num (ty_num t) = Some t"
  by (cases t) (simp_all add: ty_of_num_def)

lemma ty_of_num_Some: "ty_of_num l = Some t \<longleftrightarrow> l = ty_num t"
proof
  assume "ty_of_num l = Some t"
  then show "l = ty_num t" by (auto simp: ty_of_num_def split: if_splits)
qed simp

text \<open>
  A cast to the type of the operand copies it, a cast to a boolean compares it with zero, any
  other cast converts; an unknown target is an error, except for the widest source type, where it
  is a panic.
\<close>

definition cast_to :: "'c tfhe \<Rightarrow> fhe_ty \<Rightarrow> 'c \<Rightarrow> fhe_ty \<Rightarrow> 'c sfc" where
  "cast_to B t inp u =
     (if u = t then mk_ct t inp
      else if u = TBool then FheBool (lib_cmp_scalar B CmpGt t inp 0)
      else mk_ct u (lib_cast B t u inp))"

definition cast_view :: "'c tfhe \<Rightarrow> fhe_ty \<Rightarrow> 'c \<Rightarrow> bytes \<Rightarrow> (fhevm_error, 'c sfc) res" where
  "cast_view B t inp sc =
     (case ty_of_num (to_be_u16_bit sc) of
        Some u \<Rightarrow> Ok (cast_to B t inp u)
      | None \<Rightarrow> if t = TUint2048 then Panic ExplicitPanic
                else Err (UnknownCastType (op_name FheCast) (to_be_u16_bit sc)))"

lemma cast_from_bool_view: "cast_from_bool B inp sc = cast_view B TBool inp sc"
  by (simp add: cast_from_bool_def cast_view_def cast_to_def ty_of_num_def)

lemma cast_from_uint4_view: "cast_from_uint4 B inp sc = cast_view B TUint4 inp sc"
  by (simp add: cast_from_uint4_def cast_view_def cast_to_def ty_of_num_def)

lemma cast_from_uint8_view: "cast_from_uint8 B inp sc = cast_view B TUint8 inp sc"
  by (simp add: cast_from_uint8_def cast_view_def cast_to_def ty_of_num_def)

lemma cast_from_uint16_view: "cast_from_uint16 B inp sc = cast_view B TUint16 inp sc"
  by (simp add: cast_from_uint16_def cast_view_def cast_to_def ty_of_num_def)

lemma cast_from_uint32_view: "cast_from_uint32 B inp sc = cast_view B TUint32 inp sc"
  by (simp add: cast_from_uint32_def cast_view_def cast_to_def ty_of_num_def)

lemma cast_from_uint64_view: "cast_from_uint64 B inp sc = cast_view B TUint64 inp sc"
  by (simp add: cast_from_uint64_def cast_view_def cast_to_def ty_of_num_def)

lemma cast_from_uint128_view: "cast_from_uint128 B inp sc = cast_view B TUint128 inp sc"
  by (simp add: cast_from_uint128_def cast_view_def cast_to_def ty_of_num_def)

lemma cast_from_uint160_view: "cast_from_uint160 B inp sc = cast_view B TUint160 inp sc"
  by (simp add: cast_from_uint160_def cast_view_def cast_to_def ty_of_num_def)

lemma cast_from_uint256_view: "cast_from_uint256 B inp sc = cast_view B TUint256 inp sc"
  by (simp add: cast_from_uint256_def cast_view_def cast_to_def ty_of_num_def)

lemma cast_from_bytes64_view: "cast_from_bytes64 B inp sc = cast_view B TUint512 inp sc"
  by (simp add: cast_from_bytes64_def cast_view_def cast_to_def ty_of_num_def)

lemma cast_from_bytes128_view: "cast_from_bytes128 B inp sc = cast_view B TUint1024 inp sc"
  by (simp add: cast_from_bytes128_def cast_view_def cast_to_def ty_of_num_def)

lemma cast_from_bytes256_view: "cast_from_bytes256 B inp sc = cast_view B TUint2048 inp sc"
  by (simp add: cast_from_bytes256_def cast_view_def cast_to_def ty_of_num_def)

lemmas cast_views =
  cast_from_bool_view
  cast_from_uint4_view
  cast_from_uint8_view
  cast_from_uint16_view
  cast_from_uint32_view
  cast_from_uint64_view
  cast_from_uint128_view
  cast_from_uint160_view
  cast_from_uint256_view
  cast_from_bytes64_view
  cast_from_bytes128_view
  cast_from_bytes256_view

lemma cast_arms_view [arms_simps]:
  "cast_arms B x y =
     (case (ct_view x, y) of
        (Some (t, inp), Scalar sc) \<Rightarrow> Some (cast_view B t inp sc)
      | _ \<Rightarrow> None)"
  by (cases x; cases y) (simp_all add: cast_arms_def cast_views)

end
