(* ===== verification/Creation.thy ===== *)
theory Creation
  imports CastArms
begin

text \<open>
  Where ciphertexts come from (\<open>tfhe_ops.rs\<close>): trivial encryption of clear bytes, random values,
  deserialisation, and the expansion of a list of inputs.
\<close>

section \<open>Trivial encryption\<close>

text \<open>
  The code that pads or truncates the input to \<open>n\<close> bytes, repeated in every arm of
  \<open>trivial_encrypt_be_bytes\<close>.
\<close>

definition pad_be :: "nat \<Rightarrow> bytes \<Rightarrow> bytes" where
  "pad_be n input_bytes =
     (let padded = replicate n 0; padded_len = length padded
      in if input_bytes \<noteq> [] then
           let copy_from =
                 (if padded_len \<ge> length input_bytes then padded_len - length input_bytes else 0);
               len = min padded_len (length input_bytes)
           in take copy_from padded @ drop (length input_bytes - len) input_bytes
         else padded)"

text \<open>\<open>try_encrypt_trivial(v).expect(..)\<close>.\<close>

definition encrypt_trivial :: "'c tfhe \<Rightarrow> fhe_ty \<Rightarrow> nat \<Rightarrow> ('c \<Rightarrow> 'c sfc) \<Rightarrow> (fhevm_error, 'c sfc) res" where
  "encrypt_trivial B t v k =
     (case lib_trivial B t v of None \<Rightarrow> Panic ExpectFailed | Some c \<Rightarrow> Ok (k c))"

text \<open>The arms of 16 bits and more, by the number of bytes of the type.\<close>

definition encrypt_padded :: "'c tfhe \<Rightarrow> fhe_ty \<Rightarrow> nat \<Rightarrow> bytes \<Rightarrow> ('c \<Rightarrow> 'c sfc) \<Rightarrow> (fhevm_error, 'c sfc) res" where
  "encrypt_padded B t n input_bytes k = encrypt_trivial B t (be_val (pad_be n input_bytes)) k"

definition trivial_encrypt_be_bytes :: "'c tfhe \<Rightarrow> i16 \<Rightarrow> bytes \<Rightarrow> (fhevm_error, 'c sfc) res" where
  "trivial_encrypt_be_bytes B output_type input_bytes =
     (let last_byte = last_or_zero input_bytes
      in if output_type = 0 then encrypt_trivial B TBool (of_bool (0 < last_byte)) FheBool
         else if output_type = 1 then encrypt_trivial B TUint4 (unat last_byte) FheUint4
         else if output_type = 2 then encrypt_trivial B TUint8 (unat last_byte) FheUint8
         else if output_type = 3 then encrypt_padded B TUint16 2 input_bytes FheUint16
         else if output_type = 4 then encrypt_padded B TUint32 4 input_bytes FheUint32
         else if output_type = 5 then encrypt_padded B TUint64 8 input_bytes FheUint64
         else if output_type = 6 then encrypt_padded B TUint128 16 input_bytes FheUint128
         else if output_type = 7 then
           encrypt_padded B TUint256 32 input_bytes
             (\<lambda>c. FheUint160 (lib_cast B TUint256 TUint160 c))
         else if output_type = 8 then encrypt_padded B TUint256 32 input_bytes FheUint256
         else if output_type = 9 then encrypt_padded B TUint512 64 input_bytes FheBytes64
         else if output_type = 10 then encrypt_padded B TUint1024 128 input_bytes FheBytes128
         else if output_type = 11 then encrypt_padded B TUint2048 256 input_bytes FheBytes256
         else Panic ExplicitPanic)"

text \<open>
  The padding is the same function as \<open>to_constant_size_array\<close>, written twice in the source.
\<close>

lemma pad_be_constant_size: "pad_be n bs = to_constant_size_array n bs"
  by (auto simp: pad_be_def to_constant_size_array_def Let_def min_def)

lemma be_val_pad_be [be_simps]: "be_val (pad_be n bs) = be_val bs mod 256 ^ n"
  by (simp add: pad_be_constant_size be_val_to_constant_size_array)

text \<open>What trivial encryption encrypts: the bytes as a number, at the width of the type.\<close>

definition trivial_value :: "fhe_ty \<Rightarrow> bytes \<Rightarrow> nat" where
  "trivial_value t bs =
     (if t = TBool then of_bool (be_val bs mod 256 \<noteq> 0) else be_val bs mod 2 ^ ty_bits t)"

lemma last_or_zero_pos: "0 < last_or_zero bs \<longleftrightarrow> be_val bs mod 256 \<noteq> 0"
  by (metis unat_last_or_zero unat_eq_zero word_neq_0_conv)

lemma encrypt_trivial_dec:
  assumes "tfhe_laws B dec sh"
  obtains c where "encrypt_trivial B t v k = Ok (k c)" and "dec c = v mod 2 ^ ty_bits t"
  using lib_trivial_dec [OF assms, of t v] by (metis encrypt_trivial_def option.simps(5))

lemma trivial_encrypt_view:
  assumes laws: "tfhe_laws B dec sh"
  obtains c where "trivial_encrypt_be_bytes B (ty_num t) bs = Ok (mk_ct t c)"
    and "dec c = trivial_value t bs"
proof -
  note enc = encrypt_trivial_dec [OF laws]
  note unf = trivial_encrypt_be_bytes_def encrypt_padded_def trivial_value_def be_val_pad_be
    unat_last_or_zero last_or_zero_pos mod_mod_cancel
  have "\<exists>c. trivial_encrypt_be_bytes B (ty_num t) bs = Ok (mk_ct t c) \<and> dec c = trivial_value t bs"
  proof (cases t)
    case TBool
    then show ?thesis
      using enc [of TBool "of_bool (be_val bs mod 256 \<noteq> 0)" FheBool] by (fastforce simp: unf)
  next
    case TUint4
    then show ?thesis
      using enc [of TUint4 "be_val bs mod 256" FheUint4] by (fastforce simp: unf)
  next
    case TUint8
    then show ?thesis
      using enc [of TUint8 "be_val bs mod 256" FheUint8] by (fastforce simp: unf)
  next
    case TUint16
    then show ?thesis
      using enc [of TUint16 "be_val bs mod 256 ^ 2" FheUint16] by (fastforce simp: unf)
  next
    case TUint32
    then show ?thesis
      using enc [of TUint32 "be_val bs mod 256 ^ 4" FheUint32] by (fastforce simp: unf)
  next
    case TUint64
    then show ?thesis
      using enc [of TUint64 "be_val bs mod 256 ^ 8" FheUint64] by (fastforce simp: unf)
  next
    case TUint128
    then show ?thesis
      using enc [of TUint128 "be_val bs mod 256 ^ 16" FheUint128] by (fastforce simp: unf)
  next
    case TUint160
    obtain c where c: "encrypt_trivial B TUint256 (be_val bs mod 256 ^ 32)
          (\<lambda>c. FheUint160 (lib_cast B TUint256 TUint160 c))
        = Ok (FheUint160 (lib_cast B TUint256 TUint160 c))"
      and d: "dec c = (be_val bs mod 256 ^ 32) mod 2 ^ ty_bits TUint256"
      by (rule enc)
    have "dec (lib_cast B TUint256 TUint160 c) = dec c mod 2 ^ 160"
      using lib_unary_dec(3) [OF laws, of c TUint256 TUint160] d by simp
    also have "\<dots> = be_val bs mod 2 ^ 160"
      by (simp add: d mod_mod_cancel)
    finally show ?thesis using TUint160 c by (simp add: unf)
  next
    case TUint256
    then show ?thesis
      using enc [of TUint256 "be_val bs mod 256 ^ 32" FheUint256] by (fastforce simp: unf)
  next
    case TUint512
    then show ?thesis
      using enc [of TUint512 "be_val bs mod 256 ^ 64" FheBytes64] by (fastforce simp: unf)
  next
    case TUint1024
    then show ?thesis
      using enc [of TUint1024 "be_val bs mod 256 ^ 128" FheBytes128] by (fastforce simp: unf)
  next
    case TUint2048
    then show ?thesis
      using enc [of TUint2048 "be_val bs mod 256 ^ 256" FheBytes256] by (fastforce simp: unf)
  qed
  then show thesis using that by blast
qed

lemma trivial_encrypt_unknown:
  "ty_of_num l = None \<Longrightarrow> trivial_encrypt_be_bytes B l bs = Panic ExplicitPanic"
  by (auto simp: ty_of_num_def trivial_encrypt_be_bytes_def split: if_splits)

section \<open>Random values\<close>

text \<open>\<open>upper_bound.map(be_number_random_bits).unwrap_or(bit_count).min(bit_count)\<close>.\<close>

definition random_bits :: "bytes option \<Rightarrow> nat \<Rightarrow> nat" where
  "random_bits upper_bound bit_count =
     min (case upper_bound of None \<Rightarrow> bit_count | Some ub \<Rightarrow> be_number_random_bits ub) bit_count"

definition generate_random_number ::
  "'c tfhe \<Rightarrow> i16 \<Rightarrow> u128 \<Rightarrow> bytes option \<Rightarrow> (fhevm_error, 'c sfc) res" where
  "generate_random_number B the_type seed upper_bound =
     (if the_type = 0 then Ok (FheBool (lib_rand B TBool seed))
      else if the_type = 1 then
        Ok (FheUint4 (lib_rand_bounded B TUint4 seed (random_bits upper_bound 4)))
      else if the_type = 2 then
        Ok (FheUint8 (lib_rand_bounded B TUint8 seed (random_bits upper_bound 8)))
      else if the_type = 3 then
        Ok (FheUint16 (lib_rand_bounded B TUint16 seed (random_bits upper_bound 16)))
      else if the_type = 4 then
        Ok (FheUint32 (lib_rand_bounded B TUint32 seed (random_bits upper_bound 32)))
      else if the_type = 5 then
        Ok (FheUint64 (lib_rand_bounded B TUint64 seed (random_bits upper_bound 64)))
      else if the_type = 6 then
        Ok (FheUint128 (lib_rand_bounded B TUint128 seed (random_bits upper_bound 128)))
      else if the_type = 7 then
        Ok (FheUint160 (lib_rand_bounded B TUint160 seed (random_bits upper_bound 160)))
      else if the_type = 8 then
        Ok (FheUint256 (lib_rand_bounded B TUint256 seed (random_bits upper_bound 256)))
      else if the_type = 9 then
        Ok (FheBytes64 (lib_rand_bounded B TUint512 seed (random_bits upper_bound 512)))
      else if the_type = 10 then
        Ok (FheBytes128 (lib_rand_bounded B TUint1024 seed (random_bits upper_bound 1024)))
      else if the_type = 11 then
        Ok (FheBytes256 (lib_rand_bounded B TUint2048 seed (random_bits upper_bound 2048)))
      else Panic ExplicitPanic)"

lemma generate_random_number_view:
  "generate_random_number B l seed ub =
     (case ty_of_num l of
        None \<Rightarrow> Panic ExplicitPanic
      | Some t \<Rightarrow> Ok (mk_ct t (if t = TBool then lib_rand B TBool seed
                                else lib_rand_bounded B t seed (random_bits ub (ty_bits t)))))"
  by (simp add: generate_random_number_def ty_of_num_def)

lemma random_bits_le: "random_bits ub n \<le> n"
  by (simp add: random_bits_def)

section \<open>Deserialisation\<close>

text \<open>\<open>safe_deserialize\<close>: \<open>lib_deser\<close> is the library's function, at the type asked for.\<close>

definition safe_deserialize :: "(bytes \<Rightarrow> lib_error + 'o) \<Rightarrow> bytes \<Rightarrow> ('o \<Rightarrow> 'r) \<Rightarrow> (fhevm_error, 'r) res" where
  "safe_deserialize lib_deser input k =
     (case lib_deser input of Inl e \<Rightarrow> Err (DeserializationError e) | Inr v \<Rightarrow> Ok (k v))"

definition deserialize_fhe_ciphertext ::
  "(fhe_ty \<Rightarrow> bytes \<Rightarrow> lib_error + 'c) \<Rightarrow> i16 \<Rightarrow> bytes \<Rightarrow> (fhevm_error, 'c sfc) res" where
  "deserialize_fhe_ciphertext lib_deser input_type input_bytes =
     (if input_type = 0 then safe_deserialize (lib_deser TBool) input_bytes FheBool
      else if input_type = 1 then safe_deserialize (lib_deser TUint4) input_bytes FheUint4
      else if input_type = 2 then safe_deserialize (lib_deser TUint8) input_bytes FheUint8
      else if input_type = 3 then safe_deserialize (lib_deser TUint16) input_bytes FheUint16
      else if input_type = 4 then safe_deserialize (lib_deser TUint32) input_bytes FheUint32
      else if input_type = 5 then safe_deserialize (lib_deser TUint64) input_bytes FheUint64
      else if input_type = 6 then safe_deserialize (lib_deser TUint128) input_bytes FheUint128
      else if input_type = 7 then safe_deserialize (lib_deser TUint160) input_bytes FheUint160
      else if input_type = 8 then safe_deserialize (lib_deser TUint256) input_bytes FheUint256
      else if input_type = 9 then safe_deserialize (lib_deser TUint512) input_bytes FheBytes64
      else if input_type = 10 then safe_deserialize (lib_deser TUint1024) input_bytes FheBytes128
      else if input_type = 11 then safe_deserialize (lib_deser TUint2048) input_bytes FheBytes256
      else Err (UnknownFheType (i16_as_i32 input_type)))"

lemma deserialize_view:
  "deserialize_fhe_ciphertext lib_deser l bs =
     (case ty_of_num l of
        None \<Rightarrow> Err (UnknownFheType (i16_as_i32 l))
      | Some t \<Rightarrow> safe_deserialize (lib_deser t) bs (mk_ct t))"
  by (simp add: deserialize_fhe_ciphertext_def ty_of_num_def)

section \<open>Lists of inputs\<close>

text \<open>
  An expanded list of the library: its length, the kind of the ciphertext at an index, and the
  ciphertext at an index read at a type (an error, nothing, or the ciphertext). A kind is one of
  the engine's types or another of the library's, known by its number.
\<close>

datatype lib_kind = Kind fhe_ty | OtherKind int

record 'c expander =
  ex_len :: nat
  ex_kind :: "nat \<Rightarrow> lib_kind option"
  ex_get :: "nat \<Rightarrow> fhe_ty \<Rightarrow> lib_error + 'c option"

definition expected_data :: "lib_error + 'c option \<Rightarrow> ('c \<Rightarrow> 'c sfc) \<Rightarrow> (fhevm_error, 'c sfc) res" where
  "expected_data r k =
     (case r of
        Inl e \<Rightarrow> Err (DeserializationError e)
      | Inr None \<Rightarrow> Err (DeserializationError ''failed to get expected data type'')
      | Inr (Some c) \<Rightarrow> Ok (k c))"

text \<open>The body of the loop of \<open>extract_ct_list\<close>, for one index.\<close>

definition extract_ct :: "'c expander \<Rightarrow> nat \<Rightarrow> (fhevm_error, 'c sfc) res" where
  "extract_ct e idx =
     (case ex_kind e idx of
        None \<Rightarrow> Panic ExplicitPanic
      | Some (Kind TBool) \<Rightarrow> expected_data (ex_get e idx TBool) FheBool
      | Some (Kind TUint4) \<Rightarrow> expected_data (ex_get e idx TUint4) FheUint4
      | Some (Kind TUint8) \<Rightarrow> expected_data (ex_get e idx TUint8) FheUint8
      | Some (Kind TUint16) \<Rightarrow> expected_data (ex_get e idx TUint16) FheUint16
      | Some (Kind TUint32) \<Rightarrow> expected_data (ex_get e idx TUint32) FheUint32
      | Some (Kind TUint64) \<Rightarrow> expected_data (ex_get e idx TUint64) FheUint64
      | Some (Kind TUint128) \<Rightarrow> expected_data (ex_get e idx TUint128) FheUint128
      | Some (Kind TUint160) \<Rightarrow> expected_data (ex_get e idx TUint160) FheUint160
      | Some (Kind TUint256) \<Rightarrow> expected_data (ex_get e idx TUint256) FheUint256
      | Some (Kind TUint512) \<Rightarrow> expected_data (ex_get e idx TUint512) FheBytes64
      | Some (Kind TUint1024) \<Rightarrow> expected_data (ex_get e idx TUint1024) FheBytes128
      | Some (Kind TUint2048) \<Rightarrow> expected_data (ex_get e idx TUint2048) FheBytes256
      | Some (OtherKind n) \<Rightarrow> Err (CiphertextExpansionUnsupportedCiphertextKind n))"

text \<open>The loop, over the indexes from \<open>idx\<close> on.\<close>

fun extract_from :: "'c expander \<Rightarrow> nat list \<Rightarrow> 'c sfc list \<Rightarrow> (fhevm_error, 'c sfc list) res" where
  "extract_from e [] res = Ok res"
| "extract_from e (idx # idxs) res =
     bind_res (extract_ct e idx) (\<lambda>ct. extract_from e idxs (res @ [ct]))"

definition extract_ct_list :: "'c expander \<Rightarrow> (fhevm_error, 'c sfc list) res" where
  "extract_ct_list e = extract_from e [0..<ex_len e] []"

text \<open>
  \<open>try_expand_ciphertext_list\<close>: the encryption parameters of the configuration (absent: an error),
  the conformant deserialisation of the list, its expansion, and the extraction.
\<close>

definition try_expand_ciphertext_list ::
  "'par option \<Rightarrow> ('par \<Rightarrow> 'crs \<Rightarrow> bytes \<Rightarrow> lib_error + 'p) \<Rightarrow> ('p \<Rightarrow> lib_error + 'c expander)
     \<Rightarrow> bytes \<Rightarrow> 'crs \<Rightarrow> (fhevm_error, 'c sfc list) res" where
  "try_expand_ciphertext_list pk_params deser_conformant expand input_ciphertext public_params =
     (case pk_params of
        None \<Rightarrow> Err MissingTfheRsData
      | Some pk \<Rightarrow>
          (case deser_conformant pk public_params input_ciphertext of
             Inl e \<Rightarrow> Err (DeserializationError e)
           | Inr the_list \<Rightarrow>
               (case expand the_list of
                  Inl e \<Rightarrow> Err (CiphertextExpansionError e)
                | Inr expanded \<Rightarrow> extract_ct_list expanded)))"

lemma extract_ct_view:
  "extract_ct e idx =
     (case ex_kind e idx of
        None \<Rightarrow> Panic ExplicitPanic
      | Some (Kind t) \<Rightarrow> expected_data (ex_get e idx t) (mk_ct t)
      | Some (OtherKind n) \<Rightarrow> Err (CiphertextExpansionUnsupportedCiphertextKind n))"
  by (auto simp: extract_ct_def split: option.split lib_kind.split fhe_ty.split)

lemma extract_from_Ok:
  "extract_from e idxs acc = Ok cts \<longleftrightarrow>
     (\<exists>new. cts = acc @ new \<and> list_all2 (\<lambda>i ct. extract_ct e i = Ok ct) idxs new)"
proof (induction idxs arbitrary: acc)
  case Nil
  then show ?case by auto
next
  case (Cons i idxs)
  show ?case
    by (auto simp: bind_res_eq_Ok Cons.IH list_all2_Cons1)
qed

end
