(* ===== verification/PerformOperation.thy ===== *)
theory PerformOperation
  imports Creation
begin

text \<open>
  \<open>perform_fhe_operation_impl\<close> (\<open>tfhe_ops.rs\<close>): one definition per operation, in the order of the
  source, and the dispatch on the operation code. Then the specification: the same operations on
  clear values (\<open>clear_perform\<close>), and when a call panics (\<open>panic_condition\<close>).
\<close>

section \<open>The operations\<close>

definition unsupported :: "fhe_op \<Rightarrow> 'c sfc list \<Rightarrow> (fhevm_error, 'r) res" where
  "unsupported op ops = Err (UnsupportedFheTypes (op_name op) (map type_name ops))"

text \<open>A match with the wildcard arm of the source.\<close>

definition or_unsupported ::
  "fhe_op \<Rightarrow> 'c sfc list \<Rightarrow> (fhevm_error, 'r) res option \<Rightarrow> (fhevm_error, 'r) res" where
  "or_unsupported op ops m = (case m of Some r \<Rightarrow> r | None \<Rightarrow> unsupported op ops)"

definition binary_match ::
  "fhe_op \<Rightarrow> ('c sfc \<Rightarrow> 'c sfc \<Rightarrow> (fhevm_error, 'c sfc) res option) \<Rightarrow> 'c sfc list
     \<Rightarrow> (fhevm_error, 'c sfc) res" where
  "binary_match op arms ops =
     assert_then (length ops = 2) (or_unsupported op ops (arms (ops ! 0) (ops ! 1)))"

definition unary_match ::
  "fhe_op \<Rightarrow> ('c sfc \<Rightarrow> (fhevm_error, 'c sfc) res option) \<Rightarrow> 'c sfc list
     \<Rightarrow> (fhevm_error, 'c sfc) res" where
  "unary_match op arms ops = assert_then (length ops = 1) (or_unsupported op ops (arms (ops ! 0)))"

definition perform_add :: "'c tfhe \<Rightarrow> 'c sfc list \<Rightarrow> (fhevm_error, 'c sfc) res" where
  "perform_add B ops = binary_match FheAdd (bin_uint_arms B OpAdd) ops"

definition perform_sub :: "'c tfhe \<Rightarrow> 'c sfc list \<Rightarrow> (fhevm_error, 'c sfc) res" where
  "perform_sub B ops = binary_match FheSub (bin_uint_arms B OpSub) ops"

definition perform_mul :: "'c tfhe \<Rightarrow> 'c sfc list \<Rightarrow> (fhevm_error, 'c sfc) res" where
  "perform_mul B ops = binary_match FheMul (bin_uint_arms B OpMul) ops"

definition perform_div :: "'c tfhe \<Rightarrow> 'c sfc list \<Rightarrow> (fhevm_error, 'c sfc) res" where
  "perform_div B ops = binary_match FheDiv (bin_uint_arms B OpDiv) ops"

definition perform_rem :: "'c tfhe \<Rightarrow> 'c sfc list \<Rightarrow> (fhevm_error, 'c sfc) res" where
  "perform_rem B ops = binary_match FheRem (bin_uint_arms B OpRem) ops"

definition perform_bit_and :: "'c tfhe \<Rightarrow> 'c sfc list \<Rightarrow> (fhevm_error, 'c sfc) res" where
  "perform_bit_and B ops = binary_match FheBitAnd (bin_bits_arms B OpAnd) ops"

definition perform_bit_or :: "'c tfhe \<Rightarrow> 'c sfc list \<Rightarrow> (fhevm_error, 'c sfc) res" where
  "perform_bit_or B ops = binary_match FheBitOr (bin_bits_arms B OpOr) ops"

definition perform_bit_xor :: "'c tfhe \<Rightarrow> 'c sfc list \<Rightarrow> (fhevm_error, 'c sfc) res" where
  "perform_bit_xor B ops = binary_match FheBitXor (bin_bits_arms B OpXor) ops"

definition perform_shl :: "'c tfhe \<Rightarrow> 'c sfc list \<Rightarrow> (fhevm_error, 'c sfc) res" where
  "perform_shl B ops = binary_match FheShl (bin_shift_arms B OpShl) ops"

definition perform_shr :: "'c tfhe \<Rightarrow> 'c sfc list \<Rightarrow> (fhevm_error, 'c sfc) res" where
  "perform_shr B ops = binary_match FheShr (bin_shift_arms B OpShr) ops"

definition perform_rotl :: "'c tfhe \<Rightarrow> 'c sfc list \<Rightarrow> (fhevm_error, 'c sfc) res" where
  "perform_rotl B ops = binary_match FheRotl (bin_shift_arms B OpRotl) ops"

definition perform_rotr :: "'c tfhe \<Rightarrow> 'c sfc list \<Rightarrow> (fhevm_error, 'c sfc) res" where
  "perform_rotr B ops = binary_match FheRotr (bin_shift_arms B OpRotr) ops"

definition perform_min :: "'c tfhe \<Rightarrow> 'c sfc list \<Rightarrow> (fhevm_error, 'c sfc) res" where
  "perform_min B ops = binary_match FheMin (bin_uint_arms B OpMin) ops"

definition perform_max :: "'c tfhe \<Rightarrow> 'c sfc list \<Rightarrow> (fhevm_error, 'c sfc) res" where
  "perform_max B ops = binary_match FheMax (bin_uint_arms B OpMax) ops"

definition perform_eq :: "'c tfhe \<Rightarrow> 'c sfc list \<Rightarrow> (fhevm_error, 'c sfc) res" where
  "perform_eq B ops = binary_match FheEq (cmp_eq_arms B CmpEq) ops"

definition perform_ne :: "'c tfhe \<Rightarrow> 'c sfc list \<Rightarrow> (fhevm_error, 'c sfc) res" where
  "perform_ne B ops = binary_match FheNe (cmp_eq_arms B CmpNe) ops"

definition perform_ge :: "'c tfhe \<Rightarrow> 'c sfc list \<Rightarrow> (fhevm_error, 'c sfc) res" where
  "perform_ge B ops = binary_match FheGe (cmp_ord_arms B CmpGe) ops"

definition perform_gt :: "'c tfhe \<Rightarrow> 'c sfc list \<Rightarrow> (fhevm_error, 'c sfc) res" where
  "perform_gt B ops = binary_match FheGt (cmp_ord_arms B CmpGt) ops"

definition perform_le :: "'c tfhe \<Rightarrow> 'c sfc list \<Rightarrow> (fhevm_error, 'c sfc) res" where
  "perform_le B ops = binary_match FheLe (cmp_ord_arms B CmpLe) ops"

definition perform_lt :: "'c tfhe \<Rightarrow> 'c sfc list \<Rightarrow> (fhevm_error, 'c sfc) res" where
  "perform_lt B ops = binary_match FheLt (cmp_ord_arms B CmpLt) ops"

definition perform_not :: "'c tfhe \<Rightarrow> 'c sfc list \<Rightarrow> (fhevm_error, 'c sfc) res" where
  "perform_not B ops = unary_match FheNot (not_arms B) ops"

definition perform_neg :: "'c tfhe \<Rightarrow> 'c sfc list \<Rightarrow> (fhevm_error, 'c sfc) res" where
  "perform_neg B ops = unary_match FheNeg (neg_arms B) ops"

definition perform_if_then_else :: "'c tfhe \<Rightarrow> 'c sfc list \<Rightarrow> (fhevm_error, 'c sfc) res" where
  "perform_if_then_else B ops =
     assert_then (length ops = 3)
       (case ops ! 0 of
          FheBool flag \<Rightarrow> or_unsupported FheIfThenElse ops (select_arms B flag (ops ! 1) (ops ! 2))
        | _ \<Rightarrow> unsupported FheIfThenElse ops)"

definition perform_cast :: "'c tfhe \<Rightarrow> 'c sfc list \<Rightarrow> (fhevm_error, 'c sfc) res" where
  "perform_cast B ops =
     index_then ops 0 (\<lambda>x. index_then ops 1 (\<lambda>y. or_unsupported FheCast ops (cast_arms B x y)))"

definition perform_trivial_encrypt :: "'c tfhe \<Rightarrow> 'c sfc list \<Rightarrow> (fhevm_error, 'c sfc) res" where
  "perform_trivial_encrypt B ops =
     index_then ops 0 (\<lambda>x. index_then ops 1 (\<lambda>y.
       (case x of
          Scalar inp \<Rightarrow>
            (case y of
               Scalar op \<Rightarrow> trivial_encrypt_be_bytes B (to_be_u16_bit op) inp
             | _ \<Rightarrow> unsupported FheTrivialEncrypt ops)
        | _ \<Rightarrow> unsupported FheTrivialEncrypt ops)))"

text \<open>\<open>let Scalar(bs) = &input_operands[i] else { return Err(..) }\<close>.\<close>

definition let_scalar ::
  "fhe_op \<Rightarrow> 'c sfc list \<Rightarrow> nat \<Rightarrow> (bytes \<Rightarrow> (fhevm_error, 'c sfc) res) \<Rightarrow> (fhevm_error, 'c sfc) res" where
  "let_scalar op ops i k =
     index_then ops i (\<lambda>x. case x of Scalar bs \<Rightarrow> k bs | _ \<Rightarrow> unsupported op ops)"

definition perform_rand :: "'c tfhe \<Rightarrow> 'c sfc list \<Rightarrow> (fhevm_error, 'c sfc) res" where
  "perform_rand B ops =
     let_scalar FheRand ops 0 (\<lambda>rand_counter.
     let_scalar FheRand ops 1 (\<lambda>to_type.
       generate_random_number B (to_be_u16_bit to_type) (to_be_u128_bit rand_counter) None))"

definition perform_rand_bounded :: "'c tfhe \<Rightarrow> 'c sfc list \<Rightarrow> (fhevm_error, 'c sfc) res" where
  "perform_rand_bounded B ops =
     let_scalar FheRandBounded ops 0 (\<lambda>rand_counter.
     let_scalar FheRandBounded ops 1 (\<lambda>upper_bound.
     let_scalar FheRandBounded ops 2 (\<lambda>to_type.
       generate_random_number B (to_be_u16_bit to_type) (to_be_u128_bit rand_counter)
         (Some upper_bound))))"

section \<open>The dispatch\<close>

fun perform_op :: "fhe_op \<Rightarrow> 'c tfhe \<Rightarrow> 'c sfc list \<Rightarrow> (fhevm_error, 'c sfc) res" where
  "perform_op FheAdd B ops = perform_add B ops"
| "perform_op FheSub B ops = perform_sub B ops"
| "perform_op FheMul B ops = perform_mul B ops"
| "perform_op FheDiv B ops = perform_div B ops"
| "perform_op FheRem B ops = perform_rem B ops"
| "perform_op FheBitAnd B ops = perform_bit_and B ops"
| "perform_op FheBitOr B ops = perform_bit_or B ops"
| "perform_op FheBitXor B ops = perform_bit_xor B ops"
| "perform_op FheShl B ops = perform_shl B ops"
| "perform_op FheShr B ops = perform_shr B ops"
| "perform_op FheRotl B ops = perform_rotl B ops"
| "perform_op FheRotr B ops = perform_rotr B ops"
| "perform_op FheMin B ops = perform_min B ops"
| "perform_op FheMax B ops = perform_max B ops"
| "perform_op FheEq B ops = perform_eq B ops"
| "perform_op FheNe B ops = perform_ne B ops"
| "perform_op FheGe B ops = perform_ge B ops"
| "perform_op FheGt B ops = perform_gt B ops"
| "perform_op FheLe B ops = perform_le B ops"
| "perform_op FheLt B ops = perform_lt B ops"
| "perform_op FheNot B ops = perform_not B ops"
| "perform_op FheNeg B ops = perform_neg B ops"
| "perform_op FheIfThenElse B ops = perform_if_then_else B ops"
| "perform_op FheCast B ops = perform_cast B ops"
| "perform_op FheTrivialEncrypt B ops = perform_trivial_encrypt B ops"
| "perform_op FheRand B ops = perform_rand B ops"
| "perform_op FheRandBounded B ops = perform_rand_bounded B ops"
| "perform_op FheGetInputCiphertext B ops = Panic TodoMacro"

definition perform_fhe_operation_impl ::
  "'c tfhe \<Rightarrow> i16 \<Rightarrow> 'c sfc list \<Rightarrow> (fhevm_error, 'c sfc) res" where
  "perform_fhe_operation_impl B fhe_operation_int input_operands =
     bind_res (op_try_from_i16 fhe_operation_int) (\<lambda>fhe_operation.
       perform_op fhe_operation B input_operands)"

text \<open>\<open>perform_fhe_operation\<close>, as compiled without the \<open>gpu\<close> feature: the GPU index is ignored.\<close>

definition perform_fhe_operation ::
  "'c tfhe \<Rightarrow> i16 \<Rightarrow> 'c sfc list \<Rightarrow> nat \<Rightarrow> (fhevm_error, 'c sfc) res" where
  "perform_fhe_operation B fhe_operation_int input_operands gpu_idx =
     perform_fhe_operation_impl B fhe_operation_int input_operands"

lemma perform_impl_op:
  "perform_fhe_operation_impl B (op_to_i16 op) ops = perform_op op B ops"
  by (simp add: perform_fhe_operation_impl_def op16.dec_enc)

lemmas perform_defs =
  perform_add_def
  perform_sub_def
  perform_mul_def
  perform_div_def
  perform_rem_def
  perform_bit_and_def
  perform_bit_or_def
  perform_bit_xor_def
  perform_shl_def
  perform_shr_def
  perform_rotl_def
  perform_rotr_def
  perform_min_def
  perform_max_def
  perform_eq_def
  perform_ne_def
  perform_ge_def
  perform_gt_def
  perform_le_def
  perform_lt_def
  perform_not_def perform_neg_def

section \<open>The specification on clear values\<close>

text \<open>A clear operand: a number of a type, or the bytes of a scalar.\<close>

datatype clear = Val fhe_ty nat | Bytes bytes

definition abs_ct :: "('c \<Rightarrow> nat) \<Rightarrow> 'c sfc \<Rightarrow> clear" where
  "abs_ct dec x =
     (case ct_view x of
        Some (t, a) \<Rightarrow> Val t (dec a)
      | None \<Rightarrow> (case x of Scalar bs \<Rightarrow> Bytes bs | _ \<Rightarrow> Bytes []))"

lemma abs_ct_simps [simp]:
  "abs_ct dec (mk_ct t a) = Val t (dec a)"
  "abs_ct dec (Scalar bs) = Bytes bs"
  by (simp_all add: abs_ct_def)

text \<open>A scalar operand at a type: reduced to its width, or tested against zero for a boolean.\<close>

definition clear_scalar :: "fhe_ty \<Rightarrow> bytes \<Rightarrow> nat" where
  "clear_scalar t bs =
     (if t = TBool then of_bool (be_val bs \<noteq> 0) else be_val bs mod 2 ^ ty_bits t)"

fun clear_binary ::
  "(fhe_ty \<Rightarrow> bool) \<Rightarrow> (fhe_ty \<Rightarrow> nat \<Rightarrow> nat \<Rightarrow> clear) \<Rightarrow> (nat \<Rightarrow> bool) \<Rightarrow> clear list \<Rightarrow> clear option" where
  "clear_binary S f refused [Val t a, Val u b] = (if S t \<and> u = t then Some (f t a b) else None)"
| "clear_binary S f refused [Val t a, Bytes bs] =
     (if S t \<and> \<not> refused (clear_scalar t bs) then Some (f t a (clear_scalar t bs)) else None)"
| "clear_binary S f refused _ = None"

definition clear_arith ::
  "shift_sem \<Rightarrow> (fhe_ty \<Rightarrow> bool) \<Rightarrow> lib_binop \<Rightarrow> clear list \<Rightarrow> clear option" where
  "clear_arith sh S f =
     clear_binary S (\<lambda>t a b. Val t (clear_bin sh f (ty_bits t) a b)) (scalar_refused f)"

definition clear_compare :: "(fhe_ty \<Rightarrow> bool) \<Rightarrow> lib_cmpop \<Rightarrow> clear list \<Rightarrow> clear option" where
  "clear_compare S f =
     clear_binary S (\<lambda>t a b. Val TBool (of_bool (clear_cmp f a b))) (\<lambda>_. False)"

fun clear_not :: "clear list \<Rightarrow> clear option" where
  "clear_not [Val t a] = Some (Val t (2 ^ ty_bits t - 1 - a))"
| "clear_not _ = None"

fun clear_neg :: "clear list \<Rightarrow> clear option" where
  "clear_neg [Val t a] =
     (if uint_ty t then Some (Val t ((2 ^ ty_bits t - a) mod 2 ^ ty_bits t)) else None)"
| "clear_neg _ = None"

fun clear_if :: "clear list \<Rightarrow> clear option" where
  "clear_if [Val TBool c, Val t a, Val u b] =
     (if u = t then Some (Val t (if c \<noteq> 0 then a else b)) else None)"
| "clear_if _ = None"

definition ty_of_bytes :: "bytes \<Rightarrow> fhe_ty option" where
  "ty_of_bytes sc = ty_of_num (of_nat (be_val sc))"

fun clear_cast :: "clear list \<Rightarrow> clear option" where
  "clear_cast (Val t a # Bytes sc # _) =
     (case ty_of_bytes sc of
        None \<Rightarrow> None
      | Some u \<Rightarrow> Some (Val u (if u = TBool then of_bool (a \<noteq> 0) else a mod 2 ^ ty_bits u)))"
| "clear_cast _ = None"

fun clear_trivial :: "clear list \<Rightarrow> clear option" where
  "clear_trivial (Bytes v # Bytes sc # _) =
     (case ty_of_bytes sc of None \<Rightarrow> None | Some u \<Rightarrow> Some (Val u (trivial_value u v)))"
| "clear_trivial _ = None"

text \<open>The deterministic operations; the random ones have a specification of their own.\<close>

fun clear_perform :: "shift_sem \<Rightarrow> fhe_op \<Rightarrow> clear list \<Rightarrow> clear option" where
  "clear_perform sh FheAdd = clear_arith sh uint_ty OpAdd"
| "clear_perform sh FheSub = clear_arith sh uint_ty OpSub"
| "clear_perform sh FheMul = clear_arith sh uint_ty OpMul"
| "clear_perform sh FheDiv = clear_arith sh uint_ty OpDiv"
| "clear_perform sh FheRem = clear_arith sh uint_ty OpRem"
| "clear_perform sh FheBitAnd = clear_arith sh any_ty OpAnd"
| "clear_perform sh FheBitOr = clear_arith sh any_ty OpOr"
| "clear_perform sh FheBitXor = clear_arith sh any_ty OpXor"
| "clear_perform sh FheShl = clear_arith sh uint_or_ebytes OpShl"
| "clear_perform sh FheShr = clear_arith sh uint_or_ebytes OpShr"
| "clear_perform sh FheRotl = clear_arith sh uint_or_ebytes OpRotl"
| "clear_perform sh FheRotr = clear_arith sh uint_or_ebytes OpRotr"
| "clear_perform sh FheMin = clear_arith sh uint_ty OpMin"
| "clear_perform sh FheMax = clear_arith sh uint_ty OpMax"
| "clear_perform sh FheEq = clear_compare any_ty CmpEq"
| "clear_perform sh FheNe = clear_compare any_ty CmpNe"
| "clear_perform sh FheGe = clear_compare uint_ty CmpGe"
| "clear_perform sh FheGt = clear_compare uint_ty CmpGt"
| "clear_perform sh FheLe = clear_compare uint_ty CmpLe"
| "clear_perform sh FheLt = clear_compare uint_ty CmpLt"
| "clear_perform sh FheNot = clear_not"
| "clear_perform sh FheNeg = clear_neg"
| "clear_perform sh FheIfThenElse = clear_if"
| "clear_perform sh FheCast = clear_cast"
| "clear_perform sh FheTrivialEncrypt = clear_trivial"
| "clear_perform sh _ = (\<lambda>_. None)"

fun ok_val :: "('e, 'a) res \<Rightarrow> 'a option" where
  "ok_val (Ok x) = Some x"
| "ok_val _ = None"

lemma clear_scalar_of: "scalar_of t bs = clear_scalar t bs"
  by (cases "t = TBool") (simp_all add: clear_scalar_def scalar_of_bool scalar_of_uint del: scalar_of.simps)

lemma to_be_u16_ty: "ty_of_num (to_be_u16_bit sc) = ty_of_bytes sc"
proof -
  have "to_be_u16_bit sc = of_nat (be_val sc)"
    by (rule word_unat_eq_iff [THEN iffD2]) (simp add: rd16.unat_rd unat_of_nat)
  then show ?thesis by (simp add: ty_of_bytes_def)
qed

end
