(* ===== verification/PerformCorrect.thy ===== *)
theory PerformCorrect
  imports PerformOperation
begin

text \<open>
  The engine computes the right operation: under the laws the library documents, a call of
  \<open>perform_fhe_operation_impl\<close> returns a ciphertext exactly when the specification on clear values
  is defined, and it decrypts to the specification's value. The random operations, the calls that
  panic, and the agreement of the scalar path with trivial encryption follow.
\<close>

section \<open>Operand lists by length\<close>

lemma length_2_iff: "length xs = 2 \<longleftrightarrow> (\<exists>x y. xs = [x, y])"
  by (auto simp: numeral_2_eq_2 length_Suc_conv)

lemma length_3_iff: "length xs = 3 \<longleftrightarrow> (\<exists>x y z. xs = [x, y, z])"
  by (auto simp: numeral_3_eq_3 length_Suc_conv)

lemma length_1_iff: "length xs = 1 \<longleftrightarrow> (\<exists>x. xs = [x])"
  by (auto simp: length_Suc_conv)

lemma clear_binary_length: "length xs \<noteq> 2 \<Longrightarrow> clear_binary S f r xs = None"
  by (cases "(S, f, r, xs)" rule: clear_binary.cases) auto

lemma clear_not_length: "length xs \<noteq> 1 \<Longrightarrow> clear_not xs = None"
  by (cases xs rule: clear_not.cases) auto

lemma clear_neg_length: "length xs \<noteq> 1 \<Longrightarrow> clear_neg xs = None"
  by (cases xs rule: clear_neg.cases) auto

lemma clear_if_length: "length xs \<noteq> 3 \<Longrightarrow> clear_if xs = None"
  by (cases xs rule: clear_if.cases) auto

lemma clear_if_not_flag: "t \<noteq> TBool \<Longrightarrow> clear_if [Val t c, x, y] = None"
  by (cases "[Val t c, x, y]" rule: clear_if.cases) auto

lemma clear_cast_cases:
  obtains (nil) "xs = []" | (one) x where "xs = [x]" | (two) x y zs where "xs = x # y # zs"
  by (metis list.exhaust)

lemma mk_ct_case_scalar: "(case mk_ct t a of Scalar bs \<Rightarrow> f bs | _ \<Rightarrow> e) = e"
  by (cases t) simp_all

section \<open>The arms as functions\<close>

lemma bin_uint_arms_fun:
  "bin_uint_arms B f = typed_arms uint_ty (\<lambda>t a b. Ok (mk_ct t (lib_bin B f t a b)))
     (\<lambda>t a n. of_lib (mk_ct t) (lib_bin_scalar B f t a n))"
  by (intro ext) (rule bin_uint_arms_view)

lemma bin_bits_arms_fun:
  "bin_bits_arms B f = typed_arms any_ty (\<lambda>t a b. Ok (mk_ct t (lib_bin B f t a b)))
     (\<lambda>t a n. of_lib (mk_ct t) (lib_bin_scalar B f t a n))"
  by (intro ext) (rule bin_bits_arms_view)

lemma bin_shift_arms_fun:
  "bin_shift_arms B f = typed_arms uint_or_ebytes (\<lambda>t a b. Ok (mk_ct t (lib_bin B f t a b)))
     (\<lambda>t a n. of_lib (mk_ct t) (lib_bin_scalar B f t a n))"
  by (intro ext) (rule bin_shift_arms_view)

lemma cmp_eq_arms_fun:
  "cmp_eq_arms B f = typed_arms any_ty (\<lambda>t a b. Ok (FheBool (lib_cmp B f t a b)))
     (\<lambda>t a n. Ok (FheBool (lib_cmp_scalar B f t a n)))"
  by (intro ext) (rule cmp_eq_arms_view)

lemma cmp_ord_arms_fun:
  "cmp_ord_arms B f = typed_arms uint_ty (\<lambda>t a b. Ok (FheBool (lib_cmp B f t a b)))
     (\<lambda>t a n. Ok (FheBool (lib_cmp_scalar B f t a n)))"
  by (intro ext) (rule cmp_ord_arms_view)

lemmas arms_funs = bin_uint_arms_fun bin_bits_arms_fun bin_shift_arms_fun cmp_eq_arms_fun
  cmp_ord_arms_fun

lemma ok_val_unsupported [simp]: "ok_val (unsupported op ops) = None"
  by (simp add: unsupported_def)

lemma panics_unsupported [simp]: "\<not> panics (unsupported op ops)"
  by (simp add: unsupported_def)

lemma or_unsupported_simps [simp]:
  "or_unsupported op ops (Some r) = r"
  "or_unsupported op ops None = unsupported op ops"
  by (simp_all add: or_unsupported_def)

lemma abs_FheBool [simp]: "abs_ct dec (FheBool c) = Val TBool (dec c)"
  using abs_ct_simps(1) [of dec TBool c] by simp

lemma clear_scalar_bound [simp]: "clear_scalar t bs < 2 ^ ty_bits t"
  by (metis clear_scalar_of scalar_of_bound)

section \<open>Each kind of operation refines its specification\<close>

abbreviation ok_abs :: "('c \<Rightarrow> nat) \<Rightarrow> ('e, 'c sfc) res \<Rightarrow> clear option" where
  "ok_abs dec r \<equiv> map_option (abs_ct dec) (ok_val r)"

lemma ok_abs_of_lib:
  assumes "tfhe_laws B dec sh" and "dec a < 2 ^ ty_bits t" and "n < 2 ^ ty_bits t"
  shows "ok_abs dec (of_lib (mk_ct t) (lib_bin_scalar B f t a n))
       = (if scalar_refused f n then None else Some (Val t (clear_bin sh f (ty_bits t) (dec a) n)))"
proof (cases "lib_bin_scalar B f t a n")
  case None
  then have "scalar_refused f n" using lib_bin_scalar_None_iff [OF assms] by blast
  with None show ?thesis by (simp add: of_lib_def)
next
  case (Some c)
  then have "\<not> scalar_refused f n" using lib_bin_scalar_None_iff [OF assms, of f] by simp
  with Some lib_bin_scalar_dec [OF assms Some] show ?thesis by (simp add: of_lib_def)
qed

lemma lib_refused:
  "tfhe_laws B dec sh \<Longrightarrow> scalar_refused f n \<Longrightarrow> lib_bin_scalar B f t a n = None"
  by (simp add: tfhe_laws_def bin_laws_def)

lemma of_lib_simps [simp]:
  "of_lib k None = Panic LibraryPanic"
  "of_lib k (Some c) = Ok (k c)"
  by (simp_all add: of_lib_def)

lemma arith_refines:
  assumes laws: "tfhe_laws B dec sh" and ok: "\<forall>x \<in> set ops. ct_ok dec x"
  shows "ok_abs dec (binary_match op
           (typed_arms S (\<lambda>t a b. Ok (mk_ct t (lib_bin B f t a b)))
              (\<lambda>t a n. of_lib (mk_ct t) (lib_bin_scalar B f t a n))) ops)
       = clear_arith sh S f (map (abs_ct dec) ops)"
proof (cases "length ops = 2")
  case False
  then show ?thesis by (simp add: binary_match_def clear_arith_def clear_binary_length)
next
  case True
  then obtain x y where "ops = [x, y]" by (auto simp: length_2_iff)
  with ok show ?thesis
    by (cases x rule: sfc_cases; cases y rule: sfc_cases)
      (auto simp: binary_match_def clear_arith_def lib_bin_dec [OF laws]
        ok_abs_of_lib [OF laws] lib_refused [OF laws] clear_scalar_of)
qed

lemma compare_refines:
  assumes laws: "tfhe_laws B dec sh" and ok: "\<forall>x \<in> set ops. ct_ok dec x"
  shows "ok_abs dec (binary_match op
           (typed_arms S (\<lambda>t a b. Ok (FheBool (lib_cmp B f t a b)))
              (\<lambda>t a n. Ok (FheBool (lib_cmp_scalar B f t a n)))) ops)
       = clear_compare S f (map (abs_ct dec) ops)"
proof (cases "length ops = 2")
  case False
  then show ?thesis by (simp add: binary_match_def clear_compare_def clear_binary_length)
next
  case True
  then obtain x y where "ops = [x, y]" by (auto simp: length_2_iff)
  with ok show ?thesis
    by (cases x rule: sfc_cases; cases y rule: sfc_cases)
      (auto simp: binary_match_def clear_compare_def lib_cmp_dec [OF laws]
        lib_cmp_scalar_dec [OF laws] clear_scalar_of)
qed

lemma not_refines:
  assumes laws: "tfhe_laws B dec sh" and ok: "\<forall>x \<in> set ops. ct_ok dec x"
  shows "ok_abs dec (perform_not B ops) = clear_not (map (abs_ct dec) ops)"
proof (cases "length ops = 1")
  case False
  then show ?thesis
    by (simp only: perform_not_def unary_match_def)
      (simp add: clear_not_length)
next
  case True
  then obtain x where "ops = [x]" by (metis length_1_iff)
  with ok show ?thesis
    by (cases x rule: sfc_cases)
      (simp_all add: perform_not_def unary_match_def not_arms_view lib_unary_dec [OF laws])
qed

lemma neg_refines:
  assumes laws: "tfhe_laws B dec sh" and ok: "\<forall>x \<in> set ops. ct_ok dec x"
  shows "ok_abs dec (perform_neg B ops) = clear_neg (map (abs_ct dec) ops)"
proof (cases "length ops = 1")
  case False
  then show ?thesis
    by (simp only: perform_neg_def unary_match_def)
      (simp add: clear_neg_length)
next
  case True
  then obtain x where "ops = [x]" by (metis length_1_iff)
  with ok show ?thesis
    by (cases x rule: sfc_cases)
      (simp_all add: perform_neg_def unary_match_def neg_arms_view lib_unary_dec [OF laws])
qed

lemma flag_match:
  "(case mk_ct t a of FheBool flag \<Rightarrow> f flag | _ \<Rightarrow> e) = (if t = TBool then f a else e)"
  by (cases t) simp_all

lemma if_refines:
  assumes laws: "tfhe_laws B dec sh"
  shows "ok_abs dec (perform_if_then_else B ops) = clear_if (map (abs_ct dec) ops)"
proof (cases "length ops = 3")
  case False
  then show ?thesis by (simp add: perform_if_then_else_def clear_if_length)
next
  case True
  then obtain c x y where ops: "ops = [c, x, y]" by (auto simp: length_3_iff)
  show ?thesis
  proof (cases c rule: sfc_cases)
    case (scalar bs)
    with ops show ?thesis by (simp add: perform_if_then_else_def)
  next
    case (ct t a)
    with ops show ?thesis
      by (cases x rule: sfc_cases; cases y rule: sfc_cases; cases "t = TBool")
        (simp_all add: perform_if_then_else_def select_arms_view lib_select_dec [OF laws]
          flag_match clear_if_not_flag)
  qed
qed

lemma cast_to_dec:
  assumes laws: "tfhe_laws B dec sh" and "dec a < 2 ^ ty_bits t"
  shows "abs_ct dec (cast_to B t a u)
       = Val u (if u = TBool then of_bool (dec a \<noteq> 0) else dec a mod 2 ^ ty_bits u)"
  using assms lib_cmp_scalar_dec [OF laws assms(2), of 0 CmpGt]
  by (auto simp: cast_to_def lib_unary_dec [OF laws] dest: less_2_cases)

lemma cast_refines:
  assumes laws: "tfhe_laws B dec sh" and ok: "\<forall>x \<in> set ops. ct_ok dec x"
  shows "ok_abs dec (perform_cast B ops) = clear_cast (map (abs_ct dec) ops)"
proof (cases ops rule: clear_cast_cases)
  case (two x y zs)
  with ok show ?thesis
    by (cases x rule: sfc_cases; cases y rule: sfc_cases)
      (auto simp: perform_cast_def cast_arms_view cast_view_def to_be_u16_ty cast_to_dec [OF laws]
        mk_ct_case_scalar split: option.split)
qed (simp_all add: perform_cast_def)

lemma trivial_refines:
  assumes laws: "tfhe_laws B dec sh"
  shows "ok_abs dec (perform_trivial_encrypt B ops) = clear_trivial (map (abs_ct dec) ops)"
proof (cases ops rule: clear_cast_cases)
  case (two x y zs)
  have scalar: "ok_abs dec (trivial_encrypt_be_bytes B (to_be_u16_bit sc) v)
      = (case ty_of_bytes sc of None \<Rightarrow> None | Some u \<Rightarrow> Some (Val u (trivial_value u v)))" for sc v
  proof (cases "ty_of_bytes sc")
    case None
    then show ?thesis by (simp add: to_be_u16_ty trivial_encrypt_unknown)
  next
    case (Some u)
    then have "to_be_u16_bit sc = ty_num u"
      by (simp add: to_be_u16_ty [symmetric] ty_of_num_Some)
    with Some trivial_encrypt_view [OF laws, of u v] show ?thesis by (metis (no_types) abs_ct_simps(1)
      ok_val.simps(1) option.simps(5,9))
  qed
  from two show ?thesis
    by (cases x rule: sfc_cases; cases y rule: sfc_cases)
      (simp_all add: perform_trivial_encrypt_def scalar mk_ct_case_scalar)
qed (simp_all add: perform_trivial_encrypt_def)

section \<open>The engine refines its specification\<close>

lemma engine_refines:
  assumes laws: "tfhe_laws B dec sh" and ok: "\<forall>x \<in> set ops. ct_ok dec x"
    and det: "op \<notin> {FheRand, FheRandBounded}"
  shows "ok_abs dec (perform_fhe_operation_impl B (op_to_i16 op) ops)
       = clear_perform sh op (map (abs_ct dec) ops)"
  unfolding perform_impl_op
  using det arith_refines [OF laws ok] compare_refines [OF laws ok]
    not_refines [OF laws ok] neg_refines [OF laws ok] if_refines [OF laws, of ops]
    cast_refines [OF laws ok] trivial_refines [OF laws, of ops]
  by (cases op) (simp_all only: perform_op.simps clear_perform.simps perform_defs arms_funs
      ok_val.simps option.map insert_iff simp_thms)

text \<open>
  C2. For every operation but the random ones, with well-formed operands, the engine returns a
  ciphertext exactly when the specification on clear values is defined, and it decrypts to the
  value the specification gives.
\<close>

theorem perform_refines_clear:
  assumes laws: "tfhe_laws B dec sh" and ok: "\<forall>x \<in> set ops. ct_ok dec x"
    and det: "op \<notin> {FheRand, FheRandBounded}"
  shows "ok_abs dec (perform_fhe_operation_impl B (op_to_i16 op) ops)
       = clear_perform sh op (map (abs_ct dec) ops)"
  using assms by (rule engine_refines)

text \<open>On the library of clear values: 200 + 100 wraps at 8 bits, for encrypted and scalar operands.\<close>

lemma perform_refines_witness:
  "ok_abs clear_dec (perform_fhe_operation_impl clear_lib (op_to_i16 FheAdd) [FheUint8 200, FheUint8 100])
     = Some (Val TUint8 44)
   \<and> ok_abs clear_dec (perform_fhe_operation_impl clear_lib (op_to_i16 FheAdd) [FheUint8 200, Scalar [1, 100]])
     = Some (Val TUint8 44)"
proof -
  have ok: "\<forall>x \<in> set [FheUint8 200, FheUint8 100]. ct_ok clear_dec x"
    "\<forall>x \<in> set [FheUint8 200, Scalar [1, 100]]. ct_ok clear_dec x"
    by (simp_all add: ct_ok_def clear_dec_def)
  have det: "FheAdd \<notin> {FheRand, FheRandBounded}" by simp
  have "be_val [1, 100] = 356" by code_simp
  then show ?thesis
    unfolding perform_refines_clear [OF clear_lib_laws ok(1) det]
      perform_refines_clear [OF clear_lib_laws ok(2) det]
    by (simp add: abs_ct_def clear_dec_def clear_arith_def uint_ty_def clear_scalar_def
        scalar_refused_def)
qed

end
