(* ===== verification/PerformPanic.thy ===== *)
theory PerformPanic
  imports PerformCorrect
begin

text \<open>
  What a call of \<open>perform_fhe_operation_impl\<close> can end in besides a result: when it panics, that
  its results are well formed, what the random operations return, and that a scalar operand
  means the same as its trivial encryption.
\<close>

section \<open>When a call panics\<close>

text \<open>
  The operand counts the assertions and the indexing demand, the divisions by a scalar whose
  reduction to the width of the type is zero, the unknown types that reach an explicit panic,
  and the operation that is not implemented.
\<close>

fun zero_divisor :: "clear list \<Rightarrow> bool" where
  "zero_divisor [Val t a, Bytes bs] \<longleftrightarrow> uint_ty t \<and> 2 ^ ty_bits t dvd be_val bs"
| "zero_divisor _ \<longleftrightarrow> False"

fun bad_cast :: "clear list \<Rightarrow> bool" where
  "bad_cast (Val t a # Bytes sc # _) \<longleftrightarrow> t = TUint2048 \<and> ty_of_bytes sc = None"
| "bad_cast (_ # _ # _) \<longleftrightarrow> False"
| "bad_cast _ \<longleftrightarrow> True"

fun bad_trivial :: "clear list \<Rightarrow> bool" where
  "bad_trivial (Bytes v # Bytes sc # _) \<longleftrightarrow> ty_of_bytes sc = None"
| "bad_trivial (_ # _ # _) \<longleftrightarrow> False"
| "bad_trivial _ \<longleftrightarrow> True"

fun bad_rand :: "clear list \<Rightarrow> bool" where
  "bad_rand (Bytes v # Bytes sc # _) \<longleftrightarrow> ty_of_bytes sc = None"
| "bad_rand [Bytes v] \<longleftrightarrow> True"
| "bad_rand [] \<longleftrightarrow> True"
| "bad_rand _ \<longleftrightarrow> False"

fun bad_rand_bounded :: "clear list \<Rightarrow> bool" where
  "bad_rand_bounded (Bytes v # Bytes ub # Bytes sc # _) \<longleftrightarrow> ty_of_bytes sc = None"
| "bad_rand_bounded [Bytes v, Bytes ub] \<longleftrightarrow> True"
| "bad_rand_bounded [Bytes v] \<longleftrightarrow> True"
| "bad_rand_bounded [] \<longleftrightarrow> True"
| "bad_rand_bounded _ \<longleftrightarrow> False"

definition panic_condition :: "fhe_op \<Rightarrow> clear list \<Rightarrow> bool" where
  "panic_condition op xs \<longleftrightarrow>
     (case op_type op of
        Binary \<Rightarrow> length xs \<noteq> 2 \<or> op \<in> {FheDiv, FheRem} \<and> zero_divisor xs
      | Unary \<Rightarrow> length xs \<noteq> 1
      | Other \<Rightarrow>
          (case op of
             FheIfThenElse \<Rightarrow> length xs \<noteq> 3
           | FheCast \<Rightarrow> bad_cast xs
           | FheTrivialEncrypt \<Rightarrow> bad_trivial xs
           | FheRand \<Rightarrow> bad_rand xs
           | FheRandBounded \<Rightarrow> bad_rand_bounded xs
           | _ \<Rightarrow> True))"

lemma panics_typed_or:
  assumes "\<And>t a b. S t \<Longrightarrow> \<not> panics (k t a b)"
  shows "panics (or_unsupported op ops (typed_arms S k ks x y))
     \<longleftrightarrow> (\<exists>t a bs. x = mk_ct t a \<and> y = Scalar bs \<and> S t \<and> panics (ks t a (clear_scalar t bs)))"
  using assms
  by (cases x rule: sfc_cases; cases y rule: sfc_cases) (auto simp: clear_scalar_of)

lemma panics_of_lib:
  assumes "tfhe_laws B dec sh" and "dec a < 2 ^ ty_bits t" and "n < 2 ^ ty_bits t"
  shows "panics (of_lib k (lib_bin_scalar B f t a n)) \<longleftrightarrow> scalar_refused f n"
  using lib_bin_scalar_None_iff [OF assms, of f]
  by (cases "lib_bin_scalar B f t a n") auto

lemma clear_scalar_zero_uint:
  "uint_ty t \<Longrightarrow> clear_scalar t bs = 0 \<longleftrightarrow> 2 ^ ty_bits t dvd be_val bs"
  by (auto simp: clear_scalar_def uint_ty_def mod_eq_0_iff_dvd)

lemma panics_arith:
  assumes laws: "tfhe_laws B dec sh" and ok: "\<forall>x \<in> set ops. ct_ok dec x"
  shows "panics (binary_match op
           (typed_arms S (\<lambda>t a b. Ok (mk_ct t (lib_bin B f t a b)))
              (\<lambda>t a n. of_lib (mk_ct t) (lib_bin_scalar B f t a n))) ops)
     \<longleftrightarrow> length ops \<noteq> 2
       \<or> (\<exists>t a bs. ops = [mk_ct t a, Scalar bs] \<and> S t \<and> scalar_refused f (clear_scalar t bs))"
proof (cases "length ops = 2")
  case False
  then show ?thesis by (simp add: binary_match_def)
next
  case True
  then obtain x y where "ops = [x, y]" by (auto simp: length_2_iff)
  with ok show ?thesis
    by (auto simp: binary_match_def panics_typed_or panics_of_lib [OF laws])
qed

lemma panics_compare:
  "panics (binary_match op
      (typed_arms S (\<lambda>t a b. Ok (FheBool (k t a b))) (\<lambda>t a n. Ok (FheBool (ks t a n)))) ops)
   \<longleftrightarrow> length ops \<noteq> 2"
  by (cases "length ops = 2") (auto simp: binary_match_def panics_typed_or)

lemma zero_divisor_map:
  "zero_divisor (map (abs_ct dec) ops)
   \<longleftrightarrow> (\<exists>t a bs. ops = [mk_ct t a, Scalar bs] \<and> uint_ty t \<and> clear_scalar t bs = 0)"
proof (cases "length ops = 2")
  case False
  then show ?thesis by (cases "map (abs_ct dec) ops" rule: zero_divisor.cases) auto
next
  case True
  then obtain x y where "ops = [x, y]" by (auto simp: length_2_iff)
  then show ?thesis
    by (cases x rule: sfc_cases; cases y rule: sfc_cases) (auto simp: clear_scalar_zero_uint)
qed

lemma panics_cast: "panics (perform_cast B ops) \<longleftrightarrow> bad_cast (map (abs_ct dec) ops)"
proof (cases ops rule: clear_cast_cases)
  case (two x y zs)
  then show ?thesis
    by (cases x rule: sfc_cases; cases y rule: sfc_cases)
      (auto simp: perform_cast_def cast_arms_view cast_view_def to_be_u16_ty mk_ct_case_scalar
        split: option.split)
qed (simp_all add: perform_cast_def)

lemma panics_trivial:
  assumes laws: "tfhe_laws B dec sh"
  shows "panics (perform_trivial_encrypt B ops) \<longleftrightarrow> bad_trivial (map (abs_ct dec) ops)"
proof (cases ops rule: clear_cast_cases)
  case (two x y zs)
  have "panics (trivial_encrypt_be_bytes B (to_be_u16_bit sc) v) \<longleftrightarrow> ty_of_bytes sc = None" for sc v
  proof (cases "ty_of_bytes sc")
    case None
    then show ?thesis by (simp add: to_be_u16_ty trivial_encrypt_unknown)
  next
    case (Some u)
    then have "to_be_u16_bit sc = ty_num u"
      by (simp add: to_be_u16_ty [symmetric] ty_of_num_Some)
    with Some trivial_encrypt_view [OF laws, of u v] show ?thesis by (metis option.distinct(1) panics_simps(2))
  qed
  with two show ?thesis
    by (cases x rule: sfc_cases; cases y rule: sfc_cases)
      (simp_all add: perform_trivial_encrypt_def mk_ct_case_scalar)
qed (simp_all add: perform_trivial_encrypt_def)

lemma panics_generate:
  "panics (generate_random_number B (to_be_u16_bit sc) seed ub) \<longleftrightarrow> ty_of_bytes sc = None"
  by (simp add: generate_random_number_view to_be_u16_ty split: option.split)

lemma let_scalar_simps [simp]:
  "let_scalar op (Scalar bs # ops) 0 k = k bs"
  "let_scalar op (mk_ct t a # ops) 0 k = unsupported op (mk_ct t a # ops)"
  "let_scalar op (x # Scalar bs # ops) (Suc 0) k = k bs"
  "let_scalar op (x # mk_ct t a # ops) (Suc 0) k = unsupported op (x # mk_ct t a # ops)"
  "let_scalar op (x # y # Scalar bs # ops) 2 k = k bs"
  "let_scalar op (x # y # mk_ct t a # ops) 2 k = unsupported op (x # y # mk_ct t a # ops)"
  "let_scalar op [] i k = Panic IndexOutOfBounds"
  "let_scalar op [x] (Suc 0) k = Panic IndexOutOfBounds"
  "let_scalar op [x, y] 2 k = Panic IndexOutOfBounds"
  by (simp_all add: let_scalar_def mk_ct_case_scalar)

lemma panics_rand: "panics (perform_rand B ops) \<longleftrightarrow> bad_rand (map (abs_ct dec) ops)"
proof (cases ops rule: clear_cast_cases)
  case (one x)
  then show ?thesis by (cases x rule: sfc_cases) (simp_all add: perform_rand_def)
next
  case (two x y zs)
  then show ?thesis
    by (cases x rule: sfc_cases; cases y rule: sfc_cases)
      (simp_all add: perform_rand_def panics_generate)
qed (simp add: perform_rand_def)

lemma panics_rand_bounded:
  "panics (perform_rand_bounded B ops) \<longleftrightarrow> bad_rand_bounded (map (abs_ct dec) ops)"
proof (cases ops rule: clear_cast_cases)
  case (one x)
  then show ?thesis by (cases x rule: sfc_cases) (simp_all add: perform_rand_bounded_def)
next
  case (two x y zs)
  show ?thesis
  proof (cases zs)
    case Nil
    with two show ?thesis
      by (cases x rule: sfc_cases; cases y rule: sfc_cases) (simp_all add: perform_rand_bounded_def)
  next
    case (Cons z zs')
    with two show ?thesis
      by (cases x rule: sfc_cases; cases y rule: sfc_cases; cases z rule: sfc_cases)
        (simp_all add: perform_rand_bounded_def panics_generate)
  qed
qed (simp add: perform_rand_bounded_def)

lemma panics_if: "panics (perform_if_then_else B ops) \<longleftrightarrow> length ops \<noteq> 3"
proof (cases "length ops = 3")
  case False
  then show ?thesis by (simp add: perform_if_then_else_def)
next
  case True
  then obtain c x y where ops: "ops = [c, x, y]" by (auto simp: length_3_iff)
  show ?thesis
    by (cases c rule: sfc_cases)
      (auto simp: ops perform_if_then_else_def flag_match select_arms_view split: option.split)
qed

lemma panics_unary:
  "(\<And>x r. arms x = Some r \<Longrightarrow> \<not> panics r) \<Longrightarrow>
   panics (unary_match op arms ops) \<longleftrightarrow> length ops \<noteq> 1"
  by (cases "length ops = 1"; cases "arms (ops ! 0)") (auto simp: unary_match_def)

lemma panics_not: "panics (perform_not B ops) \<longleftrightarrow> length ops \<noteq> 1"
  unfolding perform_not_def by (rule panics_unary) (auto simp: not_arms_view)

lemma panics_neg: "panics (perform_neg B ops) \<longleftrightarrow> length ops \<noteq> 1"
  unfolding perform_neg_def
  by (rule panics_unary) (auto simp: neg_arms_view split: option.splits if_splits)

lemma engine_panics:
  assumes laws: "tfhe_laws B dec sh" and ok: "\<forall>x \<in> set ops. ct_ok dec x"
  shows "panics (perform_fhe_operation_impl B (op_to_i16 op) ops)
     \<longleftrightarrow> panic_condition op (map (abs_ct dec) ops)"
  unfolding perform_impl_op panic_condition_def
  using panics_not [of B ops] panics_neg [of B ops] panics_if [of B ops]
    panics_cast [of B ops dec] panics_trivial [OF laws, of ops] panics_rand [of B ops dec]
    panics_rand_bounded [of B ops dec]
  by (cases op)
    (simp_all add: perform_defs arms_funs panics_arith [OF laws ok] panics_compare
      scalar_refused_def zero_divisor_map)

text \<open>
  C18. A call on well-formed operands panics exactly when the operand count is wrong, a scalar
  divisor is zero at the width of the type, the type byte of a creation is unknown, a 2048-bit
  value is cast to an unknown type, or the operation is the one that is not implemented.
\<close>

theorem perform_panics_iff:
  assumes "tfhe_laws B dec sh" and "\<forall>x \<in> set ops. ct_ok dec x"
  shows "panics (perform_fhe_operation_impl B (op_to_i16 op) ops)
     \<longleftrightarrow> panic_condition op (map (abs_ct dec) ops)"
  using assms by (rule engine_panics)

lemma perform_panics_witness:
  "panics (perform_fhe_operation_impl clear_lib (op_to_i16 FheRem) [FheUint8 5, Scalar [0]])
   \<and> \<not> panics (perform_fhe_operation_impl clear_lib (op_to_i16 FheRem) [FheUint8 5, Scalar [3]])"
proof -
  have ok: "\<forall>x \<in> set [FheUint8 5, Scalar [n]]. ct_ok clear_dec x" for n
    by (simp add: ct_ok_def clear_dec_def)
  show ?thesis
    unfolding perform_panics_iff [OF clear_lib_laws ok]
    by (simp add: panic_condition_def abs_ct_def clear_dec_def uint_ty_def)
qed

end
