(* ===== verification/OperandCheck.thy ===== *)
theory OperandCheck
  imports PerformPanic
begin

text \<open>
  \<open>check_fhe_operand_types\<close> (\<open>tfhe_ops.rs\<close>), the check the worker and the gRPC server make before
  they schedule a computation, and what it leaves to the operation itself.
\<close>

section \<open>Tables\<close>

definition does_fhe_operation_support_scalar :: "fhe_op \<Rightarrow> bool" where
  "does_fhe_operation_support_scalar op =
     (case op_type op of
        Binary \<Rightarrow> True
      | Unary \<Rightarrow> False
      | Other \<Rightarrow> (case op of FheCast \<Rightarrow> True | _ \<Rightarrow> False))"

definition does_fhe_operation_support_both_encrypted_operands :: "fhe_op \<Rightarrow> bool" where
  "does_fhe_operation_support_both_encrypted_operands op \<longleftrightarrow>
     \<not> (case op of FheDiv \<Rightarrow> True | _ \<Rightarrow> False) \<or> \<not> (case op of FheRem \<Rightarrow> True | _ \<Rightarrow> False)"

definition validate_fhe_type :: "i32 \<Rightarrow> (fhevm_error, unit) res" where
  "validate_fhe_type input_type =
     (case i32_try_into_i16 input_type of
        None \<Rightarrow> Err (UnknownFheType input_type)
      | Some v \<Rightarrow>
          if 0 \<le> sint v \<and> sint v \<le> 11 then Ok () else Err (UnknownFheType input_type))"

section \<open>Scalar operands\<close>

text \<open>The indexes of the scalar operands.\<close>

definition scalar_indexes :: "bool list \<Rightarrow> nat list" where
  "scalar_indexes flags = filter (\<lambda>i. flags ! i) [0..<length flags]"

definition check_scalar_operands :: "i32 \<Rightarrow> fhe_op \<Rightarrow> bool list \<Rightarrow> (fhevm_error, unit) res" where
  "check_scalar_operands fhe_operation op flags =
     (let scalar_operands = scalar_indexes flags;
          is_scalar = scalar_operands \<noteq> []
      in if \<not> does_have_more_than_one_scalar op then
           if length scalar_operands > 1 then
             Err (FheOperationOnlyOneOperandCanBeScalar fhe_operation (op_name op)
                    (length scalar_operands) 1)
           else if is_scalar then
             assert_then (length scalar_operands = 1)
               (if \<not> does_fhe_operation_support_scalar op then
                  Err (FheOperationDoesntSupportScalar fhe_operation (op_name op) is_scalar False)
                else index_then scalar_operands 0 (\<lambda>scalar_input_index.
                  if scalar_input_index \<noteq> 1 then
                    Err (FheOperationOnlySecondOperandCanBeScalar scalar_input_index 1)
                  else Ok ()))
           else Ok ()
         else Ok ())"

section \<open>The shape of the operands\<close>

definition expect_operands ::
  "i32 \<Rightarrow> fhe_op \<Rightarrow> nat \<Rightarrow> bytes list \<Rightarrow> (fhevm_error, unit) res \<Rightarrow> (fhevm_error, unit) res" where
  "expect_operands fhe_operation op expected_operands handles k =
     (if length handles \<noteq> expected_operands then
        Err (UnexpectedOperandCountForFheOperation fhe_operation (op_name op)
               expected_operands (length handles))
      else k)"

definition check_binary :: "i32 \<Rightarrow> fhe_op \<Rightarrow> bytes list \<Rightarrow> bool \<Rightarrow> (fhevm_error, unit) res" where
  "check_binary fhe_operation op handles is_scalar =
     expect_operands fhe_operation op 2 handles
       (if is_scalar \<and> op = FheDiv then
          index_then handles 1 (\<lambda>rhs.
            let all_zeroes = list_all (\<lambda>i. i = 0) rhs
            in if all_zeroes then
                 index_then handles 0 (\<lambda>lhs.
                   Err (FheOperationScalarDivisionByZero lhs rhs fhe_operation (op_name op)))
               else Ok ())
        else Ok ())"

definition check_unary :: "i32 \<Rightarrow> fhe_op \<Rightarrow> bytes list \<Rightarrow> (fhevm_error, unit) res" where
  "check_unary fhe_operation op handles = expect_operands fhe_operation op 1 handles (Ok ())"

definition check_if_then_else :: "i32 \<Rightarrow> bytes list \<Rightarrow> (fhevm_error, unit) res" where
  "check_if_then_else fhe_operation handles =
     expect_operands fhe_operation FheIfThenElse 3 handles (Ok ())"

definition operand_kind :: "bool \<Rightarrow> string" where
  "operand_kind inp = (if inp then ''scalar'' else ''handle'')"

definition check_cast :: "i32 \<Rightarrow> bytes list \<Rightarrow> bool list \<Rightarrow> (fhevm_error, unit) res" where
  "check_cast fhe_operation handles flags =
     expect_operands fhe_operation FheCast 2 handles
       (index_then flags 0 (\<lambda>left. index_then flags 1 (\<lambda>right.
          if (left, right) = (False, True) then
            index_then handles 1 (\<lambda>op.
              if length op \<noteq> 1 then
                Err (UnexpectedCastOperandSizeForScalarOperand fhe_operation (op_name FheCast)
                       1 (length op))
              else Ok ())
          else
            Err (UnexpectedCastOperandTypes fhe_operation (op_name FheCast)
                   [''handle'', ''scalar''] [operand_kind left, operand_kind right]))))"

definition check_trivial_encrypt :: "i32 \<Rightarrow> bytes list \<Rightarrow> bool list \<Rightarrow> (fhevm_error, unit) res" where
  "check_trivial_encrypt fhe_operation handles flags =
     expect_operands fhe_operation FheTrivialEncrypt 2 handles
       (index_then flags 0 (\<lambda>f0. index_then flags 1 (\<lambda>f1.
          if \<not> f0 \<or> \<not> f1 then
            Err (AllInputsForTrivialEncryptionMustBeScalar fhe_operation (op_name FheTrivialEncrypt))
          else index_then handles 1 (\<lambda>op.
            if length op \<noteq> 1 then
              Err (UnexpectedTrivialEncryptionOperandSizeForScalarOperand fhe_operation
                     (op_name FheTrivialEncrypt) 1 (length op))
            else Ok ()))))"

definition expect_all_scalar ::
  "i32 \<Rightarrow> fhe_op \<Rightarrow> nat \<Rightarrow> bool list \<Rightarrow> (fhevm_error, unit) res \<Rightarrow> (fhevm_error, unit) res" where
  "expect_all_scalar fhe_operation op expected_operands flags k =
     (let scalar_operands = length (filter (\<lambda>i. i) flags)
      in if scalar_operands < expected_operands then
           Err (RandOperationInputsMustAllBeScalar fhe_operation (op_name op) scalar_operands
                  expected_operands)
         else k)"

definition check_rand :: "i32 \<Rightarrow> bytes list \<Rightarrow> bool list \<Rightarrow> (fhevm_error, unit) res" where
  "check_rand fhe_operation handles flags =
     expect_operands fhe_operation FheRand 2 handles
       (expect_all_scalar fhe_operation FheRand 2 flags
         (index_then handles 1 (\<lambda>rand_type.
            if length rand_type \<noteq> 1 then
              Err (UnexpectedRandOperandSizeForOutputType fhe_operation (op_name FheRand) 1
                     (length rand_type))
            else index_then rand_type 0 (\<lambda>b. validate_fhe_type (u8_as_i32 b)))))"

definition check_rand_bounded :: "i32 \<Rightarrow> bytes list \<Rightarrow> bool list \<Rightarrow> (fhevm_error, unit) res" where
  "check_rand_bounded fhe_operation handles flags =
     expect_operands fhe_operation FheRandBounded 3 handles
       (expect_all_scalar fhe_operation FheRandBounded 3 flags
         (index_then handles 1 (\<lambda>upper_bound.
            if upper_bound = [] \<and> list_all (\<lambda>i. i = 0) upper_bound then
              Err (RandOperationUpperBoundCannotBeZero fhe_operation (op_name FheRandBounded)
                     upper_bound)
            else index_then handles 2 (\<lambda>rand_type.
              if length rand_type \<noteq> 1 then
                Err (UnexpectedRandOperandSizeForOutputType fhe_operation (op_name FheRandBounded) 1
                       (length rand_type))
              else Ok ()))))"

definition check_operand_shape ::
  "i32 \<Rightarrow> fhe_op \<Rightarrow> bytes list \<Rightarrow> bool list \<Rightarrow> (fhevm_error, unit) res" where
  "check_operand_shape fhe_operation op handles flags =
     (case op_type op of
        Binary \<Rightarrow> check_binary fhe_operation op handles (scalar_indexes flags \<noteq> [])
      | Unary \<Rightarrow> check_unary fhe_operation op handles
      | Other \<Rightarrow>
          (case op of
             FheIfThenElse \<Rightarrow> check_if_then_else fhe_operation handles
           | FheCast \<Rightarrow> check_cast fhe_operation handles flags
           | FheTrivialEncrypt \<Rightarrow> check_trivial_encrypt fhe_operation handles flags
           | FheRand \<Rightarrow> check_rand fhe_operation handles flags
           | FheRandBounded \<Rightarrow> check_rand_bounded fhe_operation handles flags
           | _ \<Rightarrow> Panic ExplicitPanic))"

definition check_fhe_operand_types ::
  "i32 \<Rightarrow> bytes list \<Rightarrow> bool list \<Rightarrow> (fhevm_error, unit) res" where
  "check_fhe_operand_types fhe_operation input_handles is_input_handle_scalar =
     bind_res (op_try_from_i32 fhe_operation) (\<lambda>fhe_op.
       assert_then (length input_handles = length is_input_handle_scalar)
         (bind_res (check_scalar_operands fhe_operation fhe_op is_input_handle_scalar) (\<lambda>_.
            check_operand_shape fhe_operation fhe_op input_handles is_input_handle_scalar)))"

section \<open>What the check accepts\<close>

text \<open>The operands an operation takes, as lists of flags and sizes.\<close>

definition operands_accepted :: "fhe_op \<Rightarrow> bytes list \<Rightarrow> bool list \<Rightarrow> bool" where
  "operands_accepted op handles flags \<longleftrightarrow>
     length handles = length flags \<and>
     (case op_type op of
        Binary \<Rightarrow>
          flags = [False, False]
          \<or> flags = [False, True] \<and> (op = FheDiv \<longrightarrow> be_val (handles ! 1) \<noteq> 0)
      | Unary \<Rightarrow> flags = [False]
      | Other \<Rightarrow>
          (case op of
             FheIfThenElse \<Rightarrow> flags = [False, False, False]
           | FheCast \<Rightarrow> flags = [False, True] \<and> length (handles ! 1) = 1
           | FheTrivialEncrypt \<Rightarrow> flags = [True, True] \<and> length (handles ! 1) = 1
           | FheRand \<Rightarrow> flags = [True, True] \<and> length (handles ! 1) = 1 \<and> be_val (handles ! 1) \<le> 11
           | FheRandBounded \<Rightarrow>
               flags = [True, True, True] \<and> handles ! 1 \<noteq> [] \<and> length (handles ! 2) = 1
           | _ \<Rightarrow> False))"

lemma scalar_indexes_small:
  "scalar_indexes [a] = (if a then [0] else [])"
  "scalar_indexes [a, b] = (if a then [0] else []) @ (if b then [1] else [])"
  "scalar_indexes [a, b, c] = (if a then [0] else []) @ (if b then [1] else []) @ (if c then [2] else [])"
  by (simp_all add: scalar_indexes_def upt_rec)

lemma list_all_zero_iff: "list_all (\<lambda>i. i = 0) bs \<longleftrightarrow> be_val bs = 0"
  by (simp add: list_all_iff be_val_zero_iff)

lemma sint_of_nat_i32: "n < 2 ^ 31 \<Longrightarrow> sint (of_nat n :: i32) = int n"
  by (simp add: signed_of_nat signed_take_bit_int_eq_self)

lemma sint_of_nat_i16: "n < 2 ^ 15 \<Longrightarrow> sint (of_nat n :: i16) = int n"
  by (simp add: signed_of_nat signed_take_bit_int_eq_self)

lemma validate_byte: "validate_fhe_type (u8_as_i32 b) = Ok () \<longleftrightarrow> unat b \<le> 11"
proof -
  have b: "unat b < 256" by (rule unat_byte_less)
  then have s: "sint (u8_as_i32 b) = int (unat b)"
    unfolding u8_as_i32_def by (intro sint_of_nat_i32) (rule order_less_trans [OF b], simp)
  have "int (unat b) < 256" using b by linarith
  then have "- (2 ^ 15) \<le> int (unat b) \<and> int (unat b) < 2 ^ 15"
    by (simp add: order_trans [OF _ uint_ge_0])
  with s have c: "i32_try_into_i16 (u8_as_i32 b) = Some (of_nat (unat b))"
    unfolding i32_try_into_i16_def s by simp
  have "sint (of_nat (unat b) :: i16) = int (unat b)"
    by (intro sint_of_nat_i16) (rule order_less_trans [OF b], simp)
  then have "validate_fhe_type (u8_as_i32 b) = Ok () \<longleftrightarrow> int (unat b) \<le> 11"
    unfolding validate_fhe_type_def c by (simp del: of_nat_unat)
  then show ?thesis by linarith
qed

lemma validate_no_panic: "\<not> panics (validate_fhe_type v)"
  by (simp add: validate_fhe_type_def split: option.split)

lemma expect_operands_Ok:
  "expect_operands c op n hs k = Ok () \<longleftrightarrow> length hs = n \<and> k = Ok ()"
  by (simp add: expect_operands_def)

lemma check_scalar_small:
  "\<not> does_have_more_than_one_scalar op \<Longrightarrow>
     check_scalar_operands c op fs = Ok () \<longleftrightarrow>
     scalar_indexes fs = [] \<or> scalar_indexes fs = [1] \<and> does_fhe_operation_support_scalar op"
  by (cases "scalar_indexes fs"; cases "tl (scalar_indexes fs)")
    (auto simp: check_scalar_operands_def)

lemma check_scalar_multi:
  "does_have_more_than_one_scalar op \<Longrightarrow> check_scalar_operands c op fs = Ok ()"
  by (simp add: check_scalar_operands_def)

lemma same_length_1: "length hs = Suc 0 \<Longrightarrow> length fs = length hs \<Longrightarrow> \<exists>x a. hs = [x] \<and> fs = [a]"
  by (auto simp: length_Suc_conv)

lemma same_length_2:
  "length hs = 2 \<Longrightarrow> length fs = length hs \<Longrightarrow> \<exists>x y a b. hs = [x, y] \<and> fs = [a, b]"
  by (metis length_2_iff)

lemma same_length_3:
  "length hs = 3 \<Longrightarrow> length fs = length hs \<Longrightarrow> \<exists>x y z a b c. hs = [x, y, z] \<and> fs = [a, b, c]"
  by (metis length_3_iff)

lemmas check_defs = check_operand_shape_def check_binary_def check_unary_def check_if_then_else_def
  check_cast_def check_trivial_encrypt_def check_rand_def check_rand_bounded_def
  expect_operands_def expect_all_scalar_def operands_accepted_def check_scalar_small
  does_have_more_than_one_scalar_def does_fhe_operation_support_scalar_def

lemma binary_accepted:
  assumes bin: "op_type op = Binary" and len: "length fs = length hs"
  shows "check_scalar_operands c op fs = Ok () \<and> check_operand_shape c op hs fs = Ok ()
     \<longleftrightarrow> operands_accepted op hs fs"
proof (cases "length hs = 2")
  case False
  with bin len show ?thesis by (auto simp: check_defs)
next
  case True
  from same_length_2 [OF this len] obtain x y a b where "hs = [x, y]" "fs = [a, b]" by blast
  moreover have "\<not> does_have_more_than_one_scalar op"
    using bin by (cases op) (simp_all add: does_have_more_than_one_scalar_def)
  ultimately show ?thesis
    using bin by (cases a; cases b) (simp_all add: check_defs scalar_indexes_small list_all_zero_iff)
qed

lemma unary_accepted:
  assumes un: "op_type op = Unary" and len: "length fs = length hs"
  shows "check_scalar_operands c op fs = Ok () \<and> check_operand_shape c op hs fs = Ok ()
     \<longleftrightarrow> operands_accepted op hs fs"
proof (cases "length hs = Suc 0")
  case False
  with un len show ?thesis by (auto simp: check_defs)
next
  case True
  from same_length_1 [OF this len] obtain x a where "hs = [x]" "fs = [a]" by blast
  moreover have "\<not> does_have_more_than_one_scalar op"
    using un by (cases op) (simp_all add: does_have_more_than_one_scalar_def)
  ultimately show ?thesis using un by (cases a) (simp_all add: check_defs scalar_indexes_small)
qed

lemma if_accepted:
  assumes len: "length fs = length hs"
  shows "check_scalar_operands c FheIfThenElse fs = Ok ()
       \<and> check_operand_shape c FheIfThenElse hs fs = Ok ()
     \<longleftrightarrow> operands_accepted FheIfThenElse hs fs"
proof (cases "length hs = 3")
  case False
  with len show ?thesis by (auto simp: check_defs)
next
  case True
  from same_length_3 [OF this len] obtain x y z a b d where "hs = [x, y, z]" "fs = [a, b, d]"
    by blast
  then show ?thesis
    by (cases a; cases b; cases d) (simp_all add: check_defs scalar_indexes_small)
qed

lemma two_operand_accepted:
  assumes op: "op \<in> {FheCast, FheTrivialEncrypt, FheRand}" and len: "length fs = length hs"
  shows "check_scalar_operands c op fs = Ok () \<and> check_operand_shape c op hs fs = Ok ()
     \<longleftrightarrow> operands_accepted op hs fs"
proof (cases "length hs = 2")
  case False
  with op len show ?thesis by (auto simp: check_defs)
next
  case True
  from same_length_2 [OF this len] obtain x y a b where "hs = [x, y]" "fs = [a, b]" by blast
  then show ?thesis
  proof (cases "length y = Suc 0")
    case False
    with op \<open>hs = _\<close> \<open>fs = _\<close> show ?thesis
      by (cases a; cases b) (auto simp: check_defs scalar_indexes_small)
  next
    case True
    then obtain v where "y = [v]" by (auto simp: length_Suc_conv)
    with op \<open>hs = _\<close> \<open>fs = _\<close> show ?thesis
      by (cases a; cases b) (auto simp: check_defs scalar_indexes_small check_scalar_multi validate_byte be_val_def)
  qed
qed

lemma rand_bounded_accepted:
  assumes len: "length fs = length hs"
  shows "check_scalar_operands c FheRandBounded fs = Ok ()
       \<and> check_operand_shape c FheRandBounded hs fs = Ok ()
     \<longleftrightarrow> operands_accepted FheRandBounded hs fs"
proof (cases "length hs = 3")
  case False
  with len show ?thesis by (auto simp: check_defs)
next
  case True
  from same_length_3 [OF this len] obtain x y z a b d where "hs = [x, y, z]" "fs = [a, b, d]"
    by blast
  then show ?thesis
    by (cases a; cases b; cases d) (auto simp: check_defs check_scalar_multi)
qed

lemma check_op_accepted:
  assumes len: "length fs = length hs"
  shows "check_scalar_operands c op fs = Ok () \<and> check_operand_shape c op hs fs = Ok ()
     \<longleftrightarrow> operands_accepted op hs fs"
proof (cases "op_type op")
  case Binary
  then show ?thesis using binary_accepted len by blast
next
  case Unary
  then show ?thesis using unary_accepted len by blast
next
  case Other
  then consider "op = FheIfThenElse" | "op \<in> {FheCast, FheTrivialEncrypt, FheRand}"
    | "op = FheRandBounded" | "op = FheGetInputCiphertext"
    by (cases op) auto
  then show ?thesis
  proof cases
    case 4
    then show ?thesis by (simp add: check_operand_shape_def operands_accepted_def)
  qed (use if_accepted two_operand_accepted rand_bounded_accepted len in blast)+
qed

lemma check_accepted:
  "op_try_from_i32 code = Ok op \<Longrightarrow>
     check_fhe_operand_types code hs fs = Ok () \<longleftrightarrow> operands_accepted op hs fs"
  using check_op_accepted [of fs hs code op]
  by (auto simp: check_fhe_operand_types_def assert_then_def bind_res_eq_Ok operands_accepted_def)

text \<open>
  C17. The check accepts a call exactly when the code is one of an operation and the handles and
  scalar flags have the shape that operation takes; a scalar divisor must have a non-zero byte.
\<close>

theorem check_accepts_iff:
  "check_fhe_operand_types code hs fs = Ok () \<longleftrightarrow>
     (\<exists>op. op_try_from_i32 code = Ok op \<and> operands_accepted op hs fs)"
  using check_accepted [of code _ hs fs]
  by (cases "op_try_from_i32 code") (auto simp: check_fhe_operand_types_def)

lemma expect_operands_panics:
  "panics (expect_operands c op n hs k) \<longleftrightarrow> length hs = n \<and> panics k"
  by (simp add: expect_operands_def)

lemma expect_all_scalar_panics:
  "\<not> panics k \<Longrightarrow> \<not> panics (expect_all_scalar c op n fs k)"
  by (simp add: expect_all_scalar_def Let_def)

lemma check_scalar_no_panic: "\<not> panics (check_scalar_operands c op fs)"
  by (cases "scalar_indexes fs"; cases "tl (scalar_indexes fs)")
    (simp_all add: check_scalar_operands_def Let_def)

lemma check_shape_no_panic:
  assumes len: "length fs = length hs" and op: "op \<noteq> FheGetInputCiphertext"
  shows "\<not> panics (check_operand_shape c op hs fs)"
proof (cases "op_type op")
  case Binary
  then show ?thesis
    by (auto simp: check_operand_shape_def check_binary_def expect_operands_panics Let_def)
next
  case Unary
  then show ?thesis by (simp add: check_operand_shape_def check_unary_def expect_operands_panics)
next
  case Other
  with len op show ?thesis
    by (cases op) (auto simp: check_operand_shape_def check_if_then_else_def check_cast_def
      check_trivial_encrypt_def check_rand_def check_rand_bounded_def expect_operands_panics
      expect_all_scalar_def validate_no_panic index_then_def Let_def)
qed

lemma check_get_input:
  "panics (bind_res (check_scalar_operands c FheGetInputCiphertext fs)
       (\<lambda>_. check_operand_shape c FheGetInputCiphertext hs fs)) \<longleftrightarrow> scalar_indexes fs = []"
  by (cases "scalar_indexes fs"; cases "tl (scalar_indexes fs)")
    (simp_all add: check_scalar_operands_def check_operand_shape_def does_have_more_than_one_scalar_def
      does_fhe_operation_support_scalar_def)

lemma check_panics:
  assumes "op_try_from_i32 code = Ok op"
  shows "panics (check_fhe_operand_types code hs fs) \<longleftrightarrow>
     length hs \<noteq> length fs \<or> op = FheGetInputCiphertext \<and> scalar_indexes fs = []"
  using assms check_get_input [of code fs hs] check_shape_no_panic [of fs hs op code]
  by (cases "op = FheGetInputCiphertext")
    (auto simp: check_fhe_operand_types_def assert_then_def panics_bind_res check_scalar_no_panic)

lemma op_try_from_i32_no_panic: "\<not> panics (op_try_from_i32 code)"
  by (simp add: op_try_from_i32_def op_try_from_i16_match op_of_i16_match_no_panic split: option.split)

text \<open>
  The check itself panics exactly when the lists of handles and flags differ in length, or the
  code is that of the operation without an arm.
\<close>

theorem check_panics_iff:
  "panics (check_fhe_operand_types code hs fs) \<longleftrightarrow>
     (\<exists>op. op_try_from_i32 code = Ok op
        \<and> (if length hs = length fs then op = FheGetInputCiphertext \<and> scalar_indexes fs = []
           else True))"
proof (cases "op_try_from_i32 code")
  case (Ok op)
  then show ?thesis using check_panics [OF Ok] by auto
qed (use op_try_from_i32_no_panic [of code] in \<open>auto simp: check_fhe_operand_types_def\<close>)

end
