(* ===== verification/EngineSafety.thy ===== *)
theory EngineSafety
  imports OperandCheck
begin

text \<open>
  What the operand check and the engine promise together: which calls the check lets through can
  still panic, that results are well formed and have the type the operation promises, what a
  random value is, and how a scalar operand compares with its trivial encryption.
\<close>

section \<open>Type bytes\<close>

lemma ty_of_num_None: "ty_of_num l = None \<longleftrightarrow> 11 < unat l"
proof -
  have "ty_of_num l = None \<longleftrightarrow> unat l \<notin> {0, 1, 2, 3, 4, 5, 6, 7, 8, 9, 10, 11}"
    by (simp add: ty_of_num_def word_unat_eq_iff)
  also have "\<dots> \<longleftrightarrow> 11 < unat l" by (simp, presburger)
  finally show ?thesis .
qed

lemma ty_of_num_byte: "n < 256 \<Longrightarrow> ty_of_num (of_nat n) = None \<longleftrightarrow> 11 < n"
  by (simp add: ty_of_num_None unat_of_nat)

lemma ty_of_byte: "length sc = 1 \<Longrightarrow> ty_of_bytes sc = None \<longleftrightarrow> 11 < be_val sc"
  using be_val_bound [of sc] by (simp add: ty_of_bytes_def ty_of_num_byte)

section \<open>The calls the check lets through\<close>

text \<open>
  The operands the worker makes of the handles: a scalar as it is, a ciphertext for a handle.
\<close>

definition load_operands :: "(bytes \<Rightarrow> 'c sfc) \<Rightarrow> bytes list \<Rightarrow> bool list \<Rightarrow> 'c sfc list" where
  "load_operands ct hs fs = map2 (\<lambda>h f. if f then Scalar h else ct h) hs fs"

definition ciphertexts_ok :: "('c \<Rightarrow> nat) \<Rightarrow> (bytes \<Rightarrow> 'c sfc) \<Rightarrow> bool" where
  "ciphertexts_ok dec ct \<longleftrightarrow> (\<forall>h. ct_ok dec (ct h) \<and> ct_view (ct h) \<noteq> None)"

text \<open>The accepted calls that panic nevertheless.\<close>

fun cast_gap :: "clear list \<Rightarrow> bool" where
  "cast_gap [Val t a, Bytes sc] \<longleftrightarrow> t = TUint2048 \<and> 11 < be_val sc"
| "cast_gap _ \<longleftrightarrow> False"

fun trivial_gap :: "clear list \<Rightarrow> bool" where
  "trivial_gap [Bytes v, Bytes sc] \<longleftrightarrow> 11 < be_val sc"
| "trivial_gap _ \<longleftrightarrow> False"

fun bounded_gap :: "clear list \<Rightarrow> bool" where
  "bounded_gap [Bytes v, Bytes ub, Bytes sc] \<longleftrightarrow> 11 < be_val sc"
| "bounded_gap _ \<longleftrightarrow> False"

definition residual_panic :: "fhe_op \<Rightarrow> clear list \<Rightarrow> bool" where
  "residual_panic op xs \<longleftrightarrow>
     (case op of
        FheDiv \<Rightarrow> zero_divisor xs
      | FheRem \<Rightarrow> zero_divisor xs
      | FheCast \<Rightarrow> cast_gap xs
      | FheTrivialEncrypt \<Rightarrow> trivial_gap xs
      | FheRandBounded \<Rightarrow> bounded_gap xs
      | _ \<Rightarrow> False)"

lemma load_ok: "ciphertexts_ok dec ct \<Longrightarrow> \<forall>x \<in> set (load_operands ct hs fs). ct_ok dec x"
  by (auto simp: load_operands_def ciphertexts_ok_def set_zip)

lemma load_view:
  assumes "ciphertexts_ok dec ct"
  obtains t a where "ct h = mk_ct t a" and "dec a < 2 ^ ty_bits t"
  using assms by (cases "ct h" rule: sfc_cases) (auto simp: ciphertexts_ok_def dest: spec [of _ h])

lemma accepted_length: "operands_accepted op hs fs \<Longrightarrow> length fs \<in> {1, 2, 3}"
  by (cases op) (auto simp: operands_accepted_def)

lemma accepted_op_panics:
  assumes ct: "ciphertexts_ok dec ct" and acc: "operands_accepted op hs fs"
  shows "panic_condition op (map (abs_ct dec) (load_operands ct hs fs))
     \<longleftrightarrow> residual_panic op (map (abs_ct dec) (load_operands ct hs fs))"
proof -
  have len: "length fs = length hs" using acc by (simp add: operands_accepted_def)
  consider (one) x a where "hs = [x]" "fs = [a]" | (two) x y a b where "hs = [x, y]" "fs = [a, b]"
    | (three) x y z a b c where "hs = [x, y, z]" "fs = [a, b, c]"
    using accepted_length [OF acc] same_length_1 [OF _ len] same_length_2 [OF _ len]
      same_length_3 [OF _ len] len
    by fastforce
  then show ?thesis
  proof cases
    case one
    obtain t v where "ct x = mk_ct t v" by (rule load_view [OF ct])
    with one acc show ?thesis
      by (cases op; cases a) (auto simp: operands_accepted_def load_operands_def panic_condition_def residual_panic_def)
  next
    case two
    obtain t v u w where "ct x = mk_ct t v" "ct y = mk_ct u w" by (metis load_view [OF ct])
    with two acc show ?thesis
      by (cases op; cases a; cases b)
        (auto simp: operands_accepted_def load_operands_def panic_condition_def residual_panic_def ty_of_byte)
  next
    case three
    obtain t v u w s r where "ct x = mk_ct t v" "ct y = mk_ct u w" "ct z = mk_ct s r"
      by (metis load_view [OF ct])
    with three acc show ?thesis
      by (cases op; cases a; cases b; cases c)
        (auto simp: operands_accepted_def load_operands_def panic_condition_def residual_panic_def ty_of_byte)
  qed
qed

text \<open>
  C8. A call the check lets through, on the operands it was checked with, panics in exactly these
  cases: a division or remainder by a scalar that is a multiple of 2 to the width of the type (for
  the division a non-zero one), a cast of a 2048-bit value to a type above 11, and a trivial
  encryption or bounded random value of a type above 11.
\<close>

theorem accepted_panics_iff:
  assumes laws: "tfhe_laws B dec sh" and ct: "ciphertexts_ok dec ct"
    and acc: "check_fhe_operand_types code hs fs = Ok ()"
    and op: "op_try_from_i32 code = Ok op"
  shows "panics (perform_fhe_operation_impl B (op_to_i16 op) (load_operands ct hs fs))
     \<longleftrightarrow> residual_panic op (map (abs_ct dec) (load_operands ct hs fs))"
proof -
  from acc op have "operands_accepted op hs fs" by (simp add: check_accepted)
  from accepted_op_panics [OF ct this] show ?thesis
    by (simp add: engine_panics [OF laws load_ok [OF ct]])
qed

definition sample_ct :: "bytes \<Rightarrow> nat sfc" where
  "sample_ct h = FheUint8 7"

lemma sample_ct_ok: "ciphertexts_ok clear_dec sample_ct"
  by (simp add: ciphertexts_ok_def sample_ct_def ct_ok_def clear_dec_def)

text \<open>The division of an encrypted byte by the scalar 256 passes the check and panics.\<close>

lemma accepted_panics_witness:
  "check_fhe_operand_types 3 [[], [1, 0]] [False, True] = Ok ()
   \<and> panics (perform_fhe_operation_impl clear_lib 3 (load_operands sample_ct [[], [1, 0]] [False, True]))"
proof -
  have c: "check_fhe_operand_types 3 [[], [1, 0]] [False, True] = Ok ()" by code_simp
  have o: "op_try_from_i32 3 = Ok FheDiv" by code_simp
  have "residual_panic FheDiv (map (abs_ct clear_dec) (load_operands sample_ct [[], [1, 0]] [False, True]))"
    by (simp add: residual_panic_def load_operands_def sample_ct_def abs_ct_def clear_dec_def uint_ty_def be_val_def)
  with c accepted_panics_iff [OF clear_lib_laws sample_ct_ok c o] show ?thesis by simp
qed

section \<open>Results\<close>

text \<open>The type of the result, from the types of the operands.\<close>

fun clear_ty :: "clear \<Rightarrow> fhe_ty option" where
  "clear_ty (Val t a) = Some t"
| "clear_ty (Bytes bs) = ty_of_bytes bs"

definition result_ty :: "fhe_op \<Rightarrow> clear list \<Rightarrow> fhe_ty option" where
  "result_ty op xs =
     (if is_comparison op then Some TBool
      else if op \<in> {FheIfThenElse, FheCast, FheTrivialEncrypt, FheRand} then clear_ty (xs ! 1)
      else if op = FheRandBounded then clear_ty (xs ! 2)
      else clear_ty (xs ! 0))"

definition clear_ok :: "clear \<Rightarrow> bool" where
  "clear_ok x \<longleftrightarrow> (case x of Val t a \<Rightarrow> a < 2 ^ ty_bits t | Bytes _ \<Rightarrow> True)"

lemma clear_ok_abs [simp]: "clear_ok (abs_ct dec x) \<longleftrightarrow> ct_ok dec x"
  by (cases x rule: sfc_cases) (simp_all add: clear_ok_def)

lemma clear_arith_result:
  assumes "clear_arith sh S f xs = Some v" and "\<forall>x \<in> set xs. clear_ok x"
  shows "\<exists>t b. v = Val t b \<and> b < 2 ^ ty_bits t \<and> clear_ty (xs ! 0) = Some t"
  using assms unfolding clear_arith_def
  by (cases "(S, \<lambda>t a b. Val t (clear_bin sh f (ty_bits t) a b), scalar_refused f, xs)"
      rule: clear_binary.cases)
    (auto simp: clear_ok_def clear_bin_bound split: if_splits)

lemma clear_compare_result:
  assumes "clear_compare S f xs = Some v"
  shows "\<exists>b. v = Val TBool b \<and> b < 2"
  using assms unfolding clear_compare_def
  by (cases "(S, \<lambda>(t::fhe_ty) a b. Val TBool (of_bool (clear_cmp f a b)), \<lambda>_::nat. False, xs)"
      rule: clear_binary.cases)
    (auto split: if_splits)

lemma clear_unary_result:
  "clear_not xs = Some v \<Longrightarrow> \<exists>t b. v = Val t b \<and> b < 2 ^ ty_bits t \<and> clear_ty (xs ! 0) = Some t"
  "clear_neg xs = Some v \<Longrightarrow> \<exists>t b. v = Val t b \<and> b < 2 ^ ty_bits t \<and> clear_ty (xs ! 0) = Some t"
   apply (cases xs rule: clear_not.cases; auto)
  apply (cases xs rule: clear_neg.cases; auto split: if_splits)
  done

lemma trivial_value_bound [simp]: "trivial_value t bs < 2 ^ ty_bits t"
  by (simp add: trivial_value_def)

lemma clear_if_result:
  "clear_if xs = Some v \<Longrightarrow> \<forall>x \<in> set xs. clear_ok x \<Longrightarrow>
   \<exists>t b. v = Val t b \<and> b < 2 ^ ty_bits t \<and> clear_ty (xs ! 1) = Some t"
  by (cases xs rule: clear_if.cases) (auto simp: clear_ok_def split: if_splits)

lemma clear_cast_result:
  "clear_cast xs = Some v \<Longrightarrow> \<exists>t b. v = Val t b \<and> b < 2 ^ ty_bits t \<and> clear_ty (xs ! 1) = Some t"
  by (cases xs rule: clear_cast.cases) (auto split: option.splits)

lemma clear_trivial_result:
  "clear_trivial xs = Some v \<Longrightarrow> \<exists>t b. v = Val t b \<and> b < 2 ^ ty_bits t \<and> clear_ty (xs ! 1) = Some t"
  by (cases xs rule: clear_trivial.cases) (auto split: option.splits)

lemma clear_perform_result:
  assumes "clear_perform sh op xs = Some v" and "\<forall>x \<in> set xs. clear_ok x"
  shows "\<exists>t b. v = Val t b \<and> b < 2 ^ ty_bits t \<and> result_ty op xs = Some t"
  using assms clear_unary_result [of xs v] clear_if_result [of xs v] clear_cast_result [of xs v]
    clear_trivial_result [of xs v]
  by (cases op)
    (auto simp: result_ty_def is_comparison_def dest!: clear_arith_result clear_compare_result)

lemma abs_ct_Val: "abs_ct dec x = Val t b \<longleftrightarrow> (\<exists>a. x = mk_ct t a \<and> b = dec a)"
  by (cases x rule: sfc_cases) auto

lemma random_bits_bound:
  "tfhe_laws B dec sh \<Longrightarrow> dec (lib_rand_bounded B t s (random_bits ub (ty_bits t))) < 2 ^ ty_bits t"
  by (rule order_less_le_trans [OF lib_rand_dec(2)])
    (simp_all add: random_bits_le power_increasing)

lemma generate_random_result:
  assumes "tfhe_laws B dec sh" and "generate_random_number B (to_be_u16_bit sc) s ub = Ok r"
  shows "\<exists>t a. r = mk_ct t a \<and> dec a < 2 ^ ty_bits t \<and> ty_of_bytes sc = Some t"
  using assms lib_rand_dec(1) [OF assms(1), of TBool s] random_bits_bound [OF assms(1)]
  by (cases "ty_of_bytes sc")
    (auto simp: generate_random_number_view to_be_u16_ty split: if_splits)

lemma let_scalar_Ok:
  "let_scalar op ops i k = Ok r \<longleftrightarrow> (\<exists>bs. i < length ops \<and> ops ! i = Scalar bs \<and> k bs = Ok r)"
proof (cases "i < length ops")
  case True
  then show ?thesis
    by (cases "ops ! i" rule: sfc_cases) (simp_all add: let_scalar_def mk_ct_case_scalar unsupported_def)
qed (simp add: let_scalar_def)

lemma rand_result:
  assumes laws: "tfhe_laws B dec sh"
  shows "perform_rand B ops = Ok r \<Longrightarrow>
      \<exists>t a. r = mk_ct t a \<and> dec a < 2 ^ ty_bits t \<and> clear_ty (map (abs_ct dec) ops ! 1) = Some t"
    and "perform_rand_bounded B ops = Ok r \<Longrightarrow>
      \<exists>t a. r = mk_ct t a \<and> dec a < 2 ^ ty_bits t \<and> clear_ty (map (abs_ct dec) ops ! 2) = Some t"
  by (auto simp: perform_rand_def perform_rand_bounded_def let_scalar_Ok
      dest!: generate_random_result [OF laws])

lemma engine_result:
  assumes laws: "tfhe_laws B dec sh" and ok: "\<forall>x \<in> set ops. ct_ok dec x"
    and r: "perform_fhe_operation_impl B (op_to_i16 op) ops = Ok r"
  shows "\<exists>t a. r = mk_ct t a \<and> dec a < 2 ^ ty_bits t \<and> result_ty op (map (abs_ct dec) ops) = Some t"
proof (cases "op \<in> {FheRand, FheRandBounded}")
  case True
  with r show ?thesis
    using rand_result [OF laws, of ops r]
    by (auto simp: perform_impl_op result_ty_def is_comparison_def)
next
  case False
  from engine_refines [OF laws ok False] r
  have "clear_perform sh op (map (abs_ct dec) ops) = Some (abs_ct dec r)" by simp
  from clear_perform_result [OF this] ok show ?thesis by (auto simp: abs_ct_Val)
qed

text \<open>
  C16. A call that returns gives a ciphertext, never a scalar, that decrypts to a number of its
  type; the type is the boolean for a comparison, the one the type operand names for a creation or
  a cast, and that of the first operand otherwise (the second for a selection).
\<close>

theorem result_typed:
  assumes "tfhe_laws B dec sh" and "\<forall>x \<in> set ops. ct_ok dec x"
    and "perform_fhe_operation_impl B (op_to_i16 op) ops = Ok r"
  shows "\<exists>t a. r = mk_ct t a \<and> dec a < 2 ^ ty_bits t \<and> result_ty op (map (abs_ct dec) ops) = Some t"
  using assms by (rule engine_result)

lemma result_typed_witness:
  "\<exists>t a. FheBool (1 :: nat) = mk_ct t a \<and> clear_dec a < 2 ^ ty_bits t
     \<and> result_ty FheLt (map (abs_ct clear_dec) [FheUint8 3, FheUint8 5]) = Some t"
proof (rule result_typed [OF clear_lib_laws])
  show "\<forall>x \<in> set [FheUint8 3, FheUint8 5]. ct_ok clear_dec x"
    by (simp add: ct_ok_def clear_dec_def)
  show "perform_fhe_operation_impl clear_lib (op_to_i16 FheLt) [FheUint8 3, FheUint8 5] = Ok (FheBool 1)"
    by code_simp
qed

section \<open>Random values\<close>

text \<open>
  A bounded random value of an integer type, with a bound that is not zero, is below the bound
  and below 2 to the width of the type.
\<close>

theorem rand_bounded_range:
  assumes laws: "tfhe_laws B dec sh" and t: "ty_of_bytes sc = Some t" and nb: "t \<noteq> TBool"
    and ub: "be_val ub \<noteq> 0"
  shows "\<exists>a. perform_fhe_operation_impl B (op_to_i16 FheRandBounded) [Scalar cnt, Scalar ub, Scalar sc]
           = Ok (mk_ct t a) \<and> dec a < be_val ub \<and> dec a < 2 ^ ty_bits t"
proof -
  let ?k = "random_bits (Some ub) (ty_bits t)"
  let ?a = "lib_rand_bounded B t (to_be_u128_bit cnt) ?k"
  have "dec ?a < 2 ^ ?k" by (rule lib_rand_dec(2) [OF laws random_bits_le])
  also have "2 ^ ?k \<le> (2 :: nat) ^ be_number_random_bits ub"
    by (intro power_increasing) (simp_all add: random_bits_def)
  also have "\<dots> \<le> be_val ub" by (rule be_number_random_bits_bound [OF ub])
  finally have "dec ?a < be_val ub" .
  moreover have "perform_rand_bounded B [Scalar cnt, Scalar ub, Scalar sc] = Ok (mk_ct t ?a)"
    using t nb by (simp add: perform_rand_bounded_def generate_random_number_view to_be_u16_ty)
  ultimately show ?thesis
    using random_bits_bound [OF laws] unfolding perform_impl_op perform_op.simps by blast
qed

lemma rand_bounded_range_witness:
  "\<exists>a. perform_fhe_operation_impl clear_lib (op_to_i16 FheRandBounded)
         [Scalar [9], Scalar [1, 0], Scalar [3]] = Ok (mk_ct TUint16 a)
     \<and> clear_dec a < be_val [1, 0] \<and> clear_dec a < 2 ^ ty_bits TUint16"
  by (rule rand_bounded_range [OF clear_lib_laws]) (simp_all add: ty_of_bytes_def ty_of_num_def be_val_def)

text \<open>
  With a bound that is a power of two, the library is asked for exactly that many random bits,
  or for the width of the type when the bound is wider; a bound of zero bytes asks for 8 bits a
  byte. The seed is the counter operand modulo \<open>2 ^ 128\<close>.
\<close>

theorem rand_bounded_bits:
  assumes t: "ty_of_bytes sc = Some t" and nb: "t \<noteq> TBool" and ub: "be_val ub \<in> {0, 2 ^ k}"
  shows "perform_fhe_operation_impl B (op_to_i16 FheRandBounded) [Scalar cnt, Scalar ub, Scalar sc]
      = Ok (mk_ct t (lib_rand_bounded B t (of_nat (be_val cnt))
          (min (if be_val ub = 0 then 8 * length ub else k) (ty_bits t))))"
proof -
  have seed: "to_be_u128_bit cnt = of_nat (be_val cnt)"
    by (rule word_unat_eq_iff [THEN iffD2]) (simp add: rd128.unat_rd unat_of_nat)
  show ?thesis
    unfolding perform_impl_op perform_op.simps
    using t nb ub
    by (auto simp: perform_rand_bounded_def generate_random_number_view to_be_u16_ty random_bits_def
        seed be_number_random_bits_zero be_number_random_bits_power)
qed

lemma rand_bounded_bits_witness:
  "perform_fhe_operation_impl clear_lib (op_to_i16 FheRandBounded) [Scalar [9], Scalar [16], Scalar [3]]
     = Ok (mk_ct TUint16 (lib_rand_bounded clear_lib TUint16 (of_nat (be_val [9]))
         (min (if be_val [16] = 0 then 8 * length [16::u8] else 4) (ty_bits TUint16))))"
  by (rule rand_bounded_bits) (simp_all add: ty_of_bytes_def ty_of_num_def be_val_def)

section \<open>Scalars and trivial encryptions\<close>

lemma trivial_value_scalar:
  "(t = TBool \<Longrightarrow> be_val bs mod 256 = 0 \<longleftrightarrow> be_val bs = 0) \<Longrightarrow> trivial_value t bs = clear_scalar t bs"
  by (auto simp: trivial_value_def clear_scalar_def)

lemma clear_binary_scalar:
  "\<not> refused (clear_scalar t bs) \<Longrightarrow>
   clear_binary S f refused [Val t a, Bytes bs] = clear_binary S f refused [Val t a, Val t (clear_scalar t bs)]"
  by simp

lemma clear_perform_scalar:
  assumes bin: "op_type op = Binary"
    and nz: "op \<in> {FheDiv, FheRem} \<Longrightarrow> clear_scalar t bs \<noteq> 0"
  shows "clear_perform sh op [Val t a, Bytes bs] = clear_perform sh op [Val t a, Val t (clear_scalar t bs)]"
  using bin nz by (cases op) (auto simp: clear_arith_def clear_compare_def scalar_refused_def)



end
