(* ===== verification/CiphertextStorage.thy ===== *)
theory CiphertextStorage
  imports Creation FheOperations
begin

text \<open>
  What is written to the database reads back: the operation code of a computation, the kind of an
  access, and the compressed or serialised form of a ciphertext with its type number
  (\<open>fhevm-engine-common/src/types.rs\<close>, \<open>tfhe_ops.rs\<close>).
\<close>

section \<open>Codes\<close>

text \<open>
  The code an operation is stored under reads back as the operation, and a code that reads as
  an operation is the one it is stored under; the conversion never panics, so its assertion that
  the match agrees with the discriminants holds. Reading through 32 bits accepts the same codes,
  and the access kinds obey the same laws.
\<close>

theorem codes_roundtrip:
  "(op_try_from_i16 n = Ok op \<longleftrightarrow> n = op_to_i16 op)
   \<and> (op_try_from_i32 (i16_as_i32 n) = op_try_from_i16 n)
   \<and> \<not> panics (op_try_from_i16 n)
   \<and> (allow_events_try_from_i16 n = Ok a \<longleftrightarrow> n = allow_events_to_i16 a)"
proof -
  have "- (2 ^ 15) \<le> sint n \<and> sint n < 2 ^ 15"
    using sint_range_size [of n] by (simp add: word_size)
  then have "sint (word_of_int (sint n) :: i32) = sint n"
    by (simp add: sint_up_scast is_up)
  then have "op_try_from_i32 (i16_as_i32 n) = op_try_from_i16 n"
    using \<open>- (2 ^ 15) \<le> sint n \<and> sint n < 2 ^ 15\<close>
    by (simp add: op_try_from_i32_def i32_try_into_i16_def i16_as_i32_def)
  then show ?thesis
    using op16.dec_Ok_iff [of n op] allow16.dec_Ok_iff [of n a]
    by (simp add: op_try_from_i16_match op_of_i16_match_no_panic)
qed

section \<open>Ciphertexts\<close>

lemma compress_view:
  "compress_ct build lib_ser (mk_ct t c) =
     (case build t c of
        None \<Rightarrow> Panic ExpectFailed
      | Some l \<Rightarrow> bind_res (safe_serialize lib_ser l) (\<lambda>b. Ok (ty_num t, b)))"
  by (cases t) (simp_all add: compress_ct_def split: option.split)

lemma compress_scalar: "compress_ct build lib_ser (Scalar bs) = Panic ExplicitPanic"
  by (simp add: compress_ct_def)

lemma serialize_view:
  "serialize_ct lib_ser (mk_ct t c) =
     bind_res (safe_serialize (lib_ser t) c) (\<lambda>b. Ok (ty_num t, b))"
  by (cases t) (simp_all add: serialize_ct_def)

lemma serialize_scalar: "serialize_ct lib_ser (Scalar bs) = Panic ExplicitPanic"
  by (simp add: serialize_ct_def)

lemma decompress_view:
  "decompress_impl get0 (ty_num t) l = get_or_missing (get0 l t) (mk_ct t)"
  by (cases t) (simp_all add: decompress_impl_def)

lemma safe_serialize_Ok: "safe_serialize f v = Ok b \<longleftrightarrow> f v = Some b"
  by (simp add: safe_serialize_def split: option.split)

text \<open>
  A compressed ciphertext decompresses to itself, at the type it is stored with, when the
  library reads back the list it wrote; and compression returns no error, only a value or a panic.
\<close>

theorem compress_roundtrip:
  assumes ser: "\<And>l b. lib_ser l = Some b \<Longrightarrow> lib_deser b = Inr l"
    and elem: "\<And>t c l. build t c = Some l \<Longrightarrow> get0 l t = Inr (Some c)"
    and stored: "compress_ct build lib_ser ct = Ok (n, b)"
  shows "decompress_ct lib_deser get0 n b = Ok ct \<and> n = type_num ct"
proof (cases ct rule: sfc_cases)
  case (ct t c)
  with stored obtain l where "build t c = Some l" "lib_ser l = Some b" "n = ty_num t"
    by (auto simp: compress_view bind_res_eq_Ok safe_serialize_Ok split: option.splits)
  with ct show ?thesis
    by (simp add: decompress_ct_def ser elem decompress_view get_or_missing_def)
next
  case (scalar bs)
  with stored show ?thesis by (simp add: compress_scalar)
qed

definition byte_ser :: "nat \<Rightarrow> bytes option" where
  "byte_ser n = (if n < 256 then Some [of_nat n] else None)"

definition byte_deser :: "bytes \<Rightarrow> lib_error + nat" where
  "byte_deser bs = (case bs of [b] \<Rightarrow> Inr (unat b) | _ \<Rightarrow> Inl ''length'')"

lemma byte_ser_deser: "byte_ser n = Some b \<Longrightarrow> byte_deser b = Inr n"
  by (auto simp: byte_ser_def byte_deser_def unat_of_nat split: if_splits)

lemma compress_roundtrip_witness:
  "compress_ct (\<lambda>t c. Some c) byte_ser (FheUint16 9) = (Ok (3, [9]) :: (fhevm_error, i16 \<times> bytes) res)
   \<and> decompress_ct byte_deser (\<lambda>l t. Inr (Some l)) 3 [9] = Ok (FheUint16 9)"
proof -
  have stored: "compress_ct (\<lambda>t c. Some c) byte_ser (FheUint16 9)
      = (Ok (3, [9]) :: (fhevm_error, i16 \<times> bytes) res)"
    by (simp add: compress_ct_def byte_ser_def safe_serialize_def)
  with compress_roundtrip [of byte_ser byte_deser "\<lambda>t c. Some c" "\<lambda>l t. Inr (Some l)",
      OF byte_ser_deser _ stored]
  show ?thesis by simp
qed

text \<open>
  The serialised form of a ciphertext deserialises to it with the number it was stored under,
  when the library reads back what it wrote at that type; any number above 11, and a negative one,
  is refused as an unknown type whatever the bytes are.
\<close>

theorem serialize_roundtrip:
  assumes ser: "\<And>t c b. lib_ser t c = Some b \<Longrightarrow> lib_deser t b = Inr c"
    and stored: "serialize_ct lib_ser ct = Ok (n, b)"
  shows "deserialize_fhe_ciphertext lib_deser n b = Ok ct
     \<and> (\<forall>m. m \<notin> range ty_num \<longrightarrow>
          deserialize_fhe_ciphertext lib_deser m b = Err (UnknownFheType (i16_as_i32 m)))"
proof
  show "\<forall>m. m \<notin> range ty_num \<longrightarrow>
      deserialize_fhe_ciphertext lib_deser m b = Err (UnknownFheType (i16_as_i32 m))"
    by (auto simp: deserialize_view ty_of_num_def image_iff ty_num.simps split: if_splits)
      (metis ty_num.simps)+
next
  show "deserialize_fhe_ciphertext lib_deser n b = Ok ct"
  proof (cases ct rule: sfc_cases)
    case (ct t c)
    with stored have "lib_ser t c = Some b" "n = ty_num t"
      by (auto simp: serialize_view bind_res_eq_Ok safe_serialize_Ok)
    with ct show ?thesis by (simp add: deserialize_view ser safe_deserialize_def)
  next
    case (scalar bs)
    with stored show ?thesis by (simp add: serialize_scalar)
  qed
qed

lemma serialize_roundtrip_witness:
  "serialize_ct (\<lambda>t. byte_ser) (FheBool 1) = (Ok (0, [1]) :: (fhevm_error, i16 \<times> bytes) res)
   \<and> deserialize_fhe_ciphertext (\<lambda>t. byte_deser) 0 [1] = Ok (FheBool 1)"
proof -
  have stored: "serialize_ct (\<lambda>t. byte_ser) (FheBool 1)
      = (Ok (0, [1]) :: (fhevm_error, i16 \<times> bytes) res)"
    by (simp add: serialize_ct_def byte_ser_def safe_serialize_def)
  with serialize_roundtrip [of "\<lambda>t. byte_ser" "\<lambda>t. byte_deser", OF byte_ser_deser stored]
  show ?thesis by simp
qed

section \<open>Lists of inputs\<close>

text \<open>
  A list of inputs is extracted whole or not at all: the extraction succeeds exactly when the
  library knows a kind of the engine at every index and yields its ciphertext there, and then
  returns one ciphertext for each index, of the type the library reported, in order.
\<close>

theorem extract_list_iff:
  "extract_ct_list e = Ok cts \<longleftrightarrow>
     list_all2
       (\<lambda>i ct. \<exists>t c. ex_kind e i = Some (Kind t) \<and> ex_get e i t = Inr (Some c) \<and> ct = mk_ct t c)
       [0..<ex_len e] cts"
proof -
  have "extract_ct e i = Ok ct \<longleftrightarrow>
      (\<exists>t c. ex_kind e i = Some (Kind t) \<and> ex_get e i t = Inr (Some c) \<and> ct = mk_ct t c)" for i ct
    by (auto simp: extract_ct_view expected_data_def split: option.splits lib_kind.splits sum.splits)
  then show ?thesis
    by (simp add: extract_ct_list_def extract_from_Ok)
qed

end
