(* ===== verification/DependencySort.thy ===== *)
theory DependencySort
  imports FheOperations "HOL-Library.List_Lexorder" "HOL-Library.Multiset"
begin

text \<open>
  The order in which a batch of computations is processed (\<open>tfhe-worker/src/utils.rs\<close>): validity
  of the handles, the dependencies between the computations of the batch, and the rounds that
  complete the computations whose inputs are known. A Rust \<open>HashMap\<close> is a map, a \<open>BTreeSet\<close> or a
  \<open>HashSet\<close> a set.
\<close>

section \<open>Data\<close>

text \<open>The messages of \<open>coprocessor.proto\<close>: an input is a handle or a scalar, and may be missing.\<close>

datatype comp_input = InputHandle bytes | ScalarInput bytes

record async_computation =
  ac_operation :: i32
  ac_transaction_id :: bytes
  ac_output_handle :: bytes
  ac_inputs :: "comp_input option list"
  ac_is_allowed :: bool

text \<open>
  \<open>CoprocessorError\<close>. A field that holds the hexadecimal text of a handle is modelled by its bytes,
  an error of the database or of another library by its text.
\<close>

datatype scheduler_error =
    CyclicDependence
  | DataflowGraphError
  | MissingInputs
  | ReRandomisationFailure
  | SchedulerFailure

datatype coprocessor_error =
    DbError string
  | OfScheduler scheduler_error
  | Unauthorized
  | OfFhevm fhevm_error
  | DuplicateOutputHandleInBatch bytes
  | CiphertextHandleLongerThan256Bytes
  | CiphertextHandleMustBeAtLeast1Byte bytes
  | UnexistingInputCiphertextsFound "bytes list"
  | AlreadyExistingResultHandlesFound "bytes list"
  | OutputHandleIsAlsoInputHandle bytes
  | CannotParseTenantEthereumAddress string string
  | CannotParseEthereumAddress string string
  | Eip712SigningFailure string
  | DuplicateResultHandleInInputsUploaded bytes
  | MoreThanMaximumCompactInputCiphertextsUploaded nat nat
  | MoreThanMaximumCiphertextsAttemptedToDownload nat nat
  | CompactInputCiphertextHasMoreCiphertextThanLimitAllows nat nat nat
  | ComputationInputIsUndefined bytes nat
  | TooManyCiphertextsInBatch nat nat
  | CiphertextComputationDependencyLoopDetected bytes bytes

section \<open>The passes\<close>

definition check_valid_ciphertext_handle :: "bytes \<Rightarrow> (coprocessor_error, unit) res" where
  "check_valid_ciphertext_handle inp =
     (if length inp > 256 then Err CiphertextHandleLongerThan256Bytes
      else if inp = [] then Err (CiphertextHandleMustBeAtLeast1Byte inp)
      else Ok ())"

text \<open>The first loop: the index of the computation that produces a handle.\<close>

fun collect_outputs ::
  "nat \<Rightarrow> async_computation list \<Rightarrow> (bytes \<rightharpoonup> nat) \<Rightarrow> (coprocessor_error, bytes \<rightharpoonup> nat) res" where
  "collect_outputs idx [] output_handles = Ok output_handles"
| "collect_outputs idx (c # rest) output_handles =
     bind_res (check_valid_ciphertext_handle (ac_output_handle c)) (\<lambda>_.
       if output_handles (ac_output_handle c) \<noteq> None then
         Err (DuplicateOutputHandleInBatch (ac_output_handle c))
       else collect_outputs (Suc idx) rest (output_handles(ac_output_handle c \<mapsto> idx)))"

text \<open>
  The second loop, over the inputs of a computation: the producers it depends on and the handles
  to look up in the database.
\<close>

fun collect_inputs ::
  "(bytes \<rightharpoonup> nat) \<Rightarrow> nat \<Rightarrow> async_computation \<Rightarrow> fhe_op \<Rightarrow> nat \<Rightarrow> comp_input option list
     \<Rightarrow> nat list \<Rightarrow> bytes set \<Rightarrow> (coprocessor_error, nat list \<times> bytes set) res" where
  "collect_inputs output_handles idx c fhe_op dep_idx [] this_deps db = Ok (this_deps, db)"
| "collect_inputs output_handles idx c fhe_op dep_idx (ih # ihs) this_deps db =
     (case ih of
        Some (InputHandle ih_bytes) \<Rightarrow>
          bind_res (check_valid_ciphertext_handle ih_bytes) (\<lambda>_.
            if ih_bytes = ac_output_handle c then Err (OutputHandleIsAlsoInputHandle ih_bytes)
            else (case output_handles ih_bytes of
              Some producer \<Rightarrow>
                collect_inputs output_handles idx c fhe_op (Suc dep_idx) ihs
                  (this_deps @ [producer]) db
            | None \<Rightarrow>
                collect_inputs output_handles idx c fhe_op (Suc dep_idx) ihs this_deps
                  (insert ih_bytes db)))
      | Some (ScalarInput sc_bytes) \<Rightarrow>
          bind_res (check_valid_ciphertext_handle sc_bytes) (\<lambda>_.
            if dep_idx \<noteq> 1 \<and> \<not> does_have_more_than_one_scalar fhe_op then
              Err (OfFhevm (FheOperationOnlySecondOperandCanBeScalar dep_idx 1))
            else collect_inputs output_handles idx c fhe_op (Suc dep_idx) ihs this_deps db)
      | None \<Rightarrow> Err (ComputationInputIsUndefined (ac_output_handle c) idx))"

fun collect_dependencies ::
  "(bytes \<rightharpoonup> nat) \<Rightarrow> nat \<Rightarrow> async_computation list \<Rightarrow> (nat \<times> nat list) list \<Rightarrow> bytes set
     \<Rightarrow> (coprocessor_error, (nat \<times> nat list) list \<times> bytes set) res" where
  "collect_dependencies output_handles idx [] deps db = Ok (deps, db)"
| "collect_dependencies output_handles idx (c # rest) deps db =
     bind_res (map_err OfFhevm (op_try_from_i32 (ac_operation c))) (\<lambda>fhe_op.
     bind_res (collect_inputs output_handles idx c fhe_op 0 (ac_inputs c) [] db) (\<lambda>(this_deps, db').
       collect_dependencies output_handles (Suc idx) rest
         (deps @ [(idx, rev (sort this_deps))]) db'))"

text \<open>
  One round over the queue: a computation is complete when each of its input handles is in the
  database or completed. The state is the completed handles, the result, the new queue, whether
  progress was made, and the first handle that could not be computed with the input it waits for.
\<close>

record round_state =
  completed :: "bytes set"
  sorted_out :: "async_computation list"
  requeued :: "(nat \<times> nat list) list"
  progress :: bool
  stuck :: bytes
  stuck_on :: bytes

fun scan_inputs ::
  "bytes set \<Rightarrow> bytes set \<Rightarrow> bytes \<Rightarrow> comp_input option list \<Rightarrow> bool \<times> bytes \<times> bytes \<Rightarrow> bool \<times> bytes \<times> bytes" where
  "scan_inputs db seen out [] acc = acc"
| "scan_inputs db seen out (ih # ihs) (can, first, first_dep) =
     scan_inputs db seen out ihs
       (case ih of
          Some (InputHandle h) \<Rightarrow>
            if h \<notin> db \<and> h \<notin> seen then
              (False, if first = [] then (out, h) else (first, first_dep))
            else (can, first, first_dep)
        | _ \<Rightarrow> (can, first, first_dep))"

fun run_round ::
  "async_computation list \<Rightarrow> bytes set \<Rightarrow> (nat \<times> nat list) list \<Rightarrow> round_state \<Rightarrow> round_state" where
  "run_round inp db [] s = s"
| "run_round inp db ((inp_idx, deps) # queue) s =
     (let async_comp = inp ! inp_idx;
          (can_compute_this, first, first_dep) =
            scan_inputs db (completed s) (ac_output_handle async_comp) (ac_inputs async_comp)
              (True, stuck s, stuck_on s);
          s' = s\<lparr>stuck := first, stuck_on := first_dep\<rparr>
      in run_round inp db queue
           (if can_compute_this then
              s'\<lparr>progress := True, completed := insert (ac_output_handle async_comp) (completed s),
                 sorted_out := sorted_out s @ [async_comp]\<rparr>
            else s'\<lparr>requeued := requeued s @ [(inp_idx, deps)]\<rparr>))"

definition start_round :: "bytes set \<Rightarrow> async_computation list \<Rightarrow> round_state" where
  "start_round seen res =
     \<lparr> completed = seen, sorted_out = res, requeued = [], progress = False, stuck = [], stuck_on = [] \<rparr>"


section \<open>Executable orders\<close>

text \<open>
  A computation is ready when its input handles are known; a list of computations is executable
  when each is ready once those before it are complete.
\<close>

definition handle_inputs :: "async_computation \<Rightarrow> bytes set" where
  "handle_inputs c = {h. Some (InputHandle h) \<in> set (ac_inputs c)}"

definition ready :: "bytes set \<Rightarrow> bytes set \<Rightarrow> async_computation \<Rightarrow> bool" where
  "ready db seen c \<longleftrightarrow> handle_inputs c \<subseteq> db \<union> seen"

fun executable :: "bytes set \<Rightarrow> bytes set \<Rightarrow> async_computation list \<Rightarrow> bool" where
  "executable db seen [] \<longleftrightarrow> True"
| "executable db seen (c # cs) \<longleftrightarrow>
     ready db seen c \<and> executable db (insert (ac_output_handle c) seen) cs"

lemma executable_append:
  "executable db seen (xs @ ys) \<longleftrightarrow>
     executable db seen xs \<and> executable db (ac_output_handle ` set xs \<union> seen) ys"
  by (induction xs arbitrary: seen) (auto simp: ac_simps)

lemma ready_mono: "ready db seen c \<Longrightarrow> seen \<subseteq> seen' \<Longrightarrow> ready db seen' c"
  by (auto simp: ready_def)

lemma executable_filter:
  assumes "executable db seen (map f xs)" and "seen \<subseteq> seen'"
    and "\<forall>x \<in> set xs. \<not> P x \<longrightarrow> ac_output_handle (f x) \<in> seen'"
  shows "executable db seen' (map f (filter P xs))"
  using assms
proof (induction xs arbitrary: seen seen')
  case Nil
  then show ?case by simp
next
  case (Cons x xs)
  show ?case
  proof (cases "P x")
    case True
    with Cons.prems Cons.IH [of "insert (ac_output_handle (f x)) seen" "insert (ac_output_handle (f x)) seen'"]
    show ?thesis by (auto intro: ready_mono)
  next
    case False
    with Cons.prems Cons.IH [of "insert (ac_output_handle (f x)) seen" seen'] show ?thesis by auto
  qed
qed

lemma executable_before:
  "executable db seen (xs @ c # ys) \<Longrightarrow> h \<in> handle_inputs c \<Longrightarrow>
   h \<in> db \<or> h \<in> seen \<or> h \<in> ac_output_handle ` set xs"
  by (auto simp: executable_append ready_def)

section \<open>A round\<close>

lemma scan_inputs_can:
  "fst (scan_inputs db seen out ihs (can, first, first_dep)) \<longleftrightarrow>
     can \<and> (\<forall>h. Some (InputHandle h) \<in> set ihs \<longrightarrow> h \<in> db \<or> h \<in> seen)"
proof (induction ihs arbitrary: can first first_dep)
  case Nil
  then show ?case by simp
next
  case (Cons ih ihs)
  show ?case
    by (cases ih; cases "the ih") (auto simp: Cons.IH)
qed

text \<open>A step of the round, with the bookkeeping of the first stuck handle left out.\<close>

lemma run_round_step:
  obtains f d where
    "run_round inp db ((i, deps) # queue) s =
      run_round inp db queue
        (if ready db (completed s) (inp ! i) then
           s\<lparr>stuck := f, stuck_on := d, progress := True,
             completed := insert (ac_output_handle (inp ! i)) (completed s),
             sorted_out := sorted_out s @ [inp ! i]\<rparr>
         else s\<lparr>stuck := f, stuck_on := d, requeued := requeued s @ [(i, deps)]\<rparr>)"
proof -
  obtain can f d where sc: "scan_inputs db (completed s) (ac_output_handle (inp ! i))
      (ac_inputs (inp ! i)) (True, stuck s, stuck_on s) = (can, f, d)"
    by (metis surj_pair)
  then have "can \<longleftrightarrow> ready db (completed s) (inp ! i)"
    using scan_inputs_can [of db "completed s" "ac_output_handle (inp ! i)"
        "ac_inputs (inp ! i)" True "stuck s" "stuck_on s"]
    by (auto simp: ready_def handle_inputs_def)
  with sc that [of d f] show thesis by (simp add: Let_def)
qed

lemma run_round_view:
  "\<exists>dn rest. mset queue = mset dn + mset rest
     \<and> sorted_out (run_round inp db queue s) = sorted_out s @ map (\<lambda>p. inp ! fst p) dn
     \<and> requeued (run_round inp db queue s) = requeued s @ rest
     \<and> completed (run_round inp db queue s)
        = (\<lambda>p. ac_output_handle (inp ! fst p)) ` set dn \<union> completed s
     \<and> (progress (run_round inp db queue s) \<longleftrightarrow> progress s \<or> dn \<noteq> [])
     \<and> executable db (completed s) (map (\<lambda>p. inp ! fst p) dn)
     \<and> (dn = [] \<longrightarrow> (\<forall>p \<in> set queue. \<not> ready db (completed s) (inp ! fst p)))"
proof (induction queue arbitrary: s)
  case Nil
  then show ?case by simp
next
  case (Cons p queue)
  obtain i deps where p: "p = (i, deps)" by (cases p)
  from run_round_step [of inp db i deps queue s] obtain f d where
    step: "run_round inp db ((i, deps) # queue) s =
      run_round inp db queue
        (if ready db (completed s) (inp ! i) then
           s\<lparr>stuck := f, stuck_on := d, progress := True,
             completed := insert (ac_output_handle (inp ! i)) (completed s),
             sorted_out := sorted_out s @ [inp ! i]\<rparr>
         else s\<lparr>stuck := f, stuck_on := d, requeued := requeued s @ [(i, deps)]\<rparr>)" .
  show ?case
  proof (cases "ready db (completed s) (inp ! i)")
    case True
    let ?s = "s\<lparr>stuck := f, stuck_on := d, progress := True,
             completed := insert (ac_output_handle (inp ! i)) (completed s),
             sorted_out := sorted_out s @ [inp ! i]\<rparr>"
    from Cons.IH [of ?s] obtain dn rest where "mset queue = mset dn + mset rest"
      "sorted_out (run_round inp db queue ?s) = sorted_out ?s @ map (\<lambda>p. inp ! fst p) dn"
      "requeued (run_round inp db queue ?s) = requeued ?s @ rest"
      "completed (run_round inp db queue ?s)
        = (\<lambda>p. ac_output_handle (inp ! fst p)) ` set dn \<union> completed ?s"
      "progress (run_round inp db queue ?s) \<longleftrightarrow> progress ?s \<or> dn \<noteq> []"
      "executable db (completed ?s) (map (\<lambda>p. inp ! fst p) dn)" by blast
    with True show ?thesis
      unfolding p step by (intro exI [of _ "(i, deps) # dn"] exI [of _ rest]) auto
  next
    case False
    let ?s = "s\<lparr>stuck := f, stuck_on := d, requeued := requeued s @ [(i, deps)]\<rparr>"
    from Cons.IH [of ?s] obtain dn rest where "mset queue = mset dn + mset rest"
      "sorted_out (run_round inp db queue ?s) = sorted_out ?s @ map (\<lambda>p. inp ! fst p) dn"
      "requeued (run_round inp db queue ?s) = requeued ?s @ rest"
      "completed (run_round inp db queue ?s)
        = (\<lambda>p. ac_output_handle (inp ! fst p)) ` set dn \<union> completed ?s"
      "progress (run_round inp db queue ?s) \<longleftrightarrow> progress ?s \<or> dn \<noteq> []"
      "executable db (completed ?s) (map (\<lambda>p. inp ! fst p) dn)"
      "dn = [] \<longrightarrow> (\<forall>p \<in> set queue. \<not> ready db (completed ?s) (inp ! fst p))" by blast
    with False show ?thesis
      unfolding p step by (intro exI [of _ dn] exI [of _ "(i, deps) # rest"]) auto
  qed
qed

lemma round_progress_shrinks:
  assumes "progress (run_round inp db queue (start_round seen res))"
  shows "length (requeued (run_round inp db queue (start_round seen res))) < length queue"
proof -
  from run_round_view [of queue inp db "start_round seen res"] obtain dn rest where
    "mset queue = mset dn + mset rest"
    "requeued (run_round inp db queue (start_round seen res)) = rest" "dn \<noteq> []"
    using assms by (auto simp: start_round_def)
  then show ?thesis
    by (metis add.commute length_greater_0_conv less_add_same_cancel1 size_mset size_union)
qed

section \<open>The rounds\<close>

text \<open>The rounds, until the queue is empty or a round makes no progress.\<close>

function run_rounds ::
  "async_computation list \<Rightarrow> bytes set \<Rightarrow> (nat \<times> nat list) list \<Rightarrow> bytes set \<Rightarrow> async_computation list
     \<Rightarrow> (coprocessor_error, async_computation list) res" where
  "run_rounds inp db queue seen res =
     (let r = run_round inp db queue (start_round seen res)
      in if \<not> progress r then
           Err (CiphertextComputationDependencyLoopDetected (stuck r) (stuck_on r))
         else if requeued r = [] then Ok (sorted_out r)
         else run_rounds inp db (requeued r) (completed r) (sorted_out r))"
  by pat_completeness auto

termination
  by (relation "measure (\<lambda>(inp, db, queue, seen, res). length queue)")
    (auto simp: round_progress_shrinks)

declare run_rounds.simps [simp del]

definition sort_computations_by_dependencies ::
  "async_computation list \<Rightarrow> (coprocessor_error, async_computation list \<times> bytes set) res" where
  "sort_computations_by_dependencies input =
     bind_res (collect_outputs 0 input Map.empty) (\<lambda>output_handles.
     bind_res (collect_dependencies output_handles 0 input [] {}) (\<lambda>(computation_dependencies, db).
     bind_res (run_rounds input db (sort_key snd computation_dependencies) {} []) (\<lambda>res.
       Ok (res, db))))"

section \<open>What the passes collect\<close>

lemma collect_outputs_Ok:
  "collect_outputs idx cs m = Ok m' \<Longrightarrow>
     distinct (map ac_output_handle cs) \<and> dom m' = dom m \<union> ac_output_handle ` set cs
     \<and> dom m \<inter> ac_output_handle ` set cs = {}"
proof (induction idx cs m rule: collect_outputs.induct)
  case (1 idx m)
  then show ?case by simp
next
  case (2 idx c rest m)
  from "2.prems" have valid: "check_valid_ciphertext_handle (ac_output_handle c) = Ok ()"
    and fresh: "m (ac_output_handle c) = None"
    and run: "collect_outputs (Suc idx) rest (m(ac_output_handle c \<mapsto> idx)) = Ok m'"
    by (auto simp: bind_res_eq_Ok split: if_splits)
  have up: "dom (m(ac_output_handle c \<mapsto> idx)) = insert (ac_output_handle c) (dom m)" by simp
  from fresh have "ac_output_handle c \<notin> dom m" by (simp add: domIff)
  with "2.IH" [OF _ run] fresh show ?case unfolding up by auto
qed

lemma collect_inputs_Ok:
  "collect_inputs oh idx c op k ihs ds db = Ok (ds', db') \<Longrightarrow>
     db' = db \<union> {h. Some (InputHandle h) \<in> set ihs \<and> h \<notin> dom oh}"
proof (induction oh idx c op k ihs ds db rule: collect_inputs.induct)
  case (1 oh idx c op k ds db)
  then show ?case by simp
next
  case (2 oh idx c op k ih ihs ds db)
  show ?case
  proof (cases ih)
    case None
    with 2 show ?thesis by simp
  next
    case (Some i)
    with 2 show ?thesis
      by (cases i) (auto simp: bind_res_eq_Ok split: if_splits option.splits)
  qed
qed

lemma collect_dependencies_Ok:
  "collect_dependencies oh idx cs deps db = Ok (deps', db') \<Longrightarrow>
     map fst deps' = map fst deps @ [idx..<idx + length cs]
     \<and> db' = db \<union> ((\<Union>c \<in> set cs. handle_inputs c) - dom oh)"
proof (induction oh idx cs deps db rule: collect_dependencies.induct)
  case (1 oh idx deps db)
  then show ?case by simp
next
  case (2 oh idx c rest deps db)
  from "2.prems" obtain op ds db1 where
    "op_try_from_i32 (ac_operation c) = Ok op"
    and ins: "collect_inputs oh idx c op 0 (ac_inputs c) [] db = Ok (ds, db1)"
    and "collect_dependencies oh (Suc idx) rest (deps @ [(idx, rev (sort ds))]) db1 = Ok (deps', db')"
    by (auto simp: bind_res_eq_Ok)
  with "2.IH" have
    "map fst deps' = map fst (deps @ [(idx, rev (sort ds))]) @ [Suc idx..<Suc idx + length rest]"
    and "db' = db1 \<union> ((\<Union>c \<in> set rest. handle_inputs c) - dom oh)"
    by auto
  moreover have "[idx..<idx + length (c # rest)] = idx # [Suc idx..<Suc idx + length rest]"
    by (subst upt_conv_Cons) simp_all
  ultimately show ?case
    using collect_inputs_Ok [OF ins] by (auto simp: handle_inputs_def)
qed

section \<open>The rounds find an executable order\<close>

lemma run_rounds_sound:
  "run_rounds inp db queue seen res = Ok out \<Longrightarrow>
     \<exists>ord. mset ord = mset queue \<and> out = res @ map (\<lambda>p. inp ! fst p) ord
        \<and> executable db seen (map (\<lambda>p. inp ! fst p) ord)"
proof (induction inp db queue seen res rule: run_rounds.induct)
  case (1 inp db queue seen res)
  let ?r = "run_round inp db queue (start_round seen res)"
  from run_round_view [of queue inp db "start_round seen res"] obtain dn rest where
    v: "mset queue = mset dn + mset rest"
    "sorted_out ?r = res @ map (\<lambda>p. inp ! fst p) dn"
    "requeued ?r = rest"
    "completed ?r = (\<lambda>p. ac_output_handle (inp ! fst p)) ` set dn \<union> seen"
    "executable db seen (map (\<lambda>p. inp ! fst p) dn)"
    by (auto simp: start_round_def)
  from "1.prems" have pr: "progress ?r"
    by (subst (asm) run_rounds.simps) (auto simp: Let_def split: if_splits)
  show ?case
  proof (cases "requeued ?r = []")
    case True
    with "1.prems" pr have "out = sorted_out ?r"
      by (subst (asm) run_rounds.simps) (auto simp: Let_def)
    with True v show ?thesis by (intro exI [of _ dn]) simp
  next
    case False
    with "1.prems" pr have "run_rounds inp db (requeued ?r) (completed ?r) (sorted_out ?r) = Ok out"
      by (subst (asm) run_rounds.simps) (auto simp: Let_def)
    with "1.IH" pr False obtain ord where
      "mset ord = mset rest" "out = sorted_out ?r @ map (\<lambda>p. inp ! fst p) ord"
      "executable db (completed ?r) (map (\<lambda>p. inp ! fst p) ord)"
      using v(3) by auto
    with v show ?thesis
      by (intro exI [of _ "dn @ ord"]) (simp add: executable_append image_image)
  qed
qed

lemma executable_nonempty_ready:
  "executable db seen xs \<Longrightarrow> xs \<noteq> [] \<Longrightarrow> \<exists>c \<in> set xs. ready db seen c"
  by (cases xs) auto

lemma run_rounds_complete:
  "queue \<noteq> [] \<Longrightarrow> distinct (map fst queue) \<Longrightarrow>
   executable db seen (map (\<lambda>i. inp ! i) ord) \<Longrightarrow> distinct ord \<Longrightarrow> set ord = fst ` set queue \<Longrightarrow>
   is_ok (run_rounds inp db queue seen res)"
proof (induction inp db queue seen res arbitrary: ord rule: run_rounds.induct)
  case (1 inp db queue seen res)
  let ?r = "run_round inp db queue (start_round seen res)"
  from run_round_view [of queue inp db "start_round seen res"] obtain dn rest where
    v: "mset queue = mset dn + mset rest"
    "requeued ?r = rest"
    "completed ?r = (\<lambda>p. ac_output_handle (inp ! fst p)) ` set dn \<union> seen"
    "progress ?r \<longleftrightarrow> dn \<noteq> []"
    "dn = [] \<longrightarrow> (\<forall>p \<in> set queue. \<not> ready db seen (inp ! fst p))"
    by (auto simp: start_round_def)
  have "ord \<noteq> []" using "1.prems" by auto
  with executable_nonempty_ready [OF "1.prems"(3)] obtain i where
    "i \<in> set ord" "ready db seen (inp ! i)" by auto
  with "1.prems"(5) v(5) have dn: "dn \<noteq> []" by auto
  have perm: "mset (map fst queue) = mset (map fst dn @ map fst rest)"
    by (simp add: v(1))
  then have dist: "distinct (map fst dn @ map fst rest)"
    using "1.prems"(2) by (metis mset_eq_imp_distinct_iff)
  have qset: "set queue = set dn \<union> set rest"
    using v(1) by (metis set_mset_mset set_mset_union)
  show ?case
  proof (cases "rest = []")
    case True
    with v dn show ?thesis by (subst run_rounds.simps) (simp add: Let_def)
  next
    case False
    let ?ord = "filter (\<lambda>i. i \<in> fst ` set rest) ord"
    have "ac_output_handle (inp ! i) \<in> completed ?r" if "i \<in> set ord" "i \<notin> fst ` set rest" for i
    proof -
      from that "1.prems"(5) qset have "i \<in> fst ` set dn" by auto
      then show ?thesis unfolding v(3) by force
    qed
    with executable_filter [OF "1.prems"(3), of "completed ?r" "\<lambda>i. i \<in> fst ` set rest"] v(3)
    have ex: "executable db (completed ?r) (map (\<lambda>i. inp ! i) ?ord)" by blast
    have s: "set ?ord = fst ` set rest" using "1.prems"(5) qset by auto
    have "distinct (map fst rest)" using dist by simp
    then have "is_ok (run_rounds inp db (requeued ?r) (completed ?r) (sorted_out ?r))"
      using "1.IH" [OF refl, of ?ord] v(2) v(4) dn False ex s "1.prems"(4) by simp
    with v dn False show ?thesis by (subst run_rounds.simps) (simp add: Let_def)
  qed
qed

section \<open>The whole function\<close>

text \<open>The first two passes accept the batch; \<open>db\<close> is what they look up in the database.\<close>

definition accepted_batch :: "async_computation list \<Rightarrow> bytes set \<Rightarrow> bool" where
  "accepted_batch input db \<longleftrightarrow>
     (\<exists>oh deps. collect_outputs 0 input Map.empty = Ok oh
        \<and> collect_dependencies oh 0 input [] {} = Ok (deps, db))"

lemma accepted_batch_run:
  assumes "accepted_batch input db"
  obtains deps where "map fst deps = [0..<length input]"
    and "db = (\<Union>c \<in> set input. handle_inputs c) - ac_output_handle ` set input"
    and "distinct (map ac_output_handle input)"
    and "sort_computations_by_dependencies input
       = bind_res (run_rounds input db (sort_key snd deps) {} []) (\<lambda>res. Ok (res, db))"
proof -
  from assms obtain oh deps where o: "collect_outputs 0 input Map.empty = Ok oh"
    and d: "collect_dependencies oh 0 input [] {} = Ok (deps, db)"
    by (auto simp: accepted_batch_def)
  from collect_outputs_Ok [OF o] collect_dependencies_Ok [OF d] show thesis
    by (intro that [of deps]) (auto simp: sort_computations_by_dependencies_def o d)
qed

lemma sort_Ok_accepted:
  "sort_computations_by_dependencies input = Ok (res, db) \<Longrightarrow> accepted_batch input db"
  by (auto simp: sort_computations_by_dependencies_def accepted_batch_def bind_res_eq_Ok)

lemma map_nth_perm:
  "mset ord = mset [0..<length xs] \<Longrightarrow> mset (map (\<lambda>i. xs ! i) ord) = mset xs"
  by (metis map_nth mset_map)

lemma perm_of_map:
  "mset ys = mset (map f xs) \<Longrightarrow> \<exists>zs. mset zs = mset xs \<and> map f zs = ys"
proof (induction ys arbitrary: xs)
  case Nil
  then show ?case by simp
next
  case (Cons y ys)
  then have "y \<in> set (map f xs)" by (metis list.set_intros(1) mset_eq_setD)
  then obtain x where x: "x \<in> set xs" "f x = y" by auto
  then obtain us vs where xs: "xs = us @ x # vs" by (meson split_list)
  with Cons.prems x have "mset ys = mset (map f (us @ vs))" by simp
  from Cons.IH [OF this] obtain zs where "mset zs = mset (us @ vs)" "map f zs = ys" by blast
  with x xs show ?case by (intro exI [of _ "x # zs"]) simp
qed

lemma sort_sound:
  assumes ok: "sort_computations_by_dependencies input = Ok (res, db)"
  shows "mset res = mset input \<and> executable db {} res
     \<and> db = (\<Union>c \<in> set input. handle_inputs c) - ac_output_handle ` set input
     \<and> distinct (map ac_output_handle input)"
proof -
  from accepted_batch_run [OF sort_Ok_accepted [OF ok]] obtain deps where
    deps: "map fst deps = [0..<length input]"
    and db: "db = (\<Union>c \<in> set input. handle_inputs c) - ac_output_handle ` set input"
    and dist: "distinct (map ac_output_handle input)"
    and run: "sort_computations_by_dependencies input
       = bind_res (run_rounds input db (sort_key snd deps) {} []) (\<lambda>res. Ok (res, db))" .
  from ok have "run_rounds input db (sort_key snd deps) {} [] = Ok res"
    unfolding run by (auto simp: bind_res_eq_Ok)
  from run_rounds_sound [OF this] obtain ord where "mset ord = mset deps"
    and res: "res = map (\<lambda>p. input ! fst p) ord" "executable db {} res" by auto
  then have "mset (map fst ord) = mset [0..<length input]" by (metis deps mset_map)
  from map_nth_perm [OF this] res have "mset res = mset input" by (simp add: comp_def)
  with res db dist show ?thesis by blast
qed

lemma sort_complete:
  assumes acc: "accepted_batch input db"
  shows "is_ok (sort_computations_by_dependencies input) \<longleftrightarrow>
     input \<noteq> [] \<and> (\<exists>ord. mset ord = mset input \<and> executable db {} ord)"
proof
  assume ok: "is_ok (sort_computations_by_dependencies input)"
  from accepted_batch_run [OF acc] obtain deps where
    deps: "map fst deps = [0..<length input]"
    and run: "sort_computations_by_dependencies input
       = bind_res (run_rounds input db (sort_key snd deps) {} []) (\<lambda>res. Ok (res, db))" .
  from ok run obtain res where r: "run_rounds input db (sort_key snd deps) {} [] = Ok res"
    by (cases "run_rounds input db (sort_key snd deps) {} []") auto
  with run have "sort_computations_by_dependencies input = Ok (res, db)" by simp
  from sort_sound [OF this] have "\<exists>ord. mset ord = mset input \<and> executable db {} ord" by blast
  moreover have "input \<noteq> []"
  proof
    assume "input = []"
    with deps have "deps = []" by simp
    with r show False by (subst (asm) run_rounds.simps) (simp add: start_round_def Let_def)
  qed
  ultimately show "input \<noteq> [] \<and> (\<exists>ord. mset ord = mset input \<and> executable db {} ord)" by blast
next
  assume "input \<noteq> [] \<and> (\<exists>ord. mset ord = mset input \<and> executable db {} ord)"
  then obtain ord where ne: "input \<noteq> []" and ord: "mset ord = mset input" "executable db {} ord"
    by blast
  from accepted_batch_run [OF acc] obtain deps where
    deps: "map fst deps = [0..<length input]" and dist: "distinct (map ac_output_handle input)"
    and run: "sort_computations_by_dependencies input
       = bind_res (run_rounds input db (sort_key snd deps) {} []) (\<lambda>res. Ok (res, db))" .
  have "mset ord = mset (map (\<lambda>i. input ! i) [0..<length input])" by (simp add: ord map_nth)
  from perm_of_map [OF this] obtain idx where
    idx: "ord = map (\<lambda>i. input ! i) idx" "mset idx = mset [0..<length input]" by blast
  have keys: "mset (map fst (sort_key snd deps)) = mset [0..<length input]"
    by (metis deps mset_map mset_sort)
  have "is_ok (run_rounds input db (sort_key snd deps) {} [])"
  proof (rule run_rounds_complete)
    show "sort_key snd deps \<noteq> []" using deps ne by (metis length_0_conv length_map length_sort
      length_upt map_is_Nil_conv minus_nat.diff_0)
    show "distinct (map fst (sort_key snd deps))"
      using keys by (metis distinct_upt mset_eq_imp_distinct_iff)
    show "executable db {} (map (\<lambda>i. input ! i) idx)" using ord idx by simp
    show "distinct idx" using idx(2) by (metis distinct_upt mset_eq_imp_distinct_iff)
    show "set idx = fst ` set (sort_key snd deps)"
      using idx(2) keys by (metis list.set_map mset_eq_setD)
  qed
  then show "is_ok (sort_computations_by_dependencies input)"
    unfolding run by (cases "run_rounds input db (sort_key snd deps) {} []") auto
qed

section \<open>Properties\<close>

text \<open>
  C9. A sorted batch is a permutation of the batch in which every computation comes after those
  that produce its input handles; the handles to look up in the database are exactly the input
  handles no computation of the batch produces; and no two computations produce the same handle.
\<close>

theorem sorted_batch_executable:
  assumes "sort_computations_by_dependencies input = Ok (res, db)"
  shows "mset res = mset input \<and> executable db {} res
     \<and> db = (\<Union>c \<in> set input. handle_inputs c) - ac_output_handle ` set input
     \<and> distinct (map ac_output_handle input)"
  using assms by (rule sort_sound)

definition sample_computation :: "u8 \<Rightarrow> u8 \<Rightarrow> async_computation" where
  "sample_computation out inp =
     \<lparr> ac_operation = 20, ac_transaction_id = [], ac_output_handle = [out],
       ac_inputs = [Some (InputHandle [inp])], ac_is_allowed = True \<rparr>"

lemma sorted_batch_witness:
  "mset [sample_computation 2 1, sample_computation 3 2]
     = mset [sample_computation 3 2, sample_computation 2 1]
   \<and> executable {[1]} {} [sample_computation 2 1, sample_computation 3 2]
   \<and> {[1]} = (\<Union>c \<in> set [sample_computation 3 2, sample_computation 2 1]. handle_inputs c)
            - ac_output_handle ` set [sample_computation 3 2, sample_computation 2 1]
   \<and> distinct (map ac_output_handle [sample_computation 3 2, sample_computation 2 1])"
proof (rule sorted_batch_executable)
  show "sort_computations_by_dependencies [sample_computation 3 2, sample_computation 2 1]
    = Ok ([sample_computation 2 1, sample_computation 3 2], {[1]})"
    by code_simp
qed

text \<open>
  C13. A batch whose handles are valid is sorted exactly when it is not empty and has some
  executable order: a failure of the rounds means a cycle of dependencies, or an empty batch.
\<close>

theorem sort_succeeds_iff:
  assumes "accepted_batch input db"
  shows "is_ok (sort_computations_by_dependencies input) \<longleftrightarrow>
     input \<noteq> [] \<and> (\<exists>ord. mset ord = mset input \<and> executable db {} ord)"
  using assms by (rule sort_complete)

lemma sort_succeeds_witness:
  "\<not> is_ok (sort_computations_by_dependencies [])
   \<and> (is_ok (sort_computations_by_dependencies [sample_computation 2 3, sample_computation 3 2]) \<longleftrightarrow>
      (\<exists>ord. mset ord = mset [sample_computation 2 3, sample_computation 3 2] \<and> executable {} {} ord))"
proof -
  have "collect_outputs 0 [] Map.empty = Ok Map.empty"
    "collect_dependencies Map.empty 0 [] [] {} = Ok ([], {})" by simp_all
  then have a: "accepted_batch [] {}" unfolding accepted_batch_def by blast
  have "(case collect_outputs 0 [sample_computation 2 3, sample_computation 3 2] Map.empty of
      Ok oh \<Rightarrow> collect_dependencies oh 0 [sample_computation 2 3, sample_computation 3 2] [] {}
        = Ok ([(0, [1]), (1, [0])], {}) | _ \<Rightarrow> False)"
    by code_simp
  then have b: "accepted_batch [sample_computation 2 3, sample_computation 3 2] {}"
    unfolding accepted_batch_def by (auto split: res.splits)
  show ?thesis using sort_succeeds_iff [OF a] sort_succeeds_iff [OF b] by simp
qed

end
