(* ===== verification/Partition.thy ===== *)
theory Partition
  imports DependencySort
begin

text \<open>
  The partition of a dataflow graph into units of execution (\<open>scheduler/src/dfg.rs\<close>:
  \<open>partition_preserving_parallelism\<close>, \<open>partition_components\<close>, \<open>add_execution_depedences\<close>). The
  graph library (\<open>daggy\<close> over \<open>petgraph\<close>) is not in this repository: a graph is known by what its
  queries return, a \<open>gview\<close>, and \<open>gview_ok\<close> states what they document.
\<close>

section \<open>Graphs as their queries\<close>

text \<open>
  The number of nodes, the targets of the outgoing edges and the sources of the incoming edges of
  a node (one entry for each edge, in some order), the list of all edges, the topological sort
  (absent on a cycle), and the neighbours by edges of either direction.
\<close>

record gview =
  node_count :: nat
  out_edges :: "nat \<Rightarrow> nat list"
  in_edges :: "nat \<Rightarrow> nat list"
  all_edges :: "(nat \<times> nat) list"
  toposort :: "nat list option"
  undirected :: "nat \<Rightarrow> nat list"

definition edge :: "gview \<Rightarrow> nat \<Rightarrow> nat \<Rightarrow> bool" where
  "edge G u v \<longleftrightarrow> v \<in> set (out_edges G u)"

definition topo_order :: "gview \<Rightarrow> nat list \<Rightarrow> bool" where
  "topo_order G ts \<longleftrightarrow>
     distinct ts \<and> set ts = {..<node_count G}
     \<and> (\<forall>us v vs u. ts = us @ v # vs \<longrightarrow> edge G u v \<longrightarrow> u \<in> set us)"

definition gview_ok :: "gview \<Rightarrow> bool" where
  "gview_ok G \<longleftrightarrow>
     (\<forall>u v. edge G u v \<longrightarrow> u < node_count G \<and> v < node_count G)
   \<and> (\<forall>u v. u \<in> set (in_edges G v) \<longleftrightarrow> edge G u v)
   \<and> (\<forall>u v. (u, v) \<in> set (all_edges G) \<longleftrightarrow> edge G u v)
   \<and> (\<forall>u v. v \<in> set (undirected G u) \<longleftrightarrow> edge G u v \<or> edge G v u)
   \<and> (\<forall>ts. toposort G = Some ts \<longrightarrow> topo_order G ts)"

section \<open>Collecting nodes from a stack\<close>

text \<open>
  The inner loop of both partitions: the candidates of the node on top of the stack that are not
  visited yet are visited, collected and pushed. The visit map has a bit for each node; setting a
  bit out of range panics.
\<close>

fun push_unvisited ::
  "nat list \<Rightarrow> bool list \<Rightarrow> nat list \<Rightarrow> nat list \<Rightarrow> (scheduler_error, bool list \<times> nat list \<times> nat list) res" where
  "push_unvisited [] vis df_nodes stack = Ok (vis, df_nodes, stack)"
| "push_unvisited (child # children) vis df_nodes stack =
     (if child < length vis then
        if vis ! child then push_unvisited children vis df_nodes stack
        else push_unvisited children (vis[child := True]) (df_nodes @ [child]) (child # stack)
      else Panic IndexOutOfBounds)"

definition unvisited :: "bool list \<Rightarrow> nat" where
  "unvisited vis = length (filter Not vis)"

lemma unvisited_visit: "c < length vis \<Longrightarrow> \<not> vis ! c \<Longrightarrow> Suc (unvisited (vis[c := True])) = unvisited vis"
  unfolding unvisited_def
proof (induction vis arbitrary: c)
  case Nil
  then show ?case by simp
next
  case (Cons v vis)
  then show ?case by (cases c) auto
qed

lemma push_unvisited_decreases:
  "push_unvisited cs vis df st = Ok (vis', df', st') \<Longrightarrow>
     unvisited vis' < unvisited vis \<or> vis' = vis \<and> df' = df \<and> st' = st"
proof (induction cs vis df st rule: push_unvisited.induct)
  case (2 c cs vis df st)
  then show ?case using unvisited_visit [of c vis] by (fastforce split: if_splits)
qed simp

lemma bind_res_cong [fundef_cong]:
  "m = n \<Longrightarrow> (\<And>x. n = Ok x \<Longrightarrow> f x = g x) \<Longrightarrow> bind_res m f = bind_res n g"
  by (cases n) auto

function explore ::
  "(nat \<Rightarrow> nat list) \<Rightarrow> bool list \<Rightarrow> nat list \<Rightarrow> nat list \<Rightarrow> (scheduler_error, bool list \<times> nat list) res" where
  "explore candidates vis df_nodes [] = Ok (vis, df_nodes)"
| "explore candidates vis df_nodes (n # stack) =
     bind_res (push_unvisited (candidates n) vis df_nodes stack) (\<lambda>(vis', df', stack').
       explore candidates vis' df' stack')"
  by pat_completeness auto

termination
  by (relation "(\<lambda>(c, vis, df, stack). unvisited vis) <*mlex*> measure (\<lambda>(c, vis, df, stack). length stack)")
    (auto simp: mlex_prod_def wf_mlex dest!: push_unvisited_decreases)

text \<open>What the loops do: a set of visited nodes.\<close>

definition visited :: "bool list \<Rightarrow> nat set" where
  "visited vis = {n. n < length vis \<and> vis ! n}"

lemma visited_update: "c < length vis \<Longrightarrow> visited (vis[c := True]) = insert c (visited vis)"
  by (auto simp: visited_def nth_list_update)

definition reached :: "(nat \<Rightarrow> nat list) \<Rightarrow> (nat \<times> nat) set" where
  "reached candidates = {(a, b). b \<in> set (candidates a)}\<^sup>*"

lemma push_unvisited_spec:
  assumes "\<forall>c \<in> set cs. c < length vis"
  shows "\<exists>vis' new. push_unvisited cs vis df st = Ok (vis', df @ new, rev new @ st)
     \<and> length vis' = length vis \<and> distinct new \<and> set new = set cs - visited vis
     \<and> visited vis' = visited vis \<union> set cs"
  using assms
proof (induction cs vis df st rule: push_unvisited.induct)
  case (1 vis df st)
  then show ?case by simp
next
  case (2 c cs vis df st)
  show ?case
  proof (cases "vis ! c")
    case True
    with 2 show ?thesis by (fastforce simp: visited_def)
  next
    case False
    with 2 obtain vis' new where
      "push_unvisited cs (vis[c := True]) (df @ [c]) (c # st)
         = Ok (vis', (df @ [c]) @ new, rev new @ c # st)"
      "length vis' = length vis" "distinct new" "set new = set cs - insert c (visited vis)"
      "visited vis' = insert c (visited vis) \<union> set cs"
      by (auto simp: visited_update)
    with 2 False show ?thesis
      by (intro exI [of _ vis'] exI [of _ "c # new"]) (auto simp: visited_def)
  qed
qed

definition in_range :: "(nat \<Rightarrow> nat list) \<Rightarrow> nat \<Rightarrow> bool" where
  "in_range candidates n \<longleftrightarrow> (\<forall>a < n. \<forall>c \<in> set (candidates a). c < n)"

lemma reached_step: "b \<in> set (cand a) \<Longrightarrow> (b, c) \<in> reached cand \<Longrightarrow> (a, c) \<in> reached cand"
  unfolding reached_def by (rule converse_rtrancl_into_rtrancl) simp_all

lemma reached_refl [simp]: "(a, a) \<in> reached cand"
  by (simp add: reached_def)

lemma explore_spec:
  assumes "in_range cand (length vis)" and "\<forall>n \<in> set stack. n < length vis"
  shows "\<exists>vis' new. explore cand vis df stack = Ok (vis', df @ new)
     \<and> length vis' = length vis \<and> distinct new \<and> set new = visited vis' - visited vis
     \<and> visited vis \<subseteq> visited vis'
     \<and> (\<forall>n \<in> set new \<union> set stack. set (cand n) \<subseteq> visited vis')
     \<and> (\<forall>n \<in> set new. \<exists>s \<in> set stack. (s, n) \<in> reached cand)"
  using assms
proof (induction cand vis df stack rule: explore.induct)
  case (1 cand vis df)
  then show ?case by simp
next
  case (2 cand vis df n stack)
  from "2.prems" have "\<forall>c \<in> set (cand n). c < length vis"
    by (metis in_range_def list.set_intros(1))
  from push_unvisited_spec [OF this, of df stack] obtain vis1 new1 where
    p: "push_unvisited (cand n) vis df stack = Ok (vis1, df @ new1, rev new1 @ stack)"
    and l: "length vis1 = length vis" and d: "distinct new1" and s: "set new1 = set (cand n) - visited vis"
    and v: "visited vis1 = visited vis \<union> set (cand n)" by blast
  have "\<forall>m \<in> set (rev new1 @ stack). m < length vis1"
    using "2.prems" s l by (auto simp: in_range_def)
  with "2.IH" [OF p refl refl] "2.prems" l obtain vis' new where
    e: "explore cand vis1 (df @ new1) (rev new1 @ stack) = Ok (vis', (df @ new1) @ new)"
    "length vis' = length vis1" "distinct new" "set new = visited vis' - visited vis1"
    "visited vis1 \<subseteq> visited vis'"
    "\<forall>m \<in> set new \<union> set (rev new1 @ stack). set (cand m) \<subseteq> visited vis'"
    and r: "\<forall>m \<in> set new. \<exists>s \<in> set (rev new1 @ stack). (s, m) \<in> reached cand" by auto
  have "\<exists>s \<in> set (n # stack). (s, m) \<in> reached cand" if "m \<in> set (new1 @ new)" for m
  proof (cases "m \<in> set new1")
    case True
    then have "(n, m) \<in> reached cand" using s by (auto intro: reached_step)
    then show ?thesis by simp
  next
    case False
    with that r obtain s' where "s' \<in> set new1 \<union> set stack" "(s', m) \<in> reached cand" by auto
    then show ?thesis using s by (auto intro: reached_step)
  qed
  with p e l d s v show ?case by (intro exI [of _ vis'] exI [of _ "new1 @ new"]) auto
qed

section \<open>Partition without parallelism inside a unit\<close>

text \<open>
  The candidates of a node: its child, when it has one outgoing edge and the child one incoming
  edge. Both partitions visit an entry point, collect what they reach from it and start again from
  the next node of the topological order that is not visited.
\<close>

definition chain_next :: "gview \<Rightarrow> nat \<Rightarrow> nat list" where
  "chain_next G n =
     (if length (out_edges G n) = 1 then
        filter (\<lambda>child. length (in_edges G child) = 1) (out_edges G n)
      else [])"

fun partition_loop ::
  "(nat \<Rightarrow> nat list) \<Rightarrow> nat list \<Rightarrow> bool list \<Rightarrow> nat list list \<Rightarrow> (scheduler_error, nat list list) res" where
  "partition_loop candidates [] vis parts = Ok parts"
| "partition_loop candidates (nidx # ts) vis parts =
     (if nidx < length vis \<and> vis ! nidx then partition_loop candidates ts vis parts
      else if nidx < length vis then
        bind_res (explore candidates (vis[nidx := True]) [nidx] [nidx]) (\<lambda>(vis', df_nodes).
          partition_loop candidates ts vis' (parts @ [df_nodes]))
      else Panic IndexOutOfBounds)"

text \<open>
  The execution graph: its nodes, each with the dataflow nodes of the unit and the number of units
  it waits for, and its edges. Adding an edge fails when it would close a cycle, which only the
  library decides: \<open>would_cycle\<close>.
\<close>

record exec_node =
  df_nodes :: "nat list"
  dependence_counter :: u64

record exec_graph =
  exec_nodes :: "exec_node list"
  exec_edges :: "(nat \<times> nat) list"

type_synonym cycle_check = "(nat \<times> nat) list \<Rightarrow> nat \<times> nat \<Rightarrow> bool"

definition cycle_check_ok :: "cycle_check \<Rightarrow> bool" where
  "cycle_check_ok would_cycle \<longleftrightarrow>
     (\<forall>es u v. would_cycle es (u, v) \<longleftrightarrow> (v, u) \<in> (set es)\<^sup>*)"

text \<open>\<open>HashMap::insert\<close> of each node of a unit, and the lookup.\<close>

definition map_unit :: "nat \<Rightarrow> nat list \<Rightarrow> (nat \<rightharpoonup> nat) \<Rightarrow> (nat \<rightharpoonup> nat)" where
  "map_unit ex_node df m = foldl (\<lambda>m n. m(n \<mapsto> ex_node)) m df"

fun map_units :: "nat \<Rightarrow> nat list list \<Rightarrow> (nat \<rightharpoonup> nat) \<Rightarrow> (nat \<rightharpoonup> nat)" where
  "map_units k [] m = m"
| "map_units k (df # parts) m = map_units (Suc k) parts (map_unit k df m)"

definition node_map :: "nat list list \<Rightarrow> nat \<rightharpoonup> nat" where
  "node_map parts = map_units 0 parts Map.empty"

fun add_execution_edges ::
  "cycle_check \<Rightarrow> (nat \<rightharpoonup> nat) \<Rightarrow> (nat \<times> nat) list \<Rightarrow> (nat \<times> nat) list
     \<Rightarrow> (scheduler_error, (nat \<times> nat) list) res" where
  "add_execution_edges would_cycle m [] es = Ok es"
| "add_execution_edges would_cycle m ((source, target) # edges) es =
     (case m source of
        None \<Rightarrow> Err DataflowGraphError
      | Some xsrc \<Rightarrow>
          (case m target of
             None \<Rightarrow> Err DataflowGraphError
           | Some xdst \<Rightarrow>
               add_execution_edges would_cycle m edges
                 (if xsrc \<noteq> xdst \<and> (xsrc, xdst) \<notin> set es then
                    (if would_cycle es (xsrc, xdst) then es else es @ [(xsrc, xdst)])
                  else es)))"

definition count_dependences :: "(nat \<times> nat) list \<Rightarrow> nat \<Rightarrow> nat" where
  "count_dependences es node = length (filter (\<lambda>(u, v). v = node) es)"

definition add_execution_depedences ::
  "cycle_check \<Rightarrow> gview \<Rightarrow> nat list list \<Rightarrow> (scheduler_error, exec_graph) res" where
  "add_execution_depedences would_cycle G parts =
     bind_res (add_execution_edges would_cycle (node_map parts) (all_edges G) []) (\<lambda>es.
       Ok \<lparr> exec_nodes =
              map (\<lambda>(i, df). \<lparr> df_nodes = df, dependence_counter = of_nat (count_dependences es i) \<rparr>)
                (enumerate 0 parts),
            exec_edges = es \<rparr>)"

definition partition_preserving_parallelism ::
  "cycle_check \<Rightarrow> gview \<Rightarrow> (scheduler_error, exec_graph) res" where
  "partition_preserving_parallelism would_cycle G =
     (case toposort G of
        None \<Rightarrow> Err CyclicDependence
      | Some ts \<Rightarrow>
          bind_res (partition_loop (chain_next G) ts (replicate (node_count G) False) [])
            (add_execution_depedences would_cycle G))"

definition partition_components :: "gview \<Rightarrow> (scheduler_error, exec_graph) res" where
  "partition_components G =
     (case toposort G of
        None \<Rightarrow> Err CyclicDependence
      | Some ts \<Rightarrow>
          bind_res (partition_loop (undirected G) ts (replicate (node_count G) False) []) (\<lambda>parts.
            Ok \<lparr> exec_nodes =
                   map (\<lambda>df. \<lparr> df_nodes = sort_key (\<lambda>x. length (takeWhile (\<lambda>y. y \<noteq> x) ts)) df,
                              dependence_counter = 0 \<rparr>) parts,
                 exec_edges = [] \<rparr>))"

section \<open>The loop over the topological order\<close>

text \<open>
  An invariant of the loop, over the entry points handled so far and the units formed: it holds of
  a new unit when it holds before, and the loop ends with every node in exactly one unit.
\<close>

lemma partition_loop_invariant:
  assumes rng: "in_range cand L"
    and skip: "\<And>pre n parts. I pre parts \<Longrightarrow> n \<in> set (concat parts) \<Longrightarrow> I (pre @ [n]) parts"
    and step: "\<And>pre n parts vis vis' new rest.
      TS = pre @ n # rest \<Longrightarrow> I pre parts \<Longrightarrow> n \<notin> set (concat parts) \<Longrightarrow> visited vis = set (concat parts) \<Longrightarrow>
      set pre \<subseteq> set (concat parts) \<Longrightarrow> length vis = L \<Longrightarrow> n < L \<Longrightarrow>
      explore cand (vis[n := True]) [n] [n] = Ok (vis', n # new) \<Longrightarrow>
      visited vis' = set (concat parts) \<union> insert n (set new) \<Longrightarrow>
      \<forall>m \<in> insert n (set new). set (cand m) \<subseteq> visited vis' \<and> (n, m) \<in> reached cand \<Longrightarrow>
      distinct (concat (parts @ [n # new])) \<Longrightarrow>
      I (pre @ [n]) (parts @ [n # new])"
  shows "TS = pre @ ts \<Longrightarrow> I pre parts \<Longrightarrow> length vis = L \<Longrightarrow> visited vis = set (concat parts) \<Longrightarrow>
    distinct (concat parts) \<Longrightarrow> set pre \<subseteq> set (concat parts) \<Longrightarrow> set ts \<subseteq> {..<L} \<Longrightarrow>
    [] \<notin> set parts \<Longrightarrow>
    \<exists>parts'. partition_loop cand ts vis parts = Ok parts' \<and> I (pre @ ts) parts'
      \<and> distinct (concat parts') \<and> set pre \<union> set ts \<subseteq> set (concat parts')
      \<and> set (concat parts') \<subseteq> {..<L} \<and> [] \<notin> set parts'"
proof (induction ts arbitrary: pre parts vis)
  case Nil
  then show ?case by (auto simp: visited_def)
next
  case (Cons n ts)
  have n: "n < length vis" using Cons.prems by auto
  show ?case
  proof (cases "vis ! n")
    case True
    then have "n \<in> set (concat parts)" using n Cons.prems(4) by (auto simp: visited_def)
    with Cons.IH [of "pre @ [n]" parts vis] Cons.prems skip True n show ?thesis by auto
  next
    case False
    let ?vis = "vis[n := True]"
    from False have nn: "n \<notin> set (concat parts)" using Cons.prems(4) by (auto simp: visited_def)
    have v: "visited ?vis = insert n (set (concat parts))"
      using n Cons.prems(4) by (simp add: visited_update)
    from explore_spec [of cand ?vis "[n]" "[n]"] obtain vis' new where
      e: "explore cand ?vis [n] [n] = Ok (vis', [n] @ new)" "length vis' = length ?vis" "distinct new"
      "set new = visited vis' - visited ?vis" "visited ?vis \<subseteq> visited vis'"
      "\<forall>m \<in> set new \<union> set [n]. set (cand m) \<subseteq> visited vis'"
      "\<forall>m \<in> set new. \<exists>s \<in> set [n]. (s, m) \<in> reached cand"
      using rng n Cons.prems(3) by auto
    have vv: "visited vis' = set (concat parts) \<union> insert n (set new)" using e(4,5) v by auto
    have d: "distinct (concat (parts @ [n # new]))"
      using Cons.prems(5) e(3,4) v nn by auto
    have "I (pre @ [n]) (parts @ [n # new])"
      by (rule step [of pre n ts parts vis vis' new])
        (use Cons.prems nn n e vv d in auto)
    moreover have "set (pre @ [n]) \<subseteq> set (concat (parts @ [n # new]))" using Cons.prems(6) by auto
    ultimately show ?thesis
      using Cons.IH [of "pre @ [n]" "parts @ [n # new]" vis'] Cons.prems(1,3,7,8) e(1,2) vv d False n
      by (simp del: explore.simps)
  qed
qed

section \<open>Chains\<close>

definition link :: "gview \<Rightarrow> nat \<Rightarrow> nat \<Rightarrow> bool" where
  "link G u v \<longleftrightarrow> out_edges G u = [v] \<and> length (in_edges G v) = 1"

lemma chain_next_cases:
  obtains (none) "chain_next G n = []" | (one) c where "chain_next G n = [c]" and "link G n c"
proof (cases "chain_next G n")
  case Nil
  then show thesis by (rule none)
next
  case (Cons c cs)
  then obtain d where "out_edges G n = [d]"
    by (auto simp: chain_next_def length_Suc_conv split: if_splits)
  with Cons one [of c] show thesis by (auto simp: chain_next_def link_def split: if_splits)
qed

lemma explore_chain:
  "explore (chain_next G) vis df stack = Ok (vis', df') \<Longrightarrow> stack = [] \<or> stack = [last df] \<Longrightarrow>
   df \<noteq> [] \<Longrightarrow> successively (link G) df \<Longrightarrow> successively (link G) df'"
proof (induction "chain_next G" vis df stack rule: explore.induct)
  case (1 vis df)
  then show ?case by simp
next
  case (2 vis df n stack)
  then have st: "n = last df" "stack = []" by auto
  from chain_next_cases [of G n] show ?case
  proof cases
    case none
    with "2.prems" st show ?thesis by simp
  next
    case (one c)
    show ?thesis
    proof (cases "c < length vis \<and> \<not> vis ! c")
      case True
      then have p: "push_unvisited (chain_next G n) vis df stack = Ok (vis[c := True], df @ [c], [c])"
        using one st by simp
      from "2.prems"(1) have e: "explore (chain_next G) (vis[c := True]) (df @ [c]) [c] = Ok (vis', df')"
        unfolding explore.simps p by simp
      have "successively (link G) (df @ [c])"
        using "2.prems"(4) one st by (simp add: successively_append_iff)
      with "2.hyps" [OF p refl refl e] show ?thesis by simp
    next
      case False
      then have "push_unvisited (chain_next G n) vis df stack = Ok (vis, df, []) \<or>
        push_unvisited (chain_next G n) vis df stack = Panic IndexOutOfBounds"
        using one st by auto
      with "2.prems"(1,4) show ?thesis by auto
    qed
  qed
qed

definition chain_inv :: "gview \<Rightarrow> nat list list \<Rightarrow> bool" where
  "chain_inv G parts \<longleftrightarrow>
     (\<forall>p \<in> set parts. successively (link G) p)
   \<and> (\<forall>i < length parts. \<forall>u. edge G u (hd (parts ! i)) \<longrightarrow> (\<exists>j < i. u \<in> set (parts ! j)))"

lemma in_set_concat_nth: "u \<in> set (concat parts) \<longleftrightarrow> (\<exists>j < length parts. u \<in> set (parts ! j))"
  by (metis (no_types, lifting) UN_E UN_I in_set_conv_nth set_concat)

lemma chain_inv_snoc:
  assumes "chain_inv G parts" and "successively (link G) p"
    and "\<And>u. edge G u (hd p) \<Longrightarrow> \<exists>j < length parts. u \<in> set (parts ! j)"
  shows "chain_inv G (parts @ [p])"
  unfolding chain_inv_def
proof (intro conjI allI impI)
  show "\<forall>q \<in> set (parts @ [p]). successively (link G) q" using assms by (auto simp: chain_inv_def)
next
  fix i u assume i: "i < length (parts @ [p])" and e: "edge G u (hd ((parts @ [p]) ! i))"
  show "\<exists>j < i. u \<in> set ((parts @ [p]) ! j)"
  proof (cases "i < length parts")
    case True
    with e have "edge G u (hd (parts ! i))" by (simp add: nth_append)
    with assms(1) True obtain j where "j < i" "u \<in> set (parts ! j)" unfolding chain_inv_def by blast
    with True show ?thesis by (intro exI [of _ j]) (simp add: nth_append)
  next
    case False
    with i have "i = length parts" by simp
    with e assms(3) obtain j where "j < length parts" "u \<in> set (parts ! j)" by auto
    with \<open>i = length parts\<close> show ?thesis by (intro exI [of _ j]) (simp add: nth_append)
  qed
qed

lemma gview_topo: "gview_ok G \<Longrightarrow> toposort G = Some ts \<Longrightarrow> topo_order G ts"
  by (simp add: gview_ok_def)

lemma chain_range: "gview_ok G \<Longrightarrow> in_range (chain_next G) (node_count G)"
  by (auto simp: in_range_def chain_next_def gview_ok_def edge_def)

lemma partition_chains:
  assumes ok: "gview_ok G" and ts: "toposort G = Some ts"
  shows "\<exists>parts. partition_loop (chain_next G) ts (replicate (node_count G) False) [] = Ok parts
     \<and> chain_inv G parts \<and> distinct (concat parts) \<and> set (concat parts) = {..<node_count G}
     \<and> [] \<notin> set parts"
proof -
  note topo = gview_topo [OF ok ts]
  have "\<exists>parts'. partition_loop (chain_next G) ts (replicate (node_count G) False) [] = Ok parts'
      \<and> chain_inv G parts' \<and> distinct (concat parts') \<and> set [] \<union> set ts \<subseteq> set (concat parts')
      \<and> set (concat parts') \<subseteq> {..<node_count G} \<and> [] \<notin> set parts'"
  proof (rule partition_loop_invariant [where TS = ts and pre = "[]" and I = "\<lambda>_. chain_inv G",
        OF chain_range [OF ok]])
    fix pre n rest parts vis vis' new
    assume t: "ts = pre @ n # rest" and inv: "chain_inv G parts"
      and pre: "set pre \<subseteq> set (concat parts)"
      and e: "explore (chain_next G) (vis[n := True]) [n] [n] = Ok (vis', n # new)"
    from explore_chain [OF e] have "successively (link G) (n # new)" by simp
    moreover have "u \<in> set (concat parts)" if "edge G u n" for u
      using topo t that pre unfolding topo_order_def by blast
    then have "\<exists>j < length parts. u \<in> set (parts ! j)" if "edge G u n" for u
      using that by (simp only: in_set_concat_nth)
    ultimately show "chain_inv G (parts @ [n # new])"
      using chain_inv_snoc [OF inv, of "n # new"] by simp
  qed (use topo in \<open>auto simp: chain_inv_def visited_def topo_order_def\<close>)
  then show ?thesis using topo by (auto simp: topo_order_def)
qed

section \<open>The execution graph\<close>

text \<open>The unit of a node: the index of the unit that contains it.\<close>

lemma map_unit_apply: "map_unit i df m x = (if x \<in> set df then Some i else m x)"
  unfolding map_unit_def by (induction df arbitrary: m) auto

lemma map_units_outside: "x \<notin> set (concat parts) \<Longrightarrow> map_units k parts m x = m x"
  by (induction k parts m rule: map_units.induct) (simp_all add: map_unit_apply)

lemma map_units_inside:
  "distinct (concat parts) \<Longrightarrow> j < length parts \<Longrightarrow> x \<in> set (parts ! j) \<Longrightarrow>
   map_units k parts m x = Some (k + j)"
proof (induction k parts m arbitrary: j rule: map_units.induct)
  case (1 k m)
  then show ?case by simp
next
  case (2 k p parts m)
  show ?case
  proof (cases j)
    case 0
    with "2.prems" have "x \<in> set p" and "x \<notin> set (concat parts)" by auto
    with 0 show ?thesis by (simp add: map_units_outside map_unit_apply)
  next
    case (Suc j')
    with "2.prems" have "j' < length parts" "x \<in> set (parts ! j')" "distinct (concat parts)"
      by simp_all
    from "2.IH" [OF this(3,1,2)] Suc show ?thesis by simp
  qed
qed

lemma node_map_iff:
  assumes "distinct (concat parts)"
  shows "node_map parts x = Some i \<longleftrightarrow> i < length parts \<and> x \<in> set (parts ! i)"
proof (cases "x \<in> set (concat parts)")
  case True
  then obtain j where j: "j < length parts" "x \<in> set (parts ! j)" unfolding in_set_concat_nth by blast
  have m: "node_map parts x = Some k" if "k < length parts" "x \<in> set (parts ! k)" for k
    unfolding node_map_def using map_units_inside [OF assms that, of 0] by simp
  show ?thesis
  proof
    assume "node_map parts x = Some i"
    with m [OF j] have "i = j" by simp
    with j show "i < length parts \<and> x \<in> set (parts ! i)" by blast
  next
    assume "i < length parts \<and> x \<in> set (parts ! i)"
    then show "node_map parts x = Some i" by (intro m) simp_all
  qed
next
  case False
  have "node_map parts x = None"
    unfolding node_map_def using map_units_outside [OF False, of 0 Map.empty] by simp
  moreover have "\<not> (i < length parts \<and> x \<in> set (parts ! i))" using False unfolding in_set_concat_nth by blast
  ultimately show ?thesis by simp
qed

definition unit_edge :: "gview \<Rightarrow> nat list list \<Rightarrow> nat \<Rightarrow> nat \<Rightarrow> bool" where
  "unit_edge G parts i j \<longleftrightarrow>
     i < length parts \<and> j < length parts \<and> i \<noteq> j
     \<and> (\<exists>u \<in> set (parts ! i). \<exists>v \<in> set (parts ! j). edge G u v)"

text \<open>An edge between nodes of units never goes back, and inside a unit it goes one step forward.\<close>

lemma successively_pred:
  "successively R (xs @ v # ys) \<Longrightarrow> xs \<noteq> [] \<Longrightarrow> R (last xs) v"
  by (simp add: successively_append_iff)

lemma chain_edge:
  assumes ok: "gview_ok G" and inv: "chain_inv G parts" and d: "distinct (concat parts)"
    and i: "i < length parts" "parts ! i = xs @ v # ys" and e: "edge G u v"
  shows "if xs = [] then \<exists>j < i. u \<in> set (parts ! j) else u = last xs"
proof (cases "xs = []")
  case True
  with inv i e show ?thesis by (fastforce simp: chain_inv_def)
next
  case False
  from inv i have "successively (link G) (xs @ v # ys)" by (metis chain_inv_def nth_mem)
  from successively_pred [OF this False] have l: "link G (last xs) v" .
  then have "last xs \<in> set (in_edges G v)" "u \<in> set (in_edges G v)"
    using ok e by (auto simp: link_def gview_ok_def edge_def)
  moreover obtain w where "in_edges G v = [w]" using l by (auto simp: link_def length_Suc_conv)
  ultimately show ?thesis using False by simp
qed

lemma unit_unique:
  fixes u :: nat
  assumes "distinct (concat parts)" and "i < length parts" and "j < length parts"
    and "u \<in> set (parts ! i)" and "u \<in> set (parts ! j)"
  shows "i = j"
  using assms node_map_iff [OF assms(1), of u i] node_map_iff [OF assms(1), of u j] by auto

lemma unit_edge_forward:
  assumes ok: "gview_ok G" and inv: "chain_inv G parts" and d: "distinct (concat parts)"
    and e: "unit_edge G parts i j"
  shows "i < j"
proof -
  from e obtain u v where ij: "i < length parts" "j < length parts" "i \<noteq> j"
    and u: "u \<in> set (parts ! i)" and v: "v \<in> set (parts ! j)" and uv: "edge G u v"
    by (auto simp: unit_edge_def)
  from v obtain xs ys where s: "parts ! j = xs @ v # ys" by (meson split_list)
  from chain_edge [OF ok inv d ij(2) s uv] show ?thesis
  proof (cases "xs = []")
    case True
    with chain_edge [OF ok inv d ij(2) s uv] obtain k where "k < j" "u \<in> set (parts ! k)" by auto
    with unit_unique [OF d ij(1) _ u, of k] ij show ?thesis by simp
  next
    case False
    with chain_edge [OF ok inv d ij(2) s uv] s have "u \<in> set (parts ! j)" by simp
    with unit_unique [OF d ij(1,2) u] ij show ?thesis by simp
  qed
qed

lemma unit_edge_iff:
  assumes "distinct (concat parts)"
  shows "unit_edge G parts i j \<longleftrightarrow>
    (\<exists>u v. edge G u v \<and> node_map parts u = Some i \<and> node_map parts v = Some j) \<and> i \<noteq> j"
  unfolding unit_edge_def node_map_iff [OF assms] by blast

definition forward :: "(nat \<times> nat) list \<Rightarrow> bool" where
  "forward es \<longleftrightarrow> (\<forall>(i, j) \<in> set es. i < j)"

lemma forward_path: "(i, j) \<in> (set es)\<^sup>* \<Longrightarrow> forward es \<Longrightarrow> i \<le> j"
proof (induction rule: rtrancl_induct)
  case (step y z)
  then show ?case unfolding forward_def by fastforce
qed simp

definition unit_edges :: "(nat \<rightharpoonup> nat) \<Rightarrow> (nat \<times> nat) list \<Rightarrow> (nat \<times> nat) set" where
  "unit_edges m edges =
     {(i, j). i \<noteq> j \<and> (\<exists>u v. (u, v) \<in> set edges \<and> m u = Some i \<and> m v = Some j)}"

lemma unit_edges_simps:
  "unit_edges m [] = {}"
  "m u = Some i \<Longrightarrow> m v = Some j \<Longrightarrow>
     unit_edges m ((u, v) # edges) = (if i = j then {} else {(i, j)}) \<union> unit_edges m edges"
  by (auto simp: unit_edges_def)

text \<open>
  No edge of the execution graph is refused: each goes from a unit to a later one, so none closes
  a cycle, and the result of \<open>add_edge\<close> that the code drops is always a success.
\<close>

lemma add_execution_edges_spec:
  assumes cyc: "cycle_check_ok would_cycle"
    and m: "\<And>u v. (u, v) \<in> set edges \<Longrightarrow> \<exists>i j. m u = Some i \<and> m v = Some j \<and> i \<le> j"
  shows "forward es \<Longrightarrow> distinct es \<Longrightarrow>
    \<exists>es'. add_execution_edges would_cycle m edges es = Ok es' \<and> distinct es' \<and> forward es'
      \<and> set es' = set es \<union> unit_edges m edges"
  using m
proof (induction edges arbitrary: es)
  case Nil
  then show ?case by (simp add: unit_edges_simps)
next
  case (Cons e edges)
  obtain u v where e: "e = (u, v)" by (cases e)
  with Cons.prems(3) [of u v] obtain i j where ij: "m u = Some i" "m v = Some j" "i \<le> j" by auto
  note u = unit_edges_simps(2) [OF ij(1,2), of edges]
  have m': "\<And>u v. (u, v) \<in> set edges \<Longrightarrow> \<exists>i j. m u = Some i \<and> m v = Some j \<and> i \<le> j"
    using Cons.prems(3) by simp
  show ?case
  proof (cases "i = j \<or> (i, j) \<in> set es")
    case True
    then have step: "add_execution_edges would_cycle m (e # edges) es
        = add_execution_edges would_cycle m edges es"
      using ij e by auto
    have "set es \<union> unit_edges m (e # edges) = set es \<union> unit_edges m edges"
      using True unfolding e u by auto
    then show ?thesis using Cons.IH [OF Cons.prems(1,2) m'] unfolding step by simp
  next
    case False
    with ij have "i < j" by simp
    then have "\<not> would_cycle es (i, j)"
      using cyc forward_path [of j i es] Cons.prems(1) by (auto simp: cycle_check_ok_def)
    with False have step: "add_execution_edges would_cycle m (e # edges) es
        = add_execution_edges would_cycle m edges (es @ [(i, j)])"
      using ij e by simp
    have "forward (es @ [(i, j)])" using Cons.prems(1) \<open>i < j\<close> by (auto simp: forward_def)
    moreover have "distinct (es @ [(i, j)])" using Cons.prems(2) False by simp
    moreover have "set es \<union> unit_edges m (e # edges) = set (es @ [(i, j)]) \<union> unit_edges m edges"
      using False unfolding e u by auto
    ultimately show ?thesis using Cons.IH [of "es @ [(i, j)]"] m' unfolding step by simp
  qed
qed

text \<open>The units of an execution graph and the facts that make it a schedule of the dataflow graph.\<close>

definition units :: "exec_graph \<Rightarrow> nat list list" where
  "units eg = map df_nodes (exec_nodes eg)"

definition schedule_of :: "gview \<Rightarrow> exec_graph \<Rightarrow> bool" where
  "schedule_of G eg \<longleftrightarrow>
     distinct (concat (units eg)) \<and> set (concat (units eg)) = {..<node_count G}
   \<and> [] \<notin> set (units eg)
   \<and> set (exec_edges eg) = {(i, j). unit_edge G (units eg) i j}
   \<and> distinct (exec_edges eg)
   \<and> (\<forall>i < length (units eg).
        dependence_counter (exec_nodes eg ! i) = of_nat (card {j. unit_edge G (units eg) j i}))
   \<and> (\<forall>i j. unit_edge G (units eg) i j \<longrightarrow> i < j)
   \<and> (\<forall>p \<in> set (units eg). \<forall>xs v ys u. p = xs @ v # ys \<longrightarrow> edge G u v \<longrightarrow> u \<in> set p \<longrightarrow> u \<in> set xs)"

lemma units_enumerate:
  "map df_nodes (map (\<lambda>(i, df). \<lparr>df_nodes = df, dependence_counter = f i\<rparr>) (enumerate k parts)) = parts"
  by (induction parts arbitrary: k) simp_all

lemma count_dependences_card:
  assumes "distinct es"
  shows "count_dependences es i = card {j. (j, i) \<in> set es}"
proof -
  have "count_dependences es i = card (set (filter (\<lambda>(u, v). v = i) es))"
    unfolding count_dependences_def using distinct_card [OF distinct_filter [OF assms]] by metis
  also have "set (filter (\<lambda>(u, v). v = i) es) = (\<lambda>j. (j, i)) ` {j. (j, i) \<in> set es}" by auto
  also have "card \<dots> = card {j. (j, i) \<in> set es}" by (intro card_image inj_onI) simp
  finally show ?thesis .
qed

lemma chain_inside:
  assumes ok: "gview_ok G" and inv: "chain_inv G parts" and d: "distinct (concat parts)"
    and p: "p \<in> set parts" and s: "p = xs @ v # ys" and e: "edge G u v" and u: "u \<in> set p"
  shows "u \<in> set xs"
proof -
  from p obtain i where i: "i < length parts" "parts ! i = p" by (auto simp: in_set_conv_nth)
  note ce = chain_edge [OF ok inv d i(1) i(2) [unfolded s] e]
  show ?thesis
  proof (cases "xs = []")
    case True
    with ce obtain j where j: "j < i" "u \<in> set (parts ! j)" by auto
    with i u unit_unique [OF d i(1), of j u] have "i = j" by auto
    with j show ?thesis by simp
  next
    case False
    with ce show ?thesis by simp
  qed
qed

lemma chain_schedule:
  assumes ok: "gview_ok G" and cyc: "cycle_check_ok would_cycle" and inv: "chain_inv G parts"
    and d: "distinct (concat parts)" and all: "set (concat parts) = {..<node_count G}"
    and ne: "[] \<notin> set parts"
  shows "\<exists>eg. add_execution_depedences would_cycle G parts = Ok eg \<and> units eg = parts \<and> schedule_of G eg"
proof -
  have m: "\<exists>i j. node_map parts u = Some i \<and> node_map parts v = Some j \<and> i \<le> j"
    if "(u, v) \<in> set (all_edges G)" for u v
  proof -
    from that ok have e: "edge G u v" by (simp add: gview_ok_def)
    with ok have "u \<in> set (concat parts)" "v \<in> set (concat parts)" unfolding all by (auto simp: gview_ok_def)
    then obtain i j where ij: "node_map parts u = Some i" "node_map parts v = Some j"
      unfolding in_set_concat_nth node_map_iff [OF d, symmetric] by (metis node_map_iff [OF d])
    have "i \<le> j"
      using unit_edge_forward [OF ok inv d, of i j] e ij unfolding unit_edge_iff [OF d] by fastforce
    with ij show ?thesis by blast
  qed
  from add_execution_edges_spec [where edges = "all_edges G" and m = "node_map parts" and es = "[]",
      OF cyc m] obtain es where
    es: "add_execution_edges would_cycle (node_map parts) (all_edges G) [] = Ok es" "distinct es"
    "set es = unit_edges (node_map parts) (all_edges G)" by (auto simp: forward_def)
  have se: "set es = {(i, j). unit_edge G parts i j}"
    unfolding es(3) unit_edges_def unit_edge_iff [OF d] using ok by (auto simp: gview_ok_def)
  let ?eg = "\<lparr> exec_nodes =
      map (\<lambda>(i, df). \<lparr> df_nodes = df, dependence_counter = of_nat (count_dependences es i) \<rparr>)
        (enumerate 0 parts), exec_edges = es \<rparr>"
  have u: "units ?eg = parts" by (simp add: units_def units_enumerate del: map_map)
  have cnt: "dependence_counter (exec_nodes ?eg ! i) = of_nat (card {j. unit_edge G parts j i})"
    if "i < length parts" for i
    using that se by (simp add: nth_enumerate_eq count_dependences_card [OF es(2)])
  have "schedule_of G ?eg"
    unfolding schedule_of_def u
    using d all ne se es(2) cnt unit_edge_forward [OF ok inv d] chain_inside [OF ok inv d]
    by (simp del: set_concat) blast
  with u es(1) show ?thesis by (intro exI [of _ ?eg]) (simp add: add_execution_depedences_def)
qed

lemma parallelism_schedule:
  assumes ok: "gview_ok G" and ts: "toposort G = Some ts" and cyc: "cycle_check_ok would_cycle"
  shows "\<exists>eg. partition_preserving_parallelism would_cycle G = Ok eg \<and> schedule_of G eg
     \<and> (\<forall>p \<in> set (units eg). successively (link G) p)"
proof -
  from partition_chains [OF ok ts] obtain parts where
    p: "partition_loop (chain_next G) ts (replicate (node_count G) False) [] = Ok parts"
    and inv: "chain_inv G parts" and d: "distinct (concat parts)"
    and all: "set (concat parts) = {..<node_count G}" "[] \<notin> set parts" by blast
  from chain_schedule [OF ok cyc inv d all] inv show ?thesis
    by (auto simp: partition_preserving_parallelism_def ts p chain_inv_def)
qed

text \<open>
  C5. The partition that preserves parallelism always succeeds on a sorted graph, and gives a
  schedule: every node in exactly one unit, the units in an order in which every dependence goes
  forward, each unit waiting for exactly the units it depends on, and inside a unit a chain, each
  node the only consumer of the one before it.
\<close>

theorem partition_is_schedule:
  assumes ok: "gview_ok G" and ts: "toposort G = Some ts" and cyc: "cycle_check_ok would_cycle"
  shows "\<exists>eg. partition_preserving_parallelism would_cycle G = Ok eg \<and> schedule_of G eg
     \<and> (\<forall>p \<in> set (units eg). successively (link G) p)"
  using assms by (rule parallelism_schedule)

text \<open>A graph given by its list of edges, each to a node of a larger number.\<close>

definition list_gview :: "nat \<Rightarrow> (nat \<times> nat) list \<Rightarrow> gview" where
  "list_gview n es =
     \<lparr> node_count = n,
       out_edges = (\<lambda>u. map snd (filter (\<lambda>e. fst e = u) es)),
       in_edges = (\<lambda>v. map fst (filter (\<lambda>e. snd e = v) es)),
       all_edges = es,
       toposort = Some [0..<n],
       undirected = (\<lambda>u. map snd (filter (\<lambda>e. fst e = u) es) @ map fst (filter (\<lambda>e. snd e = u) es)) \<rparr>"

lemma list_gview_edge: "edge (list_gview n es) u v \<longleftrightarrow> (u, v) \<in> set es"
  by (force simp: edge_def list_gview_def)

lemma upto_split:
  assumes s: "[0..<n] = us @ v # vs"
  shows "us = [0..<v]"
proof -
  have l: "length us < n" using arg_cong [OF s, of length] by simp
  have "[0..<n] ! length us = v" unfolding s by simp
  with l have "v = length us" by simp
  moreover have "take (length us) [0..<n] = us" unfolding s by simp
  ultimately show ?thesis using l by (simp add: take_upt)
qed

lemma list_gview_ok:
  assumes f: "forward es" and n: "\<forall>(u, v) \<in> set es. v < n"
  shows "gview_ok (list_gview n es)"
  unfolding gview_ok_def list_gview_edge
proof (intro conjI allI impI)
  fix u v assume "(u, v) \<in> set es"
  with f n have "u < v" "v < n" by (auto simp: forward_def)
  then show "u < node_count (list_gview n es)" "v < node_count (list_gview n es)"
    by (simp_all add: list_gview_def)
next
  fix ts assume "toposort (list_gview n es) = Some ts"
  then have ts: "ts = [0..<n]" by (simp add: list_gview_def)
  have "u \<in> set us" if "[0..<n] = us @ v # vs" "(u, v) \<in> set es" for us v vs u
    using upto_split [OF that(1)] that(2) f by (auto simp: forward_def)
  then show "topo_order (list_gview n es) ts"
    unfolding topo_order_def list_gview_edge ts by (simp add: list_gview_def lessThan_atLeast0)
qed (force simp: list_gview_def)+

definition path_check :: cycle_check where
  "path_check es e \<longleftrightarrow> (snd e, fst e) \<in> (set es)\<^sup>*"

lemma path_check_ok: "cycle_check_ok path_check"
  by (simp add: cycle_check_ok_def path_check_def)

lemma partition_is_schedule_witness:
  "\<exists>eg. partition_preserving_parallelism path_check (list_gview 4 [(0, 1), (1, 3), (2, 3)]) = Ok eg
     \<and> schedule_of (list_gview 4 [(0, 1), (1, 3), (2, 3)]) eg
     \<and> (\<forall>p \<in> set (units eg). successively (link (list_gview 4 [(0, 1), (1, 3), (2, 3)])) p)"
  by (rule partition_is_schedule [OF list_gview_ok, where ts = "[0..<4]"])
    (simp_all add: forward_def path_check_ok, simp add: list_gview_def)

section \<open>Partition into connected components\<close>

definition component_inv :: "gview \<Rightarrow> nat list list \<Rightarrow> bool" where
  "component_inv G parts \<longleftrightarrow>
     (\<forall>p \<in> set parts. (\<forall>n \<in> set p. set (undirected G n) \<subseteq> set p)
        \<and> (\<exists>r. \<forall>n \<in> set p. (r, n) \<in> reached (undirected G)))"

lemma undirected_sym: "gview_ok G \<Longrightarrow> u \<in> set (undirected G v) \<longleftrightarrow> v \<in> set (undirected G u)"
  by (auto simp: gview_ok_def)

lemma undirected_range: "gview_ok G \<Longrightarrow> in_range (undirected G) (node_count G)"
  by (auto simp: in_range_def gview_ok_def)

lemma partition_connected:
  assumes ok: "gview_ok G" and ts: "toposort G = Some ts"
  shows "\<exists>parts. partition_loop (undirected G) ts (replicate (node_count G) False) [] = Ok parts
     \<and> component_inv G parts \<and> distinct (concat parts) \<and> set (concat parts) = {..<node_count G}
     \<and> [] \<notin> set parts"
proof -
  note topo = gview_topo [OF ok ts]
  have "\<exists>parts'. partition_loop (undirected G) ts (replicate (node_count G) False) [] = Ok parts'
      \<and> component_inv G parts' \<and> distinct (concat parts') \<and> set [] \<union> set ts \<subseteq> set (concat parts')
      \<and> set (concat parts') \<subseteq> {..<node_count G} \<and> [] \<notin> set parts'"
  proof (rule partition_loop_invariant [where TS = ts and pre = "[]" and I = "\<lambda>_. component_inv G",
        OF undirected_range [OF ok]])
    fix pre n rest parts vis vis' new
    assume inv: "component_inv G parts"
      and v: "visited vis' = set (concat parts) \<union> insert n (set new)"
      and c: "\<forall>m \<in> insert n (set new). set (undirected G m) \<subseteq> visited vis' \<and> (n, m) \<in> reached (undirected G)"
      and d: "distinct (concat (parts @ [n # new]))"
    have "set (undirected G m) \<subseteq> set (n # new)" if m: "m \<in> set (n # new)" for m
    proof
      fix x assume x: "x \<in> set (undirected G m)"
      with c m have "x \<in> visited vis'" by (metis list.simps(15) subsetD)
      with v have "x \<in> set (concat parts) \<union> set (n # new)" by simp
      moreover have False if q: "x \<in> set q" "q \<in> set parts" for q
      proof -
        from x have "m \<in> set (undirected G x)" using undirected_sym [OF ok] by blast
        with inv q have "m \<in> set q" unfolding component_inv_def by blast
        with q m d show False by auto
      qed
      ultimately show "x \<in> set (n # new)" by auto
    qed
    moreover have "\<exists>r. \<forall>m \<in> set (n # new). (r, m) \<in> reached (undirected G)"
      using c by (intro exI [of _ n]) auto
    ultimately show "component_inv G (parts @ [n # new])"
      using inv unfolding component_inv_def by auto
  qed (use topo in \<open>auto simp: component_inv_def visited_def topo_order_def\<close>)
  then show ?thesis using topo by (auto simp: topo_order_def)
qed

text \<open>The position of a node in the topological order.\<close>

definition topo_pos :: "nat list \<Rightarrow> nat \<Rightarrow> nat" where
  "topo_pos ts x = length (takeWhile (\<lambda>y. y \<noteq> x) ts)"

lemma topo_pos_split: "v \<notin> set us \<Longrightarrow> topo_pos (us @ v # vs) v = length us"
  by (simp add: topo_pos_def takeWhile_append)

lemma topo_pos_before: "u \<in> set us \<Longrightarrow> topo_pos (us @ vs) u < length us"
  by (induction us) (auto simp: topo_pos_def)

lemma topo_pos_edge:
  assumes "topo_order G ts" and "edge G u v" and "v \<in> set ts"
  shows "topo_pos ts u < topo_pos ts v"
proof -
  from assms(3) obtain us vs where s: "ts = us @ v # vs" by (meson split_list)
  with assms have "u \<in> set us" "v \<notin> set us" by (auto simp: topo_order_def)
  with topo_pos_before [of u us "v # vs"] topo_pos_split [of v us vs] show ?thesis by (simp add: s)
qed

lemma sort_key_before:
  assumes "sort_key f p = xs @ v # ys" and "u \<in> set p" and "f u < f v"
  shows "u \<in> set xs"
proof -
  have "sorted (map f (xs @ v # ys))" using assms(1) by (metis sorted_sort_key)
  with assms(3) have "u \<notin> set (v # ys)" by (auto simp: sorted_append)
  moreover have "u \<in> set (xs @ v # ys)" using assms(1,2) by (metis set_sort)
  ultimately show ?thesis by simp
qed

lemma no_unit_edge:
  assumes ok: "gview_ok G" and inv: "component_inv G parts" and d: "distinct (concat parts)"
  shows "\<not> unit_edge G parts i j"
proof
  assume "unit_edge G parts i j"
  then obtain u v where ij: "i < length parts" "j < length parts" "i \<noteq> j"
    and u: "u \<in> set (parts ! i)" and v: "v \<in> set (parts ! j)" and e: "edge G u v"
    by (auto simp: unit_edge_def)
  from e ok have "v \<in> set (undirected G u)" by (simp add: gview_ok_def)
  with inv u ij have "v \<in> set (parts ! i)" unfolding component_inv_def by (meson nth_mem subsetD)
  with unit_unique [OF d ij(1,2) _ v] ij show False by blast
qed

lemma distinct_concat_sort:
  "distinct (concat parts) \<Longrightarrow> distinct (concat (map (sort_key f) parts))"
  by (induction parts) auto

lemma locality_schedule:
  assumes ok: "gview_ok G" and ts: "toposort G = Some ts"
  shows "\<exists>eg. partition_components G = Ok eg \<and> schedule_of G eg \<and> exec_edges eg = []
     \<and> (\<forall>p \<in> set (units eg). \<exists>r. \<forall>n \<in> set p. (r, n) \<in> reached (undirected G))"
proof -
  from partition_connected [OF ok ts] obtain parts where
    p: "partition_loop (undirected G) ts (replicate (node_count G) False) [] = Ok parts"
    and inv: "component_inv G parts" and d: "distinct (concat parts)"
    and all: "set (concat parts) = {..<node_count G}" and ne: "[] \<notin> set parts" by blast
  let ?s = "sort_key (topo_pos ts)"
  let ?ps = "map ?s parts"
  have inv': "component_inv G ?ps" using inv by (simp add: component_inv_def)
  have d': "distinct (concat ?ps)" using d by (rule distinct_concat_sort)
  have all': "set (concat ?ps) = {..<node_count G}" using all by simp
  have ne': "[] \<notin> set ?ps" using ne by (auto dest: arg_cong [of _ _ set])
  have inside: "u \<in> set xs"
    if "q \<in> set ?ps" "q = xs @ v # ys" "edge G u v" "u \<in> set q" for q xs v ys u
  proof -
    from that obtain q0 where q: "q = ?s q0" "q0 \<in> set parts" by auto
    have "v \<in> set q0" using that(2) q(1) by (metis in_set_conv_decomp set_sort)
    with q all have "v < node_count G" by auto
    then have "v \<in> set ts" using gview_topo [OF ok ts] by (simp add: topo_order_def)
    with topo_pos_edge [OF gview_topo [OF ok ts] that(3)] have "topo_pos ts u < topo_pos ts v" .
    moreover have "u \<in> set q0" using that(4) unfolding q(1) by simp
    ultimately show ?thesis using sort_key_before [of "topo_pos ts" q0 xs v ys u] that(2) q(1) by simp
  qed
  let ?eg = "\<lparr> exec_nodes = map (\<lambda>df. \<lparr> df_nodes = ?s df, dependence_counter = 0 \<rparr>) parts, exec_edges = [] \<rparr>"
  have run: "partition_components G = Ok ?eg"
    by (simp add: partition_components_def ts p topo_pos_def [abs_def])
  have u: "units ?eg = ?ps" by (simp add: units_def comp_def)
  have cnt: "dependence_counter (exec_nodes ?eg ! i) = 0" if "i < length ?ps" for i
    using that by simp
  have within: "\<forall>q \<in> set ?ps. \<forall>xs v ys u. q = xs @ v # ys \<longrightarrow> edge G u v \<longrightarrow> u \<in> set q \<longrightarrow> u \<in> set xs"
    using inside by blast
  have "schedule_of G ?eg"
    unfolding schedule_of_def u
    by (intro conjI d' all' ne' within) (simp_all add: no_unit_edge [OF ok inv' d'])
  with run u inv' show ?thesis by (intro exI [of _ ?eg]) (simp add: component_inv_def)
qed

text \<open>
  The partition into components gives a schedule without dependences: every node is in exactly
  one unit, in topological order, no edge leaves a unit, and the nodes of a unit are connected.
\<close>

theorem components_are_schedule:
  assumes ok: "gview_ok G" and ts: "toposort G = Some ts"
  shows "\<exists>eg. partition_components G = Ok eg \<and> schedule_of G eg \<and> exec_edges eg = []
     \<and> (\<forall>p \<in> set (units eg). \<exists>r. \<forall>n \<in> set p. (r, n) \<in> reached (undirected G))"
  using assms by (rule locality_schedule)

lemma components_are_schedule_witness:
  "\<exists>eg. partition_components (list_gview 4 [(0, 1), (2, 3)]) = Ok eg
     \<and> schedule_of (list_gview 4 [(0, 1), (2, 3)]) eg \<and> exec_edges eg = []
     \<and> (\<forall>p \<in> set (units eg).
          \<exists>r. \<forall>n \<in> set p. (r, n) \<in> reached (undirected (list_gview 4 [(0, 1), (2, 3)])))"
  by (rule components_are_schedule [OF list_gview_ok, where ts = "[0..<4]"])
    (simp_all add: forward_def, simp add: list_gview_def)

end
