(* ===== verification/Execution.thy ===== *)
theory Execution
  imports Partition EngineSafety
begin

text \<open>
  The execution of a component (\<open>scheduler/src/dfg/scheduler.rs\<close>, \<open>dfg.rs\<close>, \<open>dfg/types.rs\<close>): its
  inputs are completed and re-randomised, its operations run in topological order, each result is
  handed to the consumers, and the outcome of each operation is recorded.
\<close>

section \<open>Data\<close>

text \<open>
  The errors of a task: one of the engine, one of the scheduler, or one of the library (a seed).
\<close>

datatype work_error = WFhevm fhevm_error | WScheduler scheduler_error | WLib lib_error

datatype 'c tx_input = TxValue "'c sfc" bool | TxCompressed i16 bytes bool

datatype 'c task_input =
    TaskValue "'c sfc"
  | TaskCompressed i16 bytes
  | TaskDependence handle

record 'c task_result =
  tr_ct :: "'c sfc"
  tr_compressed :: "(i16 \<times> bytes) option"
  tr_is_allowed :: bool

record 'c op_node =
  opcode :: i32
  result_handle :: handle
  op_inputs :: "'c task_input list"
  node_is_allowed :: bool

text \<open>
  A component's dataflow graph: its nodes, and what the graph library's queries return of its
  edges: the consumers of a node with the input position each fills, and the topological sort.
\<close>

record 'c dfgraph =
  dg_nodes :: "'c op_node list"
  dg_out :: "nat \<Rightarrow> (nat \<times> u8) list"
  dg_topo :: "nat list option"

text \<open>
  The inputs of a component, a \<open>HashMap\<close> from handles to inputs that are present or still missing,
  in the order the map is iterated.
\<close>

type_synonym 'c tx_inputs = "(handle \<times> 'c tx_input option) list"

type_synonym 'c results = "handle \<rightharpoonup> (work_error, 'c task_result) res"

text \<open>
  What the execution calls outside this file: the operations of the encryption library, and the
  methods of \<open>SupportedFheCiphertexts\<close> with the library's functions they need supplied. The seeds
  are those the context's generator yields, by their number.
\<close>

record ('c, 'x, 's) engine =
  eng_lib :: "'c tfhe"
  eng_decompress :: "i16 \<Rightarrow> bytes \<Rightarrow> (fhevm_error, 'c sfc) res"
  eng_compress :: "'c sfc \<Rightarrow> (fhevm_error, i16 \<times> bytes) res"
  eng_context :: "bytes \<Rightarrow> nat \<Rightarrow> 'x"
  eng_add :: "'x \<Rightarrow> fhe_ty \<Rightarrow> 'c \<Rightarrow> 'x"
  eng_seed :: "'x \<Rightarrow> nat \<Rightarrow> lib_error + 's"
  eng_rerandomise :: "fhe_ty \<Rightarrow> 'c \<Rightarrow> unit \<Rightarrow> 's \<Rightarrow> lib_error + 'c"

definition of_fhevm :: "(fhevm_error, 'a) res \<Rightarrow> (work_error, 'a) res" where
  "of_fhevm r = map_err WFhevm r"

section \<open>Running one operation\<close>

text \<open>
  \<open>FheOperation::try_from\<close> of \<open>common.proto\<close>: the enum's values are those of the operations, with
  \<open>FHE_GET_CIPHERTEXT\<close> for 32.
\<close>

datatype proto_operation = ProtoGetCiphertext | ProtoCompute

definition proto_try_from :: "i32 \<Rightarrow> proto_operation option" where
  "proto_try_from v =
     (if v = 32 then Some ProtoGetCiphertext
      else if (0 \<le> sint v \<and> sint v \<le> 21) \<or> (23 \<le> sint v \<and> sint v \<le> 27) then Some ProtoCompute
      else None)"

text \<open>\<open>operation as i16\<close>.\<close>

definition i32_as_i16 :: "i32 \<Rightarrow> i16" where
  "i32_as_i16 v = word_of_int (sint v)"

type_synonym 'c op_result = "(work_error, 'c sfc \<times> (i16 \<times> bytes) option) res"

definition run_computation ::
  "('c, 'x, 's) engine \<Rightarrow> i32 \<Rightarrow> 'c sfc list \<Rightarrow> bool \<Rightarrow> 'c op_result" where
  "run_computation E operation inputs is_allowed =
     (case proto_try_from operation of
        Some ProtoGetCiphertext \<Rightarrow>
          index_then inputs 0 (\<lambda>x.
            bind_res (of_fhevm (eng_compress E x)) (\<lambda>cc. Ok (x, Some cc)))
      | Some ProtoCompute \<Rightarrow>
          bind_res (of_fhevm (perform_fhe_operation (eng_lib E) (i32_as_i16 operation) inputs 0))
            (\<lambda>result.
              if is_allowed then
                bind_res (of_fhevm (eng_compress E result)) (\<lambda>cc. Ok (result, Some cc))
              else Ok (result, None))
      | None \<Rightarrow> Err (WLib ''unknown enumeration value''))"

text \<open>
  \<open>check_ready_inputs\<close>: the inputs are replaced by values in order, up to the first one that is
  not available; the inputs replaced so far stay replaced.
\<close>

fun check_ready_inputs ::
  "'c tx_inputs \<Rightarrow> 'c task_input list \<Rightarrow> bool \<times> 'c task_input list" where
  "check_ready_inputs ct_map [] = (True, [])"
| "check_ready_inputs ct_map (i # is) =
     (case i of
        TaskValue v \<Rightarrow> map_prod id (Cons i) (check_ready_inputs ct_map is)
      | TaskDependence d \<Rightarrow>
          (case map_of ct_map d of
             Some (Some (TxValue val _)) \<Rightarrow>
               map_prod id (Cons (TaskValue val)) (check_ready_inputs ct_map is)
           | _ \<Rightarrow> (False, i # is))
      | TaskCompressed t c \<Rightarrow> (False, i # is))"

text \<open>The loop that takes the values out of the inputs.\<close>

fun take_values :: "'c task_input list \<Rightarrow> 'c sfc list \<Rightarrow> 'c sfc list option" where
  "take_values [] cts = Some cts"
| "take_values (TaskValue v # is) cts = take_values is (cts @ [v])"
| "take_values (_ # is) cts = None"

text \<open>
  The outcome is an error of the scheduler when the node is not ready, and otherwise the outcome
  of the computation; the node's inputs are taken out of it.
\<close>

definition try_execute_node ::
  "('c, 'x, 's) engine \<Rightarrow> 'c op_node \<Rightarrow> 'c tx_inputs
     \<Rightarrow> (scheduler_error + 'c op_result) \<times> 'c op_node" where
  "try_execute_node E node tx_inputs =
     (case check_ready_inputs tx_inputs (op_inputs node) of
        (False, is) \<Rightarrow> (Inl SchedulerFailure, node\<lparr>op_inputs := is\<rparr>)
      | (True, is) \<Rightarrow>
          (case take_values is [] of
             None \<Rightarrow> (Inl MissingInputs, node\<lparr>op_inputs := []\<rparr>)
           | Some cts \<Rightarrow>
               (Inr (run_computation E (opcode node) cts (node_is_allowed node)),
                node\<lparr>op_inputs := []\<rparr>)))"

section \<open>Running the operations of a component\<close>

text \<open>The result is written into the input each outgoing edge names; out of range is a panic.\<close>

fun push_to_consumers ::
  "'c sfc \<Rightarrow> (nat \<times> u8) list \<Rightarrow> 'c op_node list \<Rightarrow> (work_error, 'c op_node list) res" where
  "push_to_consumers ct [] nodes = Ok nodes"
| "push_to_consumers ct ((child, weight) # edges) nodes =
     (if child < length nodes then
        (if unat weight < length (op_inputs (nodes ! child)) then
           push_to_consumers ct edges
             (nodes[child := (nodes ! child)
                \<lparr>op_inputs := (op_inputs (nodes ! child))[unat weight := TaskValue ct]\<rparr>])
         else Panic IndexOutOfBounds)
      else push_to_consumers ct edges nodes)"

definition task_outcome :: "'c op_node \<Rightarrow> 'c op_result \<Rightarrow> (work_error, 'c task_result) res" where
  "task_outcome node r =
     bind_res r (\<lambda>(ct, cc). Ok \<lparr> tr_ct = ct,
       tr_compressed = (if node_is_allowed node then cc else None),
       tr_is_allowed = node_is_allowed node \<rparr>)"

text \<open>The loop over the topological order. A panic of a computation ends the whole partition.\<close>

fun execute_nodes ::
  "('c, 'x, 's) engine \<Rightarrow> (nat \<Rightarrow> (nat \<times> u8) list) \<Rightarrow> 'c tx_inputs \<Rightarrow> nat list \<Rightarrow> 'c op_node list
     \<Rightarrow> 'c results \<Rightarrow> (work_error, 'c results) res" where
  "execute_nodes E out tx_inputs [] nodes res = Ok res"
| "execute_nodes E out tx_inputs (nidx # ts) nodes res =
     (if nidx < length nodes then
        (case try_execute_node E (nodes ! nidx) tx_inputs of
           (Inl e, node) \<Rightarrow> execute_nodes E out tx_inputs ts (nodes[nidx := node]) res
         | (Inr r, node) \<Rightarrow>
             (case r of
                Panic p \<Rightarrow> Panic p
              | Err e \<Rightarrow>
                  execute_nodes E out tx_inputs ts (nodes[nidx := node])
                    (res(result_handle node \<mapsto> task_outcome node r))
              | Ok (ct, cc) \<Rightarrow>
                  bind_res (push_to_consumers ct (out nidx) (nodes[nidx := node])) (\<lambda>nodes'.
                    execute_nodes E out tx_inputs ts nodes'
                      (res(result_handle node \<mapsto> task_outcome node r)))))
      else execute_nodes E out tx_inputs ts nodes res)"

section \<open>Re-randomisation of the inputs of a component\<close>

text \<open>
  The first pass decompresses the inputs and adds them to the context; the second replaces each
  allowed value by its re-randomisation with the next seed.
\<close>

fun collect_context ::
  "('c, 'x, 's) engine \<Rightarrow> 'c tx_inputs \<Rightarrow> 'x \<Rightarrow> (work_error, 'x \<times> 'c tx_inputs) res" where
  "collect_context E [] ctx = Ok (ctx, [])"
| "collect_context E ((h, txinput) # rest) ctx =
     (case txinput of
        Some (TxValue val True) \<Rightarrow>
          bind_res (collect_context E rest (add_to_re_randomization_context (eng_add E) val ctx))
            (\<lambda>(ctx', ins). Ok (ctx', (h, txinput) # ins))
      | Some (TxValue val False) \<Rightarrow>
          bind_res (collect_context E rest ctx) (\<lambda>(ctx', ins). Ok (ctx', (h, txinput) # ins))
      | Some (TxCompressed t c allowed) \<Rightarrow>
          bind_res (of_fhevm (eng_decompress E t c)) (\<lambda>decomp.
          bind_res (collect_context E rest (add_to_rerandomisation_context (eng_add E) decomp ctx))
            (\<lambda>(ctx', ins). Ok (ctx', (h, Some (TxValue decomp allowed)) # ins)))
      | None \<Rightarrow> Err (WScheduler MissingInputs))"

fun apply_seeds ::
  "('c, 'x, 's) engine \<Rightarrow> 'x \<Rightarrow> nat \<Rightarrow> 'c tx_inputs \<Rightarrow> (work_error, 'c tx_inputs) res" where
  "apply_seeds E ctx k [] = Ok []"
| "apply_seeds E ctx k ((h, txinput) # rest) =
     (case txinput of
        Some (TxValue val True) \<Rightarrow>
          (case eng_seed E ctx k of
             Inl e \<Rightarrow> Err (WLib e)
           | Inr seed \<Rightarrow>
               bind_res (of_fhevm (re_randomise (eng_rerandomise E) val () seed)) (\<lambda>val'.
               bind_res (apply_seeds E ctx (Suc k) rest) (\<lambda>ins.
                 Ok ((h, Some (TxValue val' True)) # ins))))
      | Some (TxValue val False) \<Rightarrow>
          bind_res (apply_seeds E ctx k rest) (\<lambda>ins. Ok ((h, txinput) # ins))
      | Some (TxCompressed t c allowed) \<Rightarrow> Err (WScheduler ReRandomisationFailure)
      | None \<Rightarrow> Err (WScheduler ReRandomisationFailure))"

definition re_randomise_transaction_inputs ::
  "('c, 'x, 's) engine \<Rightarrow> 'c tx_inputs \<Rightarrow> bytes \<Rightarrow> nat \<Rightarrow> (work_error, 'c tx_inputs) res" where
  "re_randomise_transaction_inputs E inputs transaction_id component_id =
     bind_res (collect_context E inputs (eng_context E transaction_id component_id)) (\<lambda>(ctx, ins).
       apply_seeds E ctx 0 ins)"

text \<open>The variant without re-randomisation, used on the GPU.\<close>

fun decompress_transaction_inputs ::
  "('c, 'x, 's) engine \<Rightarrow> 'c tx_inputs \<Rightarrow> (work_error, 'c tx_inputs) res" where
  "decompress_transaction_inputs E [] = Ok []"
| "decompress_transaction_inputs E ((h, txinput) # rest) =
     (case txinput of
        Some (TxValue val allowed) \<Rightarrow>
          bind_res (decompress_transaction_inputs E rest) (\<lambda>ins. Ok ((h, txinput) # ins))
      | Some (TxCompressed t c allowed) \<Rightarrow>
          bind_res (of_fhevm (eng_decompress E t c)) (\<lambda>decomp.
          bind_res (decompress_transaction_inputs E rest) (\<lambda>ins.
            Ok ((h, Some (TxValue decomp allowed)) # ins)))
      | None \<Rightarrow> Err (WScheduler MissingInputs))"

section \<open>Executing a partition\<close>

text \<open>
  Missing inputs are taken from the results so far; one that is not there, or is an error, stops
  the component.
\<close>

fun fill_inputs :: "'c results \<Rightarrow> 'c tx_inputs \<Rightarrow> 'c tx_inputs option" where
  "fill_inputs res [] = Some []"
| "fill_inputs res ((h, i) # rest) =
     (case i of
        Some v \<Rightarrow> map_option (Cons (h, i)) (fill_inputs res rest)
      | None \<Rightarrow>
          (case res h of
             Some (Ok ct) \<Rightarrow>
               map_option (Cons (h, Some (TxValue (tr_ct ct) (tr_is_allowed ct)))) (fill_inputs res rest)
           | _ \<Rightarrow> None))"

definition mark_allowed :: "scheduler_error \<Rightarrow> 'c op_node list \<Rightarrow> 'c results \<Rightarrow> 'c results" where
  "mark_allowed e nodes res =
     foldl (\<lambda>res node. if node_is_allowed node
              then res(result_handle node \<mapsto> Err (WScheduler e)) else res) res nodes"

type_synonym 'c component_task = "'c dfgraph \<times> 'c tx_inputs \<times> bytes \<times> nat"

definition execute_transaction ::
  "('c, 'x, 's) engine \<Rightarrow> 'c component_task \<Rightarrow> 'c results \<Rightarrow> (work_error, 'c results) res" where
  "execute_transaction E task res =
     (case task of (dfg, tx_inputs, tid, cid) \<Rightarrow>
        case fill_inputs res tx_inputs of
          None \<Rightarrow> Ok (mark_allowed MissingInputs (dg_nodes dfg) res)
        | Some ins \<Rightarrow>
            (case re_randomise_transaction_inputs E ins tid cid of
               Panic p \<Rightarrow> Panic p
             | Err e \<Rightarrow> Ok (mark_allowed ReRandomisationFailure (dg_nodes dfg) res)
             | Ok ins' \<Rightarrow>
                 (case dg_topo dfg of
                    None \<Rightarrow> Ok (mark_allowed CyclicDependence (dg_nodes dfg) res)
                  | Some ts \<Rightarrow> execute_nodes E (dg_out dfg) ins' ts (dg_nodes dfg) res)))"

fun execute_partition ::
  "('c, 'x, 's) engine \<Rightarrow> 'c component_task list \<Rightarrow> 'c results \<Rightarrow> (work_error, 'c results) res" where
  "execute_partition E [] res = Ok res"
| "execute_partition E (task # tasks) res =
     bind_res (execute_transaction E task res) (execute_partition E tasks)"

section \<open>The reference: evaluation by handles\<close>

text \<open>
  The same computation with the inputs looked up by handle: a handle some node of the component
  produces stands for that node's result, any other for a component input.
\<close>

definition tx_value :: "'c tx_inputs \<Rightarrow> handle \<Rightarrow> 'c sfc option" where
  "tx_value tx h = (case map_of tx h of Some (Some (TxValue v _)) \<Rightarrow> Some v | _ \<Rightarrow> None)"

definition ok_ct :: "'c results \<Rightarrow> handle \<Rightarrow> 'c sfc option" where
  "ok_ct res h = (case res h of Some (Ok tr) \<Rightarrow> Some (tr_ct tr) | _ \<Rightarrow> None)"

fun task_arg :: "handle set \<Rightarrow> 'c tx_inputs \<Rightarrow> 'c results \<Rightarrow> 'c task_input \<Rightarrow> 'c sfc option" where
  "task_arg produced tx res (TaskValue v) = Some v"
| "task_arg produced tx res (TaskDependence h) = (if h \<in> produced then ok_ct res h else tx_value tx h)"
| "task_arg produced tx res (TaskCompressed t c) = None"

fun reference ::
  "('c, 'x, 's) engine \<Rightarrow> handle set \<Rightarrow> 'c tx_inputs \<Rightarrow> 'c op_node list \<Rightarrow> nat list \<Rightarrow> 'c results
     \<Rightarrow> (work_error, 'c results) res" where
  "reference E produced tx nodes [] res = Ok res"
| "reference E produced tx nodes (n # ts) res =
     (case those (map (task_arg produced tx res) (op_inputs (nodes ! n))) of
        None \<Rightarrow> reference E produced tx nodes ts res
      | Some cts \<Rightarrow>
          (case run_computation E (opcode (nodes ! n)) cts (node_is_allowed (nodes ! n)) of
             Panic p \<Rightarrow> Panic p
           | r \<Rightarrow> reference E produced tx nodes ts
                    (res(result_handle (nodes ! n) \<mapsto> task_outcome (nodes ! n) r))))"

text \<open>
  A component as \<open>ComponentNode::build\<close> makes it: the handles are distinct, the sort is topological,
  and the edges out of a node name exactly the inputs that depend on its handle.
\<close>

definition produced :: "'c op_node list \<Rightarrow> handle set" where
  "produced nodes = result_handle ` set nodes"

definition dfg_ok :: "'c dfgraph \<Rightarrow> bool" where
  "dfg_ok D \<longleftrightarrow>
     distinct (map result_handle (dg_nodes D))
   \<and> (\<forall>u < length (dg_nodes D). \<forall>v p.
        (\<exists>w. (v, w) \<in> set (dg_out D u) \<and> unat w = p) \<longleftrightarrow>
        v < length (dg_nodes D) \<and> p < length (op_inputs (dg_nodes D ! v))
        \<and> op_inputs (dg_nodes D ! v) ! p = TaskDependence (result_handle (dg_nodes D ! u)))
   \<and> (\<forall>ts. dg_topo D = Some ts \<longrightarrow> distinct ts \<and> set ts = {..<length (dg_nodes D)}
        \<and> (\<forall>us v vs u w. ts = us @ v # vs \<longrightarrow> u < length (dg_nodes D) \<longrightarrow>
             (v, w) \<in> set (dg_out D u) \<longrightarrow> u \<in> set us))"

end
