(* ===== verification/ExecutionCorrect.thy ===== *)
theory ExecutionCorrect
  imports Execution
begin

text \<open>
  The execution of a component, which hands each result along the edges, computes the reference,
  which looks inputs up by handle; and on the encryption library's laws the results decrypt to
  the evaluation of the component on clear values.
\<close>

section \<open>Ready inputs\<close>

definition ready_value :: "'c tx_inputs \<Rightarrow> 'c task_input \<Rightarrow> 'c sfc option" where
  "ready_value tx i =
     (case i of TaskValue v \<Rightarrow> Some v | TaskDependence h \<Rightarrow> tx_value tx h | TaskCompressed t c \<Rightarrow> None)"

lemma take_values_map: "take_values (map TaskValue vs) cts = Some (cts @ vs)"
  by (induction vs arbitrary: cts) auto

lemma tx_value_None:
  "tx_value tx h = None \<Longrightarrow>
   (case map_of tx h of Some (Some (TxValue val b)) \<Rightarrow> f val b | _ \<Rightarrow> e) = e"
  by (auto simp: tx_value_def split: option.splits tx_input.splits)

lemma tx_value_Some:
  assumes "tx_value tx h = Some v"
  obtains b where "map_of tx h = Some (Some (TxValue v b))"
  using assms by (auto simp: tx_value_def split: option.splits tx_input.splits)

lemma check_ready_view:
  "case those (map (ready_value tx) is) of
     Some vs \<Rightarrow> check_ready_inputs tx is = (True, map TaskValue vs)
   | None \<Rightarrow> fst (check_ready_inputs tx is) = False"
proof (induction "is")
  case Nil
  then show ?case by simp
next
  case (Cons i "is")
  show ?case
  proof (cases "ready_value tx i")
    case None
    then show ?thesis
      by (cases i) (auto simp: ready_value_def tx_value_None split: option.split)
  next
    case (Some v)
    have "check_ready_inputs tx (i # is) = map_prod id (Cons (TaskValue v)) (check_ready_inputs tx is)"
      using Some by (cases i) (auto simp: ready_value_def elim!: tx_value_Some)
    with Some Cons.IH show ?thesis
      by (cases "those (map (ready_value tx) is)") auto
  qed
qed

lemma try_execute_view:
  "case those (map (ready_value tx) (op_inputs node)) of
     Some cts \<Rightarrow> try_execute_node E node tx
        = (Inr (run_computation E (opcode node) cts (node_is_allowed node)), node\<lparr>op_inputs := []\<rparr>)
   | None \<Rightarrow> \<exists>is. try_execute_node E node tx = (Inl SchedulerFailure, node\<lparr>op_inputs := is\<rparr>)"
proof -
  have "those (map (ready_value tx) (op_inputs node)) = None \<Longrightarrow>
      \<exists>is. check_ready_inputs tx (op_inputs node) = (False, is)"
    using check_ready_view [of tx "op_inputs node"]
    by (cases "check_ready_inputs tx (op_inputs node)") auto
  with check_ready_view [of tx "op_inputs node"] show ?thesis
    by (cases "those (map (ready_value tx) (op_inputs node))")
      (auto simp: try_execute_node_def take_values_map)
qed

section \<open>Handing a result to the consumers\<close>

lemma push_to_consumers_spec:
  assumes "\<forall>(c, w) \<in> set es. c < length N \<and> unat w < length (op_inputs (N ! c))"
  shows "\<exists>N'. push_to_consumers ct es N = Ok N' \<and> length N' = length N
    \<and> (\<forall>v < length N. \<exists>is. N' ! v = (N ! v)\<lparr>op_inputs := is\<rparr> \<and> length is = length (op_inputs (N ! v))
        \<and> (\<forall>p < length is. is ! p
             = (if \<exists>w. (v, w) \<in> set es \<and> unat w = p then TaskValue ct else op_inputs (N ! v) ! p)))"
  using assms
proof (induction ct es N rule: push_to_consumers.induct)
  case (1 ct N)
  have "\<exists>is. N ! v = (N ! v)\<lparr>op_inputs := is\<rparr> \<and> length is = length (op_inputs (N ! v))
      \<and> (\<forall>p < length is. is ! p = op_inputs (N ! v) ! p)" for v
    by (rule exI [of _ "op_inputs (N ! v)"]) simp
  then show ?case by simp
next
  case (2 ct c w es N)
  then have c: "c < length N" "unat w < length (op_inputs (N ! c))" by auto
  let ?N = "N[c := (N ! c)\<lparr>op_inputs := (op_inputs (N ! c))[unat w := TaskValue ct]\<rparr>]"
  have l: "length (op_inputs (?N ! v)) = length (op_inputs (N ! v))" if "v < length N" for v
    using that by (cases "v = c") simp_all
  have "\<forall>(c, w) \<in> set es. c < length ?N \<and> unat w < length (op_inputs (?N ! c))"
    using "2.prems" l by fastforce
  with "2.IH"(1) [OF c] obtain N' where
    r: "push_to_consumers ct es ?N = Ok N'" "length N' = length N"
    and v: "\<And>v. v < length N \<Longrightarrow> \<exists>is. N' ! v = (?N ! v)\<lparr>op_inputs := is\<rparr>
        \<and> length is = length (op_inputs (?N ! v))
        \<and> (\<forall>p < length is. is ! p
             = (if \<exists>w. (v, w) \<in> set es \<and> unat w = p then TaskValue ct else op_inputs (?N ! v) ! p))"
    by auto
  have "\<exists>is. N' ! v = (N ! v)\<lparr>op_inputs := is\<rparr> \<and> length is = length (op_inputs (N ! v))
      \<and> (\<forall>p < length is. is ! p = (if \<exists>w'. (v, w') \<in> set ((c, w) # es) \<and> unat w' = p
            then TaskValue ct else op_inputs (N ! v) ! p))" if "v < length N" for v
  proof -
    from v [OF that] obtain "is" where i: "N' ! v = (?N ! v)\<lparr>op_inputs := is\<rparr>"
      "length is = length (op_inputs (?N ! v))"
      "\<forall>p < length is. is ! p
         = (if \<exists>w. (v, w) \<in> set es \<and> unat w = p then TaskValue ct else op_inputs (?N ! v) ! p)"
      by blast
    show ?thesis
    proof (rule exI [of _ "is"], intro conjI allI impI)
      show "N' ! v = (N ! v)\<lparr>op_inputs := is\<rparr>" using i(1) that by (cases "v = c") simp_all
      show "length is = length (op_inputs (N ! v))" using i(2) l [OF that] by simp
      fix p assume p: "p < length is"
      show "is ! p = (if \<exists>w'. (v, w') \<in> set ((c, w) # es) \<and> unat w' = p
            then TaskValue ct else op_inputs (N ! v) ! p)"
      proof (cases "v = c")
        case True
        with i p c show ?thesis by (auto simp: nth_list_update)
      next
        case False
        with i p show ?thesis by auto
      qed
    qed
  qed
  with c r show ?case by (intro exI [of _ N']) simp
qed

section \<open>The loop is the reference\<close>

text \<open>An input with the result of its producer filled in, when there is one.\<close>

fun fill :: "handle set \<Rightarrow> 'c results \<Rightarrow> 'c task_input \<Rightarrow> 'c task_input" where
  "fill P res (TaskDependence h) =
     (if h \<in> P then (case ok_ct res h of Some v \<Rightarrow> TaskValue v | None \<Rightarrow> TaskDependence h)
      else TaskDependence h)"
| "fill P res i = i"

lemma ready_fill:
  assumes "\<forall>h \<in> P. tx_value tx h = None"
  shows "ready_value tx (fill P res i) = task_arg P tx res i"
  using assms by (cases i) (auto simp: ready_value_def split: option.split)

text \<open>
  The state of the nodes while the sort is processed: those still to come have their inputs filled
  in from the results.
\<close>

definition nodes_inv :: "'c op_node list \<Rightarrow> 'c op_node list \<Rightarrow> 'c results \<Rightarrow> nat set \<Rightarrow> bool" where
  "nodes_inv N0 N res todo \<longleftrightarrow>
     length N = length N0
   \<and> (\<forall>v \<in> todo. v < length N0 \<and>
        N ! v = (N0 ! v)\<lparr>op_inputs := map (fill (produced N0) res) (op_inputs (N0 ! v))\<rparr>)"

lemma fill_new:
  assumes "res h = None" and "h \<in> P"
  shows "fill P (res(h \<mapsto> Ok tr)) i = (if i = TaskDependence h then TaskValue (tr_ct tr) else fill P res i)"
  using assms by (cases i) (auto simp: ok_ct_def)

lemma fill_other_error:
  assumes "res h = None" and "h \<in> P" and "\<not> is_ok r"
  shows "fill P (res(h \<mapsto> r)) = fill P res"
proof
  fix i
  show "fill P (res(h \<mapsto> r)) i = fill P res i"
    using assms by (cases i; cases r) (auto simp: ok_ct_def)
qed

lemma produced_nth: "n < length N \<Longrightarrow> result_handle (N ! n) \<in> produced N"
  by (simp add: produced_def)

lemma result_handle_inj:
  assumes "distinct (map result_handle N)" and "u < length N" and "v < length N"
    and "result_handle (N ! u) = result_handle (N ! v)"
  shows "u = v"
  using assms by (metis length_map nth_eq_iff_index_eq nth_map)

lemma consumer_later:
  assumes d: "distinct TS" and TS: "TS = pre @ n # ts" and v: "v \<in> set TS"
    and before: "\<And>us vs. TS = us @ v # vs \<Longrightarrow> n \<in> set us"
  shows "v \<in> set ts"
proof (rule ccontr)
  assume "v \<notin> set ts"
  with v TS consider "v = n" | "v \<in> set pre" by auto
  then show False
  proof cases
    case 1
    with before [of pre ts] TS d show ?thesis by auto
  next
    case 2
    then obtain a b where "pre = a @ v # b" by (meson split_list)
    with before [of a "b @ n # ts"] TS d show ?thesis by auto
  qed
qed

lemma dfg_ok_edge:
  assumes "dfg_ok D" and "u < length (dg_nodes D)"
  shows "(\<exists>w. (v, w) \<in> set (dg_out D u) \<and> unat w = q) \<longleftrightarrow>
    v < length (dg_nodes D) \<and> q < length (op_inputs (dg_nodes D ! v))
    \<and> op_inputs (dg_nodes D ! v) ! q = TaskDependence (result_handle (dg_nodes D ! u))"
  using assms unfolding dfg_ok_def by blast

lemma dfg_ok_topo:
  assumes "dfg_ok D" and "dg_topo D = Some TS"
  shows "distinct TS" and "set TS = {..<length (dg_nodes D)}"
    and "TS = us @ v # vs \<Longrightarrow> u < length (dg_nodes D) \<Longrightarrow> (v, w) \<in> set (dg_out D u) \<Longrightarrow> u \<in> set us"
  using assms unfolding dfg_ok_def by blast+

lemma dfg_ok_later:
  assumes ok: "dfg_ok D" and topo: "dg_topo D = Some TS" and TS: "TS = pre @ n # ts"
    and e: "(v, w) \<in> set (dg_out D n)"
  shows "v \<in> set ts"
proof (rule consumer_later [OF dfg_ok_topo(1) [OF ok topo] TS])
  have n: "n < length (dg_nodes D)" using dfg_ok_topo(2) [OF ok topo] TS by auto
  have "v < length (dg_nodes D)" using dfg_ok_edge [OF ok n, of v "unat w"] e by blast
  then show "v \<in> set TS" using dfg_ok_topo(2) [OF ok topo] by simp
  show "n \<in> set us" if "TS = us @ v # vs" for us vs
    using dfg_ok_topo(3) [OF ok topo that n e] .
qed

text \<open>Handing over a result keeps the invariant and never goes out of range.\<close>

lemma push_step:
  fixes D :: "'c dfgraph"
  assumes ok: "dfg_ok D" and topo: "dg_topo D = Some TS" and TS: "TS = pre @ n # ts"
    and inv: "nodes_inv (dg_nodes D) N res (set ts)"
    and fresh: "res (result_handle (dg_nodes D ! n)) = None"
  shows "\<exists>N'. push_to_consumers (tr_ct tr) (dg_out D n) N = Ok N'
    \<and> nodes_inv (dg_nodes D) N' (res(result_handle (dg_nodes D ! n) \<mapsto> Ok tr)) (set ts)"
proof -
  let ?N0 = "dg_nodes D" and ?P = "produced (dg_nodes D)"
  let ?h = "result_handle (?N0 ! n)"
  let ?res = "res(?h \<mapsto> Ok tr)"
  have n: "n < length ?N0" using dfg_ok_topo(2) [OF ok topo] TS by auto
  note E = dfg_ok_edge [OF ok n]
  have len: "length N = length ?N0" using inv by (simp add: nodes_inv_def)
  have Nv: "v < length ?N0" "N ! v = (?N0 ! v)\<lparr>op_inputs := map (fill ?P res) (op_inputs (?N0 ! v))\<rparr>"
    if "v \<in> set ts" for v
    using inv that by (simp_all add: nodes_inv_def)
  have "c < length N \<and> unat w < length (op_inputs (N ! c))" if "(c, w) \<in> set (dg_out D n)" for c w
  proof -
    have "c \<in> set ts" by (rule dfg_ok_later [OF ok topo TS that])
    moreover have "unat w < length (op_inputs (?N0 ! c))" using E [of c "unat w"] that by blast
    ultimately show ?thesis using Nv [of c] len by simp
  qed
  then have "\<forall>(c, w) \<in> set (dg_out D n). c < length N \<and> unat w < length (op_inputs (N ! c))" by blast
  from push_to_consumers_spec [OF this, of "tr_ct tr"] obtain N' where
    push: "push_to_consumers (tr_ct tr) (dg_out D n) N = Ok N'" "length N' = length N"
    and N': "\<And>v. v < length N \<Longrightarrow> \<exists>is. N' ! v = (N ! v)\<lparr>op_inputs := is\<rparr>
        \<and> length is = length (op_inputs (N ! v)) \<and> (\<forall>q < length is. is ! q
           = (if \<exists>w. (v, w) \<in> set (dg_out D n) \<and> unat w = q then TaskValue (tr_ct tr)
              else op_inputs (N ! v) ! q))" by blast
  have "N' ! v = (?N0 ! v)\<lparr>op_inputs := map (fill ?P ?res) (op_inputs (?N0 ! v))\<rparr>"
    if v: "v \<in> set ts" for v
  proof -
    have vl: "v < length N" using Nv(1) [OF v] len by simp
    from N' [OF vl] obtain "is" where i: "N' ! v = (N ! v)\<lparr>op_inputs := is\<rparr>"
      and l: "length is = length (op_inputs (N ! v))"
      and q: "\<And>q. q < length is \<Longrightarrow> is ! q = (if \<exists>w. (v, w) \<in> set (dg_out D n) \<and> unat w = q
         then TaskValue (tr_ct tr) else op_inputs (N ! v) ! q)" by blast
    have "is = map (fill ?P ?res) (op_inputs (?N0 ! v))"
    proof (rule nth_equalityI)
      show "length is = length (map (fill ?P ?res) (op_inputs (?N0 ! v)))" using l Nv(2) [OF v] by simp
      fix k assume k: "k < length is"
      then have k0: "k < length (op_inputs (?N0 ! v))" using l Nv(2) [OF v] by simp
      have "fill ?P ?res (op_inputs (?N0 ! v) ! k)
         = (if op_inputs (?N0 ! v) ! k = TaskDependence ?h then TaskValue (tr_ct tr)
            else fill ?P res (op_inputs (?N0 ! v) ! k))"
        by (rule fill_new [where res = res, OF fresh produced_nth [OF n]])
      then show "is ! k = map (fill ?P ?res) (op_inputs (?N0 ! v)) ! k"
        unfolding q [OF k] E using k0 Nv [OF v] by simp
    qed
    with i show ?thesis by (simp add: Nv(2) [OF v])
  qed
  with inv push(2) have "nodes_inv ?N0 N' ?res (set ts)" by (simp add: nodes_inv_def)
  with push(1) show ?thesis by blast
qed

lemma execute_nodes_reference:
  assumes ok: "dfg_ok D" and topo: "dg_topo D = Some TS"
    and tx: "\<forall>h \<in> produced (dg_nodes D). tx_value tx h = None"
  shows "TS = pre @ ts \<Longrightarrow> nodes_inv (dg_nodes D) N res (set ts) \<Longrightarrow>
    \<forall>v \<in> set ts. res (result_handle (dg_nodes D ! v)) = None \<Longrightarrow>
    execute_nodes E (dg_out D) tx ts N res = reference E (produced (dg_nodes D)) tx (dg_nodes D) ts res"
proof (induction ts arbitrary: pre N res)
  case Nil
  then show ?case by simp
next
  case (Cons n ts)
  let ?N0 = "dg_nodes D" and ?P = "produced (dg_nodes D)"
  let ?h = "result_handle (?N0 ! n)" and ?ins = "op_inputs (?N0 ! n)"
  have dist: "distinct (map result_handle ?N0)" using ok by (simp add: dfg_ok_def)
  have len: "length N = length ?N0" and n: "n < length ?N0"
    and Nn: "N ! n = (?N0 ! n)\<lparr>op_inputs := map (fill ?P res) ?ins\<rparr>"
    using Cons.prems(2) by (auto simp: nodes_inv_def)
  have fresh: "res ?h = None" using Cons.prems(3) by simp
  have nts: "n \<notin> set ts" using dfg_ok_topo(1) [OF ok topo] Cons.prems(1) by simp
  have rest: "\<forall>v \<in> set ts. (res(?h \<mapsto> r)) (result_handle (?N0 ! v)) = None" for r
  proof
    fix v assume v: "v \<in> set ts"
    with Cons.prems(2) have "v < length ?N0" by (simp add: nodes_inv_def)
    with result_handle_inj [OF dist n, of v] nts v have "result_handle (?N0 ! v) \<noteq> ?h" by auto
    with Cons.prems(3) v show "(res(?h \<mapsto> r)) (result_handle (?N0 ! v)) = None" by simp
  qed
  have args: "map (ready_value tx) (op_inputs (N ! n)) = map (task_arg ?P tx res) ?ins"
    using ready_fill [OF tx] by (simp add: Nn)
  have "N[n := m] ! v = N ! v" if "v \<in> set ts" for m v
    using nts that by (metis nth_list_update_neq)
  then have keep: "nodes_inv ?N0 (N[n := m]) res (set ts)" for m
    using Cons.prems(2) by (simp add: nodes_inv_def)
  have pre: "TS = (pre @ [n]) @ ts" using Cons.prems(1) by simp
  note IH = Cons.IH [OF pre]
  show ?case
  proof (cases "those (map (task_arg ?P tx res) ?ins)")
    case None
    then obtain "is" where t: "try_execute_node E (N ! n) tx = (Inl SchedulerFailure, (N ! n)\<lparr>op_inputs := is\<rparr>)"
      using try_execute_view [where tx = tx and node = "N ! n" and E = E] args by auto
    have r: "\<forall>v \<in> set ts. res (result_handle (?N0 ! v)) = None" using Cons.prems(3) by simp
    from None t n len IH [OF keep r] show ?thesis by simp
  next
    case (Some cts)
    let ?node = "(N ! n)\<lparr>op_inputs := []\<rparr>"
    let ?r = "run_computation E (opcode (?N0 ! n)) cts (node_is_allowed (?N0 ! n))"
    have run: "try_execute_node E (N ! n) tx = (Inr ?r, ?node)"
    proof -
      have "opcode (N ! n) = opcode (?N0 ! n)" "node_is_allowed (N ! n) = node_is_allowed (?N0 ! n)"
        by (simp_all add: Nn)
      then show ?thesis
        using try_execute_view [where tx = tx and node = "N ! n" and E = E] unfolding args Some by simp
    qed
    have out: "task_outcome ?node r = task_outcome (?N0 ! n) r" "result_handle ?node = ?h" for r
      by (simp_all add: Nn task_outcome_def)
    show ?thesis
    proof (cases ?r)
      case (Panic p)
      with Some run n len show ?thesis by simp
    next
      case (Err e)
      have "nodes_inv ?N0 (N[n := ?node]) (res(?h \<mapsto> task_outcome (?N0 ! n) ?r)) (set ts)"
        using keep [of ?node] fill_other_error [of res ?h ?P "task_outcome (?N0 ! n) ?r"] fresh
          produced_nth [OF n]
        by (simp add: nodes_inv_def Err task_outcome_def)
      from IH [OF this rest] Some run n len Err out show ?thesis by (simp del: fun_upd_apply)
    next
      case (Ok p)
      obtain ct cc where p: "p = (ct, cc)" by (cases p)
      let ?tr = "\<lparr>tr_ct = ct, tr_compressed = if node_is_allowed (?N0 ! n) then cc else None,
        tr_is_allowed = node_is_allowed (?N0 ! n)\<rparr>"
      have o: "task_outcome (?N0 ! n) ?r = Ok ?tr" by (simp add: Ok p task_outcome_def)
      from push_step [OF ok topo Cons.prems(1) keep [of ?node] fresh, of ?tr] obtain N' where
        "push_to_consumers ct (dg_out D n) (N[n := ?node]) = Ok N'"
        "nodes_inv ?N0 N' (res(?h \<mapsto> Ok ?tr)) (set ts)" by auto
      with IH [of N' "res(?h \<mapsto> Ok ?tr)", OF _ rest] Some run n len Ok p o out show ?thesis
        by (simp del: fun_upd_apply)
    qed
  qed
qed

lemma fill_untouched: "\<forall>h \<in> P. res h = None \<Longrightarrow> fill P res i = i"
  by (cases i) (auto simp: ok_ct_def)

lemma nodes_inv_start:
  assumes "\<forall>h \<in> produced N. res h = None" and "todo \<subseteq> {..<length N}"
  shows "nodes_inv N N res todo"
proof -
  have "map (fill (produced N) res) is = is" for "is" using fill_untouched [OF assms(1)] by (simp add: map_idI)
  with assms show ?thesis by (auto simp: nodes_inv_def)
qed

lemma execute_reference:
  assumes ok: "dfg_ok D" and topo: "dg_topo D = Some ts"
    and tx: "\<forall>h \<in> produced (dg_nodes D). tx_value tx h = None"
    and fresh: "\<forall>h \<in> produced (dg_nodes D). res h = None"
  shows "execute_nodes E (dg_out D) tx ts (dg_nodes D) res
       = reference E (produced (dg_nodes D)) tx (dg_nodes D) ts res"
proof (rule execute_nodes_reference [OF ok topo tx, of "[]"])
  show "nodes_inv (dg_nodes D) (dg_nodes D) res (set ts)"
    by (rule nodes_inv_start [OF fresh]) (simp add: dfg_ok_topo(2) [OF ok topo])
  show "\<forall>v \<in> set ts. res (result_handle (dg_nodes D ! v)) = None"
    using fresh dfg_ok_topo(2) [OF ok topo] by (auto intro: produced_nth)
qed simp

section \<open>Re-randomisation keeps the clear values\<close>

text \<open>
  What the engine's parameters are relied on for: the library's laws, a compression that fails only
  by panicking, and a re-randomisation that keeps the clear value.
\<close>

definition engine_ok :: "('c, 'x, 's) engine \<Rightarrow> ('c \<Rightarrow> nat) \<Rightarrow> shift_sem \<Rightarrow> bool" where
  "engine_ok E dec sh \<longleftrightarrow>
     tfhe_laws (eng_lib E) dec sh
   \<and> (\<forall>x e. eng_compress E x \<noteq> Err e)
   \<and> (\<forall>t c s c'. eng_rerandomise E t c () s = Inr c' \<longrightarrow> dec c' = dec c)"

lemma compress_ct_not_Err: "compress_ct build lib_ser x \<noteq> Err e"
  by (cases x) (auto simp: compress_ct_def safe_serialize_def bind_res_eq_Err split: option.splits)

text \<open>The clear value of an input of a component, before re-randomisation.\<close>

definition clear_tx ::
  "('c, 'x, 's) engine \<Rightarrow> ('c \<Rightarrow> nat) \<Rightarrow> 'c tx_inputs \<Rightarrow> handle \<Rightarrow> clear option" where
  "clear_tx E dec ins h =
     (case map_of ins h of
        Some (Some (TxValue v _)) \<Rightarrow> Some (abs_ct dec v)
      | Some (Some (TxCompressed t c _)) \<Rightarrow> map_option (abs_ct dec) (ok_val (eng_decompress E t c))
      | _ \<Rightarrow> None)"

lemma re_randomise_abs:
  assumes "engine_ok E dec sh" and "re_randomise (eng_rerandomise E) v () s = Ok v'"
  shows "abs_ct dec v' = abs_ct dec v"
proof -
  have law: "\<And>t c c'. eng_rerandomise E t c () s = Inr c' \<Longrightarrow> dec c' = dec c"
    using assms(1) by (simp add: engine_ok_def)
  from assms(2) show ?thesis
    by (cases v) (auto simp: re_randomise_def rerandomised_def abs_ct_def law split: sum.splits)
qed

definition clear_all ::
  "('c, 'x, 's) engine \<Rightarrow> ('c \<Rightarrow> nat) \<Rightarrow> 'c tx_inputs \<Rightarrow> (handle \<times> clear option) list" where
  "clear_all E dec ins = map (\<lambda>(h, i). (h,
     case i of
       Some (TxValue v _) \<Rightarrow> Some (abs_ct dec v)
     | Some (TxCompressed t c _) \<Rightarrow> map_option (abs_ct dec) (ok_val (eng_decompress E t c))
     | None \<Rightarrow> None)) ins"

lemma clear_tx_all: "clear_tx E dec ins h = (case map_of (clear_all E dec ins) h of Some c \<Rightarrow> c | None \<Rightarrow> None)"
proof (induction ins)
  case Nil
  then show ?case by (simp add: clear_tx_def clear_all_def)
next
  case (Cons a ins)
  then show ?case
    by (cases a) (auto simp: clear_tx_def clear_all_def split: option.splits tx_input.splits)
qed

lemma collect_context_clear:
  "collect_context E ins ctx = Ok (ctx', ins') \<Longrightarrow> clear_all E dec ins' = clear_all E dec ins"
proof (induction E ins ctx arbitrary: ctx' ins' rule: collect_context.induct)
  case (2 E h txinput rest ctx)
  show ?case
  proof (cases txinput)
    case None
    with 2 show ?thesis by simp
  next
    case (Some i)
    show ?thesis
    proof (cases i)
      case (TxValue v b)
      with Some 2 show ?thesis by (cases b) (auto simp: bind_res_eq_Ok clear_all_def)
    next
      case (TxCompressed t c b)
      with Some 2 show ?thesis by (auto simp: bind_res_eq_Ok clear_all_def of_fhevm_def)
    qed
  qed
qed (simp add: clear_all_def)

text \<open>After the second pass every input is a value.\<close>

definition all_values :: "'c tx_inputs \<Rightarrow> bool" where
  "all_values ins \<longleftrightarrow> (\<forall>(h, i) \<in> set ins. \<exists>v b. i = Some (TxValue v b))"

lemma apply_seeds_clear:
  assumes E: "engine_ok E dec sh"
  shows "apply_seeds E ctx k ins = Ok ins' \<Longrightarrow>
    clear_all E dec ins' = clear_all E dec ins \<and> all_values ins'"
proof (induction ins arbitrary: k ins')
  case Nil
  then show ?case by (simp add: clear_all_def all_values_def)
next
  case (Cons a ins)
  obtain h i where a: "a = (h, i)" by (cases a)
  show ?case
  proof (cases i)
    case None
    with Cons a show ?thesis by simp
  next
    case (Some t)
    show ?thesis
    proof (cases t)
      case (TxValue v b)
      show ?thesis
      proof (cases b)
        case True
        with Cons.prems a Some TxValue obtain s v' rest where
          "eng_seed E ctx k = Inr s" "re_randomise (eng_rerandomise E) v () s = Ok v'"
          "apply_seeds E ctx (Suc k) ins = Ok rest" "ins' = (h, Some (TxValue v' True)) # rest"
          by (auto simp: bind_res_eq_Ok of_fhevm_def split: sum.splits)
        with Cons.IH [of "Suc k" rest] a Some TxValue re_randomise_abs [OF E] show ?thesis
          by (auto simp: clear_all_def all_values_def)
      next
        case False
        with Cons.prems a Some TxValue obtain rest where
          "apply_seeds E ctx k ins = Ok rest" "ins' = a # rest"
          by (auto simp: bind_res_eq_Ok)
        with Cons.IH [of k rest] a Some TxValue show ?thesis
          by (auto simp: clear_all_def all_values_def)
      qed
    next
      case (TxCompressed ty c b)
      with Cons a Some show ?thesis by simp
    qed
  qed
qed

lemma all_values_clear: "all_values ins \<Longrightarrow> map_option (abs_ct dec) (tx_value ins h) = clear_tx E dec ins h"
proof -
  assume v: "all_values ins"
  have "\<exists>v b. i = Some (TxValue v b)" if "map_of ins h = Some i" for i
    using v map_of_SomeD [OF that] by (auto simp: all_values_def)
  then show ?thesis by (auto simp: tx_value_def clear_tx_def split: option.split)
qed

lemma rerandomise_clear:
  assumes E: "engine_ok E dec sh"
    and r: "re_randomise_transaction_inputs E ins tid cid = Ok ins'"
  shows "map_option (abs_ct dec) (tx_value ins' h) = clear_tx E dec ins h"
proof -
  from r obtain ctx mid where "collect_context E ins (eng_context E tid cid) = Ok (ctx, mid)"
    and s: "apply_seeds E ctx 0 mid = Ok ins'"
    by (auto simp: re_randomise_transaction_inputs_def bind_res_eq_Ok)
  then have "clear_all E dec mid = clear_all E dec ins" by (intro collect_context_clear)
  with apply_seeds_clear [OF E s] have "all_values ins'" "clear_all E dec ins' = clear_all E dec ins"
    by simp_all
  with all_values_clear [of ins' dec h E] show ?thesis by (simp add: clear_tx_all)
qed

section \<open>The component as a clear circuit\<close>

text \<open>
  The evaluation of a component on clear values: an operation with all its arguments has the value
  its specification gives, or none.
\<close>

fun clear_arg ::
  "('c \<Rightarrow> nat) \<Rightarrow> handle set \<Rightarrow> (handle \<Rightarrow> clear option) \<Rightarrow> (handle \<Rightarrow> clear option) \<Rightarrow> 'c task_input \<Rightarrow> clear option" where
  "clear_arg dec P tx res (TaskValue v) = Some (abs_ct dec v)"
| "clear_arg dec P tx res (TaskDependence h) = (if h \<in> P then res h else tx h)"
| "clear_arg dec P tx res (TaskCompressed t c) = None"

definition clear_node ::
  "shift_sem \<Rightarrow> ('c \<Rightarrow> nat) \<Rightarrow> handle set \<Rightarrow> (handle \<Rightarrow> clear option) \<Rightarrow> (handle \<Rightarrow> clear option) \<Rightarrow> 'c op_node
     \<Rightarrow> clear option" where
  "clear_node sh dec P tx res node =
     (case those (map (clear_arg dec P tx res) (op_inputs node)) of
        None \<Rightarrow> None
      | Some xs \<Rightarrow>
          (case op_try_from_i16 (i32_as_i16 (opcode node)) of
             Ok op \<Rightarrow> clear_perform sh op xs
           | _ \<Rightarrow> None))"

fun clear_circuit ::
  "shift_sem \<Rightarrow> ('c \<Rightarrow> nat) \<Rightarrow> handle set \<Rightarrow> (handle \<Rightarrow> clear option) \<Rightarrow> 'c op_node list \<Rightarrow> nat list
     \<Rightarrow> (handle \<Rightarrow> clear option) \<Rightarrow> handle \<Rightarrow> clear option" where
  "clear_circuit sh dec P tx nodes [] res = res"
| "clear_circuit sh dec P tx nodes (n # ts) res =
     clear_circuit sh dec P tx nodes ts
       (res(result_handle (nodes ! n) := clear_node sh dec P tx res (nodes ! n)))"

text \<open>A deterministic operation of the engine, with its code as the component stores it.\<close>

definition det_node :: "('c \<Rightarrow> nat) \<Rightarrow> 'c op_node \<Rightarrow> bool" where
  "det_node dec node \<longleftrightarrow>
     (\<exists>op. opcode node = i16_as_i32 (op_to_i16 op) \<and> op \<notin> {FheRand, FheRandBounded, FheGetInputCiphertext})
   \<and> (\<forall>v. TaskValue v \<in> set (op_inputs node) \<longrightarrow> ct_ok dec v)"

lemma opcode_read:
  "i32_as_i16 (i16_as_i32 (op_to_i16 op)) = op_to_i16 op"
  "op \<noteq> FheGetInputCiphertext \<Longrightarrow> proto_try_from (i16_as_i32 (op_to_i16 op)) = Some ProtoCompute"
  by (cases op; simp add: i32_as_i16_def i16_as_i32_def proto_try_from_def)+

lemma those_map_abs:
  assumes "\<And>i. i \<in> set is \<Longrightarrow> map_option (abs_ct dec) (f i) = g i"
  shows "those (map g is) = map_option (map (abs_ct dec)) (those (map f is))"
  using assms
proof (induction "is")
  case (Cons i "is")
  then have "g i = map_option (abs_ct dec) (f i)" by simp
  with Cons show ?case by (cases "f i") (simp_all add: option.map_comp comp_def)
qed simp

lemma those_map_set: "those (map f is) = Some xs \<Longrightarrow> x \<in> set xs \<Longrightarrow> \<exists>i \<in> set is. f i = Some x"
proof (induction "is" arbitrary: xs)
  case (Cons i "is")
  then show ?case by (auto split: option.splits)
qed simp

lemma run_computation_clear:
  assumes E: "engine_ok E dec sh" and code: "opcode node = i16_as_i32 (op_to_i16 op)"
    and det: "op \<notin> {FheRand, FheRandBounded, FheGetInputCiphertext}"
    and ok: "\<forall>x \<in> set cts. ct_ok dec x"
    and np: "\<not> panics (run_computation E (opcode node) cts a)"
  shows "(case run_computation E (opcode node) cts a of
      Ok (r, cc) \<Rightarrow> clear_perform sh op (map (abs_ct dec) cts) = Some (abs_ct dec r) \<and> ct_ok dec r
    | _ \<Rightarrow> clear_perform sh op (map (abs_ct dec) cts) = None)"
proof -
  have laws: "tfhe_laws (eng_lib E) dec sh" using E by (simp add: engine_ok_def)
  let ?p = "perform_fhe_operation_impl (eng_lib E) (op_to_i16 op) cts"
  have run: "run_computation E (opcode node) cts a =
      bind_res (of_fhevm ?p) (\<lambda>result.
        if a then bind_res (of_fhevm (eng_compress E result)) (\<lambda>cc. Ok (result, Some cc))
        else Ok (result, None))"
    using det by (simp add: run_computation_def code opcode_read perform_fhe_operation_def)
  have ref: "map_option (abs_ct dec) (ok_val ?p) = clear_perform sh op (map (abs_ct dec) cts)"
    using engine_refines [OF laws ok, of op] det by simp
  show ?thesis
  proof (cases ?p)
    case (Ok r)
    from engine_result [OF laws ok Ok] have "ct_ok dec r" by auto
    moreover have "eng_compress E r \<noteq> Err e" for e using E by (simp add: engine_ok_def)
    ultimately show ?thesis
      using np ref Ok unfolding run
      by (cases "eng_compress E r") (auto simp: of_fhevm_def)
  next
    case (Err e)
    with ref show ?thesis unfolding run by (simp add: of_fhevm_def)
  next
    case (Panic p)
    with np show ?thesis unfolding run by (simp add: of_fhevm_def)
  qed
qed

lemma outcome_clear:
  assumes "case r of Ok (x, cc) \<Rightarrow> v = Some (abs_ct dec x) \<and> ct_ok dec x | _ \<Rightarrow> v = None"
    and "\<not> panics r"
  shows "map_option (abs_ct dec) (case task_outcome node r of Ok tr \<Rightarrow> Some (tr_ct tr) | _ \<Rightarrow> None) = v
    \<and> (\<forall>x. (case task_outcome node r of Ok tr \<Rightarrow> Some (tr_ct tr) | _ \<Rightarrow> None) = Some x \<longrightarrow> ct_ok dec x)"
  using assms by (cases r) (auto simp: task_outcome_def)

lemma reference_clear:
  assumes E: "engine_ok E dec sh" and det: "\<forall>node \<in> set nodes. det_node dec node"
    and tx: "\<And>h. map_option (abs_ct dec) (tx_value tx h) = ctx h"
    and txok: "\<And>h v. tx_value tx h = Some v \<Longrightarrow> ct_ok dec v"
  shows "\<lbrakk>set ts \<subseteq> {..<length nodes}; distinct ts; distinct (map result_handle nodes);
      \<forall>h. map_option (abs_ct dec) (ok_ct res h) = cres h;
      \<forall>h v. ok_ct res h = Some v \<longrightarrow> ct_ok dec v;
      \<forall>n \<in> set ts. res (result_handle (nodes ! n)) = None;
      reference E P tx nodes ts res = Ok res'\<rbrakk> \<Longrightarrow>
    map_option (abs_ct dec) (ok_ct res' h) = clear_circuit sh dec P ctx nodes ts cres h"
proof (induction ts arbitrary: res cres)
  case Nil
  then show ?case by simp
next
  case (Cons n ts)
  let ?node = "nodes ! n"
  let ?h = "result_handle ?node"
  have n: "n < length nodes" using Cons.prems(1) by simp
  with det have "det_node dec ?node" by simp
  then obtain op where op: "opcode ?node = i16_as_i32 (op_to_i16 op)"
    "op \<notin> {FheRand, FheRandBounded, FheGetInputCiphertext}"
    and vals: "\<And>v. TaskValue v \<in> set (op_inputs ?node) \<Longrightarrow> ct_ok dec v"
    by (auto simp: det_node_def)
  have dec_op: "op_try_from_i16 (i32_as_i16 (opcode ?node)) = Ok op"
    by (simp add: op(1) opcode_read op16.dec_enc)
  have arg: "map_option (abs_ct dec) (task_arg P tx res i) = clear_arg dec P ctx cres i" for i
    using tx Cons.prems(4) by (cases i) auto
  have args: "those (map (clear_arg dec P ctx cres) (op_inputs ?node))
      = map_option (map (abs_ct dec)) (those (map (task_arg P tx res) (op_inputs ?node)))"
    by (rule those_map_abs) (rule arg)
  have argok: "ct_ok dec v" if "i \<in> set (op_inputs ?node)" "task_arg P tx res i = Some v" for i v
  proof (cases i)
    case (TaskValue w)
    with that vals [of w] show ?thesis by simp
  next
    case (TaskDependence h)
    with that have "ok_ct res h = Some v \<or> tx_value tx h = Some v" by (simp split: if_splits)
    with txok [of h v] Cons.prems(5) show ?thesis by blast
  next
    case (TaskCompressed t c)
    with that show ?thesis by simp
  qed
  have fresh: "res ?h = None" using Cons.prems(6) by simp
  have others: "result_handle (nodes ! m) \<noteq> ?h" if "m \<in> set ts" for m
  proof -
    from that Cons.prems(1,2) have "m < length nodes" "m \<noteq> n" by auto
    with result_handle_inj [OF Cons.prems(3) n, of m] show ?thesis by metis
  qed
  show ?case
  proof (cases "those (map (task_arg P tx res) (op_inputs ?node))")
    case None
    then have "clear_node sh dec P ctx cres ?node = None" by (simp add: clear_node_def args)
    moreover have "cres ?h = None"
      using Cons.prems(4) [THEN spec, of ?h] fresh by (simp add: ok_ct_def)
    ultimately have "cres(?h := clear_node sh dec P ctx cres ?node) = cres" by auto
    with Cons.IH [of res cres] Cons.prems None show ?thesis by simp
  next
    case (Some cts)
    let ?r = "run_computation E (opcode ?node) cts (node_is_allowed ?node)"
    have cn: "clear_node sh dec P ctx cres ?node = clear_perform sh op (map (abs_ct dec) cts)"
      by (simp add: clear_node_def args Some dec_op)
    have okc: "\<forall>x \<in> set cts. ct_ok dec x" using those_map_set [OF Some] argok by blast
    from Cons.prems(7) Some have np: "\<not> panics ?r" by (cases ?r) auto
    note rc = run_computation_clear [OF E op okc np]
    from Cons.prems(7) Some np have run:
      "reference E P tx nodes ts (res(?h \<mapsto> task_outcome ?node ?r)) = Ok res'"
      by (cases ?r) auto
    let ?res = "res(?h \<mapsto> task_outcome ?node ?r)" and ?cres = "cres(?h := clear_node sh dec P ctx cres ?node)"
    have here: "map_option (abs_ct dec) (ok_ct ?res ?h) = ?cres ?h"
      "\<forall>v. ok_ct ?res ?h = Some v \<longrightarrow> ct_ok dec v"
      using outcome_clear [OF rc np, of ?node] by (simp_all add: ok_ct_def cn)
    have "\<forall>h. map_option (abs_ct dec) (ok_ct ?res h) = ?cres h"
    proof
      fix h show "map_option (abs_ct dec) (ok_ct ?res h) = ?cres h"
        using here(1) Cons.prems(4) by (cases "h = ?h") (simp_all add: ok_ct_def)
    qed
    moreover have "\<forall>h v. ok_ct ?res h = Some v \<longrightarrow> ct_ok dec v"
      using here(2) Cons.prems(5) by (auto simp: ok_ct_def split: if_splits)
    moreover have "\<forall>m \<in> set ts. ?res (result_handle (nodes ! m)) = None"
      using others Cons.prems(6) by simp
    ultimately show ?thesis
      using Cons.IH [of ?res ?cres] Cons.prems(1,2,3) run by (simp del: fun_upd_apply)
  qed
qed

lemma tx_value_absent: "h \<notin> fst ` set ins \<Longrightarrow> tx_value ins h = None"
  by (simp add: tx_value_def map_of_eq_None_iff [THEN iffD2])

lemma rerandomise_keys:
  "re_randomise_transaction_inputs E ins tid cid = Ok ins' \<Longrightarrow> map fst ins' = map fst ins"
proof -
  have c: "collect_context E ins ctx = Ok (ctx', mid) \<Longrightarrow> map fst mid = map fst ins" for ctx ctx' mid
    by (induction E ins ctx arbitrary: ctx' mid rule: collect_context.induct)
      (auto simp: bind_res_eq_Ok split: option.splits tx_input.splits bool.splits)
  have s: "apply_seeds E ctx k ins = Ok ins' \<Longrightarrow> map fst ins' = map fst ins" for ctx k ins ins'
    by (induction E ctx k ins arbitrary: ins' rule: apply_seeds.induct)
      (auto simp: bind_res_eq_Ok split: option.splits tx_input.splits bool.splits sum.splits)
  assume "re_randomise_transaction_inputs E ins tid cid = Ok ins'"
  then show ?thesis
    by (auto simp: re_randomise_transaction_inputs_def bind_res_eq_Ok dest!: c s)
qed

section \<open>A sample component\<close>

text \<open>
  The engine on clear numbers, and a component that adds 5 to its input and squares the sum.
\<close>

definition clear_engine :: "(nat, unit, unit) engine" where
  "clear_engine =
     \<lparr> eng_lib = clear_lib,
       eng_decompress = decompress_ct Inr (\<lambda>l t. Inr (Some (be_val l mod 2 ^ ty_bits t))),
       eng_compress = compress_ct (\<lambda>t c. Some [of_nat c]) Some,
       eng_context = (\<lambda>tid cid. ()),
       eng_add = (\<lambda>x t c. x),
       eng_seed = (\<lambda>x k. Inr ()),
       eng_rerandomise = (\<lambda>t c k s. Inr c) \<rparr>"

lemma clear_engine_ok: "engine_ok clear_engine clear_dec no_shift"
  using clear_lib_laws by (simp add: engine_ok_def clear_engine_def compress_ct_not_Err)

definition sample_dfg :: "nat dfgraph" where
  "sample_dfg =
     \<lparr> dg_nodes =
         [\<lparr> opcode = 0, result_handle = [10],
            op_inputs = [TaskDependence [1], TaskValue (Scalar [5])], node_is_allowed = False \<rparr>,
          \<lparr> opcode = 2, result_handle = [11],
            op_inputs = [TaskDependence [10], TaskDependence [10]], node_is_allowed = True \<rparr>],
       dg_out = (\<lambda>u. if u = 0 then [(1, 0), (1, 1)] else []),
       dg_topo = Some [0, 1] \<rparr>"

definition sample_ins :: "nat tx_inputs" where
  "sample_ins = [([1], Some (TxCompressed 2 [7] True))]"

lemma sample_dfg_ok: "dfg_ok sample_dfg"
proof -
  have "u \<in> set us" if "[0, 1] = us @ v # vs" "u < 2" "(v, w) \<in> set (dg_out sample_dfg u)"
    for us v vs and u :: nat and w :: u8
    using that by (cases us) (auto simp: sample_dfg_def Cons_eq_append_conv split: if_splits)
  then show ?thesis
    by (auto simp: dfg_ok_def sample_dfg_def less_Suc_eq nth_Cons' split: if_splits)
qed

section \<open>Properties\<close>

text \<open>
  C4. The loop that hands every result to its consumers along the edges of the graph computes the
  reference evaluation, which looks every input up by handle; in particular it never writes out of
  range of a consumer's inputs.
\<close>

theorem execution_is_reference:
  assumes "dfg_ok D" and "dg_topo D = Some ts"
    and "\<forall>h \<in> produced (dg_nodes D). tx_value tx h = None"
    and "\<forall>h \<in> produced (dg_nodes D). res h = None"
  shows "execute_nodes E (dg_out D) tx ts (dg_nodes D) res
       = reference E (produced (dg_nodes D)) tx (dg_nodes D) ts res"
  using assms by (rule execute_reference)

lemma execution_is_reference_witness:
  "execute_nodes clear_engine (dg_out sample_dfg) [([1], Some (TxValue (FheUint8 7) True))] [0, 1]
      (dg_nodes sample_dfg) Map.empty
   = reference clear_engine (produced (dg_nodes sample_dfg)) [([1], Some (TxValue (FheUint8 7) True))]
      (dg_nodes sample_dfg) [0, 1] Map.empty"
  by (rule execution_is_reference [OF sample_dfg_ok])
    (simp_all add: sample_dfg_def produced_def tx_value_def)

text \<open>
  C3. Executing a component of deterministic operations, with all its inputs present, gives every
  handle the ciphertext that decrypts to the value of the component's circuit on the clear values
  of the inputs, and no ciphertext exactly where the circuit has no value. Re-randomisation and the
  transport along the edges do not change a value.
\<close>

theorem component_computes_circuit:
  assumes E: "engine_ok E dec sh" and D: "dfg_ok D" and topo: "dg_topo D = Some ts"
    and det: "\<forall>node \<in> set (dg_nodes D). det_node dec node"
    and ins: "fill_inputs res ins = Some ins'"
    and txok: "\<forall>h c. clear_tx E dec ins' h = Some c \<longrightarrow> clear_ok c"
    and keys: "\<forall>h \<in> produced (dg_nodes D). h \<notin> fst ` set ins'"
    and fresh: "\<forall>h \<in> produced (dg_nodes D). res h = None"
    and prev: "\<forall>h v. ok_ct res h = Some v \<longrightarrow> ct_ok dec v"
    and rr: "re_randomise_transaction_inputs E ins' tid cid = Ok ins''"
    and run: "execute_transaction E (D, ins, tid, cid) res = Ok res'"
  shows "map_option (abs_ct dec) (ok_ct res' h)
       = clear_circuit sh dec (produced (dg_nodes D)) (clear_tx E dec ins') (dg_nodes D) ts
           (\<lambda>h. map_option (abs_ct dec) (ok_ct res h)) h"
proof (rule reference_clear [OF E det])
  note clr = rerandomise_clear [OF E rr]
  show "map_option (abs_ct dec) (tx_value ins'' h) = clear_tx E dec ins' h" for h by (rule clr)
  show "ct_ok dec v" if "tx_value ins'' h = Some v" for h v
    using that clr [of h] txok clear_ok_abs [of dec v] by (metis option.simps(9))
  have "\<forall>h \<in> produced (dg_nodes D). tx_value ins'' h = None"
    using keys rerandomise_keys [OF rr] tx_value_absent by (metis list.set_map)
  from execute_reference [OF D topo this fresh, of E] run
  show "reference E (produced (dg_nodes D)) ins'' (dg_nodes D) ts res = Ok res'"
    by (simp add: execute_transaction_def ins rr topo)
  show "set ts \<subseteq> {..<length (dg_nodes D)}" "distinct ts"
    using dfg_ok_topo(1,2) [OF D topo] by simp_all
  show "distinct (map result_handle (dg_nodes D))" using D by (simp add: dfg_ok_def)
  show "\<forall>n \<in> set ts. res (result_handle (dg_nodes D ! n)) = None"
    using fresh dfg_ok_topo(2) [OF D topo] by (auto intro: produced_nth)
qed (use prev in auto)

lemma component_computes_circuit_witness:
  "\<exists>res'. execute_transaction clear_engine (sample_dfg, sample_ins, [], 0) Map.empty = Ok res'
     \<and> map_option (abs_ct clear_dec) (ok_ct res' [11]) = Some (Val TUint8 144)"
proof -
  have "is_ok (execute_transaction clear_engine (sample_dfg, sample_ins, [], 0) Map.empty)"
    by code_simp
  then obtain res' where run:
    "execute_transaction clear_engine (sample_dfg, sample_ins, [], 0) Map.empty = Ok res'"
    by (cases "execute_transaction clear_engine (sample_dfg, sample_ins, [], 0) Map.empty") auto
  have rr: "re_randomise_transaction_inputs clear_engine sample_ins [] 0
      = Ok [([1], Some (TxValue (FheUint8 7) True))]"
    by code_simp
  have topo: "dg_topo sample_dfg = Some [0, 1]" by (simp add: sample_dfg_def)
  have det: "\<forall>node \<in> set (dg_nodes sample_dfg). det_node clear_dec node"
  proof -
    have "\<exists>op. 0 = i16_as_i32 (op_to_i16 op) \<and> op \<notin> {FheRand, FheRandBounded, FheGetInputCiphertext}"
      by (rule exI [of _ FheAdd]) (simp add: i16_as_i32_def)
    moreover have "\<exists>op. 2 = i16_as_i32 (op_to_i16 op) \<and> op \<notin> {FheRand, FheRandBounded, FheGetInputCiphertext}"
      by (rule exI [of _ FheMul]) (simp add: i16_as_i32_def)
    ultimately show ?thesis by (auto simp: sample_dfg_def det_node_def)
  qed
  have ins: "fill_inputs Map.empty sample_ins = Some sample_ins" by (simp add: sample_ins_def)
  have clr: "clear_tx clear_engine clear_dec sample_ins h = (if h = [1] then Some (Val TUint8 7) else None)" for h
    by (simp add: clear_tx_def sample_ins_def clear_engine_def decompress_ct_def decompress_impl_def
        get_or_missing_def abs_ct_def clear_dec_def)
  have "map_option (abs_ct clear_dec) (ok_ct res' [11])
      = clear_circuit no_shift clear_dec (produced (dg_nodes sample_dfg))
          (clear_tx clear_engine clear_dec sample_ins) (dg_nodes sample_dfg) [0, 1]
          (\<lambda>h. map_option (abs_ct clear_dec) (ok_ct Map.empty h)) [11]"
    by (rule component_computes_circuit [OF clear_engine_ok sample_dfg_ok topo det ins _ _ _ _ rr run])
      (simp_all add: clr clear_ok_def ok_ct_def, simp add: sample_dfg_def produced_def sample_ins_def)
  also have "\<dots> = Some (Val TUint8 144)" by code_simp
  finally show ?thesis using run by blast
qed

end
