(* ===== verification/ComponentGraph.thy ===== *)
theory ComponentGraph
  imports Execution
begin

text \<open>
  The graph of components of a batch (\<open>DFComponentGraph\<close> in \<open>scheduler/src/dfg.rs\<close>): which component
  produces a handle, which wait for it, how a result or an error reaches the dependents, and what
  is reported to the database at the end.
\<close>

section \<open>State\<close>

record 'c component =
  c_graph :: "'c dfgraph"
  c_inputs :: "'c tx_inputs"
  c_results :: "handle list"
  c_transaction_id :: handle
  c_is_uncomputable :: bool
  c_component_id :: nat

record dfg_tx_result =
  txr_handle :: handle
  txr_transaction_id :: handle
  txr_compressed :: "(work_error, i16 \<times> bytes) res"

text \<open>The edges are the list the code adds; \<open>add_edge\<close> is asked for each.\<close>

record 'c component_graph =
  cg_nodes :: "'c component list"
  cg_edges :: "(nat \<times> nat) list"
  cg_needed :: "handle \<rightharpoonup> nat list"
  cg_allowed :: "handle \<rightharpoonup> nat"
  cg_results :: "dfg_tx_result list"

section \<open>Construction\<close>

text \<open>\<open>allowed_map\<close>: the component that produces a handle.\<close>

definition insert_results :: "nat \<Rightarrow> handle list \<Rightarrow> (handle \<rightharpoonup> nat) \<Rightarrow> (handle \<rightharpoonup> nat)" where
  "insert_results producer rs m = foldl (\<lambda>m r. m(r \<mapsto> producer)) m rs"

fun collect_allowed :: "nat \<Rightarrow> 'c component list \<Rightarrow> (handle \<rightharpoonup> nat) \<Rightarrow> (handle \<rightharpoonup> nat)" where
  "collect_allowed producer [] m = m"
| "collect_allowed producer (tx # txs) m =
     collect_allowed (Suc producer) txs (insert_results producer (c_results tx) m)"

text \<open>
  The dependences of a consumer, and the handles no component produces with the components that
  need them.
\<close>

definition note_need :: "nat \<Rightarrow> handle \<Rightarrow> (handle \<rightharpoonup> nat list) \<Rightarrow> (handle \<rightharpoonup> nat list)" where
  "note_need consumer i needed =
     (case needed i of
        Some uses \<Rightarrow> needed(i \<mapsto> uses @ [consumer])
      | None \<Rightarrow> needed(i \<mapsto> [consumer]))"

fun collect_keys ::
  "(handle \<rightharpoonup> nat) \<Rightarrow> nat \<Rightarrow> handle list \<Rightarrow> (nat \<times> nat) list \<times> (handle \<rightharpoonup> nat list)
     \<Rightarrow> (nat \<times> nat) list \<times> (handle \<rightharpoonup> nat list)" where
  "collect_keys allowed consumer [] acc = acc"
| "collect_keys allowed consumer (i # keys) (pairs, needed) =
     collect_keys allowed consumer keys
       (case allowed i of
          Some producer \<Rightarrow> (pairs @ [(producer, consumer)], needed)
        | None \<Rightarrow> (pairs, note_need consumer i needed))"

fun collect_consumers ::
  "(handle \<rightharpoonup> nat) \<Rightarrow> nat \<Rightarrow> 'c component list \<Rightarrow> (nat \<times> nat) list \<times> (handle \<rightharpoonup> nat list)
     \<Rightarrow> (nat \<times> nat) list \<times> (handle \<rightharpoonup> nat list)" where
  "collect_consumers allowed consumer [] acc = acc"
| "collect_consumers allowed consumer (tx # txs) acc =
     collect_consumers allowed (Suc consumer) txs
       (collect_keys allowed consumer (map fst (c_inputs tx)) acc)"

fun add_dependence_edges ::
  "cycle_check \<Rightarrow> (nat \<times> nat) list \<Rightarrow> (nat \<times> nat) list \<Rightarrow> (scheduler_error, (nat \<times> nat) list) res" where
  "add_dependence_edges would_cycle [] es = Ok es"
| "add_dependence_edges would_cycle (e # pairs) es =
     (if would_cycle es e then Err CyclicDependence
      else add_dependence_edges would_cycle pairs (es @ [e]))"

text \<open>The components are popped off the list one by one: the graph has them in reverse.\<close>

definition build_graph ::
  "cycle_check \<Rightarrow> 'c component list \<Rightarrow> (scheduler_error, 'c component_graph) res" where
  "build_graph would_cycle nodes =
     (let txs = rev nodes;
          allowed = collect_allowed 0 txs Map.empty;
          (pairs, needed) = collect_consumers allowed 0 txs ([], Map.empty)
      in bind_res (add_dependence_edges would_cycle pairs []) (\<lambda>es.
           Ok \<lparr> cg_nodes = txs, cg_edges = es, cg_needed = needed, cg_allowed = allowed,
                cg_results = [] \<rparr>))"

section \<open>Inputs\<close>

text \<open>\<open>entry(handle).and_modify(..)\<close>: only a key that is there is changed.\<close>

definition modify_input :: "handle \<Rightarrow> 'c tx_input \<Rightarrow> 'c component \<Rightarrow> 'c component" where
  "modify_input handle v tx =
     tx\<lparr>c_inputs := map (\<lambda>(h, i). if h = handle then (h, Some v) else (h, i)) (c_inputs tx)\<rparr>"

fun add_input_to ::
  "handle \<Rightarrow> 'c tx_input \<Rightarrow> nat list \<Rightarrow> 'c component list \<Rightarrow> (scheduler_error, 'c component list) res" where
  "add_input_to handle v [] nodes = Ok nodes"
| "add_input_to handle v (n # ns) nodes =
     (if n < length nodes then
        add_input_to handle v ns (nodes[n := modify_input handle v (nodes ! n)])
      else Err DataflowGraphError)"

definition add_input ::
  "'c component_graph \<Rightarrow> handle \<Rightarrow> 'c tx_input \<Rightarrow> (scheduler_error, 'c component_graph) res" where
  "add_input g handle input =
     (case cg_needed g handle of
        None \<Rightarrow> Ok g
      | Some nodes \<Rightarrow>
          bind_res (add_input_to handle input nodes (cg_nodes g)) (\<lambda>ns. Ok (g\<lparr>cg_nodes := ns\<rparr>)))"

section \<open>Outputs\<close>

text \<open>
  \<open>set_uncomputable\<close> and its loop over the outgoing edges (\<open>out\<close>, what the library's query returns).
  The recursion is bounded by fuel; on a graph without cycles as much fuel as there are nodes is
  enough.
\<close>

function set_uncomputable ::
  "nat \<Rightarrow> (nat \<Rightarrow> nat list) \<Rightarrow> nat \<Rightarrow> 'c component list \<Rightarrow> (scheduler_error, 'c component list) res option"
and set_all_uncomputable ::
  "nat \<Rightarrow> (nat \<Rightarrow> nat list) \<Rightarrow> nat list \<Rightarrow> 'c component list \<Rightarrow> (scheduler_error, 'c component list) res option"
where
  "set_uncomputable 0 out tx_node_index nodes = None"
| "set_uncomputable (Suc k) out tx_node_index nodes =
     (if tx_node_index < length nodes then
        set_all_uncomputable k out (out tx_node_index)
          (nodes[tx_node_index := (nodes ! tx_node_index)\<lparr>c_is_uncomputable := True\<rparr>])
      else Some (Err DataflowGraphError))"
| "set_all_uncomputable k out [] nodes = Some (Ok nodes)"
| "set_all_uncomputable k out (d # ds) nodes =
     (case set_uncomputable k out d nodes of
        Some (Ok nodes') \<Rightarrow> set_all_uncomputable k out ds nodes'
      | r \<Rightarrow> r)"
  by pat_completeness auto

termination
  by (relation "measures [\<lambda>x. case x of Inl (k, _) \<Rightarrow> k | Inr (k, _) \<Rightarrow> k,
        \<lambda>x. case x of Inl _ \<Rightarrow> 0 | Inr (_, _, ds, _) \<Rightarrow> Suc (length ds)]") auto

fun forward_to ::
  "handle \<Rightarrow> 'c task_result \<Rightarrow> nat list \<Rightarrow> 'c component list \<Rightarrow> (scheduler_error, 'c component list) res" where
  "forward_to handle r [] nodes = Ok nodes"
| "forward_to handle r (d # ds) nodes =
     (if d < length nodes then
        forward_to handle r ds
          (nodes[d := modify_input handle (TxValue (tr_ct r) (tr_is_allowed r)) (nodes ! d)])
      else Err DataflowGraphError)"

text \<open>\<open>None\<close> is the fuel of \<open>set_uncomputable\<close> running out.\<close>

definition propagate ::
  "nat \<Rightarrow> (nat \<Rightarrow> nat list) \<Rightarrow> handle \<Rightarrow> (work_error, 'c task_result) res \<Rightarrow> nat \<Rightarrow> 'c component list
     \<Rightarrow> (scheduler_error, 'c component list) res option" where
  "propagate fuel out handle result producer nodes =
     (case result of
        Ok r \<Rightarrow> Some (forward_to handle r (out producer) nodes)
      | _ \<Rightarrow> set_uncomputable fuel out producer nodes)"

definition save_result :: "(work_error, 'c task_result) res \<Rightarrow> bool" where
  "save_result result = (case result of Ok r \<Rightarrow> tr_is_allowed r | _ \<Rightarrow> True)"

definition record_result ::
  "handle \<Rightarrow> (work_error, 'c task_result) res \<Rightarrow> nat \<Rightarrow> 'c component_graph
     \<Rightarrow> (scheduler_error, 'c component_graph) res" where
  "record_result handle result producer g =
     (if producer < length (cg_nodes g) then
        (if (case result of Ok r \<Rightarrow> tr_compressed r = None | _ \<Rightarrow> False) then Err SchedulerFailure
         else Ok (g\<lparr>cg_results := cg_results g @
                [\<lparr> txr_handle = handle,
                   txr_transaction_id = c_transaction_id (cg_nodes g ! producer),
                   txr_compressed = bind_res result (\<lambda>rok. Ok (the (tr_compressed rok))) \<rparr>]\<rparr>))
      else Err DataflowGraphError)"

definition add_output ::
  "nat \<Rightarrow> (nat \<Rightarrow> nat list) \<Rightarrow> handle \<Rightarrow> (work_error, 'c task_result) res \<Rightarrow> 'c component_graph
     \<Rightarrow> (scheduler_error, 'c component_graph) res option" where
  "add_output fuel out handle result g =
     (case cg_allowed g handle of
        None \<Rightarrow> Some (Ok g)
      | Some producer \<Rightarrow>
          (case propagate fuel out handle result producer (cg_nodes g) of
             None \<Rightarrow> None
           | Some r \<Rightarrow>
               Some (bind_res r (\<lambda>nodes.
                 if save_result result then record_result handle result producer (g\<lparr>cg_nodes := nodes\<rparr>)
                 else Ok (g\<lparr>cg_nodes := nodes\<rparr>)))))"

section \<open>What is reported\<close>

definition get_results :: "'c component_graph \<Rightarrow> dfg_tx_result list \<times> 'c component_graph" where
  "get_results g = (cg_results g, g\<lparr>cg_results := []\<rparr>)"

definition reported_handles :: "'c component \<Rightarrow> (handle \<times> handle) list" where
  "reported_handles tx =
     (if c_is_uncomputable tx then [] else map (\<lambda>h. (h, c_transaction_id tx)) (c_results tx))"

definition get_handles :: "'c component_graph \<Rightarrow> (handle \<times> handle) list \<times> 'c component_graph" where
  "get_handles g =
     (concat (map reported_handles (cg_nodes g)),
      g\<lparr>cg_nodes := map (\<lambda>tx. if c_is_uncomputable tx then tx else tx\<lparr>c_results := []\<rparr>) (cg_nodes g)\<rparr>)"

end
