(* ===== verification/Scheduler.thy ===== *)
theory Scheduler
  imports ComponentGraph
begin

text \<open>
  The scheduler (\<open>schedule_coarse_grain\<close> in \<open>scheduler/src/dfg/scheduler.rs\<close>): the units of the
  execution graph that wait for nothing are spawned, and each time a task is joined its results
  enter the component graph, the counters of the units that wait for it go down, and the units
  that reach zero are spawned. Which running task is joined next, and in which order the results
  of a task are read out of its \<open>HashMap\<close>, is not determined by the code: the joins are a relation.
\<close>

section \<open>State\<close>

text \<open>
  The component graph, the counters of the execution graph's nodes, and the \<open>JoinSet\<close>: the tasks
  running, each with its index and its arguments.
\<close>

record 'c sched =
  sc_graph :: "'c component_graph"
  sc_counters :: "u64 list"
  sc_running :: "(nat \<times> 'c component_task list) list"

datatype sched_failure = GraphFailure scheduler_error | JoinFailure panic_reason

text \<open>\<open>std::mem::take\<close> leaves the default dataflow graph behind.\<close>

definition empty_dfgraph :: "'c dfgraph" where
  "empty_dfgraph = \<lparr> dg_nodes = [], dg_out = (\<lambda>_. []), dg_topo = Some [] \<rparr>"

section \<open>The strategy\<close>

text \<open>
  \<open>schedule\<close> reads the strategy from the environment variable \<open>FHEVM_DF_SCHEDULE\<close>, with a default
  when it is absent or names no strategy.
\<close>

datatype partition_strategy = MaxParallelism | MaxLocality

definition strategy_of_env :: "string option \<Rightarrow> partition_strategy" where
  "strategy_of_env schedule_type =
     (case schedule_type of
        Some val \<Rightarrow>
          if val = ''MAX_PARALLELISM'' then MaxParallelism
          else if val = ''MAX_LOCALITY'' then MaxLocality
          else MaxParallelism
      | None \<Rightarrow> MaxParallelism)"

definition make_execution_graph ::
  "partition_strategy \<Rightarrow> cycle_check \<Rightarrow> gview \<Rightarrow> (scheduler_error, exec_graph) res" where
  "make_execution_graph strategy would_cycle G =
     (case strategy of
        MaxLocality \<Rightarrow> partition_components G
      | MaxParallelism \<Rightarrow> partition_preserving_parallelism would_cycle G)"

section \<open>Spawning\<close>

text \<open>
  The arguments of a task: the graph and the inputs are taken out of each component of the unit.
  When a task is spawned after a join, components that are uncomputable by then are skipped.
\<close>

fun gather_args ::
  "bool \<Rightarrow> nat list \<Rightarrow> 'c component list
     \<Rightarrow> (sched_failure, 'c component_task list \<times> 'c component list) res" where
  "gather_args skip [] nodes = Ok ([], nodes)"
| "gather_args skip (nidx # ns) nodes =
     (if nidx < length nodes then
        (let tx = nodes ! nidx in
         if skip \<and> c_is_uncomputable tx then gather_args skip ns nodes
         else
           bind_res
             (gather_args skip ns (nodes[nidx := tx\<lparr>c_graph := empty_dfgraph, c_inputs := []\<rparr>]))
             (\<lambda>(args, nodes').
               Ok ((c_graph tx, c_inputs tx, c_transaction_id tx, c_component_id tx) # args, nodes')))
      else Err (GraphFailure DataflowGraphError))"

definition start_task ::
  "bool \<Rightarrow> exec_graph \<Rightarrow> nat \<Rightarrow> 'c sched \<Rightarrow> (sched_failure, 'c sched) res" where
  "start_task skip eg index s =
     bind_res (gather_args skip (df_nodes (exec_nodes eg ! index)) (cg_nodes (sc_graph s)))
       (\<lambda>(args, nodes).
         Ok (s\<lparr>sc_graph := (sc_graph s)\<lparr>cg_nodes := nodes\<rparr>,
               sc_running := sc_running s @ [(index, args)]\<rparr>))"

text \<open>Priming: every node whose counter is zero.\<close>

fun prime :: "exec_graph \<Rightarrow> nat list \<Rightarrow> 'c sched \<Rightarrow> (sched_failure, 'c sched) res" where
  "prime eg [] s = Ok s"
| "prime eg (index # is) s =
     (if index < length (sc_counters s) then
        (if sc_counters s ! index = 0 then bind_res (start_task False eg index s) (prime eg is)
         else prime eg is s)
      else Err (GraphFailure DataflowGraphError))"

definition initial_sched :: "'c component_graph \<Rightarrow> exec_graph \<Rightarrow> 'c sched" where
  "initial_sched g eg =
     \<lparr> sc_graph = g, sc_counters = map dependence_counter (exec_nodes eg), sc_running = [] \<rparr>"

definition start_schedule ::
  "exec_graph \<Rightarrow> 'c component_graph \<Rightarrow> (sched_failure, 'c sched) res" where
  "start_schedule eg g = prime eg [0..<length (exec_nodes eg)] (initial_sched g eg)"

section \<open>Joining\<close>

text \<open>The dependents of a task: the targets of its outgoing edges, the edge added last first.\<close>

definition exec_out :: "exec_graph \<Rightarrow> nat \<Rightarrow> nat list" where
  "exec_out eg task_index = map snd (filter (\<lambda>(source, _). source = task_index) (rev (exec_edges eg)))"

text \<open>\<open>fetch_sub(1)\<close> wraps around.\<close>

fun release :: "exec_graph \<Rightarrow> nat list \<Rightarrow> 'c sched \<Rightarrow> (sched_failure, 'c sched) res" where
  "release eg [] s = Ok s"
| "release eg (dependent # ds) s =
     (if dependent < length (sc_counters s) then
        (let s' = s\<lparr>sc_counters := (sc_counters s)[dependent := sc_counters s ! dependent - 1]\<rparr> in
         if sc_counters s' ! dependent = 0 then
           bind_res (start_task True eg dependent s') (release eg ds)
         else release eg ds s')
      else Err (GraphFailure DataflowGraphError))"

text \<open>The results of a task enter the component graph. \<open>None\<close>: the fuel of \<open>set_uncomputable\<close>.\<close>

fun add_outputs ::
  "nat \<Rightarrow> (nat \<Rightarrow> nat list) \<Rightarrow> (handle \<times> (work_error, 'c task_result) res) list
     \<Rightarrow> 'c component_graph \<Rightarrow> (scheduler_error, 'c component_graph) res option" where
  "add_outputs fuel out [] g = Some (Ok g)"
| "add_outputs fuel out ((handle, node_result) # rs) g =
     (case add_output fuel out handle node_result g of
        Some (Ok g') \<Rightarrow> add_outputs fuel out rs g'
      | r \<Rightarrow> r)"

text \<open>The order in which a map is iterated: any list of its entries, each key once.\<close>

definition listing :: "('k \<rightharpoonup> 'v) \<Rightarrow> ('k \<times> 'v) list \<Rightarrow> bool" where
  "listing m kvs \<longleftrightarrow> distinct (map fst kvs) \<and> map_of kvs = m"

text \<open>One round of the loop, for the task \<open>(t, args)\<close> and the listing \<open>rs\<close> of its results.\<close>

definition join_task ::
  "nat \<Rightarrow> (nat \<Rightarrow> nat list) \<Rightarrow> exec_graph \<Rightarrow> nat \<Rightarrow> (handle \<times> (work_error, 'c task_result) res) list
     \<Rightarrow> 'c sched \<Rightarrow> (sched_failure, 'c sched) res option" where
  "join_task fuel out eg t rs s =
     map_option
       (\<lambda>r. bind_res (map_err GraphFailure r) (\<lambda>g. release eg (exec_out eg t) (s\<lparr>sc_graph := g\<rparr>)))
       (add_outputs fuel out rs (sc_graph s))"

text \<open>
  The runs of the loop from a primed state, with the tasks joined so far in order. A task whose
  execution panics gives a \<open>JoinError\<close>, which ends the loop.
\<close>

inductive joins ::
  "('c, 'x, 's) engine \<Rightarrow> nat \<Rightarrow> (nat \<Rightarrow> nat list) \<Rightarrow> exec_graph \<Rightarrow> 'c sched \<Rightarrow> nat list \<Rightarrow> 'c sched \<Rightarrow> bool"
  for E fuel out eg s0 where
  joins_start: "joins E fuel out eg s0 [] s0"
| joins_task:
    "\<lbrakk> joins E fuel out eg s0 js s;
       sc_running s = us @ (t, args) # vs;
       execute_partition E args Map.empty = Ok res;
       listing res rs;
       join_task fuel out eg t rs (s\<lparr>sc_running := us @ vs\<rparr>) = Some (Ok s') \<rbrakk>
     \<Longrightarrow> joins E fuel out eg s0 (js @ [t]) s'"

inductive_cases joins_taskE: "joins E fuel out eg s0 js s"

text \<open>The ways a round ends the loop.\<close>

inductive join_fails ::
  "('c, 'x, 's) engine \<Rightarrow> nat \<Rightarrow> (nat \<Rightarrow> nat list) \<Rightarrow> exec_graph \<Rightarrow> 'c sched \<Rightarrow> sched_failure \<Rightarrow> bool"
  for E fuel out eg s where
  fails_panic:
    "(t, args) \<in> set (sc_running s) \<Longrightarrow> execute_partition E args Map.empty = Panic p
       \<Longrightarrow> join_fails E fuel out eg s (JoinFailure p)"
| fails_graph:
    "\<lbrakk> sc_running s = us @ (t, args) # vs;
       execute_partition E args Map.empty = Ok res;
       listing res rs;
       join_task fuel out eg t rs (s\<lparr>sc_running := us @ vs\<rparr>) = Some (Err e) \<rbrakk>
     \<Longrightarrow> join_fails E fuel out eg s e"

end
