(* ===== verification/ComponentGraphCorrect.thy ===== *)
theory ComponentGraphCorrect
  imports ComponentGraph ExecutionCorrect
begin

text \<open>
  What the graph of components keeps: its edges and maps agree with the handles the components
  produce and need, an error reaches every component that depends on it and no other, and a
  component with an error reports none of its handles as completed.
\<close>

section \<open>Construction\<close>

lemma insert_results_apply: "insert_results p rs m h = (if h \<in> set rs then Some p else m h)"
  unfolding insert_results_def by (induction rs arbitrary: m) auto

lemma collect_allowed_Some:
  "collect_allowed k txs m h = Some p \<Longrightarrow>
     (\<exists>j < length txs. p = k + j \<and> h \<in> set (c_results (txs ! j))) \<or> m h = Some p"
proof (induction k txs m rule: collect_allowed.induct)
  case (1 k m)
  then show ?case by simp
next
  case (2 k tx txs m)
  from "2.IH" "2.prems"
  consider (later) j where "j < length txs" "p = Suc k + j" "h \<in> set (c_results (txs ! j))"
    | (here) "insert_results k (c_results tx) m h = Some p"
    by auto
  then show ?case
  proof cases
    case later
    then show ?thesis by (intro disjI1 exI [of _ "Suc j"]) simp
  next
    case here
    then show ?thesis by (cases "h \<in> set (c_results tx)") (auto simp: insert_results_apply)
  qed
qed

lemma collect_allowed_None:
  "collect_allowed k txs m h = None \<longleftrightarrow> m h = None \<and> (\<forall>tx \<in> set txs. h \<notin> set (c_results tx))"
proof (induction k txs m rule: collect_allowed.induct)
  case (1 k m)
  then show ?case by simp
next
  case (2 k tx txs m)
  show ?case
    unfolding collect_allowed.simps "2.IH" insert_results_apply by auto
qed

lemma collect_keys_spec:
  "collect_keys allowed c keys (pairs, needed) = (pairs', needed') \<Longrightarrow>
     set pairs' = set pairs \<union> {(p, c) |p. \<exists>i \<in> set keys. allowed i = Some p}
     \<and> (\<forall>h. set (case needed' h of None \<Rightarrow> [] | Some us \<Rightarrow> us)
          = set (case needed h of None \<Rightarrow> [] | Some us \<Rightarrow> us)
            \<union> (if h \<in> set keys \<and> allowed h = None then {c} else {}))"
proof (induction keys arbitrary: pairs needed)
  case Nil
  then show ?case by simp
next
  case (Cons i keys)
  show ?case
  proof (cases "allowed i")
    case None
    with Cons.IH [of pairs "note_need c i needed"] Cons.prems show ?thesis
      by (auto simp: note_need_def split: option.splits if_splits)
  next
    case (Some p)
    with Cons.IH [of "pairs @ [(p, c)]" needed] Cons.prems show ?thesis by auto
  qed
qed

definition keys_of :: "'c component list \<Rightarrow> nat \<Rightarrow> handle set" where
  "keys_of txs c = fst ` set (c_inputs (txs ! c))"

lemma collect_consumers_spec:
  "collect_consumers allowed k txs (pairs, needed) = (pairs', needed') \<Longrightarrow>
     set pairs' = set pairs \<union> {(p, k + j) |p j. j < length txs \<and> (\<exists>i \<in> keys_of txs j. allowed i = Some p)}
     \<and> (\<forall>h. set (case needed' h of None \<Rightarrow> [] | Some us \<Rightarrow> us)
          = set (case needed h of None \<Rightarrow> [] | Some us \<Rightarrow> us)
            \<union> {k + j |j. j < length txs \<and> h \<in> keys_of txs j \<and> allowed h = None})"
proof (induction txs arbitrary: k pairs needed)
  case Nil
  then show ?case by simp
next
  case (Cons tx txs)
  obtain p1 n1 where 1: "collect_keys allowed k (map fst (c_inputs tx)) (pairs, needed) = (p1, n1)"
    by (metis surj_pair)
  note here = collect_keys_spec [OF 1]
  from Cons.prems 1 have "collect_consumers allowed (Suc k) txs (p1, n1) = (pairs', needed')" by simp
  note rest = Cons.IH [OF this]
  have shift: "(\<exists>j < length (tx # txs). P j) \<longleftrightarrow> P 0 \<or> (\<exists>j < length txs. P (Suc j))" for P
    by (simp add: Ex_less_Suc2)
  have "{(p, k + j) |p j. j < length (tx # txs) \<and> (\<exists>i \<in> keys_of (tx # txs) j. allowed i = Some p)}
      = {(p, k) |p. \<exists>i \<in> set (map fst (c_inputs tx)). allowed i = Some p}
        \<union> {(p, Suc k + j) |p j. j < length txs \<and> (\<exists>i \<in> keys_of txs j. allowed i = Some p)}"
    (is "?A = ?B")
  proof (intro set_eqI iffI)
    fix x assume "x \<in> ?A"
    then obtain p j where x: "x = (p, k + j)" "j < length (tx # txs)"
      "\<exists>i \<in> keys_of (tx # txs) j. allowed i = Some p" by blast
    then show "x \<in> ?B" by (cases j) (auto simp: keys_of_def)
  next
    fix x assume "x \<in> ?B"
    then show "x \<in> ?A"
    proof (rule UnE)
      assume "x \<in> {(p, k) |p. \<exists>i \<in> set (map fst (c_inputs tx)). allowed i = Some p}"
      then obtain p where "x = (p, k)" "\<exists>i \<in> set (map fst (c_inputs tx)). allowed i = Some p" by blast
      then show ?thesis by (intro CollectI exI [of _ p] exI [of _ 0]) (simp add: keys_of_def)
    next
      assume "x \<in> {(p, Suc k + j) |p j. j < length txs \<and> (\<exists>i \<in> keys_of txs j. allowed i = Some p)}"
      then obtain p j where "x = (p, Suc k + j)" "j < length txs" "\<exists>i \<in> keys_of txs j. allowed i = Some p"
        by blast
      then show ?thesis by (intro CollectI exI [of _ p] exI [of _ "Suc j"]) (simp add: keys_of_def)
    qed
  qed
  moreover have "{k + j |j. j < length (tx # txs) \<and> h \<in> keys_of (tx # txs) j \<and> allowed h = None}
      = (if h \<in> set (map fst (c_inputs tx)) \<and> allowed h = None then {k} else {})
        \<union> {Suc k + j |j. j < length txs \<and> h \<in> keys_of txs j \<and> allowed h = None}"
    (is "?A h = ?B h") for h
  proof (intro set_eqI iffI)
    fix x assume "x \<in> ?A h"
    then obtain j where "x = k + j" "j < length (tx # txs)" "h \<in> keys_of (tx # txs) j" "allowed h = None"
      by blast
    then show "x \<in> ?B h" by (cases j) (auto simp: keys_of_def)
  next
    fix x assume x: "x \<in> ?B h"
    show "x \<in> ?A h"
    proof (cases "x \<in> {Suc k + j |j. j < length txs \<and> h \<in> keys_of txs j \<and> allowed h = None}")
      case True
      then obtain j where "x = Suc k + j" "j < length txs" "h \<in> keys_of txs j" "allowed h = None" by blast
      then show ?thesis by (intro CollectI exI [of _ "Suc j"]) (simp add: keys_of_def)
    next
      case False
      with x have "h \<in> set (map fst (c_inputs tx))" "allowed h = None" "x = k" by (auto split: if_splits)
      then show ?thesis by (intro CollectI exI [of _ 0]) (simp add: keys_of_def)
    qed
  qed
  ultimately show ?case using here rest by (simp add: Un_assoc)
qed

text \<open>
  A graph of components is consistent when its edges are the dependences of its components on one
  another, and the needed handles are those no component produces, with the components that need
  them.
\<close>

definition component_graph_ok :: "'c component_graph \<Rightarrow> bool" where
  "component_graph_ok g \<longleftrightarrow>
     set (cg_edges g) = {(p, c). c < length (cg_nodes g) \<and> (\<exists>h \<in> keys_of (cg_nodes g) c. cg_allowed g h = Some p)}
   \<and> (\<forall>h p. cg_allowed g h = Some p \<longrightarrow> p < length (cg_nodes g) \<and> h \<in> set (c_results (cg_nodes g ! p)))
   \<and> (\<forall>h. cg_allowed g h = None \<longleftrightarrow> (\<forall>tx \<in> set (cg_nodes g). h \<notin> set (c_results tx)))
   \<and> (\<forall>h. set (case cg_needed g h of None \<Rightarrow> [] | Some us \<Rightarrow> us)
        = {c. c < length (cg_nodes g) \<and> h \<in> keys_of (cg_nodes g) c \<and> cg_allowed g h = None})"

lemma add_dependence_edges_Ok:
  "add_dependence_edges wc pairs es = Ok es' \<Longrightarrow> es' = es @ pairs"
  by (induction wc pairs es rule: add_dependence_edges.induct) (auto split: if_splits)

lemma build_graph_ok:
  assumes "build_graph wc nodes = Ok g"
  shows "component_graph_ok g \<and> cg_nodes g = rev nodes \<and> cg_results g = []"
proof -
  let ?txs = "rev nodes"
  let ?al = "collect_allowed 0 ?txs Map.empty"
  obtain pairs needed where cc: "collect_consumers ?al 0 ?txs ([], Map.empty) = (pairs, needed)"
    by (metis surj_pair)
  with assms have g: "g = \<lparr> cg_nodes = ?txs, cg_edges = pairs, cg_needed = needed, cg_allowed = ?al,
      cg_results = [] \<rparr>"
    by (auto simp: build_graph_def Let_def bind_res_eq_Ok dest!: add_dependence_edges_Ok)
  note cs = collect_consumers_spec [OF cc]
  have al: "p < length ?txs \<and> h \<in> set (c_results (?txs ! p))" if "?al h = Some p" for h p
    using collect_allowed_Some [OF that] by auto
  have "set pairs = {(p, c). c < length ?txs \<and> (\<exists>h \<in> keys_of ?txs c. ?al h = Some p)}"
    using cs by auto
  moreover have "set (case needed h of None \<Rightarrow> [] | Some us \<Rightarrow> us)
      = {c. c < length ?txs \<and> h \<in> keys_of ?txs c \<and> ?al h = None}" for h
    using cs by auto
  ultimately show ?thesis
    using al collect_allowed_None [of 0 ?txs Map.empty]
    unfolding component_graph_ok_def g by simp
qed

section \<open>Uncomputable components\<close>

definition marked :: "nat set \<Rightarrow> 'c component list \<Rightarrow> 'c component list \<Rightarrow> bool" where
  "marked S nodes nodes' \<longleftrightarrow>
     length nodes' = length nodes
   \<and> (\<forall>v < length nodes. nodes' ! v
        = (if v \<in> S then (nodes ! v)\<lparr>c_is_uncomputable := True\<rparr> else nodes ! v))"

lemma marked_empty: "marked {} nodes nodes"
  by (simp add: marked_def)

lemma marked_trans: "marked S a b \<Longrightarrow> marked T b c \<Longrightarrow> marked (S \<union> T) a c"
  by (auto simp: marked_def)

lemma marked_one: "n < length nodes \<Longrightarrow> marked {n} nodes (nodes[n := (nodes ! n)\<lparr>c_is_uncomputable := True\<rparr>])"
  by (simp add: marked_def)

text \<open>
  The edges go from a component to one of a larger number in some numbering, and stay in range.
\<close>

definition ranked :: "(nat \<Rightarrow> nat list) \<Rightarrow> nat \<Rightarrow> (nat \<Rightarrow> nat) \<Rightarrow> bool" where
  "ranked out n rank \<longleftrightarrow>
     (\<forall>u v. v \<in> set (out u) \<longrightarrow> v < n \<and> rank u < rank v) \<and> (\<forall>v < n. rank v < n)"

definition below :: "(nat \<Rightarrow> nat list) \<Rightarrow> nat \<Rightarrow> nat set" where
  "below out n = {v. (n, v) \<in> reached out}"

lemma below_unfold: "below out n = insert n (\<Union>d \<in> set (out n). below out d)"
proof (intro set_eqI iffI)
  fix v assume "v \<in> below out n"
  then have "(n, v) \<in> {(a, b). b \<in> set (out a)}\<^sup>*" by (simp add: below_def reached_def)
  then show "v \<in> insert n (\<Union>d \<in> set (out n). below out d)"
    by (cases rule: converse_rtranclE) (auto simp: below_def reached_def)
next
  fix v assume "v \<in> insert n (\<Union>d \<in> set (out n). below out d)"
  then show "v \<in> below out n" by (auto simp: below_def intro: reached_step)
qed

lemma set_uncomputable_spec:
  fixes nodes :: "'c component list"
  assumes "ranked out (length nodes) rank" and "n < length nodes" and "length nodes - rank n < k"
  shows "\<exists>nodes'. set_uncomputable k out n nodes = Some (Ok nodes') \<and> marked (below out n) nodes nodes'"
  using assms
proof (induction k arbitrary: n nodes)
  case 0
  then show ?case by simp
next
  case (Suc k)
  let ?nodes = "nodes[n := (nodes ! n)\<lparr>c_is_uncomputable := True\<rparr>]"
  have children: "\<exists>nodes'. set_all_uncomputable k out ds ns = Some (Ok nodes')
      \<and> marked (\<Union>d \<in> set ds. below out d) ns nodes'"
    if "set ds \<subseteq> set (out n)" "length ns = length nodes" for ds and ns :: "'c component list"
    using that
  proof (induction ds arbitrary: ns)
    case Nil
    then show ?case by (simp add: marked_empty)
  next
    case (Cons d ds)
    from Cons.prems Suc.prems(1) have d: "d < length ns" "rank n < rank d" "rank d < length nodes"
      by (auto simp: ranked_def)
    have "length ns - rank d < k" using d Suc.prems(3) Cons.prems(2) by linarith
    with Suc.IH [of ns d] Suc.prems(1) Cons.prems(2) d obtain ns1 where
      1: "set_uncomputable k out d ns = Some (Ok ns1)" "marked (below out d) ns ns1" by auto
    then have "length ns1 = length nodes" using Cons.prems(2) by (simp add: marked_def)
    with Cons.IH [of ns1] Cons.prems(1) obtain ns2 where
      "set_all_uncomputable k out ds ns1 = Some (Ok ns2)"
      "marked (\<Union>d \<in> set ds. below out d) ns1 ns2" by auto
    with 1 marked_trans [OF 1(2)] show ?case by auto
  qed
  from children [of "out n" ?nodes] obtain nodes' where
    r: "set_all_uncomputable k out (out n) ?nodes = Some (Ok nodes')"
    "marked (\<Union>d \<in> set (out n). below out d) ?nodes nodes'" by auto
  from marked_trans [OF marked_one [OF Suc.prems(2)] r(2)]
  have "marked (below out n) nodes nodes'" by (subst below_unfold) simp
  with r Suc.prems(2) show ?case by simp
qed

section \<open>Outputs\<close>

lemma modify_input_flags [simp]:
  "c_is_uncomputable (modify_input h v tx) = c_is_uncomputable tx"
  "c_results (modify_input h v tx) = c_results tx"
  "c_transaction_id (modify_input h v tx) = c_transaction_id tx"
  by (simp_all add: modify_input_def)

lemma forward_to_spec:
  "\<forall>d \<in> set ds. d < length nodes \<Longrightarrow>
   \<exists>nodes'. forward_to h r ds nodes = Ok nodes' \<and> length nodes' = length nodes
     \<and> (\<forall>v < length nodes. nodes' ! v
          = (if v \<in> set ds then modify_input h (TxValue (tr_ct r) (tr_is_allowed r)) (nodes ! v)
             else nodes ! v))"
proof (induction ds arbitrary: nodes)
  case Nil
  then show ?case by simp
next
  case (Cons d ds)
  let ?f = "modify_input h (TxValue (tr_ct r) (tr_is_allowed r))"
  have idem: "?f (?f tx) = ?f tx" for tx
    by (simp add: modify_input_def comp_def case_prod_unfold cong: if_cong)
  from Cons.prems Cons.IH [of "nodes[d := ?f (nodes ! d)]"] obtain nodes' where
    f: "forward_to h r ds (nodes[d := ?f (nodes ! d)]) = Ok nodes'" "length nodes' = length nodes"
    "\<And>v. v < length nodes \<Longrightarrow> nodes' ! v = (if v \<in> set ds then ?f (nodes[d := ?f (nodes ! d)] ! v)
        else nodes[d := ?f (nodes ! d)] ! v)" by auto
  have "nodes' ! v = (if v \<in> set (d # ds) then ?f (nodes ! v) else nodes ! v)" if "v < length nodes" for v
    using f(3) [OF that] that idem by (cases "v = d") auto
  with f Cons.prems show ?case by simp
qed

text \<open>
  The handles a component reports; an uncomputable component reports none.
\<close>

lemma get_handles_iff:
  "(h, tid) \<in> set (fst (get_handles g)) \<longleftrightarrow>
     (\<exists>tx \<in> set (cg_nodes g). \<not> c_is_uncomputable tx \<and> h \<in> set (c_results tx) \<and> tid = c_transaction_id tx)"
  by (auto simp: get_handles_def reported_handles_def)

text \<open>An output that is an error.\<close>

lemma add_output_error:
  assumes rk: "ranked out (length (cg_nodes g)) rank" and fuel: "length (cg_nodes g) < fuel"
    and prod: "cg_allowed g h = Some p" and p: "p < length (cg_nodes g)"
  shows "\<exists>g'. add_output fuel out h (Err e) g = Some (Ok g')
    \<and> marked (below out p) (cg_nodes g) (cg_nodes g')
    \<and> cg_results g' = cg_results g @ [\<lparr> txr_handle = h,
        txr_transaction_id = c_transaction_id (cg_nodes g ! p), txr_compressed = Err e \<rparr>]
    \<and> cg_edges g' = cg_edges g \<and> cg_allowed g' = cg_allowed g \<and> cg_needed g' = cg_needed g"
proof -
  from fuel have "length (cg_nodes g) - rank p < fuel" by linarith
  from set_uncomputable_spec [OF rk p this] obtain ns where
    s: "set_uncomputable fuel out p (cg_nodes g) = Some (Ok ns)" and m: "marked (below out p) (cg_nodes g) ns"
    by blast
  have "length ns = length (cg_nodes g)" "c_transaction_id (ns ! p) = c_transaction_id (cg_nodes g ! p)"
    using m p by (simp_all add: marked_def)
  with prod s m p show ?thesis
    by (simp add: add_output_def propagate_def save_result_def record_result_def)
qed

lemma add_output_value:
  assumes dep: "\<forall>d \<in> set (out p). d < length (cg_nodes g)"
    and prod: "cg_allowed g h = Some p" and p: "p < length (cg_nodes g)"
    and cc: "tr_is_allowed r \<Longrightarrow> tr_compressed r = Some c"
  shows "\<exists>g'. add_output fuel out h (Ok r) g = Some (Ok g')
    \<and> length (cg_nodes g') = length (cg_nodes g)
    \<and> (\<forall>v < length (cg_nodes g). cg_nodes g' ! v
         = (if v \<in> set (out p) then modify_input h (TxValue (tr_ct r) (tr_is_allowed r)) (cg_nodes g ! v)
            else cg_nodes g ! v))
    \<and> cg_results g' = cg_results g @ (if tr_is_allowed r then [\<lparr> txr_handle = h,
        txr_transaction_id = c_transaction_id (cg_nodes g ! p), txr_compressed = Ok c \<rparr>] else [])"
proof -
  from forward_to_spec [OF dep, of h r] obtain ns where
    f: "forward_to h r (out p) (cg_nodes g) = Ok ns" "length ns = length (cg_nodes g)"
    "\<And>v. v < length (cg_nodes g) \<Longrightarrow> ns ! v
       = (if v \<in> set (out p) then modify_input h (TxValue (tr_ct r) (tr_is_allowed r)) (cg_nodes g ! v)
          else cg_nodes g ! v)" by blast
  have "c_transaction_id (ns ! p) = c_transaction_id (cg_nodes g ! p)" using f(3) [OF p] by simp
  with prod f p cc show ?thesis
    by (auto simp: add_output_def propagate_def save_result_def record_result_def)
qed

section \<open>Properties\<close>

text \<open>
  C14. The graph built from a list of components has exactly the edges of their dependences on one
  another, and lists every input no component produces with the components that need it.
\<close>

theorem built_graph_consistent:
  assumes "build_graph would_cycle nodes = Ok g"
  shows "component_graph_ok g \<and> cg_nodes g = rev nodes \<and> cg_results g = []"
  using assms by (rule build_graph_ok)

text \<open>
  C10. An error of one operation makes its component and every component that depends on it, however
  far, uncomputable, and no other; it is recorded once; and afterwards no handle of these
  components is reported as completed. The recursion ends with as much fuel as there are nodes.
\<close>

theorem error_reaches_dependents:
  assumes rk: "ranked out (length (cg_nodes g)) rank" and fuel: "length (cg_nodes g) < fuel"
    and prod: "cg_allowed g h = Some p" and p: "p < length (cg_nodes g)"
  shows "\<exists>g'. add_output fuel out h (Err e) g = Some (Ok g')
    \<and> (\<forall>v < length (cg_nodes g). c_is_uncomputable (cg_nodes g' ! v) \<longleftrightarrow>
          c_is_uncomputable (cg_nodes g ! v) \<or> v \<in> below out p)
    \<and> cg_results g' = cg_results g @ [\<lparr> txr_handle = h,
        txr_transaction_id = c_transaction_id (cg_nodes g ! p), txr_compressed = Err e \<rparr>]
    \<and> (\<forall>k tid. (k, tid) \<in> set (fst (get_handles g')) \<longrightarrow>
          (\<exists>v < length (cg_nodes g). v \<notin> below out p \<and> k \<in> set (c_results (cg_nodes g ! v))))"
proof -
  from add_output_error [OF rk fuel prod p, of e] obtain g' where
    g': "add_output fuel out h (Err e) g = Some (Ok g')"
    "marked (below out p) (cg_nodes g) (cg_nodes g')"
    "cg_results g' = cg_results g @ [\<lparr> txr_handle = h,
        txr_transaction_id = c_transaction_id (cg_nodes g ! p), txr_compressed = Err e \<rparr>]" by blast
  from g'(2) have unc: "\<forall>v < length (cg_nodes g). c_is_uncomputable (cg_nodes g' ! v) \<longleftrightarrow>
      c_is_uncomputable (cg_nodes g ! v) \<or> v \<in> below out p"
    by (simp add: marked_def)
  moreover have "\<exists>v < length (cg_nodes g). v \<notin> below out p \<and> k \<in> set (c_results (cg_nodes g ! v))"
    if "(k, tid) \<in> set (fst (get_handles g'))" for k tid
  proof -
    from that obtain v where v: "v < length (cg_nodes g')" "\<not> c_is_uncomputable (cg_nodes g' ! v)"
      "k \<in> set (c_results (cg_nodes g' ! v))"
      unfolding get_handles_iff by (metis in_set_conv_nth)
    with g'(2) show ?thesis by (auto simp: marked_def split: if_splits)
  qed
  ultimately show ?thesis using g'(1,3) by blast
qed

text \<open>
  C15. A result reaches the components that depend on its producer, and only them, as the value of
  that handle where they have it as an input; it is recorded for the database exactly when the
  handle is allowed.
\<close>

theorem result_reaches_dependents:
  assumes "\<forall>d \<in> set (out p). d < length (cg_nodes g)"
    and "cg_allowed g h = Some p" and "p < length (cg_nodes g)"
    and "tr_is_allowed r \<Longrightarrow> tr_compressed r = Some c"
  shows "\<exists>g'. add_output fuel out h (Ok r) g = Some (Ok g')
    \<and> length (cg_nodes g') = length (cg_nodes g)
    \<and> (\<forall>v < length (cg_nodes g). cg_nodes g' ! v
         = (if v \<in> set (out p) then modify_input h (TxValue (tr_ct r) (tr_is_allowed r)) (cg_nodes g ! v)
            else cg_nodes g ! v))
    \<and> cg_results g' = cg_results g @ (if tr_is_allowed r then [\<lparr> txr_handle = h,
        txr_transaction_id = c_transaction_id (cg_nodes g ! p), txr_compressed = Ok c \<rparr>] else [])"
  using assms by (rule add_output_value)

section \<open>Witnesses\<close>

text \<open>Two components, the second needing the handle the first produces.\<close>

definition sample_component :: "u8 \<Rightarrow> u8 \<Rightarrow> nat component" where
  "sample_component inp out =
     \<lparr> c_graph = sample_dfg, c_inputs = [([inp], None)], c_results = [[out]], c_transaction_id = [0],
       c_is_uncomputable = False, c_component_id = 0 \<rparr>"

definition sample_graph :: "nat component_graph" where
  "sample_graph =
     \<lparr> cg_nodes = [sample_component 1 2, sample_component 2 3], cg_edges = [(0, 1)],
       cg_needed = [[1] \<mapsto> [0]], cg_allowed = [[2] \<mapsto> 0, [3] \<mapsto> 1], cg_results = [] \<rparr>"

definition sample_out :: "nat \<Rightarrow> nat list" where
  "sample_out u = (if u = 0 then [1] else [])"

lemma sample_ranked: "ranked sample_out (length (cg_nodes sample_graph)) (\<lambda>v. v)"
  by (simp add: ranked_def sample_out_def sample_graph_def)

lemma built_graph_witness:
  "\<exists>g. build_graph path_check [sample_component 2 3, sample_component 1 2] = Ok g
     \<and> component_graph_ok g \<and> cg_nodes g = [sample_component 1 2, sample_component 2 3] \<and> cg_results g = []"
proof -
  have "is_ok (build_graph path_check [sample_component 2 3, sample_component 1 2])"
    by (simp add: build_graph_def sample_component_def insert_results_def note_need_def path_check_def)
  then obtain g where g: "build_graph path_check [sample_component 2 3, sample_component 1 2] = Ok g"
    by (cases "build_graph path_check [sample_component 2 3, sample_component 1 2]") auto
  from built_graph_consistent [OF g] g show ?thesis by auto
qed

lemma error_reaches_dependents_witness:
  "\<exists>g'. add_output 3 sample_out [2] (Err (WScheduler MissingInputs)) sample_graph = Some (Ok g')
    \<and> c_is_uncomputable (cg_nodes g' ! 1)"
proof -
  have "1 \<in> below sample_out 0"
    unfolding below_def reached_def by (rule CollectI) (rule r_into_rtrancl, simp add: sample_out_def)
  moreover have "length (cg_nodes sample_graph) < 3" "cg_allowed sample_graph [2] = Some 0"
    "0 < length (cg_nodes sample_graph)" "1 < length (cg_nodes sample_graph)"
    by (simp_all add: sample_graph_def)
  ultimately show ?thesis
    using error_reaches_dependents [OF sample_ranked, of 3 "[2]" 0 "WScheduler MissingInputs"] by blast
qed

lemma result_reaches_dependents_witness:
  "\<exists>g'. add_output 3 sample_out [2]
      (Ok \<lparr>tr_ct = FheUint8 5, tr_compressed = Some (2, [5]), tr_is_allowed = True\<rparr>) sample_graph = Some (Ok g')
    \<and> length (cg_nodes g') = length (cg_nodes sample_graph)
    \<and> (\<forall>v < length (cg_nodes sample_graph). cg_nodes g' ! v
         = (if v \<in> set (sample_out 0) then modify_input [2] (TxValue (tr_ct
               \<lparr>tr_ct = FheUint8 5, tr_compressed = Some (2, [5]), tr_is_allowed = True\<rparr>) (tr_is_allowed
               \<lparr>tr_ct = FheUint8 (5::nat), tr_compressed = Some (2::i16, [5::u8]), tr_is_allowed = True\<rparr>))
               (cg_nodes sample_graph ! v)
            else cg_nodes sample_graph ! v))
    \<and> cg_results g' = cg_results sample_graph @ (if tr_is_allowed
          \<lparr>tr_ct = FheUint8 (5::nat), tr_compressed = Some (2::i16, [5::u8]), tr_is_allowed = True\<rparr>
        then [\<lparr> txr_handle = [2], txr_transaction_id = c_transaction_id (cg_nodes sample_graph ! 0),
               txr_compressed = Ok (2, [5]) \<rparr>] else [])"
  by (rule result_reaches_dependents) (simp_all add: sample_out_def sample_graph_def)

end
