(* ===== verification/SchedulerCorrect.thy ===== *)
theory SchedulerCorrect
  imports Scheduler ComponentGraphCorrect
begin

text \<open>
  The scheduler executes every unit of a schedule once, each after the units it depends on, and
  stops early only when a computation panics.
\<close>

section \<open>The shape of the component graph\<close>

text \<open>What spawning and joining leave alone.\<close>

definition same_shape :: "'c component_graph \<Rightarrow> 'c component_graph \<Rightarrow> bool" where
  "same_shape g g' \<longleftrightarrow>
     length (cg_nodes g') = length (cg_nodes g) \<and> cg_allowed g' = cg_allowed g
   \<and> cg_needed g' = cg_needed g \<and> cg_edges g' = cg_edges g"

lemma same_shape_refl [simp]: "same_shape g g"
  by (simp add: same_shape_def)

lemma same_shape_trans: "same_shape a b \<Longrightarrow> same_shape b c \<Longrightarrow> same_shape a c"
  by (simp add: same_shape_def)

lemma same_shapeD: "same_shape g g' \<Longrightarrow> length (cg_nodes g') = length (cg_nodes g)"
  "same_shape g g' \<Longrightarrow> cg_allowed g' = cg_allowed g"
  by (simp_all add: same_shape_def)

section \<open>Spawning\<close>

lemma gather_args_ok:
  "\<forall>n \<in> set ns. n < length nodes \<Longrightarrow>
   \<exists>args nodes'. gather_args skip ns nodes = Ok (args, nodes') \<and> length nodes' = length nodes"
proof (induction ns arbitrary: nodes)
  case (Cons n ns)
  show ?case
  proof (cases "skip \<and> c_is_uncomputable (nodes ! n)")
    case True
    with Cons show ?thesis by (simp add: Let_def)
  next
    case False
    from Cons.IH [of "nodes[n := (nodes ! n)\<lparr>c_graph := empty_dfgraph, c_inputs := []\<rparr>]"] Cons.prems
    show ?thesis using False by (auto simp: Let_def)
  qed
qed simp

definition units_in_range :: "exec_graph \<Rightarrow> nat \<Rightarrow> bool" where
  "units_in_range eg n \<longleftrightarrow> (\<forall>p \<in> set (units eg). \<forall>x \<in> set p. x < n)"

lemma start_task_ok:
  assumes "units_in_range eg (length (cg_nodes (sc_graph s)))" and "i < length (units eg)"
  shows "\<exists>args g'. start_task skip eg i s
        = Ok (s\<lparr>sc_graph := g', sc_running := sc_running s @ [(i, args)]\<rparr>)
      \<and> same_shape (sc_graph s) g'"
proof -
  from assms have "\<forall>n \<in> set (df_nodes (exec_nodes eg ! i)). n < length (cg_nodes (sc_graph s))"
    by (fastforce simp: units_in_range_def units_def)
  from gather_args_ok [OF this, of skip] obtain args nodes where
    "gather_args skip (df_nodes (exec_nodes eg ! i)) (cg_nodes (sc_graph s)) = Ok (args, nodes)"
    "length nodes = length (cg_nodes (sc_graph s))" by blast
  then show ?thesis
    by (intro exI [of _ args] exI [of _ "(sc_graph s)\<lparr>cg_nodes := nodes\<rparr>"])
      (simp add: start_task_def same_shape_def)
qed

lemma prime_ok:
  assumes "units_in_range eg (length (cg_nodes (sc_graph s)))"
    and "length (sc_counters s) = length (units eg)" and "\<forall>i \<in> set is. i < length (units eg)"
  shows "\<exists>s'. prime eg is s = Ok s' \<and> sc_counters s' = sc_counters s
      \<and> map fst (sc_running s') = map fst (sc_running s) @ filter (\<lambda>i. sc_counters s ! i = 0) is
      \<and> same_shape (sc_graph s) (sc_graph s')"
  using assms
proof (induction "is" arbitrary: s)
  case (Cons i "is")
  show ?case
  proof (cases "sc_counters s ! i = 0")
    case True
    from Cons.prems have "i < length (units eg)" by simp
    from start_task_ok [OF Cons.prems(1) this, of False] obtain args g' where
      st: "start_task False eg i s = Ok (s\<lparr>sc_graph := g', sc_running := sc_running s @ [(i, args)]\<rparr>)"
      and g': "same_shape (sc_graph s) g'" by blast
    with Cons.IH [of "s\<lparr>sc_graph := g', sc_running := sc_running s @ [(i, args)]\<rparr>"] Cons.prems True
    show ?thesis by (auto simp: same_shapeD intro: same_shape_trans [OF g'])
  next
    case False
    with Cons show ?thesis by simp
  qed
qed simp

lemma release_ok:
  assumes "units_in_range eg (length (cg_nodes (sc_graph s)))"
    and "length (sc_counters s) = length (units eg)" and "\<forall>i \<in> set ds. i < length (units eg)"
    and "distinct ds"
  shows "\<exists>s'. release eg ds s = Ok s'
      \<and> length (sc_counters s') = length (sc_counters s)
      \<and> (\<forall>i < length (sc_counters s). sc_counters s' ! i = sc_counters s ! i - (if i \<in> set ds then 1 else 0))
      \<and> map fst (sc_running s') = map fst (sc_running s) @ filter (\<lambda>i. sc_counters s ! i = 1) ds
      \<and> same_shape (sc_graph s) (sc_graph s')"
  using assms
proof (induction ds arbitrary: s)
  case (Cons d ds)
  let ?s = "s\<lparr>sc_counters := (sc_counters s)[d := sc_counters s ! d - 1]\<rparr>"
  from Cons.prems have d: "d < length (units eg)" "d < length (sc_counters s)" "d \<notin> set ds" by auto
  have same: "filter (\<lambda>i. (sc_counters s)[d := x] ! i = 1) ds = filter (\<lambda>i. sc_counters s ! i = 1) ds" for x
    using d(3) by (intro filter_cong refl) (metis nth_list_update_neq)
  show ?case
  proof (cases "sc_counters s ! d = 1")
    case True
    have "units_in_range eg (length (cg_nodes (sc_graph ?s)))" using Cons.prems(1) by simp
    from start_task_ok [OF this d(1), of True] obtain args g' where
      st: "start_task True eg d ?s = Ok (?s\<lparr>sc_graph := g', sc_running := sc_running s @ [(d, args)]\<rparr>)"
      and g': "same_shape (sc_graph s) g'" by auto
    with Cons.IH [of "?s\<lparr>sc_graph := g', sc_running := sc_running s @ [(d, args)]\<rparr>"] Cons.prems True d
    obtain s' where s': "release eg ds (?s\<lparr>sc_graph := g', sc_running := sc_running s @ [(d, args)]\<rparr>) = Ok s'"
      "length (sc_counters s') = length (sc_counters s)"
      "\<forall>i < length (sc_counters s). sc_counters s' ! i
          = (sc_counters s)[d := sc_counters s ! d - 1] ! i - (if i \<in> set ds then 1 else 0)"
      "map fst (sc_running s') = map fst (sc_running s) @ d # filter (\<lambda>i. sc_counters s ! i = 1) ds"
      "same_shape g' (sc_graph s')"
      by (auto simp: same_shapeD same)
    with st d True show ?thesis
      by (auto simp: Let_def nth_list_update intro: same_shape_trans [OF g'])
  next
    case False
    with Cons.IH [of ?s] Cons.prems d
    obtain s' where s': "release eg ds ?s = Ok s'"
      "length (sc_counters s') = length (sc_counters s)"
      "\<forall>i < length (sc_counters s). sc_counters s' ! i
          = (sc_counters s)[d := sc_counters s ! d - 1] ! i - (if i \<in> set ds then 1 else 0)"
      "map fst (sc_running s') = map fst (sc_running s) @ filter (\<lambda>i. sc_counters s ! i = 1) ds"
      "same_shape (sc_graph s) (sc_graph s')"
      by (auto simp: same)
    with d False show ?thesis
      by (auto simp: Let_def nth_list_update)
  qed
qed simp

section \<open>Outputs of a task\<close>

text \<open>An outcome the component graph can record: an allowed value has its compressed form.\<close>

definition recordable :: "(work_error, 'c task_result) res \<Rightarrow> bool" where
  "recordable r =
     (case r of
        Ok tr \<Rightarrow> \<not> (tr_is_allowed tr \<and> tr_compressed tr = None)
      | Err _ \<Rightarrow> True
      | Panic _ \<Rightarrow> False)"

lemma add_output_ok:
  assumes rk: "ranked out (length (cg_nodes g)) rank" and fuel: "length (cg_nodes g) < fuel"
    and prod: "\<forall>h p. cg_allowed g h = Some p \<longrightarrow> p < length (cg_nodes g)" and r: "recordable r"
  shows "\<exists>g'. add_output fuel out h r g = Some (Ok g') \<and> same_shape g g'"
proof (cases "cg_allowed g h")
  case None
  then show ?thesis by (simp add: add_output_def)
next
  case (Some p)
  with prod have p: "p < length (cg_nodes g)" by blast
  show ?thesis
  proof (cases r)
    case (Ok tr)
    from rk have dep: "\<forall>d \<in> set (out p). d < length (cg_nodes g)" by (auto simp: ranked_def)
    from forward_to_spec [OF dep, of h tr] obtain ns where
      f: "forward_to h tr (out p) (cg_nodes g) = Ok ns" "length ns = length (cg_nodes g)" by blast
    with Ok Some p r show ?thesis
      by (auto simp: add_output_def propagate_def save_result_def record_result_def recordable_def
          same_shape_def)
  next
    case (Err e)
    from add_output_error [OF rk fuel Some p, of e] Err show ?thesis
      by (auto simp: same_shape_def marked_def)
  next
    case (Panic q)
    with r show ?thesis by (simp add: recordable_def)
  qed
qed

lemma add_outputs_ok:
  assumes "ranked out (length (cg_nodes g)) rank" and "length (cg_nodes g) < fuel"
    and "\<forall>h p. cg_allowed g h = Some p \<longrightarrow> p < length (cg_nodes g)" and "\<forall>(h, r) \<in> set rs. recordable r"
  shows "\<exists>g'. add_outputs fuel out rs g = Some (Ok g') \<and> same_shape g g'"
  using assms
proof (induction rs arbitrary: g)
  case (Cons hr rs)
  obtain h r where hr: "hr = (h, r)" by (cases hr)
  with Cons.prems have "recordable r" by simp
  from add_output_ok [OF Cons.prems(1-3) this, of h] obtain g1 where
    g1: "add_output fuel out h r g = Some (Ok g1)" "same_shape g g1" by blast
  with Cons.IH [of g1] Cons.prems obtain g2 where
    "add_outputs fuel out rs g1 = Some (Ok g2)" "same_shape g1 g2" by (auto simp: same_shapeD)
  with g1 hr same_shape_trans [OF g1(2)] show ?case by simp
qed simp

section \<open>Outcomes of a task\<close>

lemma run_computation_compressed:
  "run_computation E c cts True = Ok (v, cc) \<Longrightarrow> cc \<noteq> None"
  by (auto simp: run_computation_def index_then_def bind_res_eq_Ok split: option.splits proto_operation.splits if_splits)

definition all_recordable :: "'c results \<Rightarrow> bool" where
  "all_recordable res \<longleftrightarrow> finite (dom res) \<and> (\<forall>h r. res h = Some r \<longrightarrow> recordable r)"

lemma all_recordable_upd: "all_recordable res \<Longrightarrow> recordable r \<Longrightarrow> all_recordable (res(h \<mapsto> r))"
  by (simp add: all_recordable_def)

lemma mark_allowed_recordable: "all_recordable res \<Longrightarrow> all_recordable (mark_allowed e nodes res)"
proof (induction nodes arbitrary: res)
  case (Cons node nodes)
  have "all_recordable (res(result_handle node \<mapsto> Err (WScheduler e)))"
    using Cons.prems by (rule all_recordable_upd) (simp add: recordable_def)
  with Cons show ?case by (simp add: mark_allowed_def del: fun_upd_apply)
qed (simp add: mark_allowed_def)

text \<open>The outcome of an execution: a map of recordable results, or a panic.\<close>

definition ends_recordable :: "(work_error, 'c results) res \<Rightarrow> bool" where
  "ends_recordable r = (case r of Ok res \<Rightarrow> all_recordable res | Err _ \<Rightarrow> False | Panic _ \<Rightarrow> True)"

lemma ends_recordable_simps [simp]:
  "ends_recordable (Ok res) = all_recordable res" "ends_recordable (Panic p)"
  "\<not> ends_recordable (Err e)"
  by (simp_all add: ends_recordable_def)

text \<open>The node that is executed keeps its code and whether it is allowed.\<close>

lemma try_execute_node_keeps:
  "try_execute_node E node tx = (r, node') \<Longrightarrow>
     node_is_allowed node' = node_is_allowed node \<and> opcode node' = opcode node
     \<and> result_handle node' = result_handle node
     \<and> (\<forall>o'. r = Inr o' \<longrightarrow> (\<exists>cts. o' = run_computation E (opcode node) cts (node_is_allowed node)))"
  by (auto simp: try_execute_node_def split: prod.splits bool.splits option.splits)

lemma task_outcome_recordable:
  assumes "r = run_computation E c cts (node_is_allowed node)" and "\<not> panics r"
  shows "recordable (task_outcome node r)"
proof (cases r)
  case (Ok v)
  then obtain ct cc where v: "r = Ok (ct, cc)" by (cases v) auto
  with assms(1) run_computation_compressed [of E c cts ct cc]
  have "node_is_allowed node \<Longrightarrow> cc \<noteq> None" by simp
  then show ?thesis unfolding v by (simp add: task_outcome_def recordable_def)
qed (use assms in \<open>auto simp: task_outcome_def recordable_def\<close>)

lemma push_to_consumers_not_Err: "push_to_consumers ct es nodes \<noteq> Err e"
  by (induction ct es nodes rule: push_to_consumers.induct) auto

lemma execute_nodes_recordable:
  "all_recordable res \<Longrightarrow>
   ends_recordable (execute_nodes E out tx ts nodes res)"
proof (induction ts arbitrary: nodes res)
  case (Cons n ts)
  show ?case
  proof (cases "n < length nodes")
    case True
    obtain r node where t: "try_execute_node E (nodes ! n) tx = (r, node)" by fastforce
    note keeps = try_execute_node_keeps [OF t]
    show ?thesis
    proof (cases r)
      case (Inl e)
      with Cons t True show ?thesis by simp
    next
      case (Inr r')
      with keeps obtain cts where r': "r' = run_computation E (opcode node) cts (node_is_allowed node)" by auto
      show ?thesis
      proof (cases r')
        case (Panic p)
        with t Inr True show ?thesis by simp
      next
        case (Err e)
        with Cons.IH [OF all_recordable_upd [OF Cons.prems task_outcome_recordable [OF r']]] t Inr True
        show ?thesis by (simp del: fun_upd_apply)
      next
        case (Ok v)
        obtain ct cc where v: "v = (ct, cc)" by (cases v)
        show ?thesis
        proof (cases "push_to_consumers ct (out n) (nodes[n := node])")
          case (Ok nodes')
          with Cons.IH [OF all_recordable_upd [OF Cons.prems task_outcome_recordable [OF r']]] t Inr True
            \<open>r' = Ok v\<close> v show ?thesis by (simp del: fun_upd_apply)
        next
          case (Err e)
          with push_to_consumers_not_Err [of ct "out n" "nodes[n := node]" e] show ?thesis by simp
        next
          case (Panic p)
          with t Inr True \<open>r' = Ok v\<close> v show ?thesis by simp
        qed
      qed
    qed
  next
    case False
    with Cons show ?thesis by simp
  qed
qed simp

lemma execute_transaction_recordable:
  "all_recordable res \<Longrightarrow>
   ends_recordable (execute_transaction E task res)"
  using execute_nodes_recordable [of res E]
  by (cases task)
    (simp add: execute_transaction_def mark_allowed_recordable split: option.split res.split)

lemma execute_partition_recordable:
  "all_recordable res \<Longrightarrow>
   ends_recordable (execute_partition E tasks res)"
proof (induction tasks arbitrary: res)
  case (Cons task tasks)
  from execute_transaction_recordable [OF Cons.prems, of E task] Cons.IH show ?case
    by (cases "execute_transaction E task res") auto
qed simp

section \<open>The counters\<close>

text \<open>The units a unit waits for.\<close>

definition preds :: "exec_graph \<Rightarrow> nat \<Rightarrow> nat set" where
  "preds eg i = {j. (j, i) \<in> set (exec_edges eg)}"

lemma finite_preds [simp]: "finite (preds eg i)"
proof -
  have "preds eg i \<subseteq> fst ` set (exec_edges eg)" by (force simp: preds_def)
  then show ?thesis by (rule finite_subset) simp
qed

lemma set_exec_out: "i \<in> set (exec_out eg t) \<longleftrightarrow> t \<in> preds eg i"
  by (force simp: exec_out_def preds_def)

text \<open>
  What the scheduler relies on: counters that start at the number of units waited for, edges in
  range that go to later units, and fewer units than a counter can count.
\<close>

definition counted :: "exec_graph \<Rightarrow> bool" where
  "counted eg \<longleftrightarrow>
     length (units eg) < 2 ^ 64 \<and> distinct (exec_edges eg)
   \<and> (\<forall>(j, i) \<in> set (exec_edges eg). j < i \<and> i < length (units eg))
   \<and> (\<forall>i < length (units eg). dependence_counter (exec_nodes eg ! i) = of_nat (card (preds eg i)))"

lemma preds_less: "counted eg \<Longrightarrow> j \<in> preds eg i \<Longrightarrow> j < i \<and> i < length (units eg)"
  by (auto simp: counted_def preds_def)

lemma card_preds:
  assumes "counted eg" and "i < length (units eg)"
  shows "card (preds eg i - A) < 2 ^ 64"
proof -
  have "card (preds eg i - A) \<le> card {..<length (units eg)}"
    using preds_less [OF assms(1)] by (intro card_mono) (auto intro: order_less_trans)
  with assms show ?thesis by (simp add: counted_def)
qed

lemma unat_of_nat_u64: "k < 2 ^ 64 \<Longrightarrow> unat (of_nat k :: u64) = k"
  by (simp add: unat_of_nat)

lemma of_nat_u64: "k < 2 ^ 64 \<Longrightarrow> l < 2 ^ 64 \<Longrightarrow> (of_nat k :: u64) = of_nat l \<longleftrightarrow> k = l"
  by (metis unat_of_nat_u64)

lemma counter_zero: "k < 2 ^ 64 \<Longrightarrow> (of_nat k :: u64) = 0 \<longleftrightarrow> k = 0"
  using of_nat_u64 [of k 0] by simp

lemma counter_one: "k < 2 ^ 64 \<Longrightarrow> (of_nat k :: u64) = 1 \<longleftrightarrow> k = 1"
  using of_nat_u64 [of k 1] by simp

lemma distinct_exec_out: "counted eg \<Longrightarrow> distinct (exec_out eg t)"
  unfolding exec_out_def distinct_map by (auto simp: counted_def inj_on_def)

section \<open>The invariant\<close>

text \<open>
  A unit has been spawned exactly when all the units it waits for have been joined, and its
  counter is the number of those that have not.
\<close>

definition sched_inv :: "exec_graph \<Rightarrow> nat list \<Rightarrow> 'c sched \<Rightarrow> bool" where
  "sched_inv eg js s \<longleftrightarrow>
     distinct (js @ map fst (sc_running s))
   \<and> length (sc_counters s) = length (units eg)
   \<and> (\<forall>i < length (units eg). sc_counters s ! i = of_nat (card (preds eg i - set js)))
   \<and> (\<forall>i. i \<in> set js \<union> set (map fst (sc_running s)) \<longleftrightarrow> i < length (units eg) \<and> preds eg i \<subseteq> set js)"

lemma start_schedule_ok:
  assumes c: "counted eg" and u: "units_in_range eg (length (cg_nodes g))"
  shows "\<exists>s. start_schedule eg g = Ok s \<and> sched_inv eg [] s \<and> same_shape g (sc_graph s)"
proof -
  let ?s = "initial_sched g eg" and ?n = "length (units eg)"
  have n: "length (exec_nodes eg) = ?n" by (simp add: units_def)
  have "units_in_range eg (length (cg_nodes (sc_graph ?s)))" "length (sc_counters ?s) = ?n"
    "\<forall>i \<in> set [0..<?n]. i < ?n" using u by (simp_all add: initial_sched_def n)
  from prime_ok [OF this] obtain s where
    s0: "prime eg [0..<?n] ?s = Ok s" "sc_counters s = sc_counters ?s"
    "map fst (sc_running s) = map fst (sc_running ?s) @ filter (\<lambda>i. sc_counters ?s ! i = 0) [0..<?n]"
    "same_shape (sc_graph ?s) (sc_graph s)" by blast
  then have s: "prime eg [0..<?n] ?s = Ok s" "sc_counters s = sc_counters ?s"
    "map fst (sc_running s) = filter (\<lambda>i. sc_counters ?s ! i = 0) [0..<?n]" "same_shape g (sc_graph s)"
    by (simp_all add: initial_sched_def)
  have cnt: "sc_counters ?s ! i = of_nat (card (preds eg i))" if "i < ?n" for i
    using that c by (simp add: initial_sched_def n counted_def)
  have z: "sc_counters ?s ! i = 0 \<longleftrightarrow> preds eg i = {}" if "i < ?n" for i
    using cnt [OF that] counter_zero [OF card_preds [OF c that, of "{}"]] by simp
  have "sched_inv eg [] s"
    unfolding sched_inv_def s(2,3) using cnt z by (auto simp: initial_sched_def n)
  with s show ?thesis by (auto simp: start_schedule_def n)
qed

lemma release_inv:
  assumes c: "counted eg" and u: "units_in_range eg (length (cg_nodes (sc_graph s)))"
    and inv: "sched_inv eg js s" and t: "sc_running s = us @ (t, args) # vs"
    and shape: "same_shape (sc_graph s) g"
  shows "\<exists>s'. release eg (exec_out eg t) (s\<lparr>sc_running := us @ vs, sc_graph := g\<rparr>) = Ok s'
      \<and> sched_inv eg (js @ [t]) s' \<and> same_shape g (sc_graph s')"
proof -
  let ?s = "s\<lparr>sc_running := us @ vs, sc_graph := g\<rparr>" and ?n = "length (units eg)"
  from inv t have tjs: "t \<notin> set js" and d: "distinct (js @ t # map fst us @ map fst vs)"
    by (auto simp: sched_inv_def)
  have rng: "\<forall>i \<in> set (exec_out eg t). i < ?n" using preds_less [OF c] by (auto simp: set_exec_out)
  from release_ok [OF _ _ rng distinct_exec_out [OF c], of ?s] u inv shape obtain s' where
    s': "release eg (exec_out eg t) ?s = Ok s'" "length (sc_counters s') = ?n"
    "\<forall>i < ?n. sc_counters s' ! i = sc_counters s ! i - (if t \<in> preds eg i then 1 else 0)"
    "map fst (sc_running s') = map fst us @ map fst vs @ filter (\<lambda>i. sc_counters s ! i = 1) (exec_out eg t)"
    "same_shape g (sc_graph s')"
    by (auto simp: sched_inv_def same_shapeD set_exec_out)
  have old: "sc_counters s ! i = of_nat (card (preds eg i - set js))" if "i < ?n" for i
    using inv that by (simp add: sched_inv_def)
  have cnt: "sc_counters s' ! i = of_nat (card (preds eg i - set (js @ [t])))" if "i < ?n" for i
  proof (cases "t \<in> preds eg i")
    case True
    with tjs have m: "t \<in> preds eg i - set js" by simp
    then have "card (preds eg i - set js) = Suc (card (preds eg i - set js - {t}))"
      by (intro card.remove) auto
    moreover have "preds eg i - set js - {t} = preds eg i - set (js @ [t])" by auto
    ultimately show ?thesis using True s'(3) old that by simp
  next
    case False
    then have "preds eg i - set (js @ [t]) = preds eg i - set js" by auto
    with False s'(3) old that show ?thesis by simp
  qed
  have one: "sc_counters s ! i = 1 \<longleftrightarrow> preds eg i \<subseteq> set (js @ [t])" if "t \<in> preds eg i" for i
  proof -
    from that have i: "i < ?n" using preds_less [OF c] by blast
    have "sc_counters s ! i = 1 \<longleftrightarrow> card (preds eg i - set js) = 1"
      using old [OF i] counter_one [OF card_preds [OF c i]] by simp
    also have "\<dots> \<longleftrightarrow> preds eg i - set js = {t}"
      using that tjs by (metis Diff_iff card_1_singletonE is_singletonI is_singleton_altdef singletonD)
    also have "\<dots> \<longleftrightarrow> preds eg i \<subseteq> set (js @ [t])" using that tjs by auto
    finally show ?thesis .
  qed
  have spawned: "i \<in> set js \<union> set (map fst (sc_running s)) \<longleftrightarrow> i < ?n \<and> preds eg i \<subseteq> set js" for i
    using inv unfolding sched_inv_def by blast
  have new: "i \<in> set (filter (\<lambda>i. sc_counters s ! i = 1) (exec_out eg t))
      \<longleftrightarrow> t \<in> preds eg i \<and> preds eg i \<subseteq> set (js @ [t])" for i
    using one by (auto simp: set_exec_out)
  have fresh: "i \<notin> set js \<union> set (map fst (sc_running s))" if "t \<in> preds eg i" for i
    using that tjs spawned by blast
  have "distinct ((js @ [t]) @ map fst (sc_running s'))"
    unfolding s'(4) using d new fresh distinct_exec_out [OF c, of t] t
    by (auto simp del: set_filter set_map)
  moreover have "i \<in> set (js @ [t]) \<union> set (map fst (sc_running s'))
      \<longleftrightarrow> i < ?n \<and> preds eg i \<subseteq> set (js @ [t])" for i
  proof -
    have "i \<in> set (js @ [t]) \<union> set (map fst (sc_running s')) \<longleftrightarrow>
        (i \<in> set js \<union> set (map fst (sc_running s))) \<or> t \<in> preds eg i \<and> preds eg i \<subseteq> set (js @ [t])"
      unfolding s'(4) using new t by (auto simp del: set_filter)
    also have "\<dots> \<longleftrightarrow> i < ?n \<and> preds eg i \<subseteq> set (js @ [t])"
      unfolding spawned using preds_less [OF c] by auto
    finally show ?thesis .
  qed
  ultimately have "sched_inv eg (js @ [t]) s'" using s'(2) cnt by (simp add: sched_inv_def)
  with s' show ?thesis by blast
qed

section \<open>Listings\<close>

lemma listing_exists:
  assumes "finite (dom m)"
  shows "\<exists>kvs. listing m kvs"
proof -
  from finite_distinct_list [OF assms] obtain ks where ks: "set ks = dom m" "distinct ks" by blast
  have "map_of (map (\<lambda>k. (k, the (m k))) ks) = m"
  proof
    fix k show "map_of (map (\<lambda>k. (k, the (m k))) ks) k = m k"
      using ks(1) by (cases "k \<in> set ks") (auto simp: map_of_map_restrict restrict_map_def domIff)
  qed
  with ks have "listing m (map (\<lambda>k. (k, the (m k))) ks)" by (simp add: listing_def comp_def)
  then show ?thesis ..
qed

lemma listing_recordable:
  assumes "all_recordable res" and "listing res rs"
  shows "\<forall>(h, r) \<in> set rs. recordable r"
  using assms by (force simp: all_recordable_def listing_def dest: map_of_is_SomeI)

section \<open>Runs\<close>

text \<open>
  The dataflow graph of the components as the library's queries show it: one node for each
  component, an edge for each edge of the component graph, and a topological sort.
\<close>

definition views :: "gview \<Rightarrow> 'c component_graph \<Rightarrow> bool" where
  "views G g \<longleftrightarrow>
     gview_ok G \<and> toposort G \<noteq> None \<and> node_count G = length (cg_nodes g)
   \<and> (\<forall>u v. edge G u v \<longleftrightarrow> (u, v) \<in> set (cg_edges g))"

lemma views_ranked:
  assumes "views G g"
  shows "\<exists>rank. ranked (out_edges G) (length (cg_nodes g)) rank"
proof -
  from assms obtain ts where ok: "gview_ok G" and ts: "toposort G = Some ts"
    and n: "node_count G = length (cg_nodes g)" by (auto simp: views_def)
  from gview_topo [OF ok ts] have topo: "topo_order G ts" .
  have "v < node_count G \<and> topo_pos ts u < topo_pos ts v" if "v \<in> set (out_edges G u)" for u v
  proof -
    from that have e: "edge G u v" by (simp add: edge_def)
    with ok have v: "v < node_count G" by (simp add: gview_ok_def)
    with topo have "v \<in> set ts" by (simp add: topo_order_def)
    from topo_pos_edge [OF topo e this] v show ?thesis by simp
  qed
  moreover have "topo_pos ts v < node_count G" if "v < node_count G" for v
  proof -
    from topo have len: "length ts = node_count G"
      by (metis card_lessThan distinct_card topo_order_def)
    from that topo have "v \<in> set ts" by (simp add: topo_order_def)
    then obtain us vs where s: "ts = us @ v # vs" by (meson split_list)
    with topo have "v \<notin> set us" by (simp add: topo_order_def)
    from topo_pos_split [OF this, of vs] s len show ?thesis by simp
  qed
  ultimately show ?thesis by (intro exI [of _ "topo_pos ts"]) (simp add: ranked_def n)
qed

lemma strategy_schedule:
  assumes "gview_ok G" and "toposort G \<noteq> None" and "cycle_check_ok wc"
  shows "\<exists>eg. make_execution_graph st wc G = Ok eg \<and> schedule_of G eg"
proof -
  from assms(2) obtain ts where "toposort G = Some ts" by blast
  with parallelism_schedule [OF assms(1) this assms(3)] locality_schedule [OF assms(1) this]
  show ?thesis by (cases st) (auto simp: make_execution_graph_def)
qed

lemma length_le_concat: "[] \<notin> set xss \<Longrightarrow> length xss \<le> length (concat xss)"
proof (induction xss)
  case (Cons xs xss)
  then show ?case by (cases xs) auto
qed simp

lemma schedule_units:
  assumes "schedule_of G eg"
  shows "length (units eg) \<le> node_count G" and "units_in_range eg (node_count G)"
proof -
  from assms have d: "distinct (concat (units eg))" "set (concat (units eg)) = {..<node_count G}"
    "[] \<notin> set (units eg)" unfolding schedule_of_def by blast+
  have "length (concat (units eg)) = node_count G"
    using distinct_card [OF d(1)] d(2) by simp
  with length_le_concat [OF d(3)] show "length (units eg) \<le> node_count G" by simp
  have "x < node_count G" if "p \<in> set (units eg)" "x \<in> set p" for p x
  proof -
    from that have "x \<in> set (concat (units eg))" by auto
    with d(2) show ?thesis by simp
  qed
  then show "units_in_range eg (node_count G)" by (simp add: units_in_range_def)
qed

lemma schedule_counted:
  assumes s: "schedule_of G eg" and n: "node_count G < 2 ^ 64"
  shows "counted eg"
proof -
  have p: "preds eg i = {j. unit_edge G (units eg) j i}" for i
    using s by (auto simp: preds_def schedule_of_def)
  from schedule_units(1) [OF s] n have "length (units eg) < 2 ^ 64" by simp
  then show ?thesis
    using s unfolding counted_def p by (auto simp: schedule_of_def unit_edge_def)
qed

text \<open>
  Everything the runs rely on, for a graph of components and the execution graph made of it.
\<close>

definition schedulable :: "gview \<Rightarrow> exec_graph \<Rightarrow> 'c component_graph \<Rightarrow> nat \<Rightarrow> bool" where
  "schedulable G eg g fuel \<longleftrightarrow>
     component_graph_ok g \<and> views G g \<and> schedule_of G eg
   \<and> length (cg_nodes g) < fuel \<and> length (cg_nodes g) < 2 ^ 64"

lemma schedulableD:
  assumes "schedulable G eg g fuel"
  shows "counted eg" and "units_in_range eg (length (cg_nodes g))"
    and "\<forall>h p. cg_allowed g h = Some p \<longrightarrow> p < length (cg_nodes g)"
    and "\<exists>rank. ranked (out_edges G) (length (cg_nodes g)) rank"
    and "length (cg_nodes g) < fuel" and "node_count G = length (cg_nodes g)"
proof -
  from assms have n: "node_count G = length (cg_nodes g)" and s: "schedule_of G eg"
    by (auto simp: schedulable_def views_def)
  from assms n show "counted eg"
    by (intro schedule_counted [OF s]) (simp add: schedulable_def)
  from schedule_units(2) [OF s] n show "units_in_range eg (length (cg_nodes g))" by simp
  from assms show "\<forall>h p. cg_allowed g h = Some p \<longrightarrow> p < length (cg_nodes g)"
    by (simp add: schedulable_def component_graph_ok_def)
  from assms views_ranked [of G g] show "\<exists>rank. ranked (out_edges G) (length (cg_nodes g)) rank"
    by (simp add: schedulable_def)
  from assms show "length (cg_nodes g) < fuel" by (simp add: schedulable_def)
  from n show "node_count G = length (cg_nodes g)" .
qed

text \<open>Joining a running task whose execution returned.\<close>

lemma join_task_ok:
  assumes g: "schedulable G eg g fuel" and shape: "same_shape g (sc_graph s)"
    and inv: "sched_inv eg js s" and t: "sc_running s = us @ (t, args) # vs"
    and res: "execute_partition E args Map.empty = Ok res" and rs: "listing res rs"
  shows "\<exists>s'. join_task fuel (out_edges G) eg t rs (s\<lparr>sc_running := us @ vs\<rparr>) = Some (Ok s')
      \<and> sched_inv eg (js @ [t]) s' \<and> same_shape g (sc_graph s')"
proof -
  note D = schedulableD [OF g]
  from D(4) obtain rank where rk: "ranked (out_edges G) (length (cg_nodes (sc_graph s))) rank"
    using shape by (auto simp: same_shapeD)
  have "all_recordable (Map.empty :: 'a results)" by (simp add: all_recordable_def)
  from execute_partition_recordable [OF this, of E args] res have "all_recordable res" by simp
  from listing_recordable [OF this rs] have rec: "\<forall>(h, r) \<in> set rs. recordable r" .
  have fuel: "length (cg_nodes (sc_graph s)) < fuel" using D(5) shape by (simp add: same_shapeD)
  have al: "\<forall>h p. cg_allowed (sc_graph s) h = Some p \<longrightarrow> p < length (cg_nodes (sc_graph s))"
    using D(3) shape by (simp add: same_shapeD)
  from add_outputs_ok [OF rk fuel al rec] obtain g' where
    g': "add_outputs fuel (out_edges G) rs (sc_graph s) = Some (Ok g')" "same_shape (sc_graph s) g'" by blast
  have "units_in_range eg (length (cg_nodes (sc_graph s)))" using D(2) shape by (simp add: same_shapeD)
  from release_inv [OF D(1) this inv t g'(2)] obtain s' where
    s': "release eg (exec_out eg t) (s\<lparr>sc_running := us @ vs, sc_graph := g'\<rparr>) = Ok s'"
    "sched_inv eg (js @ [t]) s'" "same_shape g' (sc_graph s')" by blast
  from s' g' show ?thesis
    by (auto simp: join_task_def intro: same_shape_trans [OF shape] same_shape_trans [OF g'(2)])
qed

lemma joins_inv:
  assumes g: "schedulable G eg g fuel" and s0: "start_schedule eg g = Ok s0"
  shows "joins E fuel (out_edges G) eg s0 js s \<Longrightarrow> sched_inv eg js s \<and> same_shape g (sc_graph s)"
proof (induction rule: joins.induct)
  case joins_start
  from start_schedule_ok [OF schedulableD(1,2) [OF g]] s0 show ?case by auto
next
  case (joins_task js s us t args vs res rs s')
  from join_task_ok [OF g _ _ joins_task.hyps(2-4), of js] joins_task show ?case by auto
qed

text \<open>The units joined or running, in order, each after the units it waits for.\<close>

lemma joins_order:
  assumes g: "schedulable G eg g fuel" and s0: "start_schedule eg g = Ok s0"
  shows "joins E fuel (out_edges G) eg s0 js s \<Longrightarrow> js = us @ i # vs \<Longrightarrow> preds eg i \<subseteq> set us"
proof (induction arbitrary: us i vs rule: joins.induct)
  case joins_start
  then show ?case by simp
next
  case (joins_task js s ps t args qs res rs s')
  show ?case
  proof (cases vs rule: rev_cases)
    case Nil
    with joins_task.prems have "us = js" "i = t" by simp_all
    moreover have "t \<in> set (map fst (sc_running s))" using joins_task.hyps(2) by simp
    ultimately show ?thesis using joins_inv [OF g s0 joins_task.hyps(1)] unfolding sched_inv_def by blast
  next
    case (snoc ws w)
    with joins_task.prems have "js = us @ i # ws" by simp
    then show ?thesis by (rule joins_task.IH)
  qed
qed

lemma joins_complete:
  assumes g: "schedulable G eg g fuel" and s0: "start_schedule eg g = Ok s0"
    and run: "joins E fuel (out_edges G) eg s0 js s" and fin: "sc_running s = []"
  shows "set js = {..<length (units eg)}"
proof -
  from joins_inv [OF g s0 run] fin
  have iff: "i \<in> set js \<longleftrightarrow> i < length (units eg) \<and> preds eg i \<subseteq> set js" for i
    by (simp add: sched_inv_def)
  have "i < length (units eg) \<longrightarrow> i \<in> set js" for i
  proof (induction i rule: less_induct)
    case (less i)
    show ?case
    proof
      assume i: "i < length (units eg)"
      have "j \<in> set js" if "j \<in> preds eg i" for j
        using preds_less [OF schedulableD(1) [OF g] that] less i by simp
      with i iff show "i \<in> set js" by blast
    qed
  qed
  with iff show ?thesis by blast
qed

section \<open>The order of the components\<close>

text \<open>The components in the order in which the units \<open>js\<close> execute them.\<close>

definition executed :: "exec_graph \<Rightarrow> nat list \<Rightarrow> nat list" where
  "executed eg js = concat (map (\<lambda>i. units eg ! i) js)"

lemma concat_split:
  "concat (map f js) = us @ v # vs \<Longrightarrow>
     \<exists>js1 j js2 xs ys. js = js1 @ j # js2 \<and> f j = xs @ v # ys \<and> us = concat (map f js1) @ xs"
proof (induction js arbitrary: us)
  case (Cons j js)
  show ?case
  proof (cases "length us < length (f j)")
    case True
    with Cons.prems obtain w where w: "f j = us @ w" "w @ concat (map f js) = v # vs"
      by (auto simp: append_eq_append_conv2)
    with True obtain w' where "w = v # w'" by (cases w) auto
    with w(1) have "f j = us @ v # w'" by simp
    then show ?thesis
      by (intro exI [of _ "[]"] exI [of _ j] exI [of _ js] exI [of _ us] exI [of _ w']) simp
  next
    case False
    with Cons.prems obtain us' where us': "us = f j @ us'"
      by (auto simp: append_eq_append_conv2)
    with Cons.prems have "concat (map f js) = us' @ v # vs" by simp
    from Cons.IH [OF this] obtain js1 k js2 xs ys where
      "js = js1 @ k # js2" "f k = xs @ v # ys" "us' = concat (map f js1) @ xs" by blast
    with us' show ?thesis by (intro exI [of _ "j # js1"]) auto
  qed
qed simp

definition in_order :: "gview \<Rightarrow> nat list \<Rightarrow> bool" where
  "in_order G xs \<longleftrightarrow>
     distinct xs \<and> (\<forall>us v vs u. xs = us @ v # vs \<longrightarrow> edge G u v \<longrightarrow> u \<in> set us)"

lemma executed_distinct:
  assumes "schedule_of G eg" and "distinct js" and "set js \<subseteq> {..<length (units eg)}"
  shows "distinct (executed eg js)"
  using assms(2,3)
proof (induction js)
  case (Cons x xs)
  from assms(1) have dc: "distinct (concat (units eg))" by (simp add: schedule_of_def)
  have "y \<notin> set (units eg ! x)" if "y \<in> set (executed eg xs)" for y
  proof
    assume y: "y \<in> set (units eg ! x)"
    from that obtain x' where x': "x' \<in> set xs" "y \<in> set (units eg ! x')" by (auto simp: executed_def)
    with y Cons.prems unit_unique [OF dc, of x x' y] show False by auto
  qed
  moreover have "distinct (units eg ! x)" using dc Cons.prems by (simp add: distinct_concat_iff)
  ultimately show ?case using Cons by (auto simp: executed_def)
qed (simp add: executed_def)

lemma executed_order:
  assumes s: "schedule_of G eg" and ok: "gview_ok G" and d: "distinct js"
    and rng: "set js \<subseteq> {..<length (units eg)}"
    and ord: "\<And>us i vs. js = us @ i # vs \<Longrightarrow> preds eg i \<subseteq> set us"
  shows "in_order G (executed eg js)"
proof -
  from s have all: "set (concat (units eg)) = {..<node_count G}"
    and inside: "\<forall>p \<in> set (units eg). \<forall>xs v ys u. p = xs @ v # ys \<longrightarrow> edge G u v \<longrightarrow> u \<in> set p \<longrightarrow> u \<in> set xs"
    and es: "set (exec_edges eg) = {(i, j). unit_edge G (units eg) i j}"
    unfolding schedule_of_def by blast+
  have "u \<in> set us" if split: "executed eg js = us @ v # vs" and e: "edge G u v" for us v vs u
  proof -
    from concat_split [OF split [unfolded executed_def]] obtain js1 j js2 xs ys where
      j: "js = js1 @ j # js2" "units eg ! j = xs @ v # ys" "us = executed eg js1 @ xs"
      by (auto simp: executed_def)
    from j(1) rng have jr: "j < length (units eg)" by auto
    from e ok all have "u \<in> set (concat (units eg))" by (simp add: gview_ok_def)
    then obtain i where i: "i < length (units eg)" "u \<in> set (units eg ! i)"
      unfolding in_set_concat_nth by blast
    show ?thesis
    proof (cases "i = j")
      case True
      from jr have "units eg ! j \<in> set (units eg)" by simp
      with inside j(2) e i(2) True have "u \<in> set xs" by blast
      with j(3) show ?thesis by simp
    next
      case False
      with i jr j(2) e have "unit_edge G (units eg) i j" by (auto simp: unit_edge_def)
      then have "i \<in> preds eg j" using es by (simp add: preds_def)
      with ord [OF j(1)] i(2) j(3) show ?thesis by (auto simp: executed_def)
    qed
  qed
  with executed_distinct [OF s d rng] show ?thesis by (auto simp: in_order_def)
qed

lemma schedulable_intro:
  assumes "component_graph_ok g" and "views G g" and "cycle_check_ok wc"
    and "make_execution_graph st wc G = Ok eg"
    and "length (cg_nodes g) < fuel" and "length (cg_nodes g) < 2 ^ 64"
  shows "schedulable G eg g fuel"
  using assms strategy_schedule [of G wc st] by (auto simp: schedulable_def views_def)

section \<open>Properties\<close>


text \<open>
  C7. The scheduling loop ends, and never because of the graph: a schedule of a consistent graph
  starts; there are at most as many joins as units; as long as a task runs, its join is possible
  whatever the other tasks do, unless its execution panics; and a panic is the only failure.
\<close>

theorem schedule_progress:
  assumes g: "component_graph_ok g" "views G g" and wc: "cycle_check_ok wc"
    and eg: "make_execution_graph st wc G = Ok eg"
    and bnd: "length (cg_nodes g) < fuel" "length (cg_nodes g) < 2 ^ 64"
  shows "\<exists>s0. start_schedule eg g = Ok s0
    \<and> (\<forall>js s. joins E fuel (out_edges G) eg s0 js s \<longrightarrow>
          length js + length (sc_running s) \<le> length (units eg)
        \<and> (\<forall>(t, args) \<in> set (sc_running s).
             (\<exists>p. execute_partition E args Map.empty = Panic p)
             \<or> (\<exists>s'. joins E fuel (out_edges G) eg s0 (js @ [t]) s'))
        \<and> (\<forall>e. join_fails E fuel (out_edges G) eg s e \<longrightarrow>
             (\<exists>p. e = JoinFailure p
                \<and> (\<exists>(t, args) \<in> set (sc_running s). execute_partition E args Map.empty = Panic p))))"
proof -
  note sg = schedulable_intro [OF g wc eg bnd]
  from start_schedule_ok [OF schedulableD(1,2) [OF sg]] obtain s0 where
    s0: "start_schedule eg g = Ok s0" by blast
  have "length js + length (sc_running s) \<le> length (units eg)"
    if run: "joins E fuel (out_edges G) eg s0 js s" for js s
  proof -
    from joins_inv [OF sg s0 run] have d: "distinct (js @ map fst (sc_running s))"
      and r: "set (js @ map fst (sc_running s)) \<subseteq> {..<length (units eg)}"
      by (auto simp: sched_inv_def)
    from card_mono [OF _ r] distinct_card [OF d] show ?thesis by simp
  qed
  moreover have "(\<exists>p. execute_partition E args Map.empty = Panic p)
      \<or> (\<exists>s'. joins E fuel (out_edges G) eg s0 (js @ [t]) s')"
    if run: "joins E fuel (out_edges G) eg s0 js s" and t: "(t, args) \<in> set (sc_running s)" for js s t args
  proof -
    from t obtain us vs where u: "sc_running s = us @ (t, args) # vs" by (meson split_list)
    have "all_recordable (Map.empty :: 'a results)" by (simp add: all_recordable_def)
    note rec = execute_partition_recordable [OF this, of E args]
    show ?thesis
    proof (cases "execute_partition E args Map.empty")
      case (Ok res)
      with rec have "finite (dom res)" by (simp add: all_recordable_def)
      from listing_exists [OF this] obtain rs where rs: "listing res rs" ..
      from join_task_ok [OF sg _ _ u Ok rs, of js] joins_inv [OF sg s0 run] obtain s' where
        "join_task fuel (out_edges G) eg t rs (s\<lparr>sc_running := us @ vs\<rparr>) = Some (Ok s')" by auto
      from joins_task [OF run u Ok rs this] show ?thesis by blast
    qed (use rec in auto)
  qed
  moreover have "\<exists>p. e = JoinFailure p
      \<and> (\<exists>(t, args) \<in> set (sc_running s). execute_partition E args Map.empty = Panic p)"
    if run: "joins E fuel (out_edges G) eg s0 js s" and f: "join_fails E fuel (out_edges G) eg s e" for js s e
    using f
  proof cases
    case (fails_panic t args p)
    then show ?thesis by blast
  next
    case (fails_graph us t args vs res rs)
    with join_task_ok [OF sg _ _ fails_graph(1-3), of js] joins_inv [OF sg s0 run] show ?thesis by auto
  qed
  ultimately show ?thesis using s0 by blast
qed

section \<open>Witnesses\<close>

text \<open>The two components of the sample graph, in one unit.\<close>

definition sample_view :: gview where
  "sample_view = list_gview 2 [(0, 1)]"

definition sample_exec :: exec_graph where
  "sample_exec = \<lparr> exec_nodes = [\<lparr> df_nodes = [0, 1], dependence_counter = 0 \<rparr>], exec_edges = [] \<rparr>"

lemma sample_graph_ok: "component_graph_ok sample_graph"
proof -
  have "build_graph path_check [sample_component 2 3, sample_component 1 2] = Ok sample_graph"
    by (simp add: build_graph_def sample_component_def insert_results_def note_need_def path_check_def
        sample_graph_def fun_upd_twist)
  from build_graph_ok [OF this] show ?thesis by simp
qed

lemma sample_views: "views sample_view sample_graph"
proof -
  have "gview_ok sample_view" unfolding sample_view_def by (rule list_gview_ok) (simp_all add: forward_def)
  moreover have "edge sample_view u v \<longleftrightarrow> (u, v) \<in> set (cg_edges sample_graph)" for u v
    by (simp add: sample_view_def list_gview_edge sample_graph_def)
  moreover have "toposort sample_view \<noteq> None" "node_count sample_view = length (cg_nodes sample_graph)"
    by (simp_all add: sample_view_def list_gview_def sample_graph_def)
  ultimately show ?thesis by (simp add: views_def)
qed

lemma sample_exec_ok: "make_execution_graph MaxLocality path_check sample_view = Ok sample_exec"
proof -
  have "partition_components sample_view = Ok sample_exec" by code_simp
  then show ?thesis by (simp add: make_execution_graph_def)
qed

definition sample_tasks :: "nat component_task list" where
  "sample_tasks = [(sample_dfg, [([1], None)], [0], 0), (sample_dfg, [([2], None)], [0], 0)]"

lemma sample_start:
  "\<exists>s. start_schedule sample_exec sample_graph = Ok s
     \<and> sc_running s = [(0, sample_tasks)]"
  by (simp add: start_schedule_def sample_exec_def initial_sched_def start_task_def sample_graph_def
      sample_component_def sample_tasks_def)

lemma sample_run:
  "\<exists>res. execute_partition E sample_tasks
      Map.empty = Ok res"
  by (simp add: execute_transaction_def mark_allowed_def sample_dfg_def sample_tasks_def)


lemma sched_inv_last:
  assumes inv: "sched_inv eg ([] @ [0]) s" and n: "length (units eg) = 1"
  shows "set (map fst (sc_running s)) = {}"
proof -
  let ?R = "set (map fst (sc_running s))"
  from inv have d: "distinct ([0] @ map fst (sc_running s))"
    and iff: "\<And>i. i \<in> set ([] @ [0]) \<union> ?R \<longleftrightarrow> i < length (units eg) \<and> preds eg i \<subseteq> set ([] @ [0])"
    unfolding sched_inv_def by simp_all
  have "i = 0" if "i \<in> ?R" for i using iff [of i] that n by simp
  moreover have "0 \<notin> ?R" using d by simp
  ultimately show ?thesis by (metis equals0I)
qed


lemma schedule_progress_witness:
  "\<exists>s0. start_schedule sample_exec sample_graph = Ok s0
    \<and> (\<forall>js s. joins clear_engine 3 (out_edges sample_view) sample_exec s0 js s \<longrightarrow>
          length js + length (sc_running s) \<le> 1)"
proof -
  have bnd: "length (cg_nodes sample_graph) < 3" "length (cg_nodes sample_graph) < 2 ^ 64"
    and n: "length (units sample_exec) = 1"
    by (simp_all add: sample_graph_def units_def sample_exec_def)
  from schedule_progress [OF sample_graph_ok sample_views path_check_ok sample_exec_ok bnd,
      of clear_engine, unfolded n]
  show ?thesis by blast
qed

end
