(* ===== verification/ComponentBuild.thy ===== *)
theory ComponentBuild
  imports ComponentGraph "HOL-Library.List_Lexorder"
begin

text \<open>
  From the operations of a transaction to its components (\<open>build_component_nodes\<close>, \<open>finalize\<close>,
  \<open>is_needed\<close> and \<open>ComponentNode::build\<close> in \<open>scheduler/src/dfg.rs\<close>): the graph of the operations,
  the pruning of what no allowed result needs, the partition, and a component for each unit.
\<close>

section \<open>Data\<close>

text \<open>\<open>DFGOp\<close>, with its default.\<close>

record 'c dfg_op =
  output_handle :: handle
  fhe_operation :: fhe_op
  dfg_inputs :: "'c task_input list"
  dfg_is_allowed :: bool

definition default_op :: "'c dfg_op" where
  "default_op =
     \<lparr> output_handle = [], fhe_operation = FheTrivialEncrypt, dfg_inputs = [], dfg_is_allowed = False \<rparr>"

text \<open>
  The graph library (the crates \<open>daggy\<close> and \<open>petgraph\<close>) keeps the weights of the nodes by index and
  a list of edges. What the code asks of it beyond adding to these lists is a parameter: whether an
  edge would close a cycle, the removal of a node, the outgoing edges of a node, a topological
  sort, and the queries the partition uses. \<open>dl_order\<close> is the order in which the standard library
  iterates the keys of a \<open>HashMap\<close>.
\<close>

type_synonym op_edge = "nat \<times> nat \<times> u8"

record op_dag =
  od_nodes :: "(bool \<times> nat) list"
  od_edges :: "op_edge list"

record dag_lib =
  dl_would_cycle :: cycle_check
  dl_remove_node :: "op_dag \<Rightarrow> nat \<Rightarrow> op_dag"
  dl_out :: "op_edge list \<Rightarrow> nat \<Rightarrow> (nat \<times> u8) list"
  dl_topo :: "nat \<Rightarrow> op_edge list \<Rightarrow> nat list option"
  dl_view :: "op_dag \<Rightarrow> gview"
  dl_order :: "handle list \<Rightarrow> handle list"

section \<open>Pruning\<close>

text \<open>
  \<open>is_needed\<close> and its loop over the outgoing edges, bounded by fuel; on a graph without cycles as
  much fuel as there are nodes is enough.
\<close>

function is_needed :: "nat \<Rightarrow> dag_lib \<Rightarrow> op_dag \<Rightarrow> nat \<Rightarrow> bool option"
and any_needed :: "nat \<Rightarrow> dag_lib \<Rightarrow> op_dag \<Rightarrow> nat list \<Rightarrow> bool option"
where
  "is_needed 0 L g index = None"
| "is_needed (Suc k) L g index =
     (if index < length (od_nodes g) then
        (if fst (od_nodes g ! index) then Some True
         else any_needed k L g (map fst (dl_out L (od_edges g) index)))
      else Some False)"
| "any_needed k L g [] = Some False"
| "any_needed k L g (target # ts) =
     (case is_needed k L g target of
        Some True \<Rightarrow> Some True
      | Some False \<Rightarrow> any_needed k L g ts
      | None \<Rightarrow> None)"
  by pat_completeness auto

termination
  by (relation "measures [\<lambda>x. case x of Inl (k, _) \<Rightarrow> k | Inr (k, _) \<Rightarrow> k,
        \<lambda>x. case x of Inl _ \<Rightarrow> 0 | Inr (_, _, _, ts) \<Rightarrow> Suc (length ts)]") auto

text \<open>The first loop of \<open>finalize\<close>, over the indexes in reverse.\<close>

fun mark_needed :: "nat \<Rightarrow> dag_lib \<Rightarrow> nat list \<Rightarrow> op_dag \<Rightarrow> op_dag option" where
  "mark_needed k L [] g = Some g"
| "mark_needed k L (index # is) g =
     (case is_needed k L g index of
        None \<Rightarrow> None
      | Some True \<Rightarrow>
          mark_needed k L is
            (g\<lparr>od_nodes := (od_nodes g)[index := (True, snd (od_nodes g ! index))]\<rparr>)
      | Some False \<Rightarrow> mark_needed k L is g)"

definition unneeded_nodes :: "op_dag \<Rightarrow> nat list" where
  "unneeded_nodes g = sort (filter (\<lambda>index. \<not> fst (od_nodes g ! index)) [0..<length (od_nodes g)])"

text \<open>The last loop: the nodes are removed from the largest index down.\<close>

fun remove_nodes :: "dag_lib \<Rightarrow> nat list \<Rightarrow> op_dag \<Rightarrow> op_dag" where
  "remove_nodes L [] g = g"
| "remove_nodes L (index # is) g =
     remove_nodes L is
       (if index < length (od_nodes g) \<and> \<not> fst (od_nodes g ! index) then dl_remove_node L g index else g)"

definition finalize :: "nat \<Rightarrow> dag_lib \<Rightarrow> op_dag \<Rightarrow> (nat list \<times> op_dag) option" where
  "finalize k L g =
     map_option (\<lambda>g'. let unneeded = unneeded_nodes g' in (unneeded, remove_nodes L (rev unneeded) g'))
       (mark_needed k L (rev [0..<length (od_nodes g)]) g)"

section \<open>Dependences\<close>

text \<open>\<open>produced_handles\<close>: the index of the last operation with a handle.\<close>

fun produced_map :: "nat \<Rightarrow> 'c dfg_op list \<Rightarrow> (handle \<rightharpoonup> nat) \<Rightarrow> (handle \<rightharpoonup> nat)" where
  "produced_map index [] m = m"
| "produced_map index (op # ops) m = produced_map (Suc index) ops (m(output_handle op \<mapsto> index))"

text \<open>
  The dependences of one operation on others of the list, with the position of the input; and the
  handles it needs that are not produced there, in the order they are met.
\<close>

fun dependence_pairs ::
  "(handle \<rightharpoonup> nat) \<Rightarrow> nat \<Rightarrow> nat \<Rightarrow> 'c task_input list \<Rightarrow> (nat \<times> nat \<times> nat) list" where
  "dependence_pairs m index pos [] = []"
| "dependence_pairs m index pos (i # is) =
     (case i of
        TaskDependence dh \<Rightarrow>
          (case m dh of
             Some producer \<Rightarrow> (producer, index, pos) # dependence_pairs m index (Suc pos) is
           | None \<Rightarrow> dependence_pairs m index (Suc pos) is)
      | _ \<Rightarrow> dependence_pairs m index (Suc pos) is)"

fun all_pairs :: "(handle \<rightharpoonup> nat) \<Rightarrow> nat \<Rightarrow> 'c dfg_op list \<Rightarrow> (nat \<times> nat \<times> nat) list" where
  "all_pairs m index [] = []"
| "all_pairs m index (op # ops) = dependence_pairs m index 0 (dfg_inputs op) @ all_pairs m (Suc index) ops"

fun missing_handles :: "(handle \<rightharpoonup> nat) \<Rightarrow> 'c task_input list \<Rightarrow> handle list \<Rightarrow> handle list" where
  "missing_handles m [] keys = keys"
| "missing_handles m (i # is) keys =
     missing_handles m is
       (case i of
          TaskDependence dh \<Rightarrow> if m dh = None \<and> dh \<notin> set keys then keys @ [dh] else keys
        | _ \<Rightarrow> keys)"

text \<open>Adding the edges; the position of the input is cut to a byte.\<close>

fun add_pairs ::
  "cycle_check \<Rightarrow> (nat \<times> nat \<times> nat) list \<Rightarrow> op_edge list \<Rightarrow> (scheduler_error, op_edge list) res" where
  "add_pairs would_cycle [] es = Ok es"
| "add_pairs would_cycle ((source, destination, pos) # ps) es =
     (if would_cycle (map (\<lambda>(a, b, _). (a, b)) es) (source, destination) then Err CyclicDependence
      else add_pairs would_cycle ps (es @ [(source, destination, of_nat pos)]))"

section \<open>Building a component\<close>

definition op_node_of :: "'c dfg_op \<Rightarrow> 'c op_node" where
  "op_node_of op =
     \<lparr> opcode = i16_as_i32 (op_to_i16 (fhe_operation op)), result_handle = output_handle op,
       op_inputs = dfg_inputs op, node_is_allowed = dfg_is_allowed op \<rparr>"

definition build_component ::
  "dag_lib \<Rightarrow> 'c dfg_op list \<Rightarrow> handle \<Rightarrow> nat \<Rightarrow> (scheduler_error, 'c component) res" where
  "build_component L operations tid cid =
     (let produced = produced_map 0 operations Map.empty;
          keys = missing_handles produced (concat (map dfg_inputs operations)) []
      in bind_res (add_pairs (dl_would_cycle L) (all_pairs produced 0 operations) []) (\<lambda>es.
           Ok \<lparr> c_graph = \<lparr> dg_nodes = map op_node_of operations, dg_out = dl_out L es,
                             dg_topo = dl_topo L (length operations) es \<rparr>,
                c_inputs = map (\<lambda>h. (h, None)) (dl_order L keys),
                c_results = map output_handle operations,
                c_transaction_id = tid, c_is_uncomputable = False, c_component_id = cid \<rparr>))"

section \<open>Building the components of a transaction\<close>

text \<open>The operations of a unit are taken out of the list.\<close>

fun take_operations ::
  "(bool \<times> nat) list \<Rightarrow> nat list \<Rightarrow> 'c dfg_op list
     \<Rightarrow> (scheduler_error, 'c dfg_op list \<times> 'c dfg_op list) res" where
  "take_operations nodes [] operations = Ok ([], operations)"
| "take_operations nodes (i # is) operations =
     (if i < length nodes then
        (let k = snd (nodes ! i) in
         if k < length operations then
           bind_res (take_operations nodes is (operations[k := default_op])) (\<lambda>(ops, operations').
             Ok (operations ! k # ops, operations'))
         else Panic IndexOutOfBounds)
      else Err DataflowGraphError)"

fun build_units ::
  "dag_lib \<Rightarrow> handle \<Rightarrow> (bool \<times> nat) list \<Rightarrow> nat \<Rightarrow> exec_node list \<Rightarrow> 'c dfg_op list
     \<Rightarrow> (scheduler_error, 'c component list) res" where
  "build_units L tid nodes idx [] operations = Ok []"
| "build_units L tid nodes idx (ex # exs) operations =
     bind_res (take_operations nodes (df_nodes ex) operations) (\<lambda>(component_ops, operations').
     bind_res (build_component L component_ops tid idx) (\<lambda>component.
     bind_res (build_units L tid nodes (Suc idx) exs operations') (\<lambda>components.
       Ok (component # components))))"

definition operation_dag ::
  "dag_lib \<Rightarrow> 'c dfg_op list \<Rightarrow> (scheduler_error, op_dag) res" where
  "operation_dag L operations =
     bind_res (add_pairs (dl_would_cycle L) (all_pairs (produced_map 0 operations Map.empty) 0 operations) [])
       (\<lambda>es. Ok \<lparr> od_nodes = map (\<lambda>(index, op). (dfg_is_allowed op, index)) (enumerate 0 operations),
                  od_edges = es \<rparr>)"

text \<open>\<open>None\<close>: the fuel of \<open>is_needed\<close>.\<close>

definition build_component_nodes ::
  "nat \<Rightarrow> dag_lib \<Rightarrow> 'c dfg_op list \<Rightarrow> handle
     \<Rightarrow> (scheduler_error, 'c component list \<times> (handle \<times> handle) list) res option" where
  "build_component_nodes k L ops tid =
     (let operations = sort_key output_handle ops in
      case operation_dag L operations of
        Ok g \<Rightarrow>
          (case finalize k L g of
             None \<Rightarrow> None
           | Some (indexes, g') \<Rightarrow>
               (let unneeded = map (\<lambda>i. (output_handle (operations ! i), tid)) indexes in
                Some (bind_res (partition_preserving_parallelism (dl_would_cycle L) (dl_view L g')) (\<lambda>eg.
                  bind_res (build_units L tid (od_nodes g') 0 (exec_nodes eg) operations) (\<lambda>components.
                    Ok (components, unneeded))))))
      | Err e \<Rightarrow> Some (Err e)
      | Panic p \<Rightarrow> Some (Panic p))"

end
