(* ===== verification/ComponentBuildCorrect.thy ===== *)
theory ComponentBuildCorrect
  imports ComponentBuild ComponentGraphCorrect
begin

text \<open>
  The components of a transaction: pruning removes exactly the operations no allowed result needs,
  every other operation ends up in one component, and a component is the well-formed dataflow graph
  the execution relies on.
\<close>

section \<open>The graph library\<close>

text \<open>
  The queries: the edges as pairs, the outgoing edges of a node, a topological sort where there is
  one, the queries of the partition; removing a node gives its index to the last node and drops its
  edges; the iteration of a map gives each key once.
\<close>

definition op_edges :: "op_edge list \<Rightarrow> (nat \<times> nat) set" where
  "op_edges es = {(u, v). \<exists>w. (u, v, w) \<in> set es}"

definition dag_ok :: "op_dag \<Rightarrow> bool" where
  "dag_ok g \<longleftrightarrow>
     (\<forall>(u, v) \<in> op_edges (od_edges g). u < length (od_nodes g) \<and> v < length (od_nodes g))
   \<and> distinct (map snd (od_nodes g))"

definition queries_ok :: "dag_lib \<Rightarrow> bool" where
  "queries_ok L \<longleftrightarrow>
     cycle_check_ok (dl_would_cycle L)
   \<and> (\<forall>es u. set (dl_out L es u) = {(v, w). (u, v, w) \<in> set es})
   \<and> (\<forall>n es ts. dl_topo L n es = Some ts \<longrightarrow>
        distinct ts \<and> set ts = {..<n}
        \<and> (\<forall>us v vs u. ts = us @ v # vs \<longrightarrow> (u, v) \<in> op_edges es \<longrightarrow> u \<in> set us))
   \<and> (\<forall>hs. distinct hs \<longrightarrow> distinct (dl_order L hs) \<and> set (dl_order L hs) = set hs)"

definition moved :: "op_dag \<Rightarrow> nat \<Rightarrow> nat \<Rightarrow> nat" where
  "moved g i x = (if x = length (od_nodes g) - 1 then i else x)"

definition removal_ok :: "dag_lib \<Rightarrow> bool" where
  "removal_ok L \<longleftrightarrow>
     (\<forall>g i. i < length (od_nodes g) \<longrightarrow>
        od_nodes (dl_remove_node L g i) = butlast ((od_nodes g)[i := last (od_nodes g)])
      \<and> set (od_edges (dl_remove_node L g i))
          = {(moved g i u, moved g i v, w) |u v w. (u, v, w) \<in> set (od_edges g) \<and> u \<noteq> i \<and> v \<noteq> i})"

definition view_ok :: "dag_lib \<Rightarrow> bool" where
  "view_ok L \<longleftrightarrow>
     (\<forall>g. dag_ok g \<longrightarrow> gview_ok (dl_view L g) \<and> node_count (dl_view L g) = length (od_nodes g)
        \<and> (\<forall>u v. edge (dl_view L g) u v \<longleftrightarrow> (u, v) \<in> op_edges (od_edges g)))"

section \<open>Dependences\<close>

lemma produced_map_iff:
  "distinct (map output_handle ops) \<Longrightarrow>
     produced_map k ops m h = Some p \<longleftrightarrow>
       (\<exists>j < length ops. output_handle (ops ! j) = h \<and> p = k + j)
       \<or> h \<notin> output_handle ` set ops \<and> m h = Some p"
proof (induction ops arbitrary: k m)
  case (Cons op ops)
  then have d: "output_handle op \<notin> output_handle ` set ops" by simp
  have shift: "(\<exists>j < length (op # ops). P j) \<longleftrightarrow> P 0 \<or> (\<exists>j < length ops. P (Suc j))" for P
    by (simp add: Ex_less_Suc2)
  from Cons show ?case unfolding shift using d by (auto simp: image_iff)
qed simp

lemma produced_map_None:
  assumes "distinct (map output_handle ops)"
  shows "produced_map k ops Map.empty h = None \<longleftrightarrow> h \<notin> output_handle ` set ops"
proof -
  have "h \<in> output_handle ` set ops \<longleftrightarrow> (\<exists>j < length ops. output_handle (ops ! j) = h)"
    by (metis image_iff in_set_conv_nth)
  then show ?thesis
    using produced_map_iff [OF assms, of k Map.empty h] by (cases "produced_map k ops Map.empty h") auto
qed

lemma dependence_pairs_iff:
  "(p, j, q) \<in> set (dependence_pairs m index pos is) \<longleftrightarrow>
     j = index \<and> (\<exists>r h. r < length is \<and> is ! r = TaskDependence h \<and> m h = Some p \<and> q = pos + r)"
proof (induction "is" arbitrary: pos)
  case (Cons i "is")
  have shift: "(\<exists>r h. r < length (i # is) \<and> Q r h) \<longleftrightarrow> (\<exists>h. Q 0 h) \<or> (\<exists>r h. r < length is \<and> Q (Suc r) h)" for Q
    by (auto simp: less_Suc_eq_0_disj)
  show ?case unfolding shift by (auto simp: Cons.IH split: task_input.split option.split)
qed simp

lemma all_pairs_iff:
  "(p, j, q) \<in> set (all_pairs m k ops) \<longleftrightarrow>
     (\<exists>r h. r < length ops \<and> j = k + r \<and> q < length (dfg_inputs (ops ! r))
        \<and> dfg_inputs (ops ! r) ! q = TaskDependence h \<and> m h = Some p)"
proof (induction ops arbitrary: k)
  case (Cons op ops)
  have shift: "(\<exists>r h. r < length (op # ops) \<and> Q r h) \<longleftrightarrow> (\<exists>h. Q 0 h) \<or> (\<exists>r h. r < length ops \<and> Q (Suc r) h)" for Q
    by (auto simp: less_Suc_eq_0_disj)
  show ?case unfolding shift by (auto simp: Cons.IH dependence_pairs_iff)
qed simp

lemma add_pairs_Ok:
  "add_pairs wc ps es = Ok es' \<Longrightarrow> es' = es @ map (\<lambda>(a, b, p). (a, b, of_nat p)) ps"
  by (induction wc ps es rule: add_pairs.induct) (auto split: if_splits)

lemma missing_handles_set:
  "set (missing_handles m is keys) = set keys \<union> {h. TaskDependence h \<in> set is \<and> m h = None}"
  by (induction "is" arbitrary: keys) (auto split: task_input.split)

lemma missing_handles_distinct: "distinct keys \<Longrightarrow> distinct (missing_handles m is keys)"
  by (induction "is" arbitrary: keys) (auto split: task_input.split)

section \<open>A component\<close>

lemma op_node_of_simps [simp]:
  "result_handle (op_node_of op) = output_handle op" "op_inputs (op_node_of op) = dfg_inputs op"
  "node_is_allowed (op_node_of op) = dfg_is_allowed op"
  by (simp_all add: op_node_of_def)

text \<open>Handles differ, and an operation has at most as many inputs as a byte can count.\<close>

definition ops_ok :: "'c dfg_op list \<Rightarrow> bool" where
  "ops_ok ops \<longleftrightarrow>
     distinct (map output_handle ops) \<and> (\<forall>op \<in> set ops. length (dfg_inputs op) \<le> 256)"

lemma build_component_dfg:
  assumes lib: "queries_ok L" and ops: "ops_ok ops" and b: "build_component L ops tid cid = Ok c"
  shows "dfg_ok (c_graph c)"
proof -
  let ?m = "produced_map 0 ops Map.empty" and ?n = "length ops"
  from ops have d: "distinct (map output_handle ops)" by (simp add: ops_ok_def)
  from b obtain es where es: "add_pairs (dl_would_cycle L) (all_pairs ?m 0 ops) [] = Ok es"
    and D: "c_graph c = \<lparr> dg_nodes = map op_node_of ops, dg_out = dl_out L es, dg_topo = dl_topo L ?n es \<rparr>"
    by (auto simp: build_component_def Let_def bind_res_eq_Ok)
  have m: "?m h = Some u \<longleftrightarrow> u < ?n \<and> output_handle (ops ! u) = h" for h u
    using produced_map_iff [OF d, of 0 Map.empty h u] by auto
  have es': "(u, v, w) \<in> set es \<longleftrightarrow> (\<exists>q. w = of_nat q \<and> v < ?n \<and> u < ?n
      \<and> q < length (dfg_inputs (ops ! v)) \<and> dfg_inputs (ops ! v) ! q = TaskDependence (output_handle (ops ! u)))"
    for u v w
    using add_pairs_Ok [OF es] by (auto simp: image_iff all_pairs_iff m Bex_def)
  have out: "set (dl_out L es u) = {(v, w). (u, v, w) \<in> set es}" for u
    using lib by (simp add: queries_ok_def)
  have small: "unat (of_nat q :: u8) = q" if "v < ?n" "q < length (dfg_inputs (ops ! v))" for v q
  proof -
    from ops that(1) have "length (dfg_inputs (ops ! v)) \<le> 256" by (simp add: ops_ok_def)
    with that(2) show ?thesis by (simp add: unat_of_nat)
  qed
  have "(\<exists>w. (v, w) \<in> set (dl_out L es u) \<and> unat w = p) \<longleftrightarrow>
      v < ?n \<and> p < length (dfg_inputs (ops ! v))
      \<and> dfg_inputs (ops ! v) ! p = TaskDependence (output_handle (ops ! u))" if "u < ?n" for u v p
    unfolding out using that small by (auto simp: es')
  moreover have "distinct ts \<and> set ts = {..<?n}
      \<and> (\<forall>us v vs u w. ts = us @ v # vs \<longrightarrow> u < ?n \<longrightarrow> (v, w) \<in> set (dl_out L es u) \<longrightarrow> u \<in> set us)"
    if "dl_topo L ?n es = Some ts" for ts
  proof -
    from lib that have "distinct ts" "set ts = {..<?n}"
      and o: "\<And>us v vs u. ts = us @ v # vs \<Longrightarrow> (u, v) \<in> op_edges es \<Longrightarrow> u \<in> set us"
      unfolding queries_ok_def by blast+
    then show ?thesis by (auto simp: out op_edges_def)
  qed
  ultimately show ?thesis
    unfolding dfg_ok_def D using d by (simp add: comp_def cong: conj_cong)
qed

lemma build_component_data:
  assumes lib: "queries_ok L" and ops: "ops_ok ops" and b: "build_component L ops tid cid = Ok c"
  shows "c_results c = map output_handle ops" and "dg_nodes (c_graph c) = map op_node_of ops"
    and "distinct (map fst (c_inputs c))"
    and "(h, i) \<in> set (c_inputs c) \<longleftrightarrow> i = None \<and> h \<notin> output_handle ` set ops
           \<and> (\<exists>op \<in> set ops. TaskDependence h \<in> set (dfg_inputs op))"
    and "c_transaction_id c = tid" and "c_component_id c = cid" and "\<not> c_is_uncomputable c"
proof -
  from ops have d: "distinct (map output_handle ops)" by (simp add: ops_ok_def)
  let ?keys = "missing_handles (produced_map 0 ops Map.empty) (concat (map dfg_inputs ops)) []"
  from b have c: "c_inputs c = map (\<lambda>h. (h, None)) (dl_order L ?keys)"
    by (auto simp: build_component_def Let_def bind_res_eq_Ok)
  from b show "c_results c = map output_handle ops" "dg_nodes (c_graph c) = map op_node_of ops"
    "c_transaction_id c = tid" "c_component_id c = cid" "\<not> c_is_uncomputable c"
    by (auto simp: build_component_def Let_def bind_res_eq_Ok)
  have "distinct ?keys" by (simp add: missing_handles_distinct)
  with lib have k: "distinct (dl_order L ?keys)" "set (dl_order L ?keys) = set ?keys"
    by (simp_all add: queries_ok_def)
  then show "distinct (map fst (c_inputs c))" by (simp add: c comp_def)
  show "(h, i) \<in> set (c_inputs c) \<longleftrightarrow> i = None \<and> h \<notin> output_handle ` set ops
      \<and> (\<exists>op \<in> set ops. TaskDependence h \<in> set (dfg_inputs op))"
    by (auto simp: c k(2) missing_handles_set produced_map_None [OF d])
qed

section \<open>What is needed\<close>

text \<open>An operation is needed when its result is allowed or some needed operation uses it.\<close>

definition needed :: "op_dag \<Rightarrow> nat \<Rightarrow> bool" where
  "needed g i \<longleftrightarrow> (\<exists>j < length (od_nodes g). (i, j) \<in> (op_edges (od_edges g))\<^sup>* \<and> fst (od_nodes g ! j))"

lemma needed_unfold:
  assumes "dag_ok g" and "i < length (od_nodes g)"
  shows "needed g i \<longleftrightarrow> fst (od_nodes g ! i) \<or> (\<exists>t. (i, t) \<in> op_edges (od_edges g) \<and> needed g t)"
proof
  assume "needed g i"
  then obtain j where j: "j < length (od_nodes g)" "(i, j) \<in> (op_edges (od_edges g))\<^sup>*" "fst (od_nodes g ! j)"
    by (auto simp: needed_def)
  from j(2) show "fst (od_nodes g ! i) \<or> (\<exists>t. (i, t) \<in> op_edges (od_edges g) \<and> needed g t)"
    by (cases rule: converse_rtranclE) (use j in \<open>auto simp: needed_def\<close>)
next
  assume "fst (od_nodes g ! i) \<or> (\<exists>t. (i, t) \<in> op_edges (od_edges g) \<and> needed g t)"
  then show "needed g i"
    using assms(2) by (auto simp: needed_def intro: converse_rtrancl_into_rtrancl)
qed

text \<open>The nodes below a node: what the fuel of \<open>is_needed\<close> has to cover.\<close>

definition under :: "op_dag \<Rightarrow> nat \<Rightarrow> nat set" where
  "under g i = {j. (i, j) \<in> (op_edges (od_edges g))\<^sup>+}"

lemma under_range:
  assumes "dag_ok g"
  shows "under g i \<subseteq> {..<length (od_nodes g)}"
proof
  fix j assume "j \<in> under g i"
  then have "(i, j) \<in> (op_edges (od_edges g))\<^sup>+" by (simp add: under_def)
  then show "j \<in> {..<length (od_nodes g)}"
    by (cases rule: tranclE) (use assms in \<open>auto simp: dag_ok_def\<close>)
qed

lemma under_card_less:
  assumes ok: "dag_ok g" and ac: "acyclic (op_edges (od_edges g))" and e: "(i, t) \<in> op_edges (od_edges g)"
  shows "card (under g t) < card (under g i)"
proof (rule psubset_card_mono)
  show "finite (under g i)" using under_range [OF ok] by (rule finite_subset) simp
  have "under g t \<subseteq> under g i" using e by (auto simp: under_def intro: trancl_into_trancl2)
  moreover have "t \<in> under g i" "t \<notin> under g t" using e ac by (auto simp: under_def acyclic_def)
  ultimately show "under g t \<subset> under g i" by blast
qed

lemma is_needed_spec:
  assumes lib: "queries_ok L" and ok: "dag_ok g" and ac: "acyclic (op_edges (od_edges g))"
  shows "i < length (od_nodes g) \<Longrightarrow> card (under g i) < k \<Longrightarrow> is_needed k L g i = Some (needed g i)"
proof (induction k arbitrary: i)
  case (Suc k)
  have out: "set (map fst (dl_out L (od_edges g) i)) = {t. (i, t) \<in> op_edges (od_edges g)}"
  proof -
    from lib have "set (dl_out L (od_edges g) i) = {(v, w). (i, v, w) \<in> set (od_edges g)}"
      by (simp add: queries_ok_def)
    then show ?thesis unfolding set_map op_edges_def by force
  qed
  have loop: "any_needed k L g ts = Some (\<exists>t \<in> set ts. needed g t)"
    if "set ts \<subseteq> {t. (i, t) \<in> op_edges (od_edges g)}" for ts
    using that
  proof (induction ts)
    case (Cons t ts)
    then have e: "(i, t) \<in> op_edges (od_edges g)" by simp
    with ok have "t < length (od_nodes g)" by (auto simp: dag_ok_def)
    moreover have "card (under g t) < k" using under_card_less [OF ok ac e] Suc.prems(2) by simp
    ultimately have "is_needed k L g t = Some (needed g t)" by (rule Suc.IH)
    with Cons show ?case by (cases "needed g t") auto
  qed simp
  have "any_needed k L g (map fst (dl_out L (od_edges g) i))
      = Some (\<exists>t. (i, t) \<in> op_edges (od_edges g) \<and> needed g t)"
    using loop [of "map fst (dl_out L (od_edges g) i)"] unfolding out by simp
  with Suc.prems(1) needed_unfold [OF ok Suc.prems(1)] show ?case by simp
qed simp

section \<open>Marking\<close>

definition mark :: "op_dag \<Rightarrow> nat \<Rightarrow> op_dag" where
  "mark g i = g\<lparr>od_nodes := (od_nodes g)[i := (True, snd (od_nodes g ! i))]\<rparr>"

lemma mark_nth:
  "od_nodes (mark g i) ! j
     = (if j = i \<and> i < length (od_nodes g) then (True, snd (od_nodes g ! i)) else od_nodes g ! j)"
  by (cases "i < length (od_nodes g)") (auto simp: mark_def nth_list_update list_update_beyond not_less)

lemma mark_simps [simp]:
  "length (od_nodes (mark g i)) = length (od_nodes g)" "od_edges (mark g i) = od_edges g"
  "map snd (od_nodes (mark g i)) = map snd (od_nodes g)"
proof -
  have "length (od_nodes (mark g i)) = length (od_nodes g)" by (simp add: mark_def)
  then show "map snd (od_nodes (mark g i)) = map snd (od_nodes g)"
    by (intro nth_equalityI) (auto simp: mark_nth)
qed (simp_all add: mark_def)

lemma mark_dag_ok: "dag_ok (mark g i) = dag_ok g"
  by (simp add: dag_ok_def del: map_map)

lemma mark_needed_iff:
  assumes "needed g i" and "i < length (od_nodes g)"
  shows "needed (mark g i) j = needed g j"
proof
  assume "needed (mark g i) j"
  then obtain x where x: "x < length (od_nodes g)" "(j, x) \<in> (op_edges (od_edges g))\<^sup>*"
    "fst (od_nodes (mark g i) ! x)" by (auto simp: needed_def)
  show "needed g j"
  proof (cases "x = i")
    case True
    with assms(1) x(2) show ?thesis unfolding needed_def by (meson rtrancl_trans)
  next
    case False
    with x show ?thesis by (auto simp: needed_def mark_def)
  qed
next
  assume "needed g j"
  then obtain x where x: "x < length (od_nodes g)" "(j, x) \<in> (op_edges (od_edges g))\<^sup>*"
    "fst (od_nodes g ! x)" by (auto simp: needed_def)
  then have "fst (od_nodes (mark g i) ! x)" by (simp add: mark_nth)
  with x show "needed (mark g i) j" unfolding needed_def by auto
qed

lemma mark_needed_spec:
  assumes lib: "queries_ok L"
  shows "dag_ok g \<Longrightarrow> acyclic (op_edges (od_edges g)) \<Longrightarrow> length (od_nodes g) < k
    \<Longrightarrow> set is \<subseteq> {..<length (od_nodes g)}
    \<Longrightarrow> \<exists>g'. mark_needed k L is g = Some g' \<and> od_edges g' = od_edges g
          \<and> map snd (od_nodes g') = map snd (od_nodes g)
          \<and> (\<forall>j < length (od_nodes g). fst (od_nodes g' ! j) \<longleftrightarrow>
               fst (od_nodes g ! j) \<or> j \<in> set is \<and> needed g j)"
proof (induction "is" arbitrary: g)
  case (Cons i "is")
  from Cons.prems have i: "i < length (od_nodes g)" by simp
  have "card (under g i) \<le> card {..<length (od_nodes g)}"
    by (rule card_mono [OF _ under_range [OF Cons.prems(1)]]) simp
  with Cons.prems(3) have "card (under g i) < k" by simp
  note need = is_needed_spec [OF lib Cons.prems(1,2) i this]
  show ?case
  proof (cases "needed g i")
    case True
    from Cons.IH [of "mark g i"] Cons.prems mark_needed_iff [OF True i]
    obtain g' where "mark_needed k L is (mark g i) = Some g'" "od_edges g' = od_edges g"
      "map snd (od_nodes g') = map snd (od_nodes g)"
      "\<forall>j < length (od_nodes g). fst (od_nodes g' ! j) \<longleftrightarrow>
          fst (od_nodes (mark g i) ! j) \<or> j \<in> set is \<and> needed g j"
      by (auto simp: mark_dag_ok)
    moreover have "mark_needed k L (i # is) g = mark_needed k L is (mark g i)"
      using need True by (simp add: mark_def)
    ultimately show ?thesis using True i by (auto simp: mark_nth)
  next
    case False
    with Cons.IH [of g] Cons.prems need show ?thesis by auto
  qed
qed simp

section \<open>Removing\<close>

text \<open>The edges by what the nodes stand for.\<close>

definition id_edges :: "op_dag \<Rightarrow> op_edge set" where
  "id_edges g = {(snd (od_nodes g ! u), snd (od_nodes g ! v), w) |u v w. (u, v, w) \<in> set (od_edges g)}"

lemma snd_nth_eq:
  "dag_ok g \<Longrightarrow> x < length (od_nodes g) \<Longrightarrow> y < length (od_nodes g) \<Longrightarrow>
     snd (od_nodes g ! x) = snd (od_nodes g ! y) \<longleftrightarrow> x = y"
  using nth_eq_iff_index_eq [of "map snd (od_nodes g)" x y] by (simp add: dag_ok_def)

definition removable :: "dag_lib \<Rightarrow> op_dag \<Rightarrow> nat \<Rightarrow> bool" where
  "removable L g i \<longleftrightarrow> removal_ok L \<and> dag_ok g \<and> i < length (od_nodes g)"

lemma removableD:
  assumes "removable L g i"
  shows "removal_ok L" and "dag_ok g" and "i < length (od_nodes g)"
  using assms by (simp_all add: removable_def)

lemma removed_length:
  assumes R: "removable L g i"
  shows "length (od_nodes (dl_remove_node L g i)) = length (od_nodes g) - 1"
  using removableD [OF R] by (simp add: removal_ok_def)

lemma removed_edges:
  assumes R: "removable L g i"
  shows "set (od_edges (dl_remove_node L g i))
     = {(moved g i u, moved g i v, w) |u v w. (u, v, w) \<in> set (od_edges g) \<and> u \<noteq> i \<and> v \<noteq> i}"
  using removableD [OF R] by (simp add: removal_ok_def)

lemma removed_nth:
  assumes R: "removable L g i"
    and y: "y < length (od_nodes g) - 1"
  shows "od_nodes (dl_remove_node L g i) ! y
       = od_nodes g ! (if y = i then length (od_nodes g) - 1 else y)"
proof -
  note r = removableD [OF R]
  from r(3) have "od_nodes g \<noteq> []" by auto
  then have "last (od_nodes g) = od_nodes g ! (length (od_nodes g) - 1)" by (rule last_conv_nth)
  with r y show ?thesis by (auto simp: removal_ok_def nth_butlast nth_list_update)
qed

lemma moved_nth:
  assumes R: "removable L g i"
    and "x < length (od_nodes g)" and "x \<noteq> i"
  shows "moved g i x < length (od_nodes g) - 1"
    and "od_nodes (dl_remove_node L g i) ! moved g i x = od_nodes g ! x"
proof -
  note i = removableD(3) [OF R]
  from assms(2,3) i show r: "moved g i x < length (od_nodes g) - 1" by (auto simp: moved_def)
  from removed_nth [OF R r] assms(2,3) show "od_nodes (dl_remove_node L g i) ! moved g i x = od_nodes g ! x"
    by (auto simp: moved_def)
qed

lemma removed_set:
  assumes R: "removable L g i"
  shows "set (od_nodes (dl_remove_node L g i)) = set (od_nodes g) - {od_nodes g ! i}"
proof -
  note ok = removableD(2) [OF R] and i = removableD(3) [OF R]
  let ?n = "length (od_nodes g)"
  have "a \<in> set (od_nodes (dl_remove_node L g i)) \<longleftrightarrow> (\<exists>x < ?n. x \<noteq> i \<and> od_nodes g ! x = a)" for a
  proof
    assume "a \<in> set (od_nodes (dl_remove_node L g i))"
    then obtain y where y: "y < ?n - 1" "od_nodes (dl_remove_node L g i) ! y = a"
      by (auto simp: in_set_conv_nth removed_length [OF R])
    let ?x = "if y = i then ?n - 1 else y"
    from y removed_nth [OF R y(1)] have "?x < ?n" "?x \<noteq> i" "od_nodes g ! ?x = a" by auto
    then show "\<exists>x < ?n. x \<noteq> i \<and> od_nodes g ! x = a" by blast
  next
    assume "\<exists>x < ?n. x \<noteq> i \<and> od_nodes g ! x = a"
    then obtain x where "x < ?n" "x \<noteq> i" "od_nodes g ! x = a" by blast
    with moved_nth [OF R, of x] show "a \<in> set (od_nodes (dl_remove_node L g i))"
      by (auto simp: in_set_conv_nth removed_length [OF R])
  qed
  moreover have "od_nodes g ! x = a \<and> x \<noteq> i \<longleftrightarrow> od_nodes g ! x = a \<and> a \<noteq> od_nodes g ! i" if "x < ?n" for x a
    using snd_nth_eq [OF ok that i] by auto
  ultimately have "a \<in> set (od_nodes (dl_remove_node L g i)) \<longleftrightarrow> a \<in> set (od_nodes g) - {od_nodes g ! i}" for a
    unfolding Diff_iff in_set_conv_nth [of a "od_nodes g"] by blast
  then show ?thesis by blast
qed

lemma removed_dag_ok:
  assumes R: "removable L g i"
  shows "dag_ok (dl_remove_node L g i)"
proof -
  note ok = removableD(2) [OF R] and i = removableD(3) [OF R]
  let ?n = "length (od_nodes g)" and ?g = "dl_remove_node L g i"
  have "(\<exists>a b w. u = moved g i a \<and> v = moved g i b \<and> (a, b, w) \<in> set (od_edges g) \<and> a \<noteq> i \<and> b \<noteq> i)"
    if "(u, v) \<in> op_edges (od_edges ?g)" for u v
    using that by (auto simp: op_edges_def removed_edges [OF R])
  moreover have "a < ?n \<and> b < ?n" if "(a, b, w) \<in> set (od_edges g)" for a b w
    using ok that by (auto simp: dag_ok_def op_edges_def)
  ultimately have "u < length (od_nodes ?g) \<and> v < length (od_nodes ?g)"
    if "(u, v) \<in> op_edges (od_edges ?g)" for u v
    using that moved_nth(1) [OF R] unfolding removed_length [OF R] by metis
  moreover have "distinct (map snd (od_nodes ?g))"
    unfolding distinct_conv_nth length_map
  proof (intro allI impI)
    fix x y assume x: "x < length (od_nodes ?g)" and y: "y < length (od_nodes ?g)" and ne: "x \<noteq> y"
    let ?b = "\<lambda>y. if y = i then ?n - 1 else y"
    from x y have r: "x < ?n - 1" "y < ?n - 1" by (simp_all add: removed_length [OF R])
    then have "?b x < ?n" "?b y < ?n" "?b x \<noteq> ?b y" using ne by auto
    with snd_nth_eq [OF ok, of "?b x" "?b y"] x y r
    show "map snd (od_nodes ?g) ! x \<noteq> map snd (od_nodes ?g) ! y"
      by (simp add: removed_nth [OF R])
  qed
  ultimately show ?thesis by (auto simp: dag_ok_def)
qed

lemma removed_id_edges:
  assumes R: "removable L g i"
  shows "id_edges (dl_remove_node L g i)
     = {(a, b, w) \<in> id_edges g. a \<noteq> snd (od_nodes g ! i) \<and> b \<noteq> snd (od_nodes g ! i)}"
proof -
  note ok = removableD(2) [OF R] and i = removableD(3) [OF R]
  let ?n = "length (od_nodes g)"
  have rng: "u < ?n \<and> v < ?n" if "(u, v, w) \<in> set (od_edges g)" for u v w
    using ok that by (auto simp: dag_ok_def op_edges_def)
  have "id_edges (dl_remove_node L g i)
      = {(snd (od_nodes g ! u), snd (od_nodes g ! v), w) |u v w.
           (u, v, w) \<in> set (od_edges g) \<and> u \<noteq> i \<and> v \<noteq> i}"
    unfolding id_edges_def removed_edges [OF R] using rng moved_nth(2) [OF R]
    by (intro set_eqI iffI) (clarsimp; metis)+
  also have "\<dots> = {(a, b, w) \<in> id_edges g. a \<noteq> snd (od_nodes g ! i) \<and> b \<noteq> snd (od_nodes g ! i)}"
    unfolding id_edges_def using rng snd_nth_eq [OF ok _ i] by (intro set_eqI iffI) (clarsimp; metis)+
  finally show ?thesis .
qed

text \<open>Removing from the largest index down leaves the smaller ones where they are.\<close>

lemma remove_nodes_spec:
  assumes rem: "removal_ok L"
  shows "dag_ok g \<Longrightarrow> sorted_wrt (>) is
    \<Longrightarrow> \<forall>i \<in> set is. i < length (od_nodes g) \<and> \<not> fst (od_nodes g ! i)
    \<Longrightarrow> dag_ok (remove_nodes L is g)
      \<and> set (od_nodes (remove_nodes L is g)) = set (od_nodes g) - (!) (od_nodes g) ` set is
      \<and> id_edges (remove_nodes L is g) =
          {(a, b, w) \<in> id_edges g. \<forall>i \<in> set is. a \<noteq> snd (od_nodes g ! i) \<and> b \<noteq> snd (od_nodes g ! i)}"
proof (induction "is" arbitrary: g)
  case (Cons i "is")
  let ?g = "dl_remove_node L g i"
  from Cons.prems rem have R: "removable L g i" by (simp add: removable_def)
  have same: "od_nodes ?g ! j = od_nodes g ! j \<and> j < length (od_nodes ?g)" if "j \<in> set is" for j
  proof -
    from that Cons.prems(2) have "j < i" by simp
    with Cons.prems(3) have "j < length (od_nodes g) - 1" by auto
    with removed_nth [OF R this] \<open>j < i\<close> show ?thesis by (simp add: removed_length [OF R])
  qed
  have "\<forall>j \<in> set is. j < length (od_nodes ?g) \<and> \<not> fst (od_nodes ?g ! j)"
    using same Cons.prems(3) by simp
  from Cons.IH [OF removed_dag_ok [OF R] _ this] Cons.prems(2)
  have IH: "dag_ok (remove_nodes L is ?g)"
    "set (od_nodes (remove_nodes L is ?g)) = set (od_nodes ?g) - (!) (od_nodes ?g) ` set is"
    "id_edges (remove_nodes L is ?g) =
       {(a, b, w) \<in> id_edges ?g. \<forall>i \<in> set is. a \<noteq> snd (od_nodes ?g ! i) \<and> b \<noteq> snd (od_nodes ?g ! i)}"
    by simp_all
  have img: "(!) (od_nodes ?g) ` set is = (!) (od_nodes g) ` set is" using same by (intro image_cong) simp_all
  have run: "remove_nodes L (i # is) g = remove_nodes L is ?g" using Cons.prems(3) by simp
  show ?case
    unfolding run using IH(1) IH(2,3) same
    unfolding img removed_set [OF R] removed_id_edges [OF R] by auto
qed simp

section \<open>The graph of the operations\<close>

lemma op_edges_map: "set (map (\<lambda>(a, b, _). (a, b)) es) = op_edges es"
  by (force simp: op_edges_def)

lemma add_pairs_acyclic:
  "cycle_check_ok wc \<Longrightarrow> acyclic (op_edges es) \<Longrightarrow> add_pairs wc ps es = Ok es' \<Longrightarrow> acyclic (op_edges es')"
proof (induction wc ps es rule: add_pairs.induct)
  case (2 wc s d pos ps es)
  from "2.prems"(3) have nc: "\<not> wc (map (\<lambda>(a, b, _). (a, b)) es) (s, d)"
    and run: "add_pairs wc ps (es @ [(s, d, of_nat pos)]) = Ok es'" by (auto split: if_splits)
  have "op_edges (es @ [(s, d, of_nat pos)]) = insert (s, d) (op_edges es)" by (auto simp: op_edges_def)
  moreover have "(d, s) \<notin> (op_edges es)\<^sup>*"
    using nc "2.prems"(1) unfolding cycle_check_ok_def op_edges_map [symmetric] by blast
  ultimately have "acyclic (op_edges (es @ [(s, d, of_nat pos)]))" using "2.prems"(2) by (simp add: acyclic_insert)
  from "2.IH" [OF nc "2.prems"(1) this run] show ?case .
qed simp

lemma operation_dag_spec:
  assumes lib: "queries_ok L" and d: "distinct (map output_handle ops)" and g: "operation_dag L ops = Ok g"
  shows "dag_ok g" and "acyclic (op_edges (od_edges g))" and "length (od_nodes g) = length ops"
    and "i < length ops \<Longrightarrow> od_nodes g ! i = (dfg_is_allowed (ops ! i), i)"
    and "(u, v) \<in> op_edges (od_edges g) \<longleftrightarrow>
           u < length ops \<and> v < length ops \<and> TaskDependence (output_handle (ops ! u)) \<in> set (dfg_inputs (ops ! v))"
proof -
  let ?m = "produced_map 0 ops Map.empty"
  from g obtain es where es: "add_pairs (dl_would_cycle L) (all_pairs ?m 0 ops) [] = Ok es"
    and g': "g = \<lparr> od_nodes = map (\<lambda>(index, op). (dfg_is_allowed op, index)) (enumerate 0 ops), od_edges = es \<rparr>"
    by (auto simp: operation_dag_def bind_res_eq_Ok)
  show len: "length (od_nodes g) = length ops" by (simp add: g')
  show nth: "od_nodes g ! i = (dfg_is_allowed (ops ! i), i)" if "i < length ops" for i
    using that by (simp add: g' nth_enumerate_eq)
  have m: "?m h = Some u \<longleftrightarrow> u < length ops \<and> output_handle (ops ! u) = h" for h u
    using produced_map_iff [OF d, of 0 Map.empty h u] by auto
  show edges: "(u, v) \<in> op_edges (od_edges g) \<longleftrightarrow>
      u < length ops \<and> v < length ops \<and> TaskDependence (output_handle (ops ! u)) \<in> set (dfg_inputs (ops ! v))" for u v
  proof -
    have "(u, v) \<in> op_edges (od_edges g) \<longleftrightarrow> (\<exists>q. (u, v, q) \<in> set (all_pairs ?m 0 ops))"
      unfolding op_edges_def g' using add_pairs_Ok [OF es] by (force simp: image_iff)
    also have "\<dots> \<longleftrightarrow> u < length ops \<and> v < length ops
        \<and> (\<exists>q < length (dfg_inputs (ops ! v)). dfg_inputs (ops ! v) ! q = TaskDependence (output_handle (ops ! u)))"
      by (auto simp: all_pairs_iff m)
    finally show ?thesis by (simp add: in_set_conv_nth)
  qed
  have "map snd (od_nodes g) = [0..<length ops]"
    by (rule nth_equalityI) (simp_all add: len nth)
  with edges show "dag_ok g" by (auto simp: dag_ok_def len)
  have "acyclic (op_edges [])" by (simp add: op_edges_def acyclic_def)
  with es lib show "acyclic (op_edges (od_edges g))"
    by (auto simp: g' queries_ok_def intro: add_pairs_acyclic)
qed

lemma finalize_spec:
  assumes lib: "queries_ok L" "removal_ok L" and d: "distinct (map output_handle ops)"
    and g: "operation_dag L ops = Ok g" and k: "length ops < k"
  shows "\<exists>uns g'. finalize k L g = Some (uns, g') \<and> sorted uns \<and> distinct uns
     \<and> set uns = {i. i < length ops \<and> \<not> needed g i} \<and> dag_ok g'
     \<and> snd ` set (od_nodes g') = {i. i < length ops \<and> needed g i}
     \<and> id_edges g' = {(a, b, w) \<in> set (od_edges g). needed g a \<and> needed g b}"
proof -
  note od = operation_dag_spec [OF lib(1) d g]
  let ?n = "length ops"
  have "length (od_nodes g) < k" "set (rev [0..<?n]) \<subseteq> {..<length (od_nodes g)}" using k od(3) by auto
  from mark_needed_spec [OF lib(1) od(1,2) this] od(3) obtain g1 where
    g1: "mark_needed k L (rev [0..<?n]) g = Some g1" "od_edges g1 = od_edges g"
    "map snd (od_nodes g1) = map snd (od_nodes g)"
    and m: "\<And>j. j < ?n \<Longrightarrow> fst (od_nodes g1 ! j) \<longleftrightarrow> fst (od_nodes g ! j) \<or> needed g j"
    by auto
  have len: "length (od_nodes g1) = ?n" using arg_cong [OF g1(3), of length] od(3) by simp
  have ok1: "dag_ok g1" using od(1) g1 len od(3) by (simp add: dag_ok_def del: map_map)
  have mark: "fst (od_nodes g1 ! j) \<longleftrightarrow> needed g j" if "j < ?n" for j
    using m [OF that] needed_unfold [OF od(1), of j] that od(3) by auto
  have sn: "snd (od_nodes g1 ! j) = j" if "j < ?n" for j
    using arg_cong [OF g1(3), of "\<lambda>xs. xs ! j"] that od(3,4) len by simp
  let ?f = "filter (\<lambda>i. \<not> fst (od_nodes g1 ! i)) [0..<?n]"
  have uns: "unneeded_nodes g1 = ?f"
    unfolding unneeded_nodes_def len by (intro sorted_sort_id sorted_wrt_filter) simp
  have desc: "sorted_wrt (>) (rev ?f)"
    by (simp add: sorted_wrt_rev) (intro sorted_wrt_filter, simp)
  have bad: "\<forall>i \<in> set (rev ?f). i < length (od_nodes g1) \<and> \<not> fst (od_nodes g1 ! i)" by (auto simp: len)
  let ?g = "remove_nodes L (rev ?f) g1"
  from remove_nodes_spec [OF lib(2) ok1 desc bad] have
    r: "dag_ok ?g" "set (od_nodes ?g) = set (od_nodes g1) - (!) (od_nodes g1) ` set (rev ?f)"
    "id_edges ?g = {(a, b, w) \<in> id_edges g1. \<forall>i \<in> set (rev ?f). a \<noteq> snd (od_nodes g1 ! i) \<and> b \<noteq> snd (od_nodes g1 ! i)}"
    by blast+
  have set_f: "set ?f = {i. i < ?n \<and> \<not> needed g i}" using mark by auto
  have nth_eq: "od_nodes g1 ! x = od_nodes g1 ! y \<longleftrightarrow> x = y" if "x < ?n" "y < ?n" for x y
    using snd_nth_eq [OF ok1, of x y] that len by auto
  have "set (od_nodes ?g) = (!) (od_nodes g1) ` {i. i < ?n \<and> needed g i}"
  proof -
    have "set (od_nodes g1) = (!) (od_nodes g1) ` {i. i < ?n}" by (auto simp: set_conv_nth len)
    then show ?thesis unfolding r(2) set_rev set_f using nth_eq by auto
  qed
  then have nodes: "snd ` set (od_nodes ?g) = {i. i < ?n \<and> needed g i}"
    using sn by (force simp: image_image)
  have rng: "u < ?n \<and> v < ?n" if "(u, v, w) \<in> set (od_edges g)" for u v w
    using od(1,3) that by (auto simp: dag_ok_def op_edges_def)
  have id1: "id_edges g1 = set (od_edges g)"
    unfolding id_edges_def g1(2) using rng sn by (auto; metis)
  have edges: "id_edges ?g = {(a, b, w) \<in> set (od_edges g). needed g a \<and> needed g b}"
  proof -
    have "(\<forall>i \<in> {i. i < ?n \<and> \<not> needed g i}. a \<noteq> snd (od_nodes g1 ! i) \<and> b \<noteq> snd (od_nodes g1 ! i))
        \<longleftrightarrow> needed g a \<and> needed g b" if "(a, b, w) \<in> set (od_edges g)" for a b w
      using rng [OF that] sn by auto
    then show ?thesis unfolding r(3) id1 set_rev set_f by blast
  qed
  have "finalize k L g = Some (?f, ?g)"
    by (simp add: finalize_def od(3) g1(1) uns Let_def)
  then show ?thesis
    using set_f r(1) nodes edges by (intro exI conjI) (auto intro: sorted_wrt_filter)
qed

text \<open>What is needed, said of the operations themselves.\<close>

inductive_set needed_handles :: "'c dfg_op set \<Rightarrow> handle set" for ops where
  needed_allowed: "op \<in> ops \<Longrightarrow> dfg_is_allowed op \<Longrightarrow> output_handle op \<in> needed_handles ops"
| needed_used:
    "op \<in> ops \<Longrightarrow> output_handle op \<in> needed_handles ops \<Longrightarrow> TaskDependence h \<in> set (dfg_inputs op)
       \<Longrightarrow> h \<in> output_handle ` ops \<Longrightarrow> h \<in> needed_handles ops"

lemma needed_handles_sub: "h \<in> needed_handles ops \<Longrightarrow> h \<in> output_handle ` ops"
  by (cases rule: needed_handles.cases) auto

lemma needed_iff:
  assumes lib: "queries_ok L" and d: "distinct (map output_handle ops)"
    and g: "operation_dag L ops = Ok g" and i: "i < length ops"
  shows "needed g i \<longleftrightarrow> output_handle (ops ! i) \<in> needed_handles (set ops)"
proof
  note od = operation_dag_spec [OF lib d g]
  assume "needed g i"
  then obtain j where j: "j < length ops" "(i, j) \<in> (op_edges (od_edges g))\<^sup>*" "dfg_is_allowed (ops ! j)"
    using od(3,4) by (auto simp: needed_def)
  from j(2) i show "output_handle (ops ! i) \<in> needed_handles (set ops)"
  proof (induction rule: converse_rtrancl_induct)
    case base
    from j(1,3) show ?case by (intro needed_allowed) simp_all
  next
    case (step x y)
    then have y: "x < length ops" "y < length ops"
      "TaskDependence (output_handle (ops ! x)) \<in> set (dfg_inputs (ops ! y))"
      using od(5) by blast+
    then have "output_handle (ops ! x) \<in> output_handle ` set ops" by simp
    from needed_used [OF nth_mem [OF y(2)] step.IH [OF y(2)] y(3) this] show ?case .
  qed
next
  note od = operation_dag_spec [OF lib d g]
  have pos: "needed g j" if "output_handle (ops ! j) = h" "j < length ops" "h \<in> needed_handles (set ops)" for j h
    using that(3,1,2)
  proof (induction arbitrary: j rule: needed_handles.induct)
    case (needed_allowed op)
    then have "ops ! j = op" using d by (metis in_set_conv_nth length_map nth_eq_iff_index_eq nth_map)
    with needed_allowed od show ?case by (auto simp: needed_def)
  next
    case (needed_used op h)
    then obtain l where l: "l < length ops" "ops ! l = op" by (auto simp: in_set_conv_nth)
    with needed_used have "(j, l) \<in> op_edges (od_edges g)" using od(5) by auto
    moreover have "needed g l" using needed_used l by blast
    ultimately show ?case using needed_unfold [OF od(1)] od(3) needed_used.prems by auto
  qed
  assume "output_handle (ops ! i) \<in> needed_handles (set ops)"
  from pos [OF refl i this] show "needed g i" .
qed

section \<open>Units\<close>

lemma take_operations_spec:
  "\<forall>i \<in> set is. i < length nodes \<Longrightarrow> \<forall>i \<in> set is. snd (nodes ! i) < length ops
    \<Longrightarrow> distinct (map (\<lambda>i. snd (nodes ! i)) is)
    \<Longrightarrow> \<exists>ops'. take_operations nodes is ops = Ok (map (\<lambda>i. ops ! snd (nodes ! i)) is, ops')
          \<and> length ops' = length ops
          \<and> (\<forall>k < length ops. k \<notin> (\<lambda>i. snd (nodes ! i)) ` set is \<longrightarrow> ops' ! k = ops ! k)"
proof (induction "is" arbitrary: ops)
  case (Cons i "is")
  from Cons.prems(3) have other: "snd (nodes ! j) \<noteq> snd (nodes ! i)" if "j \<in> set is" for j
    using that by (auto simp: image_iff)
  from Cons.IH [of "ops[snd (nodes ! i) := default_op]"] Cons.prems obtain ops' where
    o: "take_operations nodes is (ops[snd (nodes ! i) := default_op])
        = Ok (map (\<lambda>j. ops[snd (nodes ! i) := default_op] ! snd (nodes ! j)) is, ops')"
    "length ops' = length ops"
    "\<forall>k < length ops. k \<notin> (\<lambda>i. snd (nodes ! i)) ` set is \<longrightarrow> ops' ! k = ops[snd (nodes ! i) := default_op] ! k"
    by auto
  have "map (\<lambda>j. ops[snd (nodes ! i) := default_op] ! snd (nodes ! j)) is = map (\<lambda>j. ops ! snd (nodes ! j)) is"
    using other by (intro map_cong refl) (metis nth_list_update_neq)
  with o Cons.prems show ?case by (auto simp: Let_def)
qed simp

lemma build_units_spec:
  assumes "\<forall>ex \<in> set exs. \<forall>i \<in> set (df_nodes ex). i < length nodes \<and> snd (nodes ! i) < length ops"
    and "distinct (map (\<lambda>i. snd (nodes ! i)) (concat (map df_nodes exs)))"
    and "build_units L tid nodes idx exs ops = Ok cs"
    and "\<forall>ex \<in> set exs. \<forall>i \<in> set (df_nodes ex). ops ! snd (nodes ! i) = ops0 ! snd (nodes ! i)"
  shows "length cs = length exs
    \<and> (\<forall>j < length exs. build_component L (map (\<lambda>i. ops0 ! snd (nodes ! i)) (df_nodes (exs ! j))) tid (idx + j) = Ok (cs ! j))"
  using assms
proof (induction exs arbitrary: idx ops cs)
  case (Cons ex exs)
  let ?id = "\<lambda>i. snd (nodes ! i)"
  from Cons.prems(2) have d: "distinct (map ?id (df_nodes ex))"
    "distinct (map ?id (concat (map df_nodes exs)))"
    and sep: "?id ` set (df_nodes ex) \<inter> ?id ` set (concat (map df_nodes exs)) = {}" by auto
  from take_operations_spec [of "df_nodes ex" nodes ops] Cons.prems(1) d(1) obtain ops' where
    t: "take_operations nodes (df_nodes ex) ops = Ok (map (\<lambda>i. ops ! ?id i) (df_nodes ex), ops')"
    "length ops' = length ops" "\<forall>k < length ops. k \<notin> ?id ` set (df_nodes ex) \<longrightarrow> ops' ! k = ops ! k"
    by auto
  have ops0: "map (\<lambda>i. ops ! ?id i) (df_nodes ex) = map (\<lambda>i. ops0 ! ?id i) (df_nodes ex)"
    using Cons.prems(4) by simp
  from Cons.prems(3) t(1) obtain c cs' where
    c: "build_component L (map (\<lambda>i. ops0 ! ?id i) (df_nodes ex)) tid idx = Ok c"
    and rest: "build_units L tid nodes (Suc idx) exs ops' = Ok cs'" and cs: "cs = c # cs'"
    by (auto simp: bind_res_eq_Ok ops0)
  have "ops' ! ?id i = ops0 ! ?id i" if "e \<in> set exs" "i \<in> set (df_nodes e)" for e i
  proof -
    from that sep have "?id i \<notin> ?id ` set (df_nodes ex)" by auto
    with t(3) Cons.prems(1,4) that show ?thesis by simp
  qed
  with Cons.IH [OF _ d(2) rest] Cons.prems(1) t(2) have
    "length cs' = length exs \<and> (\<forall>j < length exs.
       build_component L (map (\<lambda>i. ops0 ! ?id i) (df_nodes (exs ! j))) tid (Suc idx + j) = Ok (cs' ! j))"
    by simp
  with c cs show ?case by (auto simp: nth_Cons' less_Suc_eq_0_disj)
qed simp

section \<open>Properties\<close>

lemma sort_ops:
  assumes "ops_ok ops"
  shows "ops_ok (sort_key output_handle ops)" and "set (sort_key output_handle ops) = set ops"
  using assms by (auto simp: ops_ok_def distinct_map)

text \<open>
  A component is built from operations with distinct handles as the execution expects it: its
  graph has one node for each operation in order, an edge for exactly the inputs that depend on
  another operation of the component, and no operation before one it depends on in the sort; the
  inputs are the handles used but not produced, each once and still missing, none of them a result.
\<close>

theorem component_well_formed:
  assumes "queries_ok L" and "ops_ok ops" and "build_component L ops tid cid = Ok c"
  shows "dfg_ok (c_graph c) \<and> dg_nodes (c_graph c) = map op_node_of ops
    \<and> c_results c = map output_handle ops \<and> distinct (map fst (c_inputs c))
    \<and> set (c_inputs c) = {(h, None) |h. h \<notin> output_handle ` set ops
          \<and> (\<exists>op \<in> set ops. TaskDependence h \<in> set (dfg_inputs op))}
    \<and> c_transaction_id c = tid \<and> c_component_id c = cid \<and> \<not> c_is_uncomputable c"
  using build_component_dfg [OF assms] build_component_data [OF assms] by auto

lemma units_distinct:
  assumes "schedule_of G eg"
  shows "distinct (concat (map df_nodes (exec_nodes eg)))"
    and "set (concat (map df_nodes (exec_nodes eg))) = {..<node_count G}"
  using assms unfolding schedule_of_def units_def by blast+

text \<open>The operations the partition assigns to each component.\<close>

lemma transaction_units:
  assumes lib: "queries_ok L" "removal_ok L" "view_ok L" and ops: "ops_ok ops"
    and run: "build_component_nodes k L ops tid = Some (Ok (cs, unneeded))"
    and k: "length ops < k"
  shows "\<exists>parts. list_all2 (\<lambda>p c. \<exists>cid. build_component L p tid cid = Ok c) parts cs
    \<and> distinct (map output_handle (concat parts))
    \<and> set (concat parts) = {op \<in> set ops. output_handle op \<in> needed_handles (set ops)}
    \<and> set unneeded = {(output_handle op, tid) |op. op \<in> set ops \<and> output_handle op \<notin> needed_handles (set ops)}
    \<and> distinct unneeded"
proof -
  let ?ops = "sort_key output_handle ops" and ?n = "length ops"
  from sort_ops [OF ops] have d: "distinct (map output_handle ?ops)" and set_ops: "set ?ops = set ops"
    by (simp_all add: ops_ok_def)
  from run obtain g uns g' where g: "operation_dag L ?ops = Ok g" and f: "finalize k L g = Some (uns, g')"
    by (auto simp: build_component_nodes_def Let_def split: res.splits option.splits)
  with run obtain eg where
    eg: "partition_preserving_parallelism (dl_would_cycle L) (dl_view L g') = Ok eg"
    and bu: "build_units L tid (od_nodes g') 0 (exec_nodes eg) ?ops = Ok cs"
    and un: "unneeded = map (\<lambda>i. (output_handle (?ops ! i), tid)) uns"
    by (auto simp: build_component_nodes_def Let_def bind_res_eq_Ok)
  from finalize_spec [OF lib(1,2) d g, of k] k f have
    u: "distinct uns" "set uns = {i. i < ?n \<and> \<not> needed g i}" and ok': "dag_ok g'"
    and ns: "snd ` set (od_nodes g') = {i. i < ?n \<and> needed g i}" by auto
  have need: "needed g i \<longleftrightarrow> output_handle (?ops ! i) \<in> needed_handles (set ops)" if "i < ?n" for i
    using needed_iff [OF lib(1) d g, of i] that by simp
  from lib(3) ok' have v: "gview_ok (dl_view L g')" "node_count (dl_view L g') = length (od_nodes g')"
    by (simp_all add: view_ok_def)
  from eg obtain ts where ts: "toposort (dl_view L g') = Some ts"
    by (auto simp: partition_preserving_parallelism_def split: option.splits)
  have "cycle_check_ok (dl_would_cycle L)" using lib(1) by (simp add: queries_ok_def)
  from parallelism_schedule [OF v(1) ts this] eg have "schedule_of (dl_view L g') eg" by auto
  note uq = units_distinct [OF this, unfolded v(2)]
  let ?id = "\<lambda>i. snd (od_nodes g' ! i)" and ?U = "concat (map df_nodes (exec_nodes eg))"
  have idn: "?id i < ?n" if "i < length (od_nodes g')" for i
    using ns that by (metis (mono_tags, lifting) imageI mem_Collect_eq nth_mem)
  have inj: "inj_on ?id (set ?U)" unfolding uq(2)
    using snd_nth_eq [OF ok'] by (auto intro: inj_onI)
  have dU: "distinct (map ?id ?U)" using uq(1) inj by (simp add: distinct_map del: set_concat)
  have img: "?id ` set ?U = {i. i < ?n \<and> needed g i}"
    unfolding uq(2) ns [symmetric] by (force simp: set_conv_nth)
  have rng: "\<forall>ex \<in> set (exec_nodes eg). \<forall>i \<in> set (df_nodes ex). i < length (od_nodes g') \<and> ?id i < length ?ops"
    using uq(2) idn by auto
  from build_units_spec [OF rng dU bu, of ?ops] have len: "length cs = length (exec_nodes eg)"
    and each: "\<And>j. j < length (exec_nodes eg) \<Longrightarrow>
      build_component L (map (\<lambda>i. ?ops ! ?id i) (df_nodes (exec_nodes eg ! j))) tid j = Ok (cs ! j)"
    by auto
  let ?parts = "map (\<lambda>ex. map (\<lambda>i. ?ops ! ?id i) (df_nodes ex)) (exec_nodes eg)"
  have all2: "list_all2 (\<lambda>p c. \<exists>cid. build_component L p tid cid = Ok c) ?parts cs"
    unfolding list_all2_conv_all_nth using len each by auto
  have cp: "concat ?parts = map (\<lambda>i. ?ops ! i) (map ?id ?U)"
    by (simp add: map_concat comp_def)
  have hinj: "output_handle (?ops ! i) = output_handle (?ops ! j) \<longleftrightarrow> i = j" if "i < ?n" "j < ?n" for i j
    using d that nth_eq_iff_index_eq [of "map output_handle ?ops" i j] by simp
  have "inj_on (\<lambda>i. output_handle (?ops ! i)) (set (map ?id ?U))"
    unfolding set_map img using hinj by (auto intro: inj_onI)
  with dU have "distinct (map (\<lambda>i. output_handle (?ops ! i)) (map ?id ?U))"
    by (rule distinct_map [THEN iffD2, OF conjI])
  moreover have "map output_handle (concat ?parts) = map (\<lambda>i. output_handle (?ops ! i)) (map ?id ?U)"
    unfolding cp by (simp add: comp_def)
  ultimately have dc: "distinct (map output_handle (concat ?parts))" by (simp only:)
  have nthset: "set ?ops = {?ops ! i |i. i < ?n}" by (auto simp: set_conv_nth)
  have "set (concat ?parts) = (\<lambda>i. ?ops ! i) ` {i. i < ?n \<and> needed g i}"
    unfolding cp set_map img ..
  also have "\<dots> = {op \<in> set ?ops. output_handle op \<in> needed_handles (set ops)}"
    unfolding nthset using need by auto
  finally have sc: "set (concat ?parts) = {op \<in> set ops. output_handle op \<in> needed_handles (set ops)}"
    unfolding set_ops .
  have "set unneeded = (\<lambda>i. (output_handle (?ops ! i), tid)) ` {i. i < ?n \<and> \<not> needed g i}"
    unfolding un set_map u(2) ..
  also have "\<dots> = {(output_handle op, tid) |op. op \<in> set ?ops \<and> output_handle op \<notin> needed_handles (set ops)}"
    unfolding nthset using need by auto
  finally have su: "set unneeded = {(output_handle op, tid) |op. op \<in> set ops \<and> output_handle op \<notin> needed_handles (set ops)}"
    unfolding set_ops .
  have "distinct unneeded" unfolding un using u hinj by (auto simp: distinct_map intro!: inj_onI)
  with all2 dc sc su show ?thesis by blast
qed

lemma list_all2_impl:
  "list_all2 P xs ys \<Longrightarrow> (\<And>x y. x \<in> set xs \<Longrightarrow> P x y \<Longrightarrow> Q x y) \<Longrightarrow> list_all2 Q xs ys"
  by (auto simp: list_all2_conv_all_nth)

text \<open>
  C11. The operations of a transaction are split into those some allowed result needs, each in
  exactly one component, and the rest, reported as not needed: nothing is lost or computed twice,
  and every component is a well-formed dataflow graph of its operations.
\<close>

theorem transaction_components:
  assumes lib: "queries_ok L" "removal_ok L" "view_ok L" and ops: "ops_ok ops"
    and run: "build_component_nodes k L ops tid = Some (Ok (cs, unneeded))"
    and k: "length ops < k"
  shows "\<exists>parts. list_all2 (\<lambda>p c. c_results c = map output_handle p \<and> dfg_ok (c_graph c)
          \<and> dg_nodes (c_graph c) = map op_node_of p) parts cs
    \<and> distinct (map output_handle (concat parts))
    \<and> set (concat parts) = {op \<in> set ops. output_handle op \<in> needed_handles (set ops)}
    \<and> set unneeded = {(output_handle op, tid) |op. op \<in> set ops \<and> output_handle op \<notin> needed_handles (set ops)}
    \<and> distinct unneeded"
proof -
  from transaction_units [OF assms] obtain parts where
    p: "list_all2 (\<lambda>p c. \<exists>cid. build_component L p tid cid = Ok c) parts cs"
    "distinct (map output_handle (concat parts))"
    "set (concat parts) = {op \<in> set ops. output_handle op \<in> needed_handles (set ops)}"
    "set unneeded = {(output_handle op, tid) |op. op \<in> set ops \<and> output_handle op \<notin> needed_handles (set ops)}"
    "distinct unneeded" by blast
  have "ops_ok q" if "q \<in> set parts" for q
  proof -
    have "set q \<subseteq> set ops" using that p(3) by auto
    moreover have "distinct (map output_handle q)"
      using p(2) that by (auto simp: map_concat distinct_concat_iff)
    ultimately show ?thesis using ops by (auto simp: ops_ok_def)
  qed
  then have "list_all2 (\<lambda>p c. c_results c = map output_handle p \<and> dfg_ok (c_graph c)
      \<and> dg_nodes (c_graph c) = map op_node_of p) parts cs"
    using build_component_dfg [OF lib(1)] build_component_data [OF lib(1)]
    by (intro list_all2_impl [OF p(1)]) blast
  with p show ?thesis by blast
qed

lemma add_pairs_result: "(\<exists>es'. add_pairs wc ps es = Ok es') \<or> add_pairs wc ps es = Err CyclicDependence"
  by (induction wc ps es rule: add_pairs.induct) auto

lemma build_component_result:
  "(\<exists>c. build_component L ops tid cid = Ok c) \<or> build_component L ops tid cid = Err CyclicDependence"
  using add_pairs_result [of "dl_would_cycle L" "all_pairs (produced_map 0 ops Map.empty) 0 ops" "[]"]
  by (auto simp: build_component_def Let_def)

lemma build_units_result:
  "\<forall>ex \<in> set exs. \<forall>i \<in> set (df_nodes ex). i < length nodes \<and> snd (nodes ! i) < length ops
    \<Longrightarrow> distinct (map (\<lambda>i. snd (nodes ! i)) (concat (map df_nodes exs)))
    \<Longrightarrow> (\<exists>cs. build_units L tid nodes idx exs ops = Ok cs)
      \<or> build_units L tid nodes idx exs ops = Err CyclicDependence"
proof (induction exs arbitrary: idx ops)
  case (Cons ex exs)
  from take_operations_spec [of "df_nodes ex" nodes ops] Cons.prems obtain xs ops' where
    t: "take_operations nodes (df_nodes ex) ops = Ok (xs, ops')" "length ops' = length ops" by auto
  from Cons.IH [of ops' "Suc idx"] Cons.prems t(2)
  have "(\<exists>cs. build_units L tid nodes (Suc idx) exs ops' = Ok cs)
      \<or> build_units L tid nodes (Suc idx) exs ops' = Err CyclicDependence" by auto
  with build_component_result [of L xs tid idx] show ?case by (auto simp: t)
qed simp


section \<open>Witnesses\<close>

text \<open>A graph library on lists, with the order of the indexes as its sort.\<close>

definition list_dag :: dag_lib where
  "list_dag =
     \<lparr> dl_would_cycle = path_check,
       dl_remove_node = (\<lambda>g i. \<lparr> od_nodes = butlast ((od_nodes g)[i := last (od_nodes g)]),
         od_edges = map (\<lambda>(u, v, w). (moved g i u, moved g i v, w))
           (filter (\<lambda>(u, v, w). u \<noteq> i \<and> v \<noteq> i) (od_edges g)) \<rparr>),
       dl_out = (\<lambda>es u. map snd (filter (\<lambda>(a, _). a = u) es)),
       dl_topo = (\<lambda>n es. if \<forall>(u, v, w) \<in> set es. u < v then Some [0..<n] else None),
       dl_view = (\<lambda>g. let es = map (\<lambda>(a, b, _). (a, b)) (od_edges g); n = length (od_nodes g)
         in (list_gview n es)\<lparr>toposort := if \<forall>(u, v) \<in> set es. u < v then Some [0..<n] else None\<rparr>),
       dl_order = (\<lambda>hs. hs) \<rparr>"

lemma list_dag_queries: "queries_ok list_dag"
proof -
  have "u \<in> set us" if s: "[0..<n] = us @ v # vs" and e: "(u, v) \<in> op_edges es"
    and f: "\<forall>(u, v, w) \<in> set es. u < v" for n us v vs u es
    using upto_split [OF s] e f by (auto simp: op_edges_def)
  moreover have "snd ` {x \<in> set es. case x of (a, _) \<Rightarrow> a = u} = {(v, w). (u, v, w) \<in> set es}"
    for es :: "op_edge list" and u by force
  ultimately show ?thesis
    by (auto simp: queries_ok_def list_dag_def path_check_ok lessThan_atLeast0 split: if_splits)
qed

lemma list_dag_removal: "removal_ok list_dag"
  unfolding removal_ok_def list_dag_def by (auto simp: image_iff) force+

lemma list_dag_view: "view_ok list_dag"
  unfolding view_ok_def
proof (intro allI impI)
  fix g assume ok: "dag_ok g"
  let ?es = "map (\<lambda>(a, b, _). (a, b)) (od_edges g)" and ?n = "length (od_nodes g)"
  let ?G = "list_gview ?n ?es" and ?V = "dl_view list_dag g"
  have V: "?V = ?G\<lparr>toposort := if \<forall>(u, v) \<in> set ?es. u < v then Some [0..<?n] else None\<rparr>"
    by (simp add: list_dag_def Let_def)
  have e: "edge ?V u v \<longleftrightarrow> (u, v) \<in> set ?es" for u v
    using list_gview_edge [of ?n ?es u v] by (simp add: V edge_def)
  have "set ?es = op_edges (od_edges g)" by (rule op_edges_map)
  have "gview_ok ?V"
    unfolding gview_ok_def e
  proof (intro conjI allI impI)
    fix u v assume "(u, v) \<in> set ?es"
    then have "(u, v) \<in> op_edges (od_edges g)" unfolding op_edges_map .
    with ok have "u < ?n \<and> v < ?n" by (auto simp: dag_ok_def)
    then show "u < node_count ?V" "v < node_count ?V" by (simp_all add: V list_gview_def)
  next
    fix ts assume "toposort ?V = Some ts"
    then have f: "\<forall>(u, v) \<in> set ?es. u < v" and ts: "ts = [0..<?n]" by (auto simp: V split: if_splits)
    have "u \<in> set us" if "[0..<?n] = us @ v # vs" "(u, v) \<in> set ?es" for us v vs u
      using upto_split [OF that(1)] that(2) f by auto
    then show "topo_order ?V ts"
      unfolding topo_order_def e ts by (simp add: V list_gview_def lessThan_atLeast0)
  qed (force simp: V list_gview_def)+
  with e show "gview_ok ?V \<and> node_count ?V = ?n \<and> (\<forall>u v. edge ?V u v \<longleftrightarrow> (u, v) \<in> op_edges (od_edges g))"
    unfolding op_edges_map by (simp add: V list_gview_def)
qed

text \<open>An operation for an allowed one, and one that nothing needs.\<close>

lemma path_check_forward: "forward es \<Longrightarrow> u < v \<Longrightarrow> \<not> path_check es (u, v)"
  using forward_path [of v u es] by (auto simp: path_check_def)

definition sample_ops :: "nat dfg_op list" where
  "sample_ops =
     [\<lparr> output_handle = [1], fhe_operation = FheNeg, dfg_inputs = [TaskDependence [9]], dfg_is_allowed = False \<rparr>,
      \<lparr> output_handle = [2], fhe_operation = FheNot, dfg_inputs = [TaskDependence [1]], dfg_is_allowed = True \<rparr>,
      \<lparr> output_handle = [3], fhe_operation = FheNot, dfg_inputs = [TaskDependence [1]], dfg_is_allowed = False \<rparr>]"

lemma sample_ops_ok: "ops_ok sample_ops"
  by (simp add: ops_ok_def sample_ops_def)

lemma component_well_formed_witness:
  "\<exists>c. build_component list_dag sample_ops [7] 0 = Ok c \<and> dfg_ok (c_graph c)
     \<and> c_results c = [[1], [2], [3]]"
proof -
  have "is_ok (build_component list_dag sample_ops [7] 0)"
    by (simp add: build_component_def sample_ops_def list_dag_def path_check_forward forward_def)
  then obtain c where c: "build_component list_dag sample_ops [7] 0 = Ok c"
    by (cases "build_component list_dag sample_ops [7] 0") auto
  from component_well_formed [OF list_dag_queries sample_ops_ok c] c show ?thesis
    by (auto simp: sample_ops_def)
qed


lemma list_dag_wc: "dl_would_cycle list_dag = path_check"
  by (simp add: list_dag_def)

lemma sample_partition:
  "partition_preserving_parallelism wc (list_gview 2 [(0, 1)])
     = Ok \<lparr> exec_nodes = [\<lparr> df_nodes = [0, 1], dependence_counter = 0 \<rparr>], exec_edges = [] \<rparr>"
  by code_simp

lemma sample_build: "\<exists>cs unneeded. build_component_nodes 4 list_dag sample_ops [7] = Some (Ok (cs, unneeded))"
proof -
  have "sort_key output_handle sample_ops = sample_ops"
    by (simp add: sample_ops_def)
  moreover have "operation_dag list_dag sample_ops = Ok \<lparr> od_nodes = [(False, 0), (True, 1), (False, 2)],
      od_edges = [(0, 1, 0), (0, 2, 0)] \<rparr>"
    by (simp add: operation_dag_def sample_ops_def list_dag_def path_check_forward forward_def)
  moreover have "finalize 4 list_dag \<lparr> od_nodes = [(False, 0), (True, 1), (False, 2)],
      od_edges = [(0, 1, 0), (0, 2, 0)] \<rparr>
      = Some ([2], \<lparr> od_nodes = [(True, 0), (True, 1)], od_edges = [(0, 1, 0)] \<rparr>)"
    by (simp add: finalize_def list_dag_def unneeded_nodes_def moved_def numeral_eq_Suc)
  moreover have "dl_view list_dag \<lparr> od_nodes = [(True, 0), (True, 1)], od_edges = [(0, 1, 0)] \<rparr> = list_gview 2 [(0, 1)]"
    by (simp add: list_dag_def list_gview_def numeral_2_eq_2)
  ultimately show ?thesis 
    by (simp add: build_component_nodes_def Let_def sample_partition [unfolded One_nat_def] sample_ops_def
        build_component_def path_check_forward forward_def list_dag_wc)
qed

lemma transaction_components_witness:
  "\<exists>cs unneeded parts. build_component_nodes 4 list_dag sample_ops [7] = Some (Ok (cs, unneeded))
     \<and> list_all2 (\<lambda>p c. c_results c = map output_handle p \<and> dfg_ok (c_graph c)
          \<and> dg_nodes (c_graph c) = map op_node_of p) parts cs
     \<and> ([3], [7]) \<in> set unneeded"
proof -
  from sample_build obtain cs unneeded where
    run: "build_component_nodes 4 list_dag sample_ops [7] = Some (Ok (cs, unneeded))" by blast
  have "length sample_ops < 4" by (simp add: sample_ops_def)
  note spec = transaction_components [OF list_dag_queries list_dag_removal list_dag_view sample_ops_ok run this]
  have "[3] \<notin> needed_handles (set sample_ops)"
  proof
    have a: "\<forall>op \<in> set sample_ops. output_handle op = [3] \<longrightarrow> \<not> dfg_is_allowed op"
      and u: "\<forall>op \<in> set sample_ops. TaskDependence [3] \<notin> set (dfg_inputs op)"
      by (simp_all add: sample_ops_def)
    assume "[3] \<in> needed_handles (set sample_ops)"
    then show False
    proof cases
      case (needed_allowed op)
      with a show False by metis
    next
      case (needed_used op)
      with u show False by metis
    qed
  qed
  moreover have "\<exists>op \<in> set sample_ops. output_handle op = [3]" by (simp add: sample_ops_def)
  ultimately have "([3], [7]) \<in> {(output_handle op, [7 :: u8]) |op. op \<in> set sample_ops
      \<and> output_handle op \<notin> needed_handles (set sample_ops)}" by force
  moreover from spec obtain parts where
    "list_all2 (\<lambda>p c. c_results c = map output_handle p \<and> dfg_ok (c_graph c)
        \<and> dg_nodes (c_graph c) = map op_node_of p) parts cs"
    "set unneeded = {(output_handle op, [7]) |op. op \<in> set sample_ops
        \<and> output_handle op \<notin> needed_handles (set sample_ops)}" by blast
  ultimately show ?thesis using run by (intro exI [of _ cs] exI [of _ unneeded] exI [of _ parts]) simp
qed

end
