(* ===== verification/Tables.thy ===== *)
theory Tables
  imports Execution "HOL-Library.Sublist"
begin

text \<open>
  The database the services share (the migrations under \<open>db-migration\<close> and the queries of
  \<open>host-listener/src/database/tfhe_event_propagate.rs\<close>, \<open>tfhe-worker/src/tfhe_worker.rs\<close>,
  \<open>tfhe-worker/src/server.rs\<close>): its rows, the insertion that does nothing on a conflict, and
  statements that may fail inside a transaction.
\<close>

section \<open>Rows\<close>

text \<open>
  The columns the queries read or write. A text column holding the rendering of an error is
  modelled by the error, a time stamp by seconds.
\<close>

record computation_row =
  cr_tenant_id :: i32
  cr_output_handle :: bytes
  cr_dependencies :: "bytes list"
  cr_fhe_operation :: i16
  cr_is_scalar :: bool
  cr_dependence_chain_id :: bytes
  cr_transaction_id :: bytes
  cr_is_allowed :: bool
  cr_is_completed :: bool
  cr_is_error :: bool
  cr_error_message :: "work_error option"
  cr_schedule_order :: nat
  cr_uncomputable_counter :: nat

record ciphertext_row =
  ct_tenant_id :: i32
  ct_handle :: bytes
  ct_ciphertext :: bytes
  ct_version :: i16
  ct_type :: i16
  ct_input_blob_hash :: "bytes option"
  ct_input_blob_index :: i32

record allowed_row =
  ah_tenant_id :: i32
  ah_handle :: bytes
  ah_account_address :: string
  ah_event_type :: i16
  ah_transaction_id :: "bytes option"

record pbs_row =
  pb_tenant_id :: i32
  pb_handle :: bytes
  pb_transaction_id :: "bytes option"

record block_row =
  bl_chain_id :: u64
  bl_block_hash :: bytes
  bl_block_number :: u64

record blob_row =
  ib_tenant_id :: i32
  ib_blob_hash :: bytes
  ib_blob_data :: bytes
  ib_ciphertext_count :: i32

record tables =
  t_computations :: "computation_row list"
  t_ciphertexts :: "ciphertext_row list"
  t_allowed :: "allowed_row list"
  t_pbs :: "pbs_row list"
  t_blocks :: "block_row list"
  t_blobs :: "blob_row list"

section \<open>INSERT ... ON CONFLICT DO NOTHING\<close>

definition insert_new :: "('r \<Rightarrow> 'k) \<Rightarrow> 'r \<Rightarrow> 'r list \<Rightarrow> 'r list" where
  "insert_new key r t = (if key r \<in> key ` set t then t else t @ [r])"

text \<open>The keys of the conflict clauses.\<close>

definition computation_key :: "computation_row \<Rightarrow> i32 \<times> bytes \<times> bytes" where
  "computation_key r = (cr_tenant_id r, cr_output_handle r, cr_transaction_id r)"

definition ciphertext_key :: "ciphertext_row \<Rightarrow> i32 \<times> bytes \<times> i16" where
  "ciphertext_key r = (ct_tenant_id r, ct_handle r, ct_version r)"

definition allowed_key :: "allowed_row \<Rightarrow> i32 \<times> bytes \<times> string" where
  "allowed_key r = (ah_tenant_id r, ah_handle r, ah_account_address r)"

definition pbs_key :: "pbs_row \<Rightarrow> i32 \<times> bytes" where
  "pbs_key r = (pb_tenant_id r, pb_handle r)"

definition block_key :: "block_row \<Rightarrow> u64 \<times> bytes" where
  "block_key r = (bl_chain_id r, bl_block_hash r)"

definition blob_key :: "blob_row \<Rightarrow> i32 \<times> bytes" where
  "blob_key r = (ib_tenant_id r, ib_blob_hash r)"

text \<open>
  What such an insertion promises, and what follows: the key stays a key, what is there is never
  overwritten, and inserting again what has been inserted changes nothing.
\<close>

locale conflict_table =
  fixes key :: "'r \<Rightarrow> 'k" and ins :: "'r \<Rightarrow> 'r list \<Rightarrow> 'r list"
  assumes ins_present: "key r \<in> key ` set t \<Longrightarrow> ins r t = t"
    and ins_absent: "key r \<notin> key ` set t \<Longrightarrow> ins r t = t @ [r]"
begin

lemma ins_prefix: "prefix t (ins r t)"
  by (cases "key r \<in> key ` set t") (simp_all add: ins_present ins_absent)

lemma ins_keys: "key ` set (ins r t) = insert (key r) (key ` set t)"
  by (cases "key r \<in> key ` set t") (auto simp: ins_present ins_absent)

lemma ins_distinct: "distinct (map key t) \<Longrightarrow> distinct (map key (ins r t))"
  by (cases "key r \<in> key ` set t") (simp_all add: ins_present ins_absent)

lemma ins_rows: "set (ins r t) \<subseteq> insert r (set t)"
  by (cases "key r \<in> key ` set t") (auto simp: ins_present ins_absent)

lemma fold_prefix: "prefix t (fold ins rs t)"
  by (induction rs arbitrary: t) (auto intro: prefix_order.trans [OF ins_prefix])

lemma fold_keys: "key ` set (fold ins rs t) = key ` set rs \<union> key ` set t"
  by (induction rs arbitrary: t) (simp_all add: ins_keys)

lemma fold_distinct: "distinct (map key t) \<Longrightarrow> distinct (map key (fold ins rs t))"
  by (induction rs arbitrary: t) (simp_all add: ins_distinct)

lemma fold_rows: "set (fold ins rs t) \<subseteq> set rs \<union> set t"
proof (induction rs arbitrary: t)
  case (Cons r rs)
  show ?case using Cons [of "ins r t"] ins_rows [of r t] by auto
qed simp

lemma fold_known: "key ` set rs \<subseteq> key ` set t \<Longrightarrow> fold ins rs t = t"
  by (induction rs arbitrary: t) (simp_all add: ins_present)

lemma fold_replay: "fold ins rs (fold ins rs t) = fold ins rs t"
  by (rule fold_known) (simp add: fold_keys)

lemma ins_kept: "r' \<in> set t \<Longrightarrow> r' \<in> set (ins r t)"
  using ins_prefix set_mono_prefix by blast

lemma fold_kept: "r \<in> set t \<Longrightarrow> r \<in> set (fold ins rs t)"
  using fold_prefix set_mono_prefix by blast

lemma fold_inserted:
  "distinct (map key rs) \<Longrightarrow> key ` set rs \<inter> key ` set t = {} \<Longrightarrow> fold ins rs t = t @ rs"
proof (induction rs arbitrary: t)
  case (Cons r rs)
  then have a: "ins r t = t @ [r]" by (intro ins_absent) auto
  show ?case using Cons.prems by (simp add: a Cons.IH)
qed simp

end

interpretation computations: conflict_table computation_key "insert_new computation_key"
  by unfold_locales (simp_all add: insert_new_def)

interpretation ciphertexts: conflict_table ciphertext_key "insert_new ciphertext_key"
  by unfold_locales (simp_all add: insert_new_def)

interpretation allowed: conflict_table allowed_key "insert_new allowed_key"
  by unfold_locales (simp_all add: insert_new_def)

interpretation pbs: conflict_table pbs_key "insert_new pbs_key"
  by unfold_locales (simp_all add: insert_new_def)

interpretation blocks: conflict_table block_key "insert_new block_key"
  by unfold_locales (simp_all add: insert_new_def)

interpretation blobs: conflict_table blob_key "insert_new blob_key"
  by unfold_locales (simp_all add: insert_new_def)

section \<open>Statements\<close>

text \<open>The errors of the database driver the code tells apart.\<close>

datatype sqlx_error =
    SqlIo
  | SqlPoolTimedOut
  | SqlPoolClosed
  | SqlWorkerCrashed
  | SqlProtocol
  | SqlDatabase "string option"
  | SqlRowNotFound
  | SqlOther string

text \<open>
  A transaction: the tables as it sees them, the time it started at, and which of its next
  statements the server is going to fail (none once the list is used up).
\<close>

record trx =
  x_tables :: tables
  x_now :: nat
  x_faults :: "sqlx_error option list"

definition statement :: "(tables \<Rightarrow> tables) \<Rightarrow> trx \<Rightarrow> (sqlx_error, trx) res" where
  "statement f x =
     (case x_faults x of
        Some e # _ \<Rightarrow> Err e
      | _ \<Rightarrow> Ok (x\<lparr>x_tables := f (x_tables x), x_faults := tl (x_faults x)\<rparr>))"

text \<open>A sequence of statements, one for each element, that stops at the first failure.\<close>

fun for_each :: "('a \<Rightarrow> trx \<Rightarrow> ('e, trx) res) \<Rightarrow> 'a list \<Rightarrow> trx \<Rightarrow> ('e, trx) res" where
  "for_each f [] x = Ok x"
| "for_each f (a # as) x = bind_res (f a x) (for_each f as)"

lemma statement_ok:
  "statement f x = Ok y \<Longrightarrow> x_tables y = f (x_tables x) \<and> x_now y = x_now x"
  by (simp add: statement_def split: list.splits option.splits) auto

lemma statement_no_fault:
  "x_faults x = [] \<Longrightarrow> statement f x = Ok (x\<lparr>x_tables := f (x_tables x)\<rparr>)"
  by (simp add: statement_def)

lemma statement_no_panic [simp]: "\<not> panics (statement f x)"
  by (simp add: statement_def split: list.splits option.splits)

lemma for_each_append: "for_each f (as @ bs) x = bind_res (for_each f as x) (for_each f bs)"
proof (induction as arbitrary: x)
  case (Cons a as)
  then show ?case by (cases "f a x") simp_all
qed simp

lemma for_each_no_panic:
  "(\<And>a y. a \<in> set as \<Longrightarrow> \<not> panics (f a y)) \<Longrightarrow> \<not> panics (for_each f as x)"
  by (induction as arbitrary: x) (auto simp: panics_bind_res)

lemma for_each_cong:
  "(\<And>a y. a \<in> set as \<Longrightarrow> f a y = g a y) \<Longrightarrow> for_each f as x = for_each g as x"
proof (induction as arbitrary: x)
  case (Cons a as)
  then have "for_each f as = for_each g as" by (intro ext) simp
  then show ?case using Cons.prems by simp
qed simp

text \<open>What a sequence of statements does to the tables, when each has its effect.\<close>

lemma for_each_tables:
  assumes "for_each f as x = Ok y"
    and "\<And>a x y. a \<in> set as \<Longrightarrow> f a x = Ok y \<Longrightarrow> x_tables y = g a (x_tables x) \<and> x_now y = x_now x"
  shows "x_tables y = fold g as (x_tables x) \<and> x_now y = x_now x"
  using assms
proof (induction as arbitrary: x)
  case (Cons a as)
  from Cons.prems(1) obtain z where z: "f a x = Ok z" "for_each f as z = Ok y"
    by (auto simp: bind_res_eq_Ok)
  have "x_tables z = g a (x_tables x) \<and> x_now z = x_now x"
    by (rule Cons.prems(2) [OF _ z(1)]) simp
  moreover have "x_tables y = fold g as (x_tables z) \<and> x_now y = x_now z"
    by (rule Cons.IH [OF z(2)]) (rule Cons.prems(2), simp_all)
  ultimately show ?case by simp
qed simp

lemma for_each_no_fault:
  assumes "x_faults x = []"
    and "\<And>a x. a \<in> set as \<Longrightarrow> x_faults x = [] \<Longrightarrow> f a x = Ok (x\<lparr>x_tables := g a (x_tables x)\<rparr>)"
  shows "for_each f as x = Ok (x\<lparr>x_tables := fold g as (x_tables x)\<rparr>)"
  using assms
proof (induction as arbitrary: x)
  case (Cons a as)
  have a: "f a x = Ok (x\<lparr>x_tables := g a (x_tables x)\<rparr>)"
    by (rule Cons.prems(2)) (simp_all add: Cons.prems(1))
  have "for_each f as (x\<lparr>x_tables := g a (x_tables x)\<rparr>)
        = Ok (x\<lparr>x_tables := g a (x_tables x)\<rparr>
                \<lparr>x_tables := fold g as (x_tables (x\<lparr>x_tables := g a (x_tables x)\<rparr>))\<rparr>)"
    by (rule Cons.IH) (simp_all add: Cons.prems)
  then show ?case by (simp add: a)
qed simp

end
