(* ===== verification/HostEvents.thy ===== *)
theory HostEvents
  imports Tables OperandCheck
begin

text \<open>
  What the host listener writes to the database
  (\<open>host-listener/src/database/tfhe_event_propagate.rs\<close> and the insertion of a block in
  \<open>host-listener/src/cmd/mod.rs\<close>): a computation for every event of the executor contract, the
  allowed handles for every event of the ACL contract, one transaction for every block.
\<close>

section \<open>Events\<close>

text \<open>
  The events of the two contracts, as generated from their interface; the arguments no code reads
  are left out. A handle and a transaction hash have 32 bytes, a seed 16, a clear constant is an
  unsigned integer of 256 bits.
\<close>

type_synonym clear_const = "256 word"

datatype tfhe_event =
    EFheAdd (ev_lhs: handle) (ev_rhs: handle) (ev_scalar_byte: u8) (ev_result: handle)
  | EFheSub (ev_lhs: handle) (ev_rhs: handle) (ev_scalar_byte: u8) (ev_result: handle)
  | EFheMul (ev_lhs: handle) (ev_rhs: handle) (ev_scalar_byte: u8) (ev_result: handle)
  | EFheDiv (ev_lhs: handle) (ev_rhs: handle) (ev_scalar_byte: u8) (ev_result: handle)
  | EFheRem (ev_lhs: handle) (ev_rhs: handle) (ev_scalar_byte: u8) (ev_result: handle)
  | EFheBitAnd (ev_lhs: handle) (ev_rhs: handle) (ev_scalar_byte: u8) (ev_result: handle)
  | EFheBitOr (ev_lhs: handle) (ev_rhs: handle) (ev_scalar_byte: u8) (ev_result: handle)
  | EFheBitXor (ev_lhs: handle) (ev_rhs: handle) (ev_scalar_byte: u8) (ev_result: handle)
  | EFheShl (ev_lhs: handle) (ev_rhs: handle) (ev_scalar_byte: u8) (ev_result: handle)
  | EFheShr (ev_lhs: handle) (ev_rhs: handle) (ev_scalar_byte: u8) (ev_result: handle)
  | EFheRotl (ev_lhs: handle) (ev_rhs: handle) (ev_scalar_byte: u8) (ev_result: handle)
  | EFheRotr (ev_lhs: handle) (ev_rhs: handle) (ev_scalar_byte: u8) (ev_result: handle)
  | EFheEq (ev_lhs: handle) (ev_rhs: handle) (ev_scalar_byte: u8) (ev_result: handle)
  | EFheNe (ev_lhs: handle) (ev_rhs: handle) (ev_scalar_byte: u8) (ev_result: handle)
  | EFheGe (ev_lhs: handle) (ev_rhs: handle) (ev_scalar_byte: u8) (ev_result: handle)
  | EFheGt (ev_lhs: handle) (ev_rhs: handle) (ev_scalar_byte: u8) (ev_result: handle)
  | EFheLe (ev_lhs: handle) (ev_rhs: handle) (ev_scalar_byte: u8) (ev_result: handle)
  | EFheLt (ev_lhs: handle) (ev_rhs: handle) (ev_scalar_byte: u8) (ev_result: handle)
  | EFheMin (ev_lhs: handle) (ev_rhs: handle) (ev_scalar_byte: u8) (ev_result: handle)
  | EFheMax (ev_lhs: handle) (ev_rhs: handle) (ev_scalar_byte: u8) (ev_result: handle)
  | EFheNeg (ev_ct: handle) (ev_result: handle)
  | EFheNot (ev_ct: handle) (ev_result: handle)
  | ECast (ev_ct: handle) (ev_type: u8) (ev_result: handle)
  | ETrivialEncrypt (ev_pt: clear_const) (ev_type: u8) (ev_result: handle)
  | EFheIfThenElse (ev_control: handle) (ev_if_true: handle) (ev_if_false: handle) (ev_result: handle)
  | EFheRand (ev_type: u8) (ev_seed: bytes) (ev_result: handle)
  | EFheRandBounded (ev_bound: clear_const) (ev_type: u8) (ev_seed: bytes) (ev_result: handle)
  | EVerifyInput
  | EInitialized
  | EUpgraded

datatype acl_event =
    AAllowed bytes handle
  | AAllowedForDecryption "handle list"
  | AInitialized
  | ADelegatedForUserDecryption
  | AOwnershipTransferStarted
  | ARevokedDelegationForUserDecryption
  | AOwnershipTransferred
  | AUpgraded
  | APaused
  | AUnpaused
  | ABlockedAccount
  | AUnblockedAccount

text \<open>A log of the chain. Decoding it into an event is generated code, a parameter.\<close>

record raw_log =
  rl_address :: bytes
  rl_data :: bytes
  rl_transaction_hash :: "bytes option"
  rl_block_number :: "u64 option"
  rl_block_hash :: "bytes option"
  rl_block_timestamp :: "u64 option"

record abi =
  decode_acl :: "raw_log \<Rightarrow> acl_event option"
  decode_tfhe :: "raw_log \<Rightarrow> tfhe_event option"
  address_to_string :: "bytes \<Rightarrow> string"

record log_tfhe =
  lt_event :: tfhe_event
  lt_transaction_hash :: "bytes option"
  lt_is_allowed :: bool
  lt_block_number :: "u64 option"

section \<open>Tables of the events\<close>

text \<open>\<open>O as i32\<close> of the operation an event stands for, -1 when it is none.\<close>

fun event_to_op_int :: "tfhe_event \<Rightarrow> i32" where
  "event_to_op_int (EFheAdd _ _ _ _) = i16_as_i32 (op_to_i16 FheAdd)"
| "event_to_op_int (EFheSub _ _ _ _) = i16_as_i32 (op_to_i16 FheSub)"
| "event_to_op_int (EFheMul _ _ _ _) = i16_as_i32 (op_to_i16 FheMul)"
| "event_to_op_int (EFheDiv _ _ _ _) = i16_as_i32 (op_to_i16 FheDiv)"
| "event_to_op_int (EFheRem _ _ _ _) = i16_as_i32 (op_to_i16 FheRem)"
| "event_to_op_int (EFheBitAnd _ _ _ _) = i16_as_i32 (op_to_i16 FheBitAnd)"
| "event_to_op_int (EFheBitOr _ _ _ _) = i16_as_i32 (op_to_i16 FheBitOr)"
| "event_to_op_int (EFheBitXor _ _ _ _) = i16_as_i32 (op_to_i16 FheBitXor)"
| "event_to_op_int (EFheShl _ _ _ _) = i16_as_i32 (op_to_i16 FheShl)"
| "event_to_op_int (EFheShr _ _ _ _) = i16_as_i32 (op_to_i16 FheShr)"
| "event_to_op_int (EFheRotl _ _ _ _) = i16_as_i32 (op_to_i16 FheRotl)"
| "event_to_op_int (EFheRotr _ _ _ _) = i16_as_i32 (op_to_i16 FheRotr)"
| "event_to_op_int (EFheEq _ _ _ _) = i16_as_i32 (op_to_i16 FheEq)"
| "event_to_op_int (EFheNe _ _ _ _) = i16_as_i32 (op_to_i16 FheNe)"
| "event_to_op_int (EFheGe _ _ _ _) = i16_as_i32 (op_to_i16 FheGe)"
| "event_to_op_int (EFheGt _ _ _ _) = i16_as_i32 (op_to_i16 FheGt)"
| "event_to_op_int (EFheLe _ _ _ _) = i16_as_i32 (op_to_i16 FheLe)"
| "event_to_op_int (EFheLt _ _ _ _) = i16_as_i32 (op_to_i16 FheLt)"
| "event_to_op_int (EFheMin _ _ _ _) = i16_as_i32 (op_to_i16 FheMin)"
| "event_to_op_int (EFheMax _ _ _ _) = i16_as_i32 (op_to_i16 FheMax)"
| "event_to_op_int (EFheNeg _ _) = i16_as_i32 (op_to_i16 FheNeg)"
| "event_to_op_int (EFheNot _ _) = i16_as_i32 (op_to_i16 FheNot)"
| "event_to_op_int (ECast _ _ _) = i16_as_i32 (op_to_i16 FheCast)"
| "event_to_op_int (ETrivialEncrypt _ _ _) = i16_as_i32 (op_to_i16 FheTrivialEncrypt)"
| "event_to_op_int (EFheIfThenElse _ _ _ _) = i16_as_i32 (op_to_i16 FheIfThenElse)"
| "event_to_op_int (EFheRand _ _ _) = i16_as_i32 (op_to_i16 FheRand)"
| "event_to_op_int (EFheRandBounded _ _ _ _) = i16_as_i32 (op_to_i16 FheRandBounded)"
| "event_to_op_int _ = - 1"

fun event_name :: "tfhe_event \<Rightarrow> string" where
  "event_name (EFheAdd _ _ _ _) = ''FheAdd''"
| "event_name (EFheSub _ _ _ _) = ''FheSub''"
| "event_name (EFheMul _ _ _ _) = ''FheMul''"
| "event_name (EFheDiv _ _ _ _) = ''FheDiv''"
| "event_name (EFheRem _ _ _ _) = ''FheRem''"
| "event_name (EFheBitAnd _ _ _ _) = ''FheBitAnd''"
| "event_name (EFheBitOr _ _ _ _) = ''FheBitOr''"
| "event_name (EFheBitXor _ _ _ _) = ''FheBitXor''"
| "event_name (EFheShl _ _ _ _) = ''FheShl''"
| "event_name (EFheShr _ _ _ _) = ''FheShr''"
| "event_name (EFheRotl _ _ _ _) = ''FheRotl''"
| "event_name (EFheRotr _ _ _ _) = ''FheRotr''"
| "event_name (EFheEq _ _ _ _) = ''FheEq''"
| "event_name (EFheNe _ _ _ _) = ''FheNe''"
| "event_name (EFheGe _ _ _ _) = ''FheGe''"
| "event_name (EFheGt _ _ _ _) = ''FheGt''"
| "event_name (EFheLe _ _ _ _) = ''FheLe''"
| "event_name (EFheLt _ _ _ _) = ''FheLt''"
| "event_name (EFheMin _ _ _ _) = ''FheMin''"
| "event_name (EFheMax _ _ _ _) = ''FheMax''"
| "event_name (EFheNeg _ _) = ''FheNeg''"
| "event_name (EFheNot _ _) = ''FheNot''"
| "event_name (ECast _ _ _) = ''FheCast''"
| "event_name (ETrivialEncrypt _ _ _) = ''FheTrivialEncrypt''"
| "event_name (EFheIfThenElse _ _ _ _) = ''FheIfThenElse''"
| "event_name (EFheRand _ _ _) = ''FheRand''"
| "event_name (EFheRandBounded _ _ _ _) = ''FheRandBounded''"
| "event_name EInitialized = ''Initialized''"
| "event_name EUpgraded = ''Upgraded''"
| "event_name EVerifyInput = ''VerifyInput''"

definition tfhe_result_handle :: "tfhe_event \<Rightarrow> handle option" where
  "tfhe_result_handle ev =
     (case ev of
        EVerifyInput \<Rightarrow> None
      | EInitialized \<Rightarrow> None
      | EUpgraded \<Rightarrow> None
      | _ \<Rightarrow> Some (ev_result ev))"

fun acl_result_handles :: "acl_event \<Rightarrow> handle list" where
  "acl_result_handles (AAllowed account handle) = [handle]"
| "acl_result_handles (AAllowedForDecryption handles_list) = handles_list"
| "acl_result_handles _ = []"

section \<open>Buckets\<close>

text \<open>
  The cache from handles and transaction hashes to buckets is an LRU cache of the crate \<open>lru\<close>:
  a lookup that renews the entry, a lookup that does not, an insertion that may evict others.
\<close>

record 'k lru =
  lru_get :: "'k \<Rightarrow> handle \<Rightarrow> handle option \<times> 'k"
  lru_peek :: "'k \<Rightarrow> handle \<Rightarrow> handle option"
  lru_put :: "'k \<Rightarrow> handle \<Rightarrow> handle \<Rightarrow> 'k"

definition MINIMUM_BUCKET_CACHE_SIZE :: u16 where
  "MINIMUM_BUCKET_CACHE_SIZE = 16"

definition bucket_cache_capacity :: "u16 \<Rightarrow> nat" where
  "bucket_cache_capacity bucket_cache_size = unat (max bucket_cache_size MINIMUM_BUCKET_CACHE_SIZE)"

text \<open>The first dependency with a bucket.\<close>

fun known_dependency :: "'k lru \<Rightarrow> 'k \<Rightarrow> handle list \<Rightarrow> handle option" where
  "known_dependency L cache [] = None"
| "known_dependency L cache (d # ds) =
     (case lru_peek L cache d of Some ce \<Rightarrow> Some ce | None \<Rightarrow> known_dependency L cache ds)"

definition put_transaction :: "'k lru \<Rightarrow> bytes option \<Rightarrow> handle \<Rightarrow> 'k \<Rightarrow> 'k" where
  "put_transaction L transaction_hash ce cache =
     (case transaction_hash of Some txh \<Rightarrow> lru_put L cache txh ce | None \<Rightarrow> cache)"

definition link_or_new ::
  "'k lru \<Rightarrow> handle \<Rightarrow> handle list \<Rightarrow> bytes option \<Rightarrow> 'k \<Rightarrow> handle \<times> 'k" where
  "link_or_new L output dependencies transaction_hash cache =
     (let bucket = (case known_dependency L cache dependencies of Some ce \<Rightarrow> ce | None \<Rightarrow> output)
      in (bucket, put_transaction L transaction_hash bucket (lru_put L cache output bucket)))"

definition sort_computation_into_bucket ::
  "'k lru \<Rightarrow> handle \<Rightarrow> handle list \<Rightarrow> bytes option \<Rightarrow> 'k \<Rightarrow> handle \<times> 'k" where
  "sort_computation_into_bucket L output dependencies transaction_hash cache =
     (case transaction_hash of
        None \<Rightarrow> link_or_new L output dependencies transaction_hash cache
      | Some txh \<Rightarrow>
          (case lru_get L cache txh of
             (Some ce, cache') \<Rightarrow> (ce, lru_put L cache' output ce)
           | (None, cache') \<Rightarrow> link_or_new L output dependencies transaction_hash cache'))"

section \<open>Inserting a computation\<close>

record 'k host_db =
  hd_tenant_id :: i32
  hd_chain_id :: u64
  hd_cache :: 'k

text \<open>
  \<open>transaction_id\<close> belongs to the primary key and is never null: without a transaction hash the
  server refuses the row. The columns the query does not name take their defaults.
\<close>

definition NOT_NULL_VIOLATION :: string where
  "NOT_NULL_VIOLATION = ''23502''"

definition insert_computation_inner ::
  "'k host_db \<Rightarrow> handle \<Rightarrow> bytes list \<Rightarrow> i32 \<Rightarrow> u8 \<Rightarrow> log_tfhe \<Rightarrow> handle \<Rightarrow> trx
     \<Rightarrow> (sqlx_error, trx) res" where
  "insert_computation_inner D result dependencies fhe_operation scalar_byte log bucket x =
     bind_res (statement id x) (\<lambda>x'.
       case lt_transaction_hash log of
         None \<Rightarrow> Err (SqlDatabase (Some NOT_NULL_VIOLATION))
       | Some txh \<Rightarrow>
           Ok (x'\<lparr>x_tables := (x_tables x')
                 \<lparr>t_computations := insert_new computation_key
                    \<lparr> cr_tenant_id = hd_tenant_id D, cr_output_handle = result,
                      cr_dependencies = dependencies,
                      cr_fhe_operation = i32_as_i16 fhe_operation,
                      cr_is_scalar = (scalar_byte \<noteq> 0),
                      cr_dependence_chain_id = bucket, cr_transaction_id = txh,
                      cr_is_allowed = lt_is_allowed log, cr_is_completed = False,
                      cr_is_error = False, cr_error_message = None,
                      cr_schedule_order = x_now x', cr_uncomputable_counter = 1 \<rparr>
                    (t_computations (x_tables x'))\<rparr>\<rparr>))"

definition insert_computation_bytes ::
  "'k lru \<Rightarrow> 'k host_db \<Rightarrow> handle \<Rightarrow> handle list \<Rightarrow> bytes list \<Rightarrow> i32 \<Rightarrow> u8 \<Rightarrow> log_tfhe \<Rightarrow> trx
     \<Rightarrow> (sqlx_error, trx) res \<times> 'k host_db" where
  "insert_computation_bytes L D result dependencies_handles dependencies_bytes fhe_operation
       scalar_byte log x =
     (let (bucket, cache) =
            sort_computation_into_bucket L result dependencies_handles (lt_transaction_hash log) (hd_cache D)
      in (insert_computation_inner D result (dependencies_handles @ dependencies_bytes) fhe_operation
            scalar_byte log bucket x,
          D\<lparr>hd_cache := cache\<rparr>))"

definition insert_computation ::
  "'k lru \<Rightarrow> 'k host_db \<Rightarrow> handle \<Rightarrow> handle list \<Rightarrow> i32 \<Rightarrow> u8 \<Rightarrow> log_tfhe \<Rightarrow> trx
     \<Rightarrow> (sqlx_error, trx) res \<times> 'k host_db" where
  "insert_computation L D result dependencies fhe_operation scalar_byte log x =
     (let (bucket, cache) =
            sort_computation_into_bucket L result dependencies (lt_transaction_hash log) (hd_cache D)
      in (insert_computation_inner D result dependencies fhe_operation scalar_byte log bucket x,
          D\<lparr>hd_cache := cache\<rparr>))"

definition HAS_SCALAR :: u8 where
  "HAS_SCALAR = 1"

definition NO_SCALAR :: u8 where
  "NO_SCALAR = 0"

text \<open>\<open>ClearConst::to_be_bytes_vec\<close>: 32 bytes, the most significant first.\<close>

definition as_bytes :: "clear_const \<Rightarrow> bytes" where
  "as_bytes v = map (\<lambda>i. ucast (drop_bit (8 * (31 - i)) v)) [0..<32]"

text \<open>The arms of \<open>insert_tfhe_event\<close>.\<close>

definition insert_binary ::
  "'k lru \<Rightarrow> 'k host_db \<Rightarrow> log_tfhe \<Rightarrow> handle \<Rightarrow> handle \<Rightarrow> u8 \<Rightarrow> handle \<Rightarrow> trx
     \<Rightarrow> (sqlx_error, trx) res \<times> 'k host_db" where
  "insert_binary L D log lhs rhs scalar_byte result x =
     insert_computation L D result [lhs, rhs] (event_to_op_int (lt_event log)) scalar_byte log x"

definition insert_unary ::
  "'k lru \<Rightarrow> 'k host_db \<Rightarrow> log_tfhe \<Rightarrow> handle \<Rightarrow> handle \<Rightarrow> trx
     \<Rightarrow> (sqlx_error, trx) res \<times> 'k host_db" where
  "insert_unary L D log ct result x =
     insert_computation L D result [ct] (event_to_op_int (lt_event log)) NO_SCALAR log x"

definition insert_tfhe_event ::
  "'k lru \<Rightarrow> 'k host_db \<Rightarrow> log_tfhe \<Rightarrow> trx \<Rightarrow> (sqlx_error, trx) res \<times> 'k host_db" where
  "insert_tfhe_event L D log x =
     (let fhe_operation = event_to_op_int (lt_event log) in
      case lt_event log of
        ECast ct to_type result \<Rightarrow>
          insert_computation_bytes L D result [ct] [[to_type]] fhe_operation HAS_SCALAR log x
      | EFheAdd lhs rhs scalar_byte result \<Rightarrow> insert_binary L D log lhs rhs scalar_byte result x
      | EFheBitAnd lhs rhs scalar_byte result \<Rightarrow> insert_binary L D log lhs rhs scalar_byte result x
      | EFheBitOr lhs rhs scalar_byte result \<Rightarrow> insert_binary L D log lhs rhs scalar_byte result x
      | EFheBitXor lhs rhs scalar_byte result \<Rightarrow> insert_binary L D log lhs rhs scalar_byte result x
      | EFheDiv lhs rhs scalar_byte result \<Rightarrow> insert_binary L D log lhs rhs scalar_byte result x
      | EFheMax lhs rhs scalar_byte result \<Rightarrow> insert_binary L D log lhs rhs scalar_byte result x
      | EFheMin lhs rhs scalar_byte result \<Rightarrow> insert_binary L D log lhs rhs scalar_byte result x
      | EFheMul lhs rhs scalar_byte result \<Rightarrow> insert_binary L D log lhs rhs scalar_byte result x
      | EFheRem lhs rhs scalar_byte result \<Rightarrow> insert_binary L D log lhs rhs scalar_byte result x
      | EFheRotl lhs rhs scalar_byte result \<Rightarrow> insert_binary L D log lhs rhs scalar_byte result x
      | EFheRotr lhs rhs scalar_byte result \<Rightarrow> insert_binary L D log lhs rhs scalar_byte result x
      | EFheShl lhs rhs scalar_byte result \<Rightarrow> insert_binary L D log lhs rhs scalar_byte result x
      | EFheShr lhs rhs scalar_byte result \<Rightarrow> insert_binary L D log lhs rhs scalar_byte result x
      | EFheSub lhs rhs scalar_byte result \<Rightarrow> insert_binary L D log lhs rhs scalar_byte result x
      | EFheIfThenElse control if_true if_false result \<Rightarrow>
          insert_computation L D result [control, if_true, if_false] fhe_operation NO_SCALAR log x
      | EFheEq lhs rhs scalar_byte result \<Rightarrow> insert_binary L D log lhs rhs scalar_byte result x
      | EFheGe lhs rhs scalar_byte result \<Rightarrow> insert_binary L D log lhs rhs scalar_byte result x
      | EFheGt lhs rhs scalar_byte result \<Rightarrow> insert_binary L D log lhs rhs scalar_byte result x
      | EFheLe lhs rhs scalar_byte result \<Rightarrow> insert_binary L D log lhs rhs scalar_byte result x
      | EFheLt lhs rhs scalar_byte result \<Rightarrow> insert_binary L D log lhs rhs scalar_byte result x
      | EFheNe lhs rhs scalar_byte result \<Rightarrow> insert_binary L D log lhs rhs scalar_byte result x
      | EFheNeg ct result \<Rightarrow> insert_unary L D log ct result x
      | EFheNot ct result \<Rightarrow> insert_unary L D log ct result x
      | EFheRand rand_type seed result \<Rightarrow>
          insert_computation_bytes L D result [] [seed, [rand_type]] fhe_operation HAS_SCALAR log x
      | EFheRandBounded upper_bound rand_type seed result \<Rightarrow>
          insert_computation_bytes L D result [] [seed, as_bytes upper_bound, [rand_type]] fhe_operation
            HAS_SCALAR log x
      | ETrivialEncrypt pt to_type result \<Rightarrow>
          insert_computation_bytes L D result [] [as_bytes pt, [to_type]] fhe_operation HAS_SCALAR log x
      | EInitialized \<Rightarrow> (Ok x, D)
      | EUpgraded \<Rightarrow> (Ok x, D)
      | EVerifyInput \<Rightarrow> (Ok x, D))"

section \<open>Events of the ACL contract\<close>

definition insert_pbs_computation :: "i32 \<Rightarrow> bytes option \<Rightarrow> bytes \<Rightarrow> tables \<Rightarrow> tables" where
  "insert_pbs_computation tenant_id transaction_id handle t =
     t\<lparr>t_pbs := insert_new pbs_key
          \<lparr> pb_tenant_id = tenant_id, pb_handle = handle, pb_transaction_id = transaction_id \<rparr> (t_pbs t)\<rparr>"

definition insert_pbs_computations ::
  "'k host_db \<Rightarrow> bytes list \<Rightarrow> bytes option \<Rightarrow> trx \<Rightarrow> (sqlx_error, trx) res" where
  "insert_pbs_computations D handles transaction_id =
     for_each (\<lambda>handle. statement (insert_pbs_computation (hd_tenant_id D) transaction_id handle)) handles"

definition allowed_entry :: "i32 \<Rightarrow> bytes \<Rightarrow> string \<Rightarrow> allow_events \<Rightarrow> bytes option \<Rightarrow> allowed_row" where
  "allowed_entry tenant_id handle account event_type transaction_id =
     \<lparr> ah_tenant_id = tenant_id, ah_handle = handle, ah_account_address = account,
       ah_event_type = allow_events_to_i16 event_type, ah_transaction_id = transaction_id \<rparr>"

definition insert_allowed_handle ::
  "'k host_db \<Rightarrow> bytes \<Rightarrow> string \<Rightarrow> allow_events \<Rightarrow> bytes option \<Rightarrow> trx \<Rightarrow> (sqlx_error, trx) res" where
  "insert_allowed_handle D handle account event_type transaction_id =
     statement (\<lambda>t. t\<lparr>t_allowed := insert_new allowed_key
       (allowed_entry (hd_tenant_id D) handle account event_type transaction_id) (t_allowed t)\<rparr>)"

definition handle_acl_event ::
  "abi \<Rightarrow> 'k host_db \<Rightarrow> acl_event \<Rightarrow> bytes option \<Rightarrow> trx \<Rightarrow> (sqlx_error, trx) res" where
  "handle_acl_event A D event transaction_hash x =
     (case event of
        AAllowed account handle \<Rightarrow>
          bind_res
            (insert_allowed_handle D handle (address_to_string A account) AllowedAccount transaction_hash x)
            (insert_pbs_computations D [handle] transaction_hash)
      | AAllowedForDecryption handles \<Rightarrow>
          bind_res
            (for_each
               (\<lambda>handle. insert_allowed_handle D handle [] AllowedForDecryption transaction_hash) handles x)
            (insert_pbs_computations D handles transaction_hash)
      | _ \<Rightarrow> Ok x)"

section \<open>Inserting a block\<close>

record block_summary =
  bs_number :: u64
  bs_hash :: bytes
  bs_parent_hash :: bytes
  bs_timestamp :: u64

record block_logs =
  bk_logs :: "raw_log list"
  bk_summary :: block_summary
  bk_catchup :: bool

definition mark_block_as_valid :: "'k host_db \<Rightarrow> block_summary \<Rightarrow> trx \<Rightarrow> (sqlx_error, trx) res" where
  "mark_block_as_valid D summary =
     statement (\<lambda>t. t\<lparr>t_blocks := insert_new block_key
       \<lparr> bl_chain_id = hd_chain_id D, bl_block_hash = bs_hash summary,
         bl_block_number = bs_number summary \<rparr> (t_blocks t)\<rparr>)"

text \<open>
  The first loop: the events of the ACL contract are inserted and their handles collected, those of
  the executor contract are kept for the second loop.
\<close>

fun scan_logs ::
  "abi \<Rightarrow> bytes option \<Rightarrow> bytes option \<Rightarrow> 'k host_db \<Rightarrow> raw_log list \<Rightarrow> handle set \<Rightarrow> log_tfhe list
     \<Rightarrow> trx \<Rightarrow> (sqlx_error, handle set \<times> log_tfhe list \<times> trx) res" where
  "scan_logs A acl tfhe D [] is_allowed tfhe_event_log x = Ok (is_allowed, tfhe_event_log, x)"
| "scan_logs A acl tfhe D (log # logs) is_allowed tfhe_event_log x =
     (let current_address = Some (rl_address log);
          acl_event = (if acl = None \<or> current_address = acl then decode_acl A log else None);
          tfhe_event = (if tfhe = None \<or> current_address = tfhe then decode_tfhe A log else None)
      in case acl_event of
           Some event \<Rightarrow>
             bind_res (handle_acl_event A D event (rl_transaction_hash log) x)
               (scan_logs A acl tfhe D logs (is_allowed \<union> set (acl_result_handles event)) tfhe_event_log)
         | None \<Rightarrow>
             (case tfhe_event of
                Some event \<Rightarrow>
                  scan_logs A acl tfhe D logs is_allowed
                    (tfhe_event_log @
                       [\<lparr> lt_event = event, lt_transaction_hash = rl_transaction_hash log,
                          lt_is_allowed = False, lt_block_number = rl_block_number log \<rparr>]) x
              | None \<Rightarrow> scan_logs A acl tfhe D logs is_allowed tfhe_event_log x))"

definition update_allowed :: "handle set \<Rightarrow> log_tfhe \<Rightarrow> log_tfhe" where
  "update_allowed is_allowed tfhe_log =
     tfhe_log\<lparr>lt_is_allowed :=
       (case tfhe_result_handle (lt_event tfhe_log) of
          Some rh \<Rightarrow> rh \<in> is_allowed
        | None \<Rightarrow> False)\<rparr>"

text \<open>The second loop.\<close>

fun insert_tfhe_logs ::
  "'k lru \<Rightarrow> handle set \<Rightarrow> log_tfhe list \<Rightarrow> 'k host_db \<Rightarrow> trx
     \<Rightarrow> (sqlx_error, trx) res \<times> 'k host_db" where
  "insert_tfhe_logs L is_allowed [] D x = (Ok x, D)"
| "insert_tfhe_logs L is_allowed (log # logs) D x =
     (case insert_tfhe_event L D (update_allowed is_allowed log) x of
        (Ok x', D') \<Rightarrow> insert_tfhe_logs L is_allowed logs D' x'
      | (r, D') \<Rightarrow> (r, D'))"

text \<open>
  One attempt: beginning and committing the transaction are statements that may fail as well. The
  tables change only when the commit succeeds; the cache keeps what an attempt put into it.
\<close>

definition db_insert_block_no_retry ::
  "'k lru \<Rightarrow> abi \<Rightarrow> bytes option \<Rightarrow> bytes option \<Rightarrow> block_logs \<Rightarrow> 'k host_db \<Rightarrow> trx
     \<Rightarrow> (sqlx_error, tables) res \<times> 'k host_db" where
  "db_insert_block_no_retry L A acl tfhe block D x =
     (case bind_res (statement id x) (scan_logs A acl tfhe D (bk_logs block) {} []) of
        Ok (is_allowed, tfhe_event_log, x1) \<Rightarrow>
          (case insert_tfhe_logs L is_allowed tfhe_event_log D x1 of
             (r, D') \<Rightarrow>
               (bind_res r (\<lambda>x2. bind_res (mark_block_as_valid D' (bk_summary block) x2) (\<lambda>x3.
                  bind_res (statement id x3) (\<lambda>x4. Ok (x_tables x4)))), D'))
      | Err e \<Rightarrow> (Err e, D)
      | Panic p \<Rightarrow> (Panic p, D))"

text \<open>
  The attempts: what the server makes of the statements of each is given by a list of fault lists.
  The result holds the tables at the end, committed by the attempt that succeeded.
\<close>

fun db_insert_block ::
  "nat \<Rightarrow> sqlx_error option list list \<Rightarrow> 'k lru \<Rightarrow> abi \<Rightarrow> bytes option \<Rightarrow> bytes option
     \<Rightarrow> block_logs \<Rightarrow> nat \<Rightarrow> 'k host_db \<Rightarrow> tables
     \<Rightarrow> (sqlx_error, unit) res \<times> tables \<times> 'k host_db" where
  "db_insert_block retries faults L A acl tfhe block now D t =
     (case db_insert_block_no_retry L A acl tfhe block D
             \<lparr> x_tables = t, x_now = now, x_faults = (case faults of [] \<Rightarrow> [] | f # _ \<Rightarrow> f) \<rparr> of
        (Ok t', D') \<Rightarrow> (Ok (), t', D')
      | (Err e, D') \<Rightarrow>
          (if retries = 0 then (Err e, t, D')
           else db_insert_block (retries - 1) (tl faults) L A acl tfhe block now D' t)
      | (Panic p, D') \<Rightarrow> (Panic p, t, D'))"

definition BLOCK_RETRIES :: nat where
  "BLOCK_RETRIES = 10"

section \<open>Retrying a query\<close>

definition MAX_RETRY_FOR_TRANSIENT_ERROR :: nat where
  "MAX_RETRY_FOR_TRANSIENT_ERROR = 20"

definition MAX_RETRY_ON_UNKNOWN_ERROR :: nat where
  "MAX_RETRY_ON_UNKNOWN_ERROR = 5"

definition STATEMENT_CANCELLED :: string where
  "STATEMENT_CANCELLED = ''57014''"

definition is_transient :: "sqlx_error \<Rightarrow> bool" where
  "is_transient err =
     (case err of
        SqlIo \<Rightarrow> True
      | SqlPoolTimedOut \<Rightarrow> True
      | SqlPoolClosed \<Rightarrow> True
      | SqlWorkerCrashed \<Rightarrow> True
      | SqlProtocol \<Rightarrow> True
      | SqlDatabase code \<Rightarrow> code = Some STATEMENT_CANCELLED
      | _ \<Rightarrow> False)"

definition retry_on_sqlx_error :: "sqlx_error \<Rightarrow> nat \<Rightarrow> bool \<times> nat" where
  "retry_on_sqlx_error err retry_count =
     (if is_transient err then retry_count < MAX_RETRY_FOR_TRANSIENT_ERROR
      else retry_count < MAX_RETRY_ON_UNKNOWN_ERROR,
      retry_count + 1)"

text \<open>
  \<open>find_tenant_id\<close>: the query is repeated until it answers or is not to be retried. \<open>None\<close>: the
  answers run out.
\<close>

datatype find_error = NoTenantForApiKey | FindSqlx sqlx_error

fun find_tenant_id ::
  "nat \<Rightarrow> (sqlx_error, i32 \<times> u64) res list \<Rightarrow> (find_error, i32 \<times> u64) res option" where
  "find_tenant_id retry_count [] = None"
| "find_tenant_id retry_count (answer # answers) =
     (case answer of
        Ok record \<Rightarrow> Some (Ok record)
      | Err e \<Rightarrow>
          (if e = SqlRowNotFound then Some (Err NoTenantForApiKey)
           else
             (case retry_on_sqlx_error e retry_count of
                (True, n) \<Rightarrow> find_tenant_id n answers
              | (False, _) \<Rightarrow> Some (Err (FindSqlx e))))
      | Panic p \<Rightarrow> Some (Panic p))"

text \<open>The column is a signed integer of 64 bits.\<close>

definition read_last_valid_block :: "'k host_db \<Rightarrow> tables \<Rightarrow> int option" where
  "read_last_valid_block D t =
     (let ns = map (\<lambda>b. sint (bl_block_number b)) (filter (\<lambda>b. bl_chain_id b = hd_chain_id D) (t_blocks t))
      in if ns = [] then None else Some (Max (set ns)))"

end
