(* ===== verification/HostEventsCorrect.thy ===== *)
theory HostEventsCorrect
  imports HostEvents
begin

text \<open>
  What the host listener writes: a block is inserted completely or not at all, whatever statements
  fail; inserting it again changes nothing; the computations of a transaction share a bucket.
\<close>

section \<open>Computations of events\<close>

text \<open>
  The result, the handles, the clear operands and the scalar byte an event gives its computation.
\<close>

definition event_computation :: "tfhe_event \<Rightarrow> (handle \<times> handle list \<times> bytes list \<times> u8) option" where
  "event_computation ev =
     (case ev of
        ECast ct to_type result \<Rightarrow> Some (result, [ct], [[to_type]], 1)
      | EFheIfThenElse control if_true if_false result \<Rightarrow>
          Some (result, [control, if_true, if_false], [], 0)
      | EFheNeg ct result \<Rightarrow> Some (result, [ct], [], 0)
      | EFheNot ct result \<Rightarrow> Some (result, [ct], [], 0)
      | EFheRand rand_type seed result \<Rightarrow> Some (result, [], [seed, [rand_type]], 1)
      | EFheRandBounded bound rand_type seed result \<Rightarrow>
          Some (result, [], [seed, as_bytes bound, [rand_type]], 1)
      | ETrivialEncrypt pt to_type result \<Rightarrow> Some (result, [], [as_bytes pt, [to_type]], 1)
      | EInitialized \<Rightarrow> None
      | EUpgraded \<Rightarrow> None
      | EVerifyInput \<Rightarrow> None
      | _ \<Rightarrow> Some (ev_result ev, [ev_lhs ev, ev_rhs ev], [], ev_scalar_byte ev))"

lemma tfhe_result_handle_computation:
  "tfhe_result_handle ev = map_option fst (event_computation ev)"
  by (cases ev) (simp_all add: tfhe_result_handle_def event_computation_def)

lemma insert_computation_no_bytes:
  "insert_computation L D result deps op sb log x = insert_computation_bytes L D result deps [] op sb log x"
  by (simp add: insert_computation_def insert_computation_bytes_def)

lemma insert_tfhe_event_computation:
  "insert_tfhe_event L D log x =
     (case event_computation (lt_event log) of
        None \<Rightarrow> (Ok x, D)
      | Some (result, hs, bs, sb) \<Rightarrow>
          insert_computation_bytes L D result hs bs (event_to_op_int (lt_event log)) sb log x)"
  by (cases "lt_event log")
     (simp_all add: insert_tfhe_event_def event_computation_def Let_def insert_binary_def
        insert_unary_def insert_computation_no_bytes HAS_SCALAR_def NO_SCALAR_def)

text \<open>The row of a computation.\<close>

definition computation_of_log :: "i32 \<Rightarrow> nat \<Rightarrow> log_tfhe \<Rightarrow> handle \<Rightarrow> computation_row" where
  "computation_of_log tenant now log bucket =
     (case event_computation (lt_event log) of
        Some (result, hs, bs, sb) \<Rightarrow>
          \<lparr> cr_tenant_id = tenant, cr_output_handle = result, cr_dependencies = hs @ bs,
            cr_fhe_operation = i32_as_i16 (event_to_op_int (lt_event log)),
            cr_is_scalar = (sb \<noteq> 0), cr_dependence_chain_id = bucket,
            cr_transaction_id = the (lt_transaction_hash log), cr_is_allowed = lt_is_allowed log,
            cr_is_completed = False, cr_is_error = False, cr_error_message = None,
            cr_schedule_order = now, cr_uncomputable_counter = 1 \<rparr>
      | None \<Rightarrow> undefined)"

definition add_computation :: "computation_row \<Rightarrow> tables \<Rightarrow> tables" where
  "add_computation r t = t\<lparr>t_computations := insert_new computation_key r (t_computations t)\<rparr>"

lemma insert_computation_bytes_ok:
  assumes "insert_computation_bytes L D result hs bs (event_to_op_int (lt_event log)) sb log x = (Ok y, D')"
    and "event_computation (lt_event log) = Some (result, hs, bs, sb)"
  shows "\<exists>bucket. x_tables y =
           add_computation (computation_of_log (hd_tenant_id D) (x_now x) log bucket) (x_tables x)
         \<and> x_now y = x_now x \<and> hd_tenant_id D' = hd_tenant_id D \<and> hd_chain_id D' = hd_chain_id D"
proof -
  obtain bucket cache
    where b: "sort_computation_into_bucket L result hs (lt_transaction_hash log) (hd_cache D) = (bucket, cache)"
    by fastforce
  show ?thesis
    using assms b
    by (intro exI [of _ bucket])
       (auto simp: insert_computation_bytes_def insert_computation_inner_def add_computation_def
         computation_of_log_def bind_res_eq_Ok split: option.splits dest!: statement_ok)
qed

text \<open>The events that are computations.\<close>

definition is_computation :: "log_tfhe \<Rightarrow> bool" where
  "is_computation log \<longleftrightarrow> event_computation (lt_event log) \<noteq> None"

abbreviation same_host :: "'k host_db \<Rightarrow> 'k host_db \<Rightarrow> bool" where
  "same_host D D' \<equiv> hd_tenant_id D' = hd_tenant_id D \<and> hd_chain_id D' = hd_chain_id D"

lemma insert_computation_bytes_host:
  "insert_computation_bytes L D result hs bs op sb log x = (r, D') \<Longrightarrow> same_host D D'"
  by (auto simp: insert_computation_bytes_def split: prod.splits)

lemma insert_tfhe_event_host: "insert_tfhe_event L D log x = (r, D') \<Longrightarrow> same_host D D'"
  by (auto simp: insert_tfhe_event_computation split: option.splits prod.splits
      dest: insert_computation_bytes_host)

lemma insert_tfhe_logs_host: "insert_tfhe_logs L A logs D x = (r, D') \<Longrightarrow> same_host D D'"
proof (induction logs arbitrary: D x)
  case (Cons log logs)
  obtain r1 D1 where e: "insert_tfhe_event L D (update_allowed A log) x = (r1, D1)" by fastforce
  have "same_host D D1" by (rule insert_tfhe_event_host [OF e])
  then show ?case using Cons e by (cases r1) auto
qed simp

lemma insert_tfhe_logs_ok:
  assumes "insert_tfhe_logs L A logs D x = (Ok y, D')"
  shows "\<exists>buckets. length buckets = length (filter is_computation logs)
           \<and> x_tables y =
               fold add_computation
                 (map2 (computation_of_log (hd_tenant_id D) (x_now x))
                    (map (update_allowed A) (filter is_computation logs)) buckets) (x_tables x)
           \<and> x_now y = x_now x"
  using assms
proof (induction logs arbitrary: D x)
  case (Cons log logs)
  let ?log = "update_allowed A log"
  have ev: "lt_event ?log = lt_event log" by (simp add: update_allowed_def)
  obtain x1 D1 where e: "insert_tfhe_event L D ?log x = (Ok x1, D1)"
    and rest: "insert_tfhe_logs L A logs D1 x1 = (Ok y, D')"
    using Cons.prems by (auto split: prod.splits res.splits)
  have host: "same_host D D1" by (rule insert_tfhe_event_host [OF e])
  obtain bs where bs: "length bs = length (filter is_computation logs)"
    "x_tables y = fold add_computation
       (map2 (computation_of_log (hd_tenant_id D1) (x_now x1))
          (map (update_allowed A) (filter is_computation logs)) bs) (x_tables x1)"
    "x_now y = x_now x1"
    using Cons.IH [OF rest] by blast
  show ?case
  proof (cases "is_computation log")
    case False
    then have "event_computation (lt_event log) = None"
      by (cases "event_computation (lt_event log)") (simp_all add: is_computation_def)
    then have "x1 = x" using e by (simp add: insert_tfhe_event_computation ev)
    with False bs host show ?thesis by auto
  next
    case True
    then obtain result hs cs sb where c: "event_computation (lt_event log) = Some (result, hs, cs, sb)"
      by (cases "event_computation (lt_event log)") (auto simp: is_computation_def)
    then obtain b where "x_tables x1 =
           add_computation (computation_of_log (hd_tenant_id D) (x_now x) ?log b) (x_tables x)"
        "x_now x1 = x_now x"
      using insert_computation_bytes_ok [of L D result hs cs ?log sb x x1 D1] e
      by (auto simp: insert_tfhe_event_computation ev)
    with True bs host show ?thesis by (intro exI [of _ "b # bs"]) simp
  qed
qed simp

section \<open>Events of the ACL contract\<close>

definition add_allowed :: "allowed_row \<Rightarrow> tables \<Rightarrow> tables" where
  "add_allowed r t = t\<lparr>t_allowed := insert_new allowed_key r (t_allowed t)\<rparr>"

definition add_pbs :: "pbs_row \<Rightarrow> tables \<Rightarrow> tables" where
  "add_pbs r t = t\<lparr>t_pbs := insert_new pbs_key r (t_pbs t)\<rparr>"

text \<open>The rows an event of the ACL contract stands for.\<close>

definition acl_allowed_rows :: "abi \<Rightarrow> i32 \<Rightarrow> acl_event \<times> bytes option \<Rightarrow> allowed_row list" where
  "acl_allowed_rows A tenant e =
     (case fst e of
        AAllowed account h \<Rightarrow>
          [allowed_entry tenant h (address_to_string A account) AllowedAccount (snd e)]
      | AAllowedForDecryption hs \<Rightarrow>
          map (\<lambda>h. allowed_entry tenant h [] AllowedForDecryption (snd e)) hs
      | _ \<Rightarrow> [])"

definition acl_pbs_rows :: "i32 \<Rightarrow> acl_event \<times> bytes option \<Rightarrow> pbs_row list" where
  "acl_pbs_rows tenant e =
     map (\<lambda>h. \<lparr> pb_tenant_id = tenant, pb_handle = h, pb_transaction_id = snd e \<rparr>)
       (acl_result_handles (fst e))"

definition acl_effect :: "abi \<Rightarrow> i32 \<Rightarrow> acl_event \<times> bytes option \<Rightarrow> tables \<Rightarrow> tables" where
  "acl_effect A tenant e t =
     fold add_pbs (acl_pbs_rows tenant e) (fold add_allowed (acl_allowed_rows A tenant e) t)"

lemma handle_acl_event_ok:
  assumes "handle_acl_event A D event txh x = Ok y"
  shows "x_tables y = acl_effect A (hd_tenant_id D) (event, txh) (x_tables x) \<and> x_now y = x_now x"
proof -
  have pbs: "x_tables y' = fold add_pbs
        (map (\<lambda>h. \<lparr> pb_tenant_id = hd_tenant_id D, pb_handle = h, pb_transaction_id = txh \<rparr>) hs)
        (x_tables x') \<and> x_now y' = x_now x'"
    if "insert_pbs_computations D hs txh x' = Ok y'" for hs x' y'
    using for_each_tables [OF that [unfolded insert_pbs_computations_def],
        of "insert_pbs_computation (hd_tenant_id D) txh"]
    by (simp add: fold_map comp_def add_pbs_def [abs_def] insert_pbs_computation_def [abs_def]
        statement_ok)
  have al: "x_tables y' = fold add_allowed
        (map (\<lambda>h. allowed_entry (hd_tenant_id D) h [] AllowedForDecryption txh) hs)
        (x_tables x') \<and> x_now y' = x_now x'"
    if "for_each (\<lambda>h. insert_allowed_handle D h [] AllowedForDecryption txh) hs x' = Ok y'" for hs x' y'
    using for_each_tables [OF that,
        of "\<lambda>h. add_allowed (allowed_entry (hd_tenant_id D) h [] AllowedForDecryption txh)"]
    by (simp add: fold_map comp_def add_allowed_def [abs_def] insert_allowed_handle_def statement_ok)
  have one: "x_tables y' = add_allowed (allowed_entry (hd_tenant_id D) h a k txh) (x_tables x')
      \<and> x_now y' = x_now x'"
    if "insert_allowed_handle D h a k txh x' = Ok y'" for h a k x' y'
    using that by (simp add: insert_allowed_handle_def add_allowed_def statement_ok)
  show ?thesis
    using assms
    by (cases event)
       (auto simp: handle_acl_event_def acl_effect_def acl_allowed_rows_def acl_pbs_rows_def
         bind_res_eq_Ok dest!: pbs al one)
qed

section \<open>The logs of a block\<close>

definition as_acl :: "abi \<Rightarrow> bytes option \<Rightarrow> raw_log \<Rightarrow> acl_event option" where
  "as_acl A acl log = (if acl = None \<or> Some (rl_address log) = acl then decode_acl A log else None)"

definition as_tfhe :: "abi \<Rightarrow> bytes option \<Rightarrow> bytes option \<Rightarrow> raw_log \<Rightarrow> tfhe_event option" where
  "as_tfhe A acl tfhe log =
     (if as_acl A acl log = None \<and> (tfhe = None \<or> Some (rl_address log) = tfhe) then decode_tfhe A log
      else None)"

fun acl_events :: "abi \<Rightarrow> bytes option \<Rightarrow> raw_log list \<Rightarrow> (acl_event \<times> bytes option) list" where
  "acl_events A acl [] = []"
| "acl_events A acl (log # logs) =
     (case as_acl A acl log of
        Some e \<Rightarrow> (e, rl_transaction_hash log) # acl_events A acl logs
      | None \<Rightarrow> acl_events A acl logs)"

fun tfhe_events :: "abi \<Rightarrow> bytes option \<Rightarrow> bytes option \<Rightarrow> raw_log list \<Rightarrow> log_tfhe list" where
  "tfhe_events A acl tfhe [] = []"
| "tfhe_events A acl tfhe (log # logs) =
     (case as_tfhe A acl tfhe log of
        Some e \<Rightarrow>
          \<lparr> lt_event = e, lt_transaction_hash = rl_transaction_hash log, lt_is_allowed = False,
            lt_block_number = rl_block_number log \<rparr> # tfhe_events A acl tfhe logs
      | None \<Rightarrow> tfhe_events A acl tfhe logs)"

text \<open>The handles some event of the block allows.\<close>

definition allowed_handles :: "abi \<Rightarrow> bytes option \<Rightarrow> raw_log list \<Rightarrow> handle set" where
  "allowed_handles A acl logs = (\<Union>e \<in> set (acl_events A acl logs). set (acl_result_handles (fst e)))"

lemma scan_logs_Cons:
  "scan_logs A acl tfhe D (log # logs) S ls x =
     (case as_acl A acl log of
        Some event \<Rightarrow>
          bind_res (handle_acl_event A D event (rl_transaction_hash log) x)
            (scan_logs A acl tfhe D logs (S \<union> set (acl_result_handles event)) ls)
      | None \<Rightarrow> scan_logs A acl tfhe D logs S (ls @ tfhe_events A acl tfhe [log]) x)"
proof (cases "as_acl A acl log")
  case None
  then show ?thesis
    by (cases "as_tfhe A acl tfhe log") (auto simp: as_acl_def as_tfhe_def Let_def)
qed (simp add: as_acl_def Let_def split: if_splits)

lemma tfhe_events_Cons: "tfhe_events A acl tfhe (log # logs) = tfhe_events A acl tfhe [log] @ tfhe_events A acl tfhe logs"
  by (cases "as_tfhe A acl tfhe log") simp_all

lemma tfhe_events_acl: "as_acl A acl log = Some e \<Longrightarrow> tfhe_events A acl tfhe [log] = []"
  by (simp add: as_tfhe_def)

lemma scan_logs_ok:
  assumes "scan_logs A acl tfhe D logs S ls x = Ok (S', ls', y)"
  shows "S' = S \<union> allowed_handles A acl logs \<and> ls' = ls @ tfhe_events A acl tfhe logs
       \<and> x_tables y = fold (acl_effect A (hd_tenant_id D)) (acl_events A acl logs) (x_tables x)
       \<and> x_now y = x_now x"
  using assms
proof (induction logs arbitrary: S ls x)
  case Nil
  then show ?case by (simp add: allowed_handles_def)
next
  case (Cons log logs)
  show ?case
  proof (cases "as_acl A acl log")
    case None
    have "scan_logs A acl tfhe D logs S (ls @ tfhe_events A acl tfhe [log]) x = Ok (S', ls', y)"
      using Cons.prems None by (simp only: scan_logs_Cons option.case)
    from Cons.IH [OF this] None show ?thesis
      unfolding tfhe_events_Cons [of A acl tfhe log logs] by (simp add: allowed_handles_def)
  next
    case (Some e)
    obtain z where z: "handle_acl_event A D e (rl_transaction_hash log) x = Ok z"
      "scan_logs A acl tfhe D logs (S \<union> set (acl_result_handles e)) ls z = Ok (S', ls', y)"
      using Cons.prems Some by (auto simp only: scan_logs_Cons option.case bind_res_eq_Ok)
    from Cons.IH [OF z(2)] handle_acl_event_ok [OF z(1)] Some show ?thesis
      unfolding tfhe_events_Cons [of A acl tfhe log logs] tfhe_events_acl [OF Some]
      by (auto simp: allowed_handles_def)
  qed
qed

section \<open>A block\<close>

definition add_block_row :: "block_row \<Rightarrow> tables \<Rightarrow> tables" where
  "add_block_row r t = t\<lparr>t_blocks := insert_new block_key r (t_blocks t)\<rparr>"

text \<open>The computations of a block: those of its events, allowed when the block allows the result.\<close>

definition block_computations ::
  "abi \<Rightarrow> bytes option \<Rightarrow> bytes option \<Rightarrow> raw_log list \<Rightarrow> log_tfhe list" where
  "block_computations A acl tfhe logs =
     map (update_allowed (allowed_handles A acl logs))
       (filter is_computation (tfhe_events A acl tfhe logs))"

definition block_effect ::
  "abi \<Rightarrow> bytes option \<Rightarrow> bytes option \<Rightarrow> block_logs \<Rightarrow> nat \<Rightarrow> i32 \<Rightarrow> u64 \<Rightarrow> handle list
     \<Rightarrow> tables \<Rightarrow> tables" where
  "block_effect A acl tfhe block now tenant chain buckets t =
     add_block_row \<lparr> bl_chain_id = chain, bl_block_hash = bs_hash (bk_summary block),
                 bl_block_number = bs_number (bk_summary block) \<rparr>
       (fold add_computation
          (map2 (computation_of_log tenant now) (block_computations A acl tfhe (bk_logs block)) buckets)
          (fold (acl_effect A tenant) (acl_events A acl (bk_logs block)) t))"

lemma no_retry_host: "db_insert_block_no_retry L A acl tfhe block D x = (r, D') \<Longrightarrow> same_host D D'"
  by (auto simp: db_insert_block_no_retry_def split: res.splits prod.splits dest: insert_tfhe_logs_host)

lemma no_retry_ok:
  assumes "db_insert_block_no_retry L A acl tfhe block D x = (Ok t, D')"
  shows "\<exists>buckets. length buckets = length (block_computations A acl tfhe (bk_logs block))
           \<and> t = block_effect A acl tfhe block (x_now x) (hd_tenant_id D) (hd_chain_id D) buckets (x_tables x)"
proof -
  obtain x0 S ls x1 x2 D2 x3 x4 where
    x0: "statement id x = Ok x0" and
    scan: "scan_logs A acl tfhe D (bk_logs block) {} [] x0 = Ok (S, ls, x1)" and
    ins: "insert_tfhe_logs L S ls D x1 = (Ok x2, D2)" and
    mark: "mark_block_as_valid D2 (bk_summary block) x2 = Ok x3" and
    commit: "statement id x3 = Ok x4" and t: "t = x_tables x4"
    using assms
    by (auto simp: db_insert_block_no_retry_def bind_res_eq_Ok split: res.splits prod.splits)
  have host: "same_host D D2" by (rule insert_tfhe_logs_host [OF ins])
  have s: "S = allowed_handles A acl (bk_logs block)" "ls = tfhe_events A acl tfhe (bk_logs block)"
    "x_tables x1 = fold (acl_effect A (hd_tenant_id D)) (acl_events A acl (bk_logs block)) (x_tables x)"
    "x_now x1 = x_now x"
    using scan_logs_ok [OF scan] statement_ok [OF x0] by simp_all
  obtain bs where bs: "length bs = length (filter is_computation ls)"
    "x_tables x2 = fold add_computation (map2 (computation_of_log (hd_tenant_id D) (x_now x1))
       (map (update_allowed S) (filter is_computation ls)) bs) (x_tables x1)"
    using insert_tfhe_logs_ok [OF ins] by blast
  have "x_tables x4 = add_block_row \<lparr> bl_chain_id = hd_chain_id D, bl_block_hash = bs_hash (bk_summary block),
      bl_block_number = bs_number (bk_summary block) \<rparr> (x_tables x2)"
    using statement_ok [OF commit] statement_ok [OF mark [unfolded mark_block_as_valid_def]] host
    by (simp add: add_block_row_def)
  with s bs t show ?thesis
    by (intro exI [of _ bs]) (simp add: block_effect_def block_computations_def)
qed

text \<open>Where no statement fails.\<close>

abbreviation fault_free :: "trx \<Rightarrow> bool" where
  "fault_free x \<equiv> set (x_faults x) \<subseteq> {None}"

lemma statement_fault_free: "fault_free x \<Longrightarrow> \<exists>y. statement f x = Ok y \<and> fault_free y"
  by (cases "x_faults x") (auto simp: statement_def)

lemma for_each_fault_free:
  assumes "\<And>a x. a \<in> set as \<Longrightarrow> fault_free x \<Longrightarrow> \<exists>y. f a x = Ok y \<and> fault_free y"
    and "fault_free x"
  shows "\<exists>y. for_each f as x = Ok y \<and> fault_free y"
  using assms
proof (induction as arbitrary: x)
  case (Cons a as)
  obtain y where y: "f a x = Ok y" "fault_free y" using Cons.prems by fastforce
  have "\<exists>z. for_each f as y = Ok z \<and> fault_free z"
    by (rule Cons.IH [OF _ y(2)]) (simp add: Cons.prems(1))
  with y show ?case by simp
qed simp

lemma handle_acl_event_fault_free:
  assumes "fault_free x"
  shows "\<exists>y. handle_acl_event A D event txh x = Ok y \<and> fault_free y"
proof -
  have pbs: "\<exists>y. insert_pbs_computations D hs txh x = Ok y \<and> fault_free y" if "fault_free x" for hs x
    unfolding insert_pbs_computations_def
    by (rule for_each_fault_free [OF _ that]) (rule statement_fault_free)
  have one: "\<exists>y. insert_allowed_handle D h a k txh x = Ok y \<and> fault_free y" if "fault_free x" for h a k x
    unfolding insert_allowed_handle_def by (rule statement_fault_free [OF that])
  have all: "\<exists>y. for_each (\<lambda>h. insert_allowed_handle D h a k txh) hs x = Ok y \<and> fault_free y"
    if "fault_free x" for hs a k x
    by (rule for_each_fault_free [OF _ that]) (rule one)
  show ?thesis
  proof (cases event)
    case (AAllowed account h)
    obtain y where y: "insert_allowed_handle D h (address_to_string A account) AllowedAccount txh x = Ok y"
      "fault_free y" using one [OF assms] by blast
    with pbs [OF y(2), of "[h]"] AAllowed show ?thesis by (auto simp: handle_acl_event_def)
  next
    case (AAllowedForDecryption hs)
    obtain y where y: "for_each (\<lambda>h. insert_allowed_handle D h [] AllowedForDecryption txh) hs x = Ok y"
      "fault_free y" using all [OF assms] by blast
    with pbs [OF y(2), of hs] AAllowedForDecryption show ?thesis by (auto simp: handle_acl_event_def)
  qed (use assms in \<open>simp_all add: handle_acl_event_def\<close>)
qed

lemma scan_logs_fault_free:
  "fault_free x \<Longrightarrow> \<exists>S' ls' y. scan_logs A acl tfhe D logs S ls x = Ok (S', ls', y) \<and> fault_free y"
proof (induction logs arbitrary: S ls x)
  case (Cons log logs)
  show ?case
  proof (cases "as_acl A acl log")
    case None
    then show ?thesis using Cons by (simp only: scan_logs_Cons option.case)
  next
    case (Some e)
    obtain y where "handle_acl_event A D e (rl_transaction_hash log) x = Ok y" "fault_free y"
      using handle_acl_event_fault_free [OF Cons.prems] by blast
    with Some show ?thesis by (simp only: scan_logs_Cons option.case bind_res.simps Cons.IH)
  qed
qed simp

lemma insert_tfhe_logs_fault_free:
  "\<lbrakk> fault_free x; list_all (\<lambda>log. lt_transaction_hash log \<noteq> None) (filter is_computation logs) \<rbrakk>
   \<Longrightarrow> \<exists>y D'. insert_tfhe_logs L S logs D x = (Ok y, D') \<and> fault_free y"
proof (induction logs arbitrary: D x)
  case (Cons log logs)
  let ?log = "update_allowed S log"
  have ev: "lt_event ?log = lt_event log" "lt_transaction_hash ?log = lt_transaction_hash log"
    by (simp_all add: update_allowed_def)
  have "\<exists>y D'. insert_tfhe_event L D ?log x = (Ok y, D') \<and> fault_free y"
  proof (cases "event_computation (lt_event log)")
    case None
    then show ?thesis using Cons.prems(1) by (simp add: insert_tfhe_event_computation ev)
  next
    case (Some c)
    obtain result hs bs sb where c: "c = (result, hs, bs, sb)" by (cases c)
    have "is_computation log" by (simp only: is_computation_def Some) simp
    with Cons.prems(2) obtain txh where txh: "lt_transaction_hash log = Some txh"
      by auto
    obtain y where y: "statement id x = Ok y" "fault_free y"
      using statement_fault_free [OF Cons.prems(1)] by blast
    show ?thesis
      using y by (simp add: insert_tfhe_event_computation ev Some c insert_computation_bytes_def
        insert_computation_inner_def txh split: prod.splits)
  qed
  then obtain y D' where "insert_tfhe_event L D ?log x = (Ok y, D')" "fault_free y" by blast
  moreover have "list_all (\<lambda>log. lt_transaction_hash log \<noteq> None) (filter is_computation logs)"
    using Cons.prems(2) by (simp split: if_splits)
  ultimately show ?case using Cons.IH by simp
qed simp

lemma no_retry_fault_free:
  assumes "fault_free x"
    and "list_all (\<lambda>log. lt_transaction_hash log \<noteq> None)
           (filter is_computation (tfhe_events A acl tfhe (bk_logs block)))"
  shows "is_ok (fst (db_insert_block_no_retry L A acl tfhe block D x))"
proof -
  obtain x0 where x0: "statement id x = Ok x0" "fault_free x0"
    using statement_fault_free [OF assms(1)] by blast
  obtain S ls x1 where s: "scan_logs A acl tfhe D (bk_logs block) {} [] x0 = Ok (S, ls, x1)" "fault_free x1"
    using scan_logs_fault_free [OF x0(2)] by blast
  have "ls = tfhe_events A acl tfhe (bk_logs block)" using scan_logs_ok [OF s(1)] by simp
  then obtain x2 D2 where i: "insert_tfhe_logs L S ls D x1 = (Ok x2, D2)" "fault_free x2"
    using insert_tfhe_logs_fault_free [OF s(2), of ls] assms(2) by blast
  obtain x3 where m: "mark_block_as_valid D2 (bk_summary block) x2 = Ok x3" "fault_free x3"
    unfolding mark_block_as_valid_def using statement_fault_free [OF i(2)] by blast
  obtain x4 where "statement id x3 = Ok x4" using statement_fault_free [OF m(2)] by blast
  with x0 s i m show ?thesis by (simp add: db_insert_block_no_retry_def)
qed

text \<open>Nothing panics.\<close>

lemma handle_acl_event_no_panic: "\<not> panics (handle_acl_event A D event txh x)"
  by (cases event)
     (auto simp: handle_acl_event_def panics_bind_res insert_pbs_computations_def
       insert_allowed_handle_def intro!: for_each_no_panic)

lemma scan_logs_no_panic: "\<not> panics (scan_logs A acl tfhe D logs S ls x)"
proof (induction logs arbitrary: S ls x)
  case (Cons log logs)
  then show ?case
    by (simp only: scan_logs_Cons)
       (simp add: panics_bind_res handle_acl_event_no_panic split: option.split)
qed simp

lemma insert_tfhe_logs_no_panic: "\<not> panics (fst (insert_tfhe_logs L S logs D x))"
proof (induction logs arbitrary: D x)
  case (Cons log logs)
  have "\<not> panics (fst (insert_tfhe_event L D log x))" for log x
    by (auto simp: insert_tfhe_event_computation insert_computation_bytes_def
        insert_computation_inner_def panics_bind_res split: option.splits prod.splits)
  from this [of "update_allowed S log" x] Cons.IH show ?case
    by (auto split: prod.splits res.splits)
qed simp

lemma no_retry_no_panic: "\<not> panics (fst (db_insert_block_no_retry L A acl tfhe block D x))"
proof -
  let ?scan = "bind_res (statement id x) (scan_logs A acl tfhe D (bk_logs block) {} [])"
  have "\<not> panics ?scan" by (simp add: panics_bind_res scan_logs_no_panic)
  then show ?thesis
  proof (cases ?scan)
    case (Ok a)
    obtain S ls x1 where a: "a = (S, ls, x1)" by (cases a)
    obtain r D' where i: "insert_tfhe_logs L S ls D x1 = (r, D')" by fastforce
    then have "\<not> panics r" using insert_tfhe_logs_no_panic [of L S ls D x1] by simp
    then show ?thesis
      by (simp add: db_insert_block_no_retry_def Ok a i mark_block_as_valid_def panics_bind_res)
  qed (simp_all add: db_insert_block_no_retry_def)
qed

section \<open>Atomicity\<close>

text \<open>What the server makes of attempt \<open>i\<close>.\<close>

definition attempt :: "sqlx_error option list list \<Rightarrow> nat \<Rightarrow> sqlx_error option list" where
  "attempt faults i = (if i < length faults then faults ! i else [])"

definition can_commit :: "abi \<Rightarrow> bytes option \<Rightarrow> bytes option \<Rightarrow> block_logs \<Rightarrow> nat
    \<Rightarrow> sqlx_error option list list \<Rightarrow> bool" where
  "can_commit A acl tfhe block retries faults \<longleftrightarrow>
     list_all (\<lambda>log. lt_transaction_hash log \<noteq> None)
       (filter is_computation (tfhe_events A acl tfhe (bk_logs block)))
   \<and> list_ex (\<lambda>i. set (attempt faults i) \<subseteq> {None}) [0..<Suc retries]"

lemma attempt_tl: "attempt (tl faults) i = attempt faults (Suc i)"
  by (cases faults) (simp_all add: attempt_def)

lemma attempt_0: "attempt faults 0 = (case faults of [] \<Rightarrow> [] | f # _ \<Rightarrow> f)"
  by (cases faults) (simp_all add: attempt_def)

lemma list_ex_Suc: "list_ex P [0..<Suc n] \<longleftrightarrow> P 0 \<or> list_ex (\<lambda>i. P (Suc i)) [0..<n]"
proof -
  have "[0..<Suc n] = 0 # map Suc [0..<n]" by (simp only: map_Suc_upt upt_conv_Cons zero_less_Suc)
  moreover have "list_ex P (0 # map Suc xs) \<longleftrightarrow> P 0 \<or> list_ex (\<lambda>i. P (Suc i)) xs" for xs
    by (auto simp: list_ex_iff)
  ultimately show ?thesis by (simp only:)
qed

lemma db_insert_block_outcome:
  "case db_insert_block retries faults L A acl tfhe block now D t of
     (Ok _, t', D') \<Rightarrow>
       \<exists>buckets. length buckets = length (block_computations A acl tfhe (bk_logs block))
         \<and> t' = block_effect A acl tfhe block now (hd_tenant_id D) (hd_chain_id D) buckets t
   | (Err _, t', D') \<Rightarrow> t' = t \<and> \<not> can_commit A acl tfhe block retries faults
   | (Panic _, t', D') \<Rightarrow> False"
proof (induction retries arbitrary: faults D)
  case 0
  let ?x = "\<lparr> x_tables = t, x_now = now, x_faults = attempt faults 0 \<rparr>"
  obtain r D' where r: "db_insert_block_no_retry L A acl tfhe block D ?x = (r, D')" by fastforce
  show ?case
    using r no_retry_ok [of L A acl tfhe block D ?x] no_retry_no_panic [of L A acl tfhe block D ?x]
      no_retry_fault_free [of ?x A acl tfhe block L D]
    by (cases r) (auto simp: can_commit_def attempt_0 [symmetric] list_ex_Suc simp del: upt_Suc)
next
  case (Suc n)
  let ?x = "\<lparr> x_tables = t, x_now = now, x_faults = attempt faults 0 \<rparr>"
  obtain r D' where r: "db_insert_block_no_retry L A acl tfhe block D ?x = (r, D')" by fastforce
  show ?case
  proof (cases r)
    case (Ok t')
    then show ?thesis using r no_retry_ok [of L A acl tfhe block D ?x] by (simp add: attempt_0)
  next
    case (Panic p)
    then show ?thesis using r no_retry_no_panic [of L A acl tfhe block D ?x] by simp
  next
    case (Err e)
    have host: "same_host D D'" by (rule no_retry_host [OF r])
    have "can_commit A acl tfhe block n (tl faults)" if "can_commit A acl tfhe block (Suc n) faults"
      using that r Err no_retry_fault_free [of ?x A acl tfhe block L D]
      by (auto simp: can_commit_def list_ex_Suc [of _ "Suc n"] attempt_tl simp del: upt_Suc)
    with Suc.IH [of D' "tl faults"] r Err host show ?thesis
      by (auto simp: attempt_0 split: prod.splits res.splits)
  qed
qed

text \<open>
  C20. The insertion of a block is atomic and is retried ten times. When it succeeds the tables hold
  exactly the effect of the block's events: every allowed handle of an ACL event, a computation for
  every event of the executor contract with its operands, allowed when some event of the block
  allows its result, and the block itself, each added only where its key is new. When it fails the
  tables are what they were, and then every attempt had a failing statement or a computation
  without a transaction hash. It never panics.
\<close>

theorem block_insertion_atomic:
  "case db_insert_block BLOCK_RETRIES faults L A acl tfhe block now D t of
     (Ok _, t', D') \<Rightarrow>
       \<exists>buckets. length buckets = length (block_computations A acl tfhe (bk_logs block))
         \<and> t' = block_effect A acl tfhe block now (hd_tenant_id D) (hd_chain_id D) buckets t
   | (Err _, t', D') \<Rightarrow> t' = t \<and> \<not> can_commit A acl tfhe block BLOCK_RETRIES faults
   | (Panic _, t', D') \<Rightarrow> False"
  by (rule db_insert_block_outcome)

section \<open>Replays\<close>

lemma fold_add_computation:
  "fold add_computation rs t =
     t\<lparr>t_computations := fold (insert_new computation_key) rs (t_computations t)\<rparr>"
  by (induction rs arbitrary: t) (simp_all add: add_computation_def)

lemma fold_add_allowed:
  "fold add_allowed rs t = t\<lparr>t_allowed := fold (insert_new allowed_key) rs (t_allowed t)\<rparr>"
  by (induction rs arbitrary: t) (simp_all add: add_allowed_def)

lemma fold_add_pbs: "fold add_pbs rs t = t\<lparr>t_pbs := fold (insert_new pbs_key) rs (t_pbs t)\<rparr>"
  by (induction rs arbitrary: t) (simp_all add: add_pbs_def)

lemma fold_acl_effect:
  "fold (acl_effect A tenant) es t =
     t\<lparr>t_allowed := fold (insert_new allowed_key) (concat (map (acl_allowed_rows A tenant) es)) (t_allowed t),
       t_pbs := fold (insert_new pbs_key) (concat (map (acl_pbs_rows tenant) es)) (t_pbs t)\<rparr>"
  by (induction es arbitrary: t) (simp_all add: acl_effect_def fold_add_allowed fold_add_pbs fold_append)

lemma block_effect_tables:
  "block_effect A acl tfhe block now tenant chain buckets t =
     t\<lparr>t_computations := fold (insert_new computation_key)
           (map2 (computation_of_log tenant now) (block_computations A acl tfhe (bk_logs block)) buckets)
           (t_computations t),
       t_allowed := fold (insert_new allowed_key)
           (concat (map (acl_allowed_rows A tenant) (acl_events A acl (bk_logs block)))) (t_allowed t),
       t_pbs := fold (insert_new pbs_key)
           (concat (map (acl_pbs_rows tenant) (acl_events A acl (bk_logs block)))) (t_pbs t),
       t_blocks := insert_new block_key
           \<lparr> bl_chain_id = chain, bl_block_hash = bs_hash (bk_summary block),
             bl_block_number = bs_number (bk_summary block) \<rparr> (t_blocks t)\<rparr>"
  by (simp add: block_effect_def fold_acl_effect fold_add_computation add_block_row_def)

definition log_key :: "i32 \<Rightarrow> log_tfhe \<Rightarrow> i32 \<times> bytes \<times> bytes" where
  "log_key tenant log = computation_key (computation_of_log tenant 0 log [])"

lemma computation_key_of_log: "computation_key (computation_of_log tenant now log b) = log_key tenant log"
  by (cases "event_computation (lt_event log)")
     (auto simp: computation_of_log_def computation_key_def log_key_def)

lemma keys_of_logs:
  "length bs = length ls \<Longrightarrow>
   map computation_key (map2 (computation_of_log tenant now) ls bs) = map (log_key tenant) ls"
  by (induction ls bs rule: list_induct2') (simp_all add: computation_key_of_log)

lemma db_insert_block_host:
  "db_insert_block n faults L A acl tfhe block now D t = (r, t1, D1) \<Longrightarrow> same_host D D1"
proof (induction n arbitrary: faults D)
  case 0
  then show ?case by (auto split: prod.splits res.splits dest: no_retry_host)
next
  case (Suc n)
  obtain r' D' where r: "db_insert_block_no_retry L A acl tfhe block D
      \<lparr> x_tables = t, x_now = now, x_faults = (case faults of [] \<Rightarrow> [] | f # _ \<Rightarrow> f) \<rparr> = (r', D')"
    by fastforce
  have host: "same_host D D'" by (rule no_retry_host [OF r])
  show ?case
  proof (cases r')
    case (Err e)
    then have "db_insert_block n (tl faults) L A acl tfhe block now D' t = (r, t1, D1)"
      using Suc.prems r by simp
    from Suc.IH [OF this] host show ?thesis by simp
  qed (use Suc.prems r host in auto)
qed

lemma block_effect_replay:
  assumes "length bs = length (block_computations A acl tfhe (bk_logs block))"
    and "length bs' = length (block_computations A acl tfhe (bk_logs block))"
  shows "block_effect A acl tfhe block now' tenant chain bs' (block_effect A acl tfhe block now tenant chain bs t)
       = block_effect A acl tfhe block now tenant chain bs t"
proof -
  let ?ls = "block_computations A acl tfhe (bk_logs block)"
  let ?rs = "map2 (computation_of_log tenant now) ?ls bs"
  let ?rs' = "map2 (computation_of_log tenant now') ?ls bs'"
  have "computation_key ` set ?rs' = computation_key ` set ?rs"
    using arg_cong [OF keys_of_logs [OF assms(1), of tenant now], of set]
      arg_cong [OF keys_of_logs [OF assms(2), of tenant now'], of set]
    by (simp only: list.set_map)
  then have "fold (insert_new computation_key) ?rs' (fold (insert_new computation_key) ?rs ts)
      = fold (insert_new computation_key) ?rs ts" for ts
    by (intro computations.fold_known) (simp only: computations.fold_keys, blast)
  moreover have "insert_new block_key b (insert_new block_key b ts) = insert_new block_key b ts" for b ts
    by (rule blocks.ins_present) (simp add: blocks.ins_keys)
  ultimately show ?thesis
    by (simp add: block_effect_tables allowed.fold_replay pbs.fold_replay)
qed

text \<open>
  C21. A block is inserted at most once: inserting it again, at another time and whatever the cache
  of buckets has become, succeeds without changing a table; and what was in the tables before is
  never changed, rows are only appended.
\<close>

theorem block_replay:
  assumes "db_insert_block BLOCK_RETRIES faults L A acl tfhe block now D t = (Ok (), t1, D1)"
    and "db_insert_block BLOCK_RETRIES faults' L A acl tfhe block now' (D1\<lparr>hd_cache := cache\<rparr>) t1 = (Ok (), t2, D2)"
  shows "t2 = t1 \<and> prefix (t_computations t) (t_computations t1) \<and> prefix (t_allowed t) (t_allowed t1)
       \<and> prefix (t_pbs t) (t_pbs t1) \<and> prefix (t_blocks t) (t_blocks t1)"
proof -
  let ?n = "length (block_computations A acl tfhe (bk_logs block))"
  obtain bs where bs: "length bs = ?n"
    "t1 = block_effect A acl tfhe block now (hd_tenant_id D) (hd_chain_id D) bs t"
    using db_insert_block_outcome [where retries = BLOCK_RETRIES and faults = faults and L = L and A = A
        and acl = acl and tfhe = tfhe and block = block and now = now and D = D and t = t] assms(1)
    by auto
  obtain bs' where bs': "length bs' = ?n"
    "t2 = block_effect A acl tfhe block now' (hd_tenant_id D) (hd_chain_id D) bs' t1"
    using db_insert_block_outcome [where retries = BLOCK_RETRIES and faults = faults' and L = L and A = A
        and acl = acl and tfhe = tfhe and block = block and now = now' and D = "D1\<lparr>hd_cache := cache\<rparr>"
        and t = t1] assms(2) db_insert_block_host [OF assms(1)]
    by auto
  have "t2 = t1" unfolding bs'(2) unfolding bs(2) by (rule block_effect_replay [OF bs(1) bs'(1)])
  moreover have "prefix (t_computations t) (t_computations t1)" "prefix (t_allowed t) (t_allowed t1)"
    "prefix (t_pbs t) (t_pbs t1)" "prefix (t_blocks t) (t_blocks t1)"
    unfolding bs(2) block_effect_tables
    by (simp_all add: computations.fold_prefix allowed.fold_prefix pbs.fold_prefix blocks.ins_prefix)
  ultimately show ?thesis by blast
qed

section \<open>Buckets\<close>

text \<open>
  What the crate documents: the entries in the order of their last use, the newest first. A lookup
  with \<open>get\<close> moves the entry to the front, \<open>peek\<close> leaves the order, an insertion puts its entry in
  front and drops what exceeds the capacity.
\<close>

definition touch :: "handle \<Rightarrow> handle \<Rightarrow> (handle \<times> handle) list \<Rightarrow> (handle \<times> handle) list" where
  "touch h v es = (h, v) # filter (\<lambda>e. fst e \<noteq> h) es"

definition lru_ok :: "nat \<Rightarrow> 'k lru \<Rightarrow> ('k \<Rightarrow> (handle \<times> handle) list) \<Rightarrow> bool" where
  "lru_ok cap L entries \<longleftrightarrow>
     (\<forall>c h. fst (lru_get L c h) = map_of (entries c) h
        \<and> entries (snd (lru_get L c h)) =
            (case map_of (entries c) h of Some v \<Rightarrow> touch h v (entries c) | None \<Rightarrow> entries c)
        \<and> lru_peek L c h = map_of (entries c) h)
   \<and> (\<forall>c h v. entries (lru_put L c h v) = take cap (touch h v (entries c)))"

text \<open>The cache the crate implements, as a list.\<close>

definition list_lru :: "nat \<Rightarrow> (handle \<times> handle) list lru" where
  "list_lru cap =
     \<lparr> lru_get = (\<lambda>c h. (map_of c h, case map_of c h of Some v \<Rightarrow> touch h v c | None \<Rightarrow> c)),
       lru_peek = map_of,
       lru_put = (\<lambda>c h v. take cap (touch h v c)) \<rparr>"

lemma list_lru_ok: "lru_ok cap (list_lru cap) id"
  by (simp add: lru_ok_def list_lru_def cong: option.case_cong)

text \<open>The buckets of a sequence of computations of one transaction.\<close>

fun assign_buckets :: "'k lru \<Rightarrow> bytes \<Rightarrow> (handle \<times> handle list) list \<Rightarrow> 'k \<Rightarrow> handle list" where
  "assign_buckets L txh [] c = []"
| "assign_buckets L txh ((output, deps) # cs) c =
     (case sort_computation_into_bucket L output deps (Some txh) c of
        (b, c') \<Rightarrow> b # assign_buckets L txh cs c')"

definition first_bucket :: "(handle \<times> handle) list \<Rightarrow> bytes \<Rightarrow> handle \<Rightarrow> handle list \<Rightarrow> handle" where
  "first_bucket es txh output deps =
     (case map_of es txh of
        Some b \<Rightarrow> b
      | None \<Rightarrow>
          (case find (\<lambda>d. map_of es d \<noteq> None) deps of
             Some d \<Rightarrow> the (map_of es d)
           | None \<Rightarrow> output))"

lemma known_dependency_find:
  assumes "lru_ok cap L entries"
  shows "known_dependency L c deps =
           map_option (\<lambda>d. the (map_of (entries c) d)) (find (\<lambda>d. map_of (entries c) d \<noteq> None) deps)"
proof (induction deps)
  case (Cons d ds)
  have "lru_peek L c d = map_of (entries c) d" using assms by (simp add: lru_ok_def)
  with Cons show ?case by (cases "map_of (entries c) d") simp_all
qed simp

lemma touch_front: "map_of (touch h v es) h = Some v"
  by (simp add: touch_def)

lemma map_of_touch_other: "k \<noteq> h \<Longrightarrow> map_of (touch h v es) k = map_of es k"
proof -
  assume k: "k \<noteq> h"
  have "map_of (filter (\<lambda>e. fst e \<noteq> h) es) k = map_of es k"
    using k by (induction es) auto
  with k show ?thesis by (simp add: touch_def)
qed

text \<open>Two entries fit, so the entry used last before an insertion survives it.\<close>

lemma second_survives:
  assumes "2 \<le> cap"
  shows "map_of (take cap (touch output b (touch txh b es))) txh = Some b"
proof -
  obtain n where n: "cap = Suc (Suc n)" using assms by (metis add_2_eq_Suc le_Suc_ex)
  show ?thesis by (cases "txh = output") (simp_all add: n touch_def)
qed

lemma lru_get_entries:
  "lru_ok cap L entries \<Longrightarrow> lru_get L c h = (g, c1) \<Longrightarrow>
   g = map_of (entries c) h
   \<and> entries c1 = (case map_of (entries c) h of Some v \<Rightarrow> touch h v (entries c) | None \<Rightarrow> entries c)"
  unfolding lru_ok_def by (metis fst_conv snd_conv)

lemma lru_put_entries:
  "lru_ok cap L entries \<Longrightarrow> entries (lru_put L c h v) = take cap (touch h v (entries c))"
  by (simp add: lru_ok_def)

lemma bucket_step:
  assumes ok: "lru_ok cap L entries" and cap: "2 \<le> cap"
    and b: "sort_computation_into_bucket L output deps (Some txh) c = (b, c')"
  shows "b = first_bucket (entries c) txh output deps \<and> map_of (entries c') txh = Some b"
proof -
  obtain g c1 where g: "lru_get L c txh = (g, c1)" by fastforce
  note e = lru_get_entries [OF ok g]
  show ?thesis
  proof (cases "map_of (entries c) txh")
    case (Some ce)
    with e g b have "b = ce" "c' = lru_put L c1 output ce" "entries c1 = touch txh ce (entries c)"
      by (auto simp: sort_computation_into_bucket_def)
    with Some show ?thesis
      by (simp add: first_bucket_def lru_put_entries [OF ok] second_survives [OF cap])
  next
    case None
    with e g have c1: "entries c1 = entries c" "g = None" by simp_all
    have "b = first_bucket (entries c) txh output deps"
      using None b g c1
      by (auto simp: sort_computation_into_bucket_def link_or_new_def Let_def first_bucket_def
          known_dependency_find [OF ok] split: option.splits)
    moreover obtain k where "c' = lru_put L k txh b"
      using b g c1
      by (auto simp: sort_computation_into_bucket_def link_or_new_def put_transaction_def Let_def)
    moreover obtain n where "cap = Suc n" using cap by (cases cap) simp_all
    ultimately show ?thesis by (simp add: lru_put_entries [OF ok] touch_def)
  qed
qed

text \<open>
  C22. The computations of a transaction that are inserted one after the other share a bucket: the
  transaction's if it is in the cache, otherwise that of the first dependency of the first
  computation with one, otherwise a new one named by the first result. This holds whatever size
  is configured and whatever the cache evicts in between, because its capacity is at least 16.
\<close>

theorem transaction_shares_bucket:
  assumes "lru_ok (bucket_cache_capacity cache_size) L entries"
  shows "assign_buckets L txh ((output, deps) # cs) c =
           replicate (Suc (length cs)) (first_bucket (entries c) txh output deps)"
proof -
  have cap: "2 \<le> bucket_cache_capacity cache_size"
    by (simp add: bucket_cache_capacity_def MINIMUM_BUCKET_CACHE_SIZE_def max_def word_le_nat_alt)
  note bucket_step = bucket_step [OF assms cap]
  have known: "assign_buckets L txh cs c = replicate (length cs) b"
    if "map_of (entries c) txh = Some b" for c b
    using that
  proof (induction cs arbitrary: c)
    case (Cons d cs)
    obtain out ds where d: "d = (out, ds)" by fastforce
    obtain b' c' where s: "sort_computation_into_bucket L out ds (Some txh) c = (b', c')" by fastforce
    from bucket_step [OF s] Cons.prems have "b' = b" "map_of (entries c') txh = Some b"
      by (simp_all add: first_bucket_def)
    with Cons.IH d s show ?case by simp
  qed simp
  obtain b c' where s: "sort_computation_into_bucket L output deps (Some txh) c = (b, c')" by fastforce
  from bucket_step [OF s] known [of c' b] s show ?thesis by simp
qed

theorem transaction_shares_bucket_witness:
  "assign_buckets (list_lru (bucket_cache_capacity 0)) [9] [([1], [[7]]), ([2], [[1]]), ([3], [[8]]), ([4], [])] [([7], [5])]
   = [[5], [5], [5], [5]]"
  using transaction_shares_bucket [OF list_lru_ok [of "bucket_cache_capacity 0"], of "[9]" "[1]" "[[7]]"
      "[([2], [[1]]), ([3], [[8]]), ([4], [])]" "[([7], [5])]"]
  by (simp add: first_bucket_def numeral_3_eq_3)

section \<open>A concrete block\<close>

text \<open>An interface whose logs carry a tag: 0 is an addition, 1 an access right, others no event.\<close>

definition example_abi :: abi where
  "example_abi =
     \<lparr> decode_acl = (\<lambda>log. if rl_data log = [1] then Some (AAllowed [5] [3]) else None),
       decode_tfhe = (\<lambda>log. if rl_data log = [0] then Some (EFheAdd [1] [2] 0 [3]) else None),
       address_to_string = (\<lambda>_. ''account'') \<rparr>"

definition example_log :: "bytes \<Rightarrow> raw_log" where
  "example_log d =
     \<lparr> rl_address = [7], rl_data = d, rl_transaction_hash = Some [9], rl_block_number = Some 4,
       rl_block_hash = None, rl_block_timestamp = None \<rparr>"

definition example_block :: block_logs where
  "example_block =
     \<lparr> bk_logs = [example_log [0], example_log [1], example_log [2]],
       bk_summary = \<lparr> bs_number = 4, bs_hash = [4], bs_parent_hash = [3], bs_timestamp = 0 \<rparr>,
       bk_catchup = False \<rparr>"

definition example_host :: "(handle \<times> handle) list host_db" where
  "example_host = \<lparr> hd_tenant_id = 1, hd_chain_id = 2, hd_cache = [] \<rparr>"

definition no_tables :: tables where
  "no_tables =
     \<lparr> t_computations = [], t_ciphertexts = [], t_allowed = [], t_pbs = [], t_blocks = [], t_blobs = [] \<rparr>"

text \<open>The first attempt fails on the insertion of the computation, the second succeeds.\<close>

definition example_run where
  "example_run now D t =
     db_insert_block BLOCK_RETRIES [[None, None, None, Some SqlIo]] (list_lru 16) example_abi None (Some [7])
       example_block now D t"

lemma example_run_twice:
  "\<exists>t1 D1 D2. example_run 0 example_host no_tables = (Ok (), t1, D1)
     \<and> example_run 1 (D1\<lparr>hd_cache := []\<rparr>) t1 = (Ok (), t1, D2) \<and> t_computations t1 \<noteq> []"
  by (simp add: example_run_def BLOCK_RETRIES_def eval_nat_numeral db_insert_block_no_retry_def example_block_def
      example_log_def example_abi_def statement_def handle_acl_event_def insert_allowed_handle_def
      insert_pbs_computations_def insert_pbs_computation_def allowed_entry_def update_allowed_def
      tfhe_result_handle_def insert_tfhe_event_def insert_binary_def insert_computation_def
      insert_computation_inner_def sort_computation_into_bucket_def link_or_new_def put_transaction_def
      list_lru_def touch_def mark_block_as_valid_def insert_new_def computation_key_def allowed_key_def
      pbs_key_def block_key_def example_host_def no_tables_def Let_def)

theorem block_replay_witness:
  "\<exists>t1 D1 t2 D2. example_run 0 example_host no_tables = (Ok (), t1, D1)
     \<and> example_run 1 (D1\<lparr>hd_cache := []\<rparr>) t1 = (Ok (), t2, D2) \<and> t2 = t1 \<and> t_computations t1 \<noteq> []"
proof -
  obtain t1 D1 t2 D2 where r: "example_run 0 example_host no_tables = (Ok (), t1, D1)"
    "example_run 1 (D1\<lparr>hd_cache := []\<rparr>) t1 = (Ok (), t2, D2)" "t_computations t1 \<noteq> []"
    using example_run_twice by blast
  have "t2 = t1"
    using block_replay [OF r(1) [unfolded example_run_def] r(2) [unfolded example_run_def]] by (rule conjunct1)
  with r show ?thesis by blast
qed

end
