(* ===== verification/WorkCycle.thy ===== *)
theory WorkCycle
  imports Tables ComponentBuild Scheduler OperandCheck
begin

text \<open>
  One cycle of the worker (\<open>tfhe-worker/src/tfhe_worker.rs\<close>): the computations of the transactions
  with pending work are read and turned into components, the graph of each tenant is built and
  given its inputs, and what the scheduler computed is written back.
\<close>

section \<open>Reading the work\<close>

text \<open>
  The errors of a cycle. An \<open>expect\<close> on an unknown operation code is a panic.
\<close>

datatype cycle_error =
    CycleDb sqlx_error
  | CycleCoprocessor coprocessor_error
  | CycleScheduler scheduler_error

definition of_db :: "(sqlx_error, 'a) res \<Rightarrow> (cycle_error, 'a) res" where
  "of_db r = map_err CycleDb r"

text \<open>
  The loop over the dependencies of a row: the inputs of the operation, and what the operand check
  is given. The second dependency of a scalar operation is a scalar, and all of an operation with
  more than one.
\<close>

fun read_operands ::
  "bool \<Rightarrow> fhe_op \<Rightarrow> nat \<Rightarrow> bytes list \<Rightarrow> 'c task_input list \<times> bytes list \<times> bool list" where
  "read_operands is_scalar fhe_op idx [] = ([], [], [])"
| "read_operands is_scalar fhe_op idx (dh # dhs) =
     (let is_operand_scalar = (is_scalar \<and> idx = 1 \<or> does_have_more_than_one_scalar fhe_op);
          (inputs, this_comp_inputs, is_scalar_op_vec) = read_operands is_scalar fhe_op (Suc idx) dhs
      in ((if is_operand_scalar then TaskValue (Scalar dh) else TaskDependence dh) # inputs,
          dh # this_comp_inputs, is_operand_scalar # is_scalar_op_vec))"

definition work_operation :: "computation_row \<Rightarrow> (cycle_error, 'c dfg_op) res" where
  "work_operation w =
     (case op_try_from_i16 (cr_fhe_operation w) of
        Ok fhe_op \<Rightarrow>
          (let (inputs, this_comp_inputs, is_scalar_op_vec) =
                 read_operands (cr_is_scalar w) fhe_op 0 (cr_dependencies w)
           in bind_res
                (map_err (\<lambda>e. CycleCoprocessor (OfFhevm e))
                   (check_fhe_operand_types (i16_as_i32 (cr_fhe_operation w)) this_comp_inputs is_scalar_op_vec))
                (\<lambda>_. Ok \<lparr> output_handle = cr_output_handle w, fhe_operation = fhe_op,
                           dfg_inputs = inputs, dfg_is_allowed = cr_is_allowed w \<rparr>))
      | Err _ \<Rightarrow> Panic ExpectFailed
      | Panic p \<Rightarrow> Panic p)"

fun work_operations :: "computation_row list \<Rightarrow> (cycle_error, 'c dfg_op list) res" where
  "work_operations [] = Ok []"
| "work_operations (w # ws) =
     bind_res (work_operation w) (\<lambda>op. bind_res (work_operations ws) (\<lambda>ops. Ok (op # ops)))"

text \<open>
  The order in which the two maps of groups are iterated, as functions of their keys.
\<close>

record group_order =
  go_tenants :: "i32 list \<Rightarrow> i32 list"
  go_transactions :: "bytes list \<Rightarrow> bytes list"

text \<open>\<open>None\<close>: the fuel of the construction of the components.\<close>

fun build_transactions ::
  "nat \<Rightarrow> dag_lib \<Rightarrow> computation_row list \<Rightarrow> bytes list
     \<Rightarrow> (cycle_error, 'c component list \<times> (handle \<times> handle) list) res option" where
  "build_transactions k L work [] = Some (Ok ([], []))"
| "build_transactions k L work (transaction_id # ts) =
     (case work_operations (filter (\<lambda>w. cr_transaction_id w = transaction_id) work) of
        Ok ops \<Rightarrow>
          (case build_component_nodes k L ops transaction_id of
             None \<Rightarrow> None
           | Some (Ok (components, unneeded)) \<Rightarrow>
               map_option
                 (\<lambda>r. bind_res r (\<lambda>(cs, us). Ok (components @ cs, unneeded @ us)))
                 (build_transactions k L work ts)
           | Some (Err e) \<Rightarrow> Some (Err (CycleScheduler e))
           | Some (Panic p) \<Rightarrow> Some (Panic p))
      | Err e \<Rightarrow> Some (Err e)
      | Panic p \<Rightarrow> Some (Panic p))"

fun build_tenants ::
  "nat \<Rightarrow> dag_lib \<Rightarrow> group_order \<Rightarrow> computation_row list \<Rightarrow> i32 list
     \<Rightarrow> (cycle_error, (i32 \<times> 'c component list) list \<times> (handle \<times> handle) list) res option" where
  "build_tenants k L G work [] = Some (Ok ([], []))"
| "build_tenants k L G work (tenant_id # tenants) =
     (let mine = filter (\<lambda>w. cr_tenant_id w = tenant_id) work in
      case build_transactions k L mine (go_transactions G (remdups (map cr_transaction_id mine))) of
        None \<Rightarrow> None
      | Some (Ok (components, unneeded)) \<Rightarrow>
          map_option
            (\<lambda>r. bind_res r (\<lambda>(txs, us). Ok ((tenant_id, components) # txs, unneeded @ us)))
            (build_tenants k L G work tenants)
      | Some (Err e) \<Rightarrow> Some (Err e)
      | Some (Panic p) \<Rightarrow> Some (Panic p))"

text \<open>
  The query: the transactions of the first pending allowed computations in schedule order (those of
  equal order as the table has them), and all computations of these transactions that no other
  worker has locked.
\<close>

definition is_pending :: "computation_row \<Rightarrow> bool" where
  "is_pending w \<longleftrightarrow> \<not> cr_is_completed w \<and> \<not> cr_is_error w \<and> cr_is_allowed w"

definition selected_transactions :: "nat \<Rightarrow> tables \<Rightarrow> bytes list" where
  "selected_transactions batch_size t =
     map cr_transaction_id (take batch_size (sort_key cr_schedule_order (filter is_pending (t_computations t))))"

definition the_work :: "nat \<Rightarrow> (computation_row \<Rightarrow> bool) \<Rightarrow> tables \<Rightarrow> computation_row list" where
  "the_work batch_size locked t =
     filter (\<lambda>w. cr_transaction_id w \<in> set (selected_transactions batch_size t) \<and> \<not> locked w)
       (t_computations t)"

definition query_for_work ::
  "nat \<Rightarrow> (computation_row \<Rightarrow> bool) \<Rightarrow> nat \<Rightarrow> dag_lib \<Rightarrow> group_order \<Rightarrow> trx
     \<Rightarrow> (cycle_error, trx \<times> (i32 \<times> 'c component list) list \<times> (handle \<times> handle) list) res option" where
  "query_for_work batch_size locked k L G x =
     (case of_db (statement id x) of
        Ok x' \<Rightarrow>
          (let work = the_work batch_size locked (x_tables x') in
           if work = [] then Some (Ok (x', [], []))
           else
             map_option (\<lambda>r. bind_res r (\<lambda>(txs, us). Ok (x', txs, us)))
               (build_tenants k L G work (go_tenants G (remdups (map cr_tenant_id work)))))
      | Err e \<Rightarrow> Some (Err e)
      | Panic p \<Rightarrow> Some (Panic p))"

section \<open>The graph of a tenant and its inputs\<close>

text \<open>The rows of the handles, indexed by handle: a later row replaces an earlier one.\<close>

definition query_ciphertexts :: "bytes set \<Rightarrow> i32 \<Rightarrow> tables \<Rightarrow> (handle \<rightharpoonup> i16 \<times> bytes)" where
  "query_ciphertexts cts_to_query tenant_id t =
     foldl (\<lambda>m r. m(ct_handle r \<mapsto> (ct_type r, ct_ciphertext r))) Map.empty
       (filter (\<lambda>r. ct_tenant_id r = tenant_id \<and> ct_handle r \<in> cts_to_query) (t_ciphertexts t))"

fun add_inputs ::
  "(handle \<times> i16 \<times> bytes) list \<Rightarrow> 'c component_graph \<Rightarrow> (scheduler_error, 'c component_graph) res" where
  "add_inputs [] g = Ok g"
| "add_inputs ((handle, ty, ct) # cts) g =
     bind_res (add_input g handle (TxCompressed ty ct True)) (add_inputs cts)"

text \<open>
  \<open>build_transaction_graph_and_execute\<close> up to the scheduler, with the order in which the map of the
  ciphertexts is iterated.
\<close>

definition build_transaction_graph ::
  "cycle_check \<Rightarrow> ((handle \<rightharpoonup> i16 \<times> bytes) \<Rightarrow> (handle \<times> i16 \<times> bytes) list) \<Rightarrow> i32
     \<Rightarrow> 'c component list \<Rightarrow> trx \<Rightarrow> (cycle_error, trx \<times> 'c component_graph) res" where
  "build_transaction_graph would_cycle iter tenant_id tenant_txs x =
     bind_res (map_err CycleScheduler (build_graph would_cycle tenant_txs)) (\<lambda>g.
     bind_res (of_db (statement id x)) (\<lambda>x'.
     bind_res
       (map_err CycleScheduler
          (add_inputs (iter (query_ciphertexts (dom (cg_needed g)) tenant_id (x_tables x'))) g)) (\<lambda>g'.
       Ok (x', g'))))"

section \<open>Writing the results\<close>

definition current_ciphertext_version :: i16 where
  "current_ciphertext_version = 0"

text \<open>
  The error of a result as the worker sees it, and what is left in the result: the engine's error
  is taken out of it, so that \<open>BadInputs\<close> stays behind. An error that is neither the engine's nor
  the scheduler's counts as one of the scheduler.
\<close>

fun classify_error :: "work_error \<Rightarrow> coprocessor_error \<times> work_error" where
  "classify_error (WFhevm e) = (OfFhevm e, WFhevm BadInputs)"
| "classify_error (WScheduler e) = (OfScheduler e, WScheduler e)"
| "classify_error (WLib e) = (OfScheduler SchedulerFailure, WLib e)"

definition matches_row :: "i32 \<Rightarrow> (handle \<times> handle) set \<Rightarrow> computation_row \<Rightarrow> bool" where
  "matches_row tenant_id keys r \<longleftrightarrow>
     cr_tenant_id r = tenant_id \<and> (cr_output_handle r, cr_transaction_id r) \<in> keys"

definition update_where ::
  "(computation_row \<Rightarrow> bool) \<Rightarrow> (computation_row \<Rightarrow> computation_row) \<Rightarrow> tables \<Rightarrow> tables" where
  "update_where P f t = t\<lparr>t_computations := map (\<lambda>r. if P r then f r else r) (t_computations t)\<rparr>"

definition set_computation_error :: "i32 \<Rightarrow> handle \<Rightarrow> handle \<Rightarrow> work_error \<Rightarrow> tables \<Rightarrow> tables" where
  "set_computation_error tenant_id handle transaction_id err =
     update_where (matches_row tenant_id {(handle, transaction_id)})
       (\<lambda>r. r\<lparr>cr_is_error := True, cr_error_message := Some err\<rparr>)"

text \<open>The loop over the results: the ciphertexts to insert and the uncomputable handles.\<close>

fun collect_results ::
  "i32 \<Rightarrow> dfg_tx_result list \<Rightarrow> ciphertext_row list \<Rightarrow> (handle \<times> handle) list \<Rightarrow> trx
     \<Rightarrow> (cycle_error, ciphertext_row list \<times> (handle \<times> handle) list \<times> trx) res" where
  "collect_results tenant_id [] cts_to_insert uncomputable x = Ok (cts_to_insert, uncomputable, x)"
| "collect_results tenant_id (result # results) cts_to_insert uncomputable x =
     (case txr_compressed result of
        Ok (db_type, db_bytes) \<Rightarrow>
          collect_results tenant_id results
            (cts_to_insert @
               [\<lparr> ct_tenant_id = tenant_id, ct_handle = txr_handle result, ct_ciphertext = db_bytes,
                  ct_version = current_ciphertext_version, ct_type = db_type,
                  ct_input_blob_hash = None, ct_input_blob_index = 0 \<rparr>])
            uncomputable x
      | Err err \<Rightarrow>
          (case classify_error err of
             (cerr, err') \<Rightarrow>
               if cerr = OfScheduler DataflowGraphError \<or> cerr = OfScheduler SchedulerFailure then
                 collect_results tenant_id results cts_to_insert uncomputable x
               else
                 bind_res
                   (of_db (statement
                      (set_computation_error tenant_id (txr_handle result) (txr_transaction_id result) err') x))
                   (collect_results tenant_id results cts_to_insert
                      (if cerr = OfScheduler MissingInputs
                       then uncomputable @ [(txr_handle result, txr_transaction_id result)]
                       else uncomputable)))
      | Panic p \<Rightarrow> Panic p)"

definition set_completed :: "i32 \<Rightarrow> (handle \<times> handle) list \<Rightarrow> tables \<Rightarrow> tables" where
  "set_completed tenant_id handles_to_update =
     update_where (matches_row tenant_id (set handles_to_update)) (\<lambda>r. r\<lparr>cr_is_completed := True\<rparr>)"

definition update_uncomputable_handles :: "i32 \<Rightarrow> nat \<Rightarrow> (handle \<times> handle) list \<Rightarrow> tables \<Rightarrow> tables" where
  "update_uncomputable_handles tenant_id now uncomputable =
     update_where (matches_row tenant_id (set uncomputable))
       (\<lambda>r. r\<lparr>cr_schedule_order := now + cr_uncomputable_counter r,
              cr_uncomputable_counter := min (cr_uncomputable_counter r * 2) 32000\<rparr>)"

definition insert_ciphertexts :: "ciphertext_row list \<Rightarrow> tables \<Rightarrow> tables" where
  "insert_ciphertexts cts t = t\<lparr>t_ciphertexts := fold (insert_new ciphertext_key) cts (t_ciphertexts t)\<rparr>"

text \<open>
  The insertion of the ciphertexts, the notification, the completed computations and the
  uncomputable ones are one statement each. The graph and the list of unneeded handles are emptied.
\<close>

definition upload_transaction_graph_results ::
  "i32 \<Rightarrow> 'c component_graph \<Rightarrow> (handle \<times> handle) list \<Rightarrow> trx \<Rightarrow> (cycle_error, trx) res" where
  "upload_transaction_graph_results tenant_id tx_graph unneeded_handles x =
     (let (graph_results, g1) = get_results tx_graph;
          (reported, g2) = get_handles g1;
          handles_to_update = reported @ unneeded_handles
      in bind_res (collect_results tenant_id graph_results [] [] x) (\<lambda>(cts_to_insert, uncomputable, x1).
         bind_res (of_db (statement (insert_ciphertexts cts_to_insert) x1)) (\<lambda>x2.
         bind_res (of_db (statement id x2)) (\<lambda>x3.
         bind_res (of_db (statement (set_completed tenant_id handles_to_update) x3)) (\<lambda>x4.
           of_db (statement (update_uncomputable_handles tenant_id (x_now x4) uncomputable) x4))))))"

section \<open>The cycle\<close>

text \<open>
  What the cycle calls outside this file: the graph crates, the encryption engine with the tenant's
  keys, the iteration orders, and the fuel of the two recursions.
\<close>

record ('c, 'x, 's) worker =
  wk_dag :: dag_lib
  wk_engine :: "i32 \<Rightarrow> ('c, 'x, 's) engine"
  wk_cycle_check :: cycle_check
  wk_view :: "'c component_graph \<Rightarrow> gview"
  wk_strategy :: partition_strategy
  wk_groups :: group_order
  wk_iter :: "(handle \<rightharpoonup> i16 \<times> bytes) \<Rightarrow> (handle \<times> i16 \<times> bytes) list"
  wk_build_fuel :: nat
  wk_mark_fuel :: nat

text \<open>
  The work of one tenant, over every run of the scheduler that ends with no task left. A graph
  without components has nothing to schedule, and the loop ends at once.
\<close>

inductive tenant_step ::
  "('c, 'x, 's) worker \<Rightarrow> i32 \<Rightarrow> 'c component list \<Rightarrow> (handle \<times> handle) list \<Rightarrow> trx \<Rightarrow> trx \<Rightarrow> bool"
  for W tenant_id tenant_txs unneeded_handles x where
  tenant_done:
    "\<lbrakk> build_transaction_graph (wk_cycle_check W) (wk_iter W) tenant_id tenant_txs x = Ok (x1, g);
       make_execution_graph (wk_strategy W) (wk_cycle_check W) (wk_view W g) = Ok eg;
       start_schedule eg g = Ok s0;
       joins (wk_engine W tenant_id) (wk_mark_fuel W) (out_edges (wk_view W g)) eg s0 js s;
       sc_running s = [];
       upload_transaction_graph_results tenant_id (sc_graph s) unneeded_handles x1 = Ok x2 \<rbrakk>
     \<Longrightarrow> tenant_step W tenant_id tenant_txs unneeded_handles x x2"

text \<open>
  The tenants one after the other. The unneeded handles of all tenants are appended to the handles
  of the first one and the list is emptied.
\<close>

inductive tenants_run ::
  "('c, 'x, 's) worker \<Rightarrow> (i32 \<times> 'c component list) list \<Rightarrow> (handle \<times> handle) list \<Rightarrow> trx \<Rightarrow> trx \<Rightarrow> bool"
  for W where
  tenants_done: "tenants_run W [] unneeded_handles x x"
| tenants_next:
    "\<lbrakk> tenant_step W tenant_id tenant_txs unneeded_handles x x1; tenants_run W transactions [] x1 x2 \<rbrakk>
     \<Longrightarrow> tenants_run W ((tenant_id, tenant_txs) # transactions) unneeded_handles x x2"

inductive_cases tenants_run_NilE: "tenants_run W [] us x y"
inductive_cases tenants_run_ConsE: "tenants_run W (t # ts) us x y"
inductive_cases tenant_stepE: "tenant_step W tenant_id txs us x y"

text \<open>
  An iteration of \<open>tfhe_worker_cycle\<close> that commits; when there is no work, the transaction is dropped.
\<close>

inductive worker_iteration ::
  "('c, 'x, 's) worker \<Rightarrow> nat \<Rightarrow> (computation_row \<Rightarrow> bool) \<Rightarrow> trx \<Rightarrow> tables \<Rightarrow> bool"
  for W :: "('c, 'x, 's) worker" and batch_size locked x where
  iteration_idle:
    "query_for_work batch_size locked (wk_build_fuel W) (wk_dag W) (wk_groups W) x
         = Some (Ok (x1, [] :: (i32 \<times> 'c component list) list, us))
     \<Longrightarrow> worker_iteration W batch_size locked x (x_tables x)"
| iteration_work:
    "\<lbrakk> query_for_work batch_size locked (wk_build_fuel W) (wk_dag W) (wk_groups W) x
         = Some (Ok (x1, transactions, us));
       transactions \<noteq> [];
       tenants_run W transactions us x1 x2;
       statement id x2 = Ok x3 \<rbrakk>
     \<Longrightarrow> worker_iteration W batch_size locked x (x_tables x3)"

end
