(* ===== verification/WorkCycleCorrect.thy ===== *)
theory WorkCycleCorrect
  imports WorkCycle HostEventsCorrect ComponentGraphCorrect ComponentBuildCorrect
begin

text \<open>
  What a worker's cycle does with the rows: what the host listener wrote reads back as the operation
  of the event, or is refused; what was computed, and only that, is written and marked.
\<close>

section \<open>Rows as operations\<close>

definition operand_flags :: "bool \<Rightarrow> fhe_op \<Rightarrow> nat \<Rightarrow> nat \<Rightarrow> bool list" where
  "operand_flags is_scalar op idx n =
     map (\<lambda>j. is_scalar \<and> j = 1 \<or> does_have_more_than_one_scalar op) [idx..<idx + n]"

definition operand_input :: "bool \<Rightarrow> bytes \<Rightarrow> 'c task_input" where
  "operand_input flag dh = (if flag then TaskValue (Scalar dh) else TaskDependence dh)"

lemma operand_flags_length [simp]: "length (operand_flags s op i n) = n"
  by (simp add: operand_flags_def)

lemma operand_flags_Suc:
  "operand_flags s op i (Suc n) =
     (s \<and> i = 1 \<or> does_have_more_than_one_scalar op) # operand_flags s op (Suc i) n"
  by (simp add: operand_flags_def upt_conv_Cons del: upt_Suc)

lemma operand_flags_0 [simp]: "operand_flags s op i 0 = []"
  by (simp add: operand_flags_def)

lemma read_operands_flags:
  "read_operands s op i dhs =
     (map2 operand_input (operand_flags s op i (length dhs)) dhs, dhs, operand_flags s op i (length dhs))"
  by (induction dhs arbitrary: i) (auto simp: operand_flags_Suc operand_input_def Let_def)

lemma try_from_i32_of_i16: "op_try_from_i32 (i16_as_i32 n) = op_try_from_i16 n"
proof -
  have b: "- (2 ^ 15) \<le> sint n \<and> sint n < 2 ^ 15"
    using sint_range_size [of n] by (simp add: word_size)
  have "sint (word_of_int (sint n) :: i32) = sint n"
    by (simp add: sint_up_scast is_up)
  with b show ?thesis
    by (simp add: op_try_from_i32_def i32_try_into_i16_def i16_as_i32_def)
qed

lemma work_operation_known:
  assumes "op_try_from_i16 (cr_fhe_operation w) = Ok op"
  shows "work_operation w =
     (let fs = operand_flags (cr_is_scalar w) op 0 (length (cr_dependencies w))
      in bind_res
           (map_err (\<lambda>e. CycleCoprocessor (OfFhevm e))
              (check_fhe_operand_types (i16_as_i32 (cr_fhe_operation w)) (cr_dependencies w) fs))
           (\<lambda>_. Ok \<lparr> output_handle = cr_output_handle w, fhe_operation = op,
                      dfg_inputs = map2 operand_input fs (cr_dependencies w),
                      dfg_is_allowed = cr_is_allowed w \<rparr>))"
  by (simp add: work_operation_def assms read_operands_flags Let_def)

lemma work_operation_accepted:
  assumes op: "op_try_from_i16 (cr_fhe_operation w) = Ok op" and "op \<noteq> FheGetInputCiphertext"
  defines "fs \<equiv> operand_flags (cr_is_scalar w) op 0 (length (cr_dependencies w))"
  shows "if operands_accepted op (cr_dependencies w) fs
         then work_operation w =
                Ok \<lparr> output_handle = cr_output_handle w, fhe_operation = op,
                     dfg_inputs = map2 operand_input fs (cr_dependencies w),
                     dfg_is_allowed = cr_is_allowed w \<rparr>
         else \<exists>e. work_operation w = Err (CycleCoprocessor (OfFhevm e))"
proof -
  let ?check = "check_fhe_operand_types (i16_as_i32 (cr_fhe_operation w)) (cr_dependencies w) fs"
  have code: "op_try_from_i32 (i16_as_i32 (cr_fhe_operation w)) = Ok op"
    by (simp add: try_from_i32_of_i16 op)
  have ok: "?check = Ok () \<longleftrightarrow> operands_accepted op (cr_dependencies w) fs"
    by (rule check_accepted [OF code])
  have np: "\<not> panics ?check"
    using check_panics [OF code, of "cr_dependencies w" fs] assms(2) by (simp add: fs_def)
  have w: "work_operation w = bind_res (map_err (\<lambda>e. CycleCoprocessor (OfFhevm e)) ?check)
      (\<lambda>_. Ok \<lparr> output_handle = cr_output_handle w, fhe_operation = op,
                 dfg_inputs = map2 operand_input fs (cr_dependencies w), dfg_is_allowed = cr_is_allowed w \<rparr>)"
    unfolding work_operation_known [OF op] fs_def by (simp only: Let_def)
  show ?thesis using ok np by (cases ?check) (auto simp: w)
qed

section \<open>Events as operations\<close>

fun event_operation :: "tfhe_event \<Rightarrow> fhe_op" where
  "event_operation (EFheAdd _ _ _ _) = FheAdd"
| "event_operation (EFheSub _ _ _ _) = FheSub"
| "event_operation (EFheMul _ _ _ _) = FheMul"
| "event_operation (EFheDiv _ _ _ _) = FheDiv"
| "event_operation (EFheRem _ _ _ _) = FheRem"
| "event_operation (EFheBitAnd _ _ _ _) = FheBitAnd"
| "event_operation (EFheBitOr _ _ _ _) = FheBitOr"
| "event_operation (EFheBitXor _ _ _ _) = FheBitXor"
| "event_operation (EFheShl _ _ _ _) = FheShl"
| "event_operation (EFheShr _ _ _ _) = FheShr"
| "event_operation (EFheRotl _ _ _ _) = FheRotl"
| "event_operation (EFheRotr _ _ _ _) = FheRotr"
| "event_operation (EFheEq _ _ _ _) = FheEq"
| "event_operation (EFheNe _ _ _ _) = FheNe"
| "event_operation (EFheGe _ _ _ _) = FheGe"
| "event_operation (EFheGt _ _ _ _) = FheGt"
| "event_operation (EFheLe _ _ _ _) = FheLe"
| "event_operation (EFheLt _ _ _ _) = FheLt"
| "event_operation (EFheMin _ _ _ _) = FheMin"
| "event_operation (EFheMax _ _ _ _) = FheMax"
| "event_operation (EFheNeg _ _) = FheNeg"
| "event_operation (EFheNot _ _) = FheNot"
| "event_operation (ECast _ _ _) = FheCast"
| "event_operation (ETrivialEncrypt _ _ _) = FheTrivialEncrypt"
| "event_operation (EFheIfThenElse _ _ _ _) = FheIfThenElse"
| "event_operation (EFheRand _ _ _) = FheRand"
| "event_operation (EFheRandBounded _ _ _ _) = FheRandBounded"
| "event_operation _ = FheGetInputCiphertext"

text \<open>
  The inputs an event means: its handles as dependences, its clear operands as scalars, and the
  right operand of a binary operation as the scalar byte says.
\<close>

definition event_inputs :: "tfhe_event \<Rightarrow> 'c task_input list" where
  "event_inputs ev =
     (case ev of
        ECast ct to_type result \<Rightarrow> [TaskDependence ct, TaskValue (Scalar [to_type])]
      | EFheIfThenElse control if_true if_false result \<Rightarrow>
          [TaskDependence control, TaskDependence if_true, TaskDependence if_false]
      | EFheNeg ct result \<Rightarrow> [TaskDependence ct]
      | EFheNot ct result \<Rightarrow> [TaskDependence ct]
      | EFheRand ty seed result \<Rightarrow> [TaskValue (Scalar seed), TaskValue (Scalar [ty])]
      | EFheRandBounded bound ty seed result \<Rightarrow>
          [TaskValue (Scalar seed), TaskValue (Scalar (as_bytes bound)), TaskValue (Scalar [ty])]
      | ETrivialEncrypt pt ty result \<Rightarrow> [TaskValue (Scalar (as_bytes pt)), TaskValue (Scalar [ty])]
      | EInitialized \<Rightarrow> []
      | EUpgraded \<Rightarrow> []
      | EVerifyInput \<Rightarrow> []
      | _ \<Rightarrow> [TaskDependence (ev_lhs ev),
               if ev_scalar_byte ev = 0 then TaskDependence (ev_rhs ev) else TaskValue (Scalar (ev_rhs ev))])"

text \<open>The events the operand check refuses: a zero divisor, a random value of an unknown type.\<close>

definition event_refused :: "tfhe_event \<Rightarrow> bool" where
  "event_refused ev =
     (case ev of
        EFheDiv lhs rhs scalar_byte result \<Rightarrow> scalar_byte \<noteq> 0 \<and> be_val rhs = 0
      | EFheRand ty seed result \<Rightarrow> 11 < unat ty
      | _ \<Rightarrow> False)"

lemma length_as_bytes [simp]: "length (as_bytes v) = 32"
  by (simp add: as_bytes_def)

lemma as_bytes_nonempty [simp]: "as_bytes v \<noteq> []"
  by (simp flip: length_0_conv)

lemma event_code:
  "event_computation ev = Some c \<Longrightarrow> i32_as_i16 (event_to_op_int ev) = op_to_i16 (event_operation ev)"
  by (cases ev) (simp_all add: event_computation_def i32_as_i16_def i16_as_i32_def)

lemma more_than_one_scalar_iff:
  "does_have_more_than_one_scalar op \<longleftrightarrow> op \<in> {FheTrivialEncrypt, FheRand, FheRandBounded}"
  by (cases op) (simp_all add: does_have_more_than_one_scalar_def)

lemma event_row_operation:
  assumes "event_computation (lt_event log) = Some (result, hs, bs, sb)"
  shows "if event_refused (lt_event log)
         then \<exists>e. work_operation (computation_of_log tenant now log bucket) = Err (CycleCoprocessor (OfFhevm e))
         else work_operation (computation_of_log tenant now log bucket) =
                Ok \<lparr> output_handle = result, fhe_operation = event_operation (lt_event log),
                     dfg_inputs = event_inputs (lt_event log), dfg_is_allowed = lt_is_allowed log \<rparr>"
proof -
  let ?w = "computation_of_log tenant now log bucket"
  let ?op = "event_operation (lt_event log)"
  have w: "cr_fhe_operation ?w = op_to_i16 ?op" "cr_dependencies ?w = hs @ bs"
    "cr_is_scalar ?w = (sb \<noteq> 0)" "cr_output_handle ?w = result" "cr_is_allowed ?w = lt_is_allowed log"
    using event_code [OF assms] by (simp_all add: computation_of_log_def assms)
  have op: "op_try_from_i16 (cr_fhe_operation ?w) = Ok ?op" unfolding w by (rule op16.dec_enc)
  have ni: "?op \<noteq> FheGetInputCiphertext"
    using assms by (cases "lt_event log") (simp_all add: event_computation_def)
  have acc: "operands_accepted ?op (hs @ bs) (operand_flags (sb \<noteq> 0) ?op 0 (length (hs @ bs)))
      \<longleftrightarrow> \<not> event_refused (lt_event log)"
    using assms
    by (cases "lt_event log")
       (auto simp: event_computation_def operands_accepted_def operand_flags_Suc event_refused_def
         more_than_one_scalar_iff)
  have ins: "map2 operand_input (operand_flags (sb \<noteq> 0) ?op 0 (length (hs @ bs))) (hs @ bs)
      = event_inputs (lt_event log)"
    using assms
    by (cases "lt_event log")
       (auto simp: event_computation_def operand_flags_Suc operand_input_def event_inputs_def
         more_than_one_scalar_iff)
  from work_operation_accepted [OF op ni] show ?thesis
    unfolding w acc ins by (simp split: if_splits)
qed

text \<open>
  C23. What the host listener writes for an event reads back in the worker as the operation the
  event means: its code, its handles as dependences and its clear operands as scalars in the order
  of the event, with the access right the block gave its result. Exactly the divisions by a zero
  scalar and the random values of an unknown type are refused; no row of an event makes the worker
  panic on an unknown code.
\<close>

theorem event_becomes_operation:
  assumes "event_computation (lt_event log) = Some (result, hs, bs, sb)"
  shows "if event_refused (lt_event log)
         then \<exists>e. work_operation (computation_of_log tenant now log bucket) = Err (CycleCoprocessor (OfFhevm e))
         else work_operation (computation_of_log tenant now log bucket) =
                Ok \<lparr> output_handle = result, fhe_operation = event_operation (lt_event log),
                     dfg_inputs = event_inputs (lt_event log), dfg_is_allowed = lt_is_allowed log \<rparr>"
  using assms by (rule event_row_operation)

section \<open>The work of a cycle\<close>

lemma work_operation_data:
  assumes "work_operation w = Ok op"
  shows "output_handle op = cr_output_handle w \<and> dfg_is_allowed op = cr_is_allowed w
    \<and> length (dfg_inputs op) \<le> 3"
proof -
  obtain fo where fo: "op_try_from_i16 (cr_fhe_operation w) = Ok fo"
    using assms by (cases "op_try_from_i16 (cr_fhe_operation w)") (simp_all add: work_operation_def)
  let ?fs = "operand_flags (cr_is_scalar w) fo 0 (length (cr_dependencies w))"
  have code: "op_try_from_i32 (i16_as_i32 (cr_fhe_operation w)) = Ok fo"
    by (simp add: try_from_i32_of_i16 fo)
  from assms have op: "op = \<lparr> output_handle = cr_output_handle w, fhe_operation = fo,
      dfg_inputs = map2 operand_input ?fs (cr_dependencies w), dfg_is_allowed = cr_is_allowed w \<rparr>"
    and ok: "check_fhe_operand_types (i16_as_i32 (cr_fhe_operation w)) (cr_dependencies w) ?fs = Ok ()"
    by (auto simp: work_operation_known [OF fo] Let_def bind_res_eq_Ok)
  have "operands_accepted fo (cr_dependencies w) ?fs" using ok check_accepted [OF code] by simp
  then have l: "length ?fs \<le> 3"
    by (cases fo) (auto simp: operands_accepted_def simp del: operand_flags_length)
  then have "length (cr_dependencies w) \<le> 3" by simp
  then show ?thesis by (simp add: op min_def)
qed

lemma work_operations_all2:
  "work_operations ws = Ok ops \<longleftrightarrow> list_all2 (\<lambda>w op. work_operation w = Ok op) ws ops"
proof (induction ws arbitrary: ops)
  case Nil
  then show ?case by (auto simp: list_all2_Nil)
next
  case (Cons w ws)
  then show ?case by (auto simp: bind_res_eq_Ok list_all2_Cons1)
qed

lemma work_operations_handles:
  "work_operations ws = Ok ops \<Longrightarrow> map output_handle ops = map cr_output_handle ws"
  unfolding work_operations_all2
  by (induction rule: list_all2_induct) (simp_all add: work_operation_data)

lemma work_operations_ok:
  assumes "work_operations ws = Ok ops" and "distinct (map cr_output_handle ws)"
  shows "ops_ok ops"
proof -
  have "length (dfg_inputs op) \<le> 256" if "op \<in> set ops" for op
  proof -
    from that obtain i where i: "i < length ops" "op = ops ! i" by (auto simp: in_set_conv_nth)
    with assms(1) have "work_operation (ws ! i) = Ok op"
      unfolding work_operations_all2 by (simp add: list_all2_conv_all_nth)
    then obtain w where "work_operation w = Ok op" by blast
    from work_operation_data [OF this] show ?thesis by simp
  qed
  with assms work_operations_handles [OF assms(1)] show ?thesis by (simp add: ops_ok_def)
qed

text \<open>The parts the loops put together, one for each transaction of each tenant.\<close>

lemma build_transactions_parts:
  assumes "build_transactions k L work ts = Some (Ok (cs, us))"
  shows "\<exists>parts. cs = concat (map fst parts) \<and> us = concat (map snd parts)
    \<and> list_all2 (\<lambda>tid p. \<exists>ops. work_operations (filter (\<lambda>w. cr_transaction_id w = tid) work) = Ok ops
          \<and> build_component_nodes k L ops tid = Some (Ok p)) ts parts"
  using assms
proof (induction ts arbitrary: cs us)
  case Nil
  then show ?case by simp
next
  case (Cons tid ts)
  from Cons.prems obtain ops p cs' us' where
    o: "work_operations (filter (\<lambda>w. cr_transaction_id w = tid) work) = Ok ops"
       "build_component_nodes k L ops tid = Some (Ok p)" and
    r: "build_transactions k L work ts = Some (Ok (cs', us'))" "cs = fst p @ cs'" "us = snd p @ us'"
    by (auto split: res.splits option.splits simp: bind_res_eq_Ok)
  from Cons.IH [OF r(1)] obtain parts where
    "cs' = concat (map fst parts)" "us' = concat (map snd parts)"
    "list_all2 (\<lambda>tid p. \<exists>ops. work_operations (filter (\<lambda>w. cr_transaction_id w = tid) work) = Ok ops
          \<and> build_component_nodes k L ops tid = Some (Ok p)) ts parts" by blast
  with o r show ?case by (intro exI [of _ "p # parts"]) auto
qed

lemma build_tenants_parts:
  assumes "build_tenants k L G work tenants = Some (Ok (txs, us))"
  shows "\<exists>parts. txs = zip tenants (map fst parts) \<and> us = concat (map snd parts)
    \<and> list_all2 (\<lambda>tenant p.
          let mine = filter (\<lambda>w. cr_tenant_id w = tenant) work
          in build_transactions k L mine (go_transactions G (remdups (map cr_transaction_id mine))) = Some (Ok p))
        tenants parts"
  using assms
proof (induction tenants arbitrary: txs us)
  case Nil
  then show ?case by simp
next
  case (Cons tenant tenants)
  let ?mine = "filter (\<lambda>w. cr_tenant_id w = tenant) work"
  from Cons.prems obtain p txs' us' where
    o: "build_transactions k L ?mine (go_transactions G (remdups (map cr_transaction_id ?mine))) = Some (Ok p)" and
    r: "build_tenants k L G work tenants = Some (Ok (txs', us'))" "txs = (tenant, fst p) # txs'" "us = snd p @ us'"
    by (auto split: res.splits option.splits simp: Let_def bind_res_eq_Ok)
  from Cons.IH [OF r(1)] obtain parts where
    "txs' = zip tenants (map fst parts)" "us' = concat (map snd parts)"
    "list_all2 (\<lambda>tenant p.
          let mine = filter (\<lambda>w. cr_tenant_id w = tenant) work
          in build_transactions k L mine (go_transactions G (remdups (map cr_transaction_id mine))) = Some (Ok p))
        tenants parts" by blast
  with o r show ?case by (intro exI [of _ "p # parts"]) auto
qed

text \<open>A map of groups is iterated over its keys, each once.\<close>

definition groups_ok :: "group_order \<Rightarrow> bool" where
  "groups_ok G \<longleftrightarrow>
     (\<forall>ks. distinct ks \<longrightarrow> distinct (go_tenants G ks) \<and> set (go_tenants G ks) = set ks)
   \<and> (\<forall>ks. distinct ks \<longrightarrow> distinct (go_transactions G ks) \<and> set (go_transactions G ks) = set ks)"

text \<open>The operations of a transaction of a tenant.\<close>

definition transaction_rows :: "computation_row list \<Rightarrow> i32 \<Rightarrow> bytes \<Rightarrow> computation_row list" where
  "transaction_rows work tenant tid =
     filter (\<lambda>w. cr_tenant_id w = tenant \<and> cr_transaction_id w = tid) work"

lemma distinct_transaction_rows:
  assumes "distinct (map computation_key work)"
  shows "distinct (map cr_output_handle (transaction_rows work tenant tid))"
proof -
  have d: "distinct (map computation_key (transaction_rows work tenant tid))"
    using assms by (simp add: transaction_rows_def distinct_map_filter)
  have "inj_on cr_output_handle (set (transaction_rows work tenant tid))"
  proof (rule inj_onI)
    fix a b
    assume ab: "a \<in> set (transaction_rows work tenant tid)" "b \<in> set (transaction_rows work tenant tid)"
      "cr_output_handle a = cr_output_handle b"
    then have "computation_key a = computation_key b"
      by (simp add: transaction_rows_def computation_key_def)
    with d ab show "a = b" by (auto simp: distinct_map inj_on_def)
  qed
  with d show ?thesis by (simp add: distinct_map)
qed

lemma filter_transaction_rows:
  "filter (\<lambda>w. cr_transaction_id w = tid) (filter (\<lambda>w. cr_tenant_id w = tenant) work)
   = transaction_rows work tenant tid"
  by (simp add: transaction_rows_def conj_commute)

text \<open>What the components of a transaction hold.\<close>

lemma transaction_handles:
  assumes lib: "queries_ok L" "removal_ok L" "view_ok L"
    and rows: "work_operations (transaction_rows work tenant tid) = Ok ops"
    and d: "distinct (map computation_key work)"
    and b: "build_component_nodes k L ops tid = Some (Ok (cs, us))" and k: "length work < k"
  shows "list_all (\<lambda>c. c_transaction_id c = tid) cs
    \<and> distinct (concat (map c_results cs))
    \<and> set (concat (map c_results cs)) = needed_handles (set ops)
    \<and> set us = {(h, tid) |h. h \<in> cr_output_handle ` set (transaction_rows work tenant tid)
                            \<and> h \<notin> needed_handles (set ops)}"
proof -
  let ?rows = "transaction_rows work tenant tid"
  have handles: "map output_handle ops = map cr_output_handle ?rows"
    by (rule work_operations_handles [OF rows])
  have ok: "ops_ok ops" by (rule work_operations_ok [OF rows distinct_transaction_rows [OF d]])
  have len: "length ops < k"
  proof -
    have "length ops = length ?rows" using arg_cong [OF handles, of length] by simp
    also have "\<dots> \<le> length work" by (simp add: transaction_rows_def)
    finally show ?thesis using k by simp
  qed
  from transaction_units [OF lib ok b len] obtain parts where
    p: "list_all2 (\<lambda>p c. \<exists>cid. build_component L p tid cid = Ok c) parts cs"
    "distinct (map output_handle (concat parts))"
    "set (concat parts) = {op \<in> set ops. output_handle op \<in> needed_handles (set ops)}"
    "set us = {(output_handle op, tid) |op. op \<in> set ops \<and> output_handle op \<notin> needed_handles (set ops)}"
    by blast
  have sub: "ops_ok q" if "q \<in> set parts" for q
  proof -
    have "set q \<subseteq> set ops" using that p(3) by auto
    moreover have "distinct (map output_handle q)"
      using p(2) that by (auto simp: map_concat distinct_concat_iff)
    ultimately show ?thesis using ok by (auto simp: ops_ok_def)
  qed
  have data: "list_all2 (\<lambda>p c. c_results c = map output_handle p \<and> c_transaction_id c = tid) parts cs"
  proof (rule list_all2_impl [OF p(1)])
    fix q c
    assume q: "q \<in> set parts" and "\<exists>cid. build_component L q tid cid = Ok c"
    then obtain cid where "build_component L q tid cid = Ok c" by blast
    from build_component_data(1,5) [OF lib(1) sub [OF q] this]
    show "c_results c = map output_handle q \<and> c_transaction_id c = tid" by simp
  qed
  then have res: "map c_results cs = map (map output_handle) parts"
    by (auto simp: list_all2_conv_all_nth intro: nth_equalityI)
  have "list_all (\<lambda>c. c_transaction_id c = tid) cs"
    using data by (auto simp: list_all2_conv_all_nth list_all_length)
  moreover have "concat (map c_results cs) = map output_handle (concat parts)"
    by (simp add: res map_concat)
  moreover have "output_handle ` {op \<in> set ops. output_handle op \<in> needed_handles (set ops)} = needed_handles (set ops)"
    using needed_handles_sub [of _ "set ops"] by force
  moreover have "cr_output_handle ` set ?rows = output_handle ` set ops"
    using arg_cong [OF handles, of set] by simp
  ultimately show ?thesis using p(2,3,4) by (simp del: set_concat) blast
qed

text \<open>The results of components, with their transactions.\<close>

definition component_keys :: "'c component list \<Rightarrow> (handle \<times> handle) list" where
  "component_keys cs = concat (map (\<lambda>c. map (\<lambda>h. (h, c_transaction_id c)) (c_results c)) cs)"

lemma component_keys_append [simp]: "component_keys (cs @ ds) = component_keys cs @ component_keys ds"
  by (simp add: component_keys_def)

lemma component_keys_same:
  "list_all (\<lambda>c. c_transaction_id c = tid) cs \<Longrightarrow>
   component_keys cs = map (\<lambda>h. (h, tid)) (concat (map c_results cs))"
  by (induction cs) (auto simp: component_keys_def)

text \<open>The rows of a tenant as keys.\<close>

definition row_keys :: "computation_row list \<Rightarrow> i32 \<Rightarrow> (handle \<times> handle) set" where
  "row_keys work tenant =
     (\<lambda>w. (cr_output_handle w, cr_transaction_id w)) ` {w \<in> set work. cr_tenant_id w = tenant}"

definition allowed_keys :: "computation_row list \<Rightarrow> i32 \<Rightarrow> (handle \<times> handle) set" where
  "allowed_keys work tenant =
     (\<lambda>w. (cr_output_handle w, cr_transaction_id w)) ` {w \<in> set work. cr_tenant_id w = tenant \<and> cr_is_allowed w}"

lemma allowed_needed:
  assumes rows: "work_operations ws = Ok ops" and w: "w \<in> set ws" "cr_is_allowed w"
  shows "cr_output_handle w \<in> needed_handles (set ops)"
proof -
  from w(1) obtain i where i: "i < length ws" "w = ws ! i" by (auto simp: in_set_conv_nth)
  with rows have op: "work_operation w = Ok (ops ! i)" "i < length ops"
    unfolding work_operations_all2 by (auto simp: list_all2_conv_all_nth)
  from work_operation_data [OF op(1)] w(2)
  have "dfg_is_allowed (ops ! i)" "output_handle (ops ! i) = cr_output_handle w" by simp_all
  with op(2) show ?thesis using needed_allowed [of "ops ! i" "set ops"] by simp
qed

lemma needed_rows:
  assumes "work_operations ws = Ok ops" and "h \<in> needed_handles (set ops)"
  shows "h \<in> cr_output_handle ` set ws"
  using needed_handles_sub [OF assms(2)] arg_cong [OF work_operations_handles [OF assms(1)], of set] by simp

lemma tenant_components:
  assumes lib: "queries_ok L" "removal_ok L" "view_ok L"
    and d: "distinct (map computation_key work)" and k: "length work < k"
    and ts: "distinct ts"
    and run: "build_transactions k L (filter (\<lambda>w. cr_tenant_id w = tenant) work) ts = Some (Ok (cs, us))"
  shows "distinct (component_keys cs)
    \<and> set (component_keys cs) \<inter> set us = {}
    \<and> set (component_keys cs) \<union> set us = {(h, tid) \<in> row_keys work tenant. tid \<in> set ts}
    \<and> {(h, tid) \<in> allowed_keys work tenant. tid \<in> set ts} \<subseteq> set (component_keys cs)"
  using ts run
proof (induction ts arbitrary: cs us)
  case Nil
  then show ?case by (simp add: component_keys_def)
next
  case (Cons tid ts)
  let ?rows = "transaction_rows work tenant tid"
  from Cons.prems(2) obtain ops cs1 us1 cs2 us2 where
    o: "work_operations ?rows = Ok ops" "build_component_nodes k L ops tid = Some (Ok (cs1, us1))" and
    r: "build_transactions k L (filter (\<lambda>w. cr_tenant_id w = tenant) work) ts = Some (Ok (cs2, us2))"
       "cs = cs1 @ cs2" "us = us1 @ us2"
    by (auto simp: filter_transaction_rows simp del: filter_filter split: res.splits option.splits
        simp: bind_res_eq_Ok)
  note th = transaction_handles [OF lib o(1) d o(2) k]
  then have k1: "component_keys cs1 = map (\<lambda>h. (h, tid)) (concat (map c_results cs1))"
    by (intro component_keys_same) simp
  have d1: "distinct (component_keys cs1)"
    unfolding k1 using th by (auto simp: distinct_map inj_on_def)
  have s1: "set (component_keys cs1) = {(h, tid) |h. h \<in> needed_handles (set ops)}"
    unfolding k1 using th by (auto simp del: set_concat)
  have u1: "set us1 = {(h, tid) |h. h \<in> cr_output_handle ` set ?rows \<and> h \<notin> needed_handles (set ops)}"
    using th by simp
  have all1: "set (component_keys cs1) \<union> set us1 = {(h, t) \<in> row_keys work tenant. t = tid}"
    unfolding s1 u1 using needed_rows [OF o(1)] by (auto simp: row_keys_def transaction_rows_def image_iff)
  have al1: "{(h, t) \<in> allowed_keys work tenant. t = tid} \<subseteq> set (component_keys cs1)"
    unfolding s1 using allowed_needed [OF o(1)] by (auto simp: allowed_keys_def transaction_rows_def)
  have IH: "distinct (component_keys cs2)" "set (component_keys cs2) \<inter> set us2 = {}"
    "set (component_keys cs2) \<union> set us2 = {(h, t) \<in> row_keys work tenant. t \<in> set ts}"
    "{(h, t) \<in> allowed_keys work tenant. t \<in> set ts} \<subseteq> set (component_keys cs2)"
    using Cons.IH [OF _ r(1)] Cons.prems(1) by simp_all
  have "tid \<notin> set ts" using Cons.prems(1) by simp
  then have dis: "(set (component_keys cs1) \<union> set us1) \<inter> (set (component_keys cs2) \<union> set us2) = {}"
    unfolding all1 IH(3) by auto
  have dis1: "set (component_keys cs1) \<inter> set us1 = {}" unfolding s1 u1 by auto
  have "set (component_keys cs) \<union> set us
      = {(h, t) \<in> row_keys work tenant. t = tid} \<union> {(h, t) \<in> row_keys work tenant. t \<in> set ts}"
    unfolding r(2,3) all1 [symmetric] IH(3) [symmetric] by auto
  then have "set (component_keys cs) \<union> set us = {(h, t) \<in> row_keys work tenant. t \<in> set (tid # ts)}"
    by auto
  moreover have "{(h, t) \<in> allowed_keys work tenant. t \<in> set (tid # ts)} \<subseteq> set (component_keys cs)"
    using al1 IH(4) by (auto simp: r(2))
  moreover have "distinct (component_keys cs)" using d1 IH(1) dis by (auto simp: r(2))
  moreover have "set (component_keys cs) \<inter> set us = {}"
    using dis dis1 IH(2) by (auto simp: r(2,3))
  ultimately show ?case by blast
qed

lemma tenants_complete:
  assumes lib: "queries_ok L" "removal_ok L" "view_ok L" and G: "groups_ok G"
    and d: "distinct (map computation_key work)" and k: "length work < k"
    and ts: "distinct ts" and run: "build_tenants k L G work ts = Some (Ok (txs, us))"
  shows "map fst txs = ts"
    and "(tenant, cs) \<in> set txs \<Longrightarrow> distinct (component_keys cs)
          \<and> allowed_keys work tenant \<subseteq> set (component_keys cs)
          \<and> set (component_keys cs) \<subseteq> row_keys work tenant
          \<and> row_keys work tenant \<subseteq> set (component_keys cs) \<union> set us"
proof -
  from build_tenants_parts [OF run] obtain parts where
    p: "txs = zip ts (map fst parts)" "us = concat (map snd parts)"
    "list_all2 (\<lambda>tenant p.
        let mine = filter (\<lambda>w. cr_tenant_id w = tenant) work
        in build_transactions k L mine (go_transactions G (remdups (map cr_transaction_id mine))) = Some (Ok p))
      ts parts" by blast
  have len: "length parts = length ts" using p(3) by (simp add: list_all2_lengthD)
  then show "map fst txs = ts" by (simp add: p(1))
  assume tx: "(tenant, cs) \<in> set txs"
  let ?mine = "filter (\<lambda>w. cr_tenant_id w = tenant) work"
  let ?ts = "go_transactions G (remdups (map cr_transaction_id ?mine))"
  from tx obtain i where i: "i < length ts" "tenant = ts ! i" "cs = fst (parts ! i)"
    using len by (auto simp: p(1) in_set_zip)
  then have b: "build_transactions k L ?mine ?ts = Some (Ok (cs, snd (parts ! i)))"
    using p(3) by (simp add: list_all2_conv_all_nth Let_def)
  have "distinct (remdups (map cr_transaction_id ?mine))" by (rule distinct_remdups)
  with G have "distinct ?ts" "set ?ts = set (remdups (map cr_transaction_id ?mine))"
    unfolding groups_ok_def by blast+
  then have ts': "distinct ?ts" "set ?ts = cr_transaction_id ` set ?mine" by simp_all
  note tc = tenant_components [OF lib d k ts'(1) b]
  have all: "{(h, tid) \<in> row_keys work tenant. tid \<in> set ?ts} = row_keys work tenant"
    unfolding ts'(2) by (auto simp: row_keys_def)
  have al: "{(h, tid) \<in> allowed_keys work tenant. tid \<in> set ?ts} = allowed_keys work tenant"
    unfolding ts'(2) by (auto simp: allowed_keys_def)
  have "set (snd (parts ! i)) \<subseteq> set us" using i(1) len by (force simp: p(2))
  with tc show "distinct (component_keys cs)
          \<and> allowed_keys work tenant \<subseteq> set (component_keys cs)
          \<and> set (component_keys cs) \<subseteq> row_keys work tenant
          \<and> row_keys work tenant \<subseteq> set (component_keys cs) \<union> set us"
    unfolding all al by blast
qed

lemma query_for_work_ok:
  assumes "query_for_work n locked k L G x = Some (Ok (x', txs, us))"
  shows "if the_work n locked (x_tables x) = [] then txs = [] \<and> us = []
    else build_tenants k L G (the_work n locked (x_tables x))
           (go_tenants G (remdups (map cr_tenant_id (the_work n locked (x_tables x))))) = Some (Ok (txs, us))"
proof -
  obtain x1 where x1: "statement id x = Ok x1"
    using assms by (cases "statement id x") (simp_all add: query_for_work_def of_db_def)
  with statement_ok [OF x1] assms show ?thesis
    by (auto simp: query_for_work_def of_db_def Let_def bind_res_eq_Ok split: if_splits)
qed

text \<open>
  C24. A query that succeeds loses no work and mixes none: there is one entry for each tenant with
  work; the components of a tenant hold, for each of its transactions and nobody else's, each result
  at most once; every row of the work is in a component or reported as unneeded, and the allowed
  ones are in a component.
\<close>

theorem work_is_complete:
  assumes lib: "queries_ok L" "removal_ok L" "view_ok L" and G: "groups_ok G"
    and d: "distinct (map computation_key (t_computations (x_tables x)))"
    and k: "length (t_computations (x_tables x)) < k"
    and run: "query_for_work n locked k L G x = Some (Ok (x', txs, us))"
  shows "distinct (map fst txs) \<and> set (map fst txs) = cr_tenant_id ` set (the_work n locked (x_tables x))
    \<and> (\<forall>(tenant, cs) \<in> set txs. distinct (component_keys cs)
          \<and> allowed_keys (the_work n locked (x_tables x)) tenant \<subseteq> set (component_keys cs)
          \<and> set (component_keys cs) \<subseteq> row_keys (the_work n locked (x_tables x)) tenant
          \<and> row_keys (the_work n locked (x_tables x)) tenant \<subseteq> set (component_keys cs) \<union> set us)"
proof -
  define work where "work = the_work n locked (x_tables x)"
  have dw: "distinct (map computation_key work)"
    using d by (simp add: work_def the_work_def distinct_map_filter)
  have "length work \<le> length (t_computations (x_tables x))" by (simp add: work_def the_work_def)
  with k have kw: "length work < k" by simp
  note q = query_for_work_ok [OF run, folded work_def]
  show ?thesis unfolding work_def [symmetric]
  proof (cases "work = []")
    case True
    with q show "distinct (map fst txs) \<and> set (map fst txs) = cr_tenant_id ` set work
      \<and> (\<forall>(tenant, cs) \<in> set txs. distinct (component_keys cs)
          \<and> allowed_keys work tenant \<subseteq> set (component_keys cs)
          \<and> set (component_keys cs) \<subseteq> row_keys work tenant
          \<and> row_keys work tenant \<subseteq> set (component_keys cs) \<union> set us)" by simp
  next
    case False
    let ?tenants = "go_tenants G (remdups (map cr_tenant_id work))"
    have "distinct (remdups (map cr_tenant_id work))" by (rule distinct_remdups)
    with G have "distinct ?tenants" "set ?tenants = set (remdups (map cr_tenant_id work))"
      unfolding groups_ok_def by blast+
    then have tn: "distinct ?tenants" "set ?tenants = cr_tenant_id ` set work" by simp_all
    from q False have "build_tenants k L G work ?tenants = Some (Ok (txs, us))" by simp
    note c = tenants_complete [OF lib G dw kw tn(1) this]
    show "distinct (map fst txs) \<and> set (map fst txs) = cr_tenant_id ` set work
      \<and> (\<forall>(tenant, cs) \<in> set txs. distinct (component_keys cs)
          \<and> allowed_keys work tenant \<subseteq> set (component_keys cs)
          \<and> set (component_keys cs) \<subseteq> row_keys work tenant
          \<and> row_keys work tenant \<subseteq> set (component_keys cs) \<union> set us)"
      unfolding c(1) using tn c(2) by blast
  qed
qed

section \<open>Writing the results\<close>

text \<open>The errors that say nothing of the operation are not recorded.\<close>

fun internal_error :: "work_error \<Rightarrow> bool" where
  "internal_error (WScheduler e) \<longleftrightarrow> e = DataflowGraphError \<or> e = SchedulerFailure"
| "internal_error (WLib e) \<longleftrightarrow> True"
| "internal_error (WFhevm e) \<longleftrightarrow> False"

definition result_key :: "dfg_tx_result \<Rightarrow> handle \<times> handle" where
  "result_key r = (txr_handle r, txr_transaction_id r)"

definition failed_keys :: "dfg_tx_result list \<Rightarrow> (handle \<times> handle) set" where
  "failed_keys rs = result_key ` {r \<in> set rs. \<exists>e. txr_compressed r = Err e \<and> \<not> internal_error e}"

definition missing_keys :: "dfg_tx_result list \<Rightarrow> (handle \<times> handle) set" where
  "missing_keys rs = result_key ` {r \<in> set rs. txr_compressed r = Err (WScheduler MissingInputs)}"

fun result_ciphertexts :: "i32 \<Rightarrow> dfg_tx_result list \<Rightarrow> ciphertext_row list" where
  "result_ciphertexts tenant [] = []"
| "result_ciphertexts tenant (r # rs) =
     (case txr_compressed r of
        Ok (ty, b) \<Rightarrow>
          \<lparr> ct_tenant_id = tenant, ct_handle = txr_handle r, ct_ciphertext = b,
            ct_version = current_ciphertext_version, ct_type = ty, ct_input_blob_hash = None,
            ct_input_blob_index = 0 \<rparr> # result_ciphertexts tenant rs
      | _ \<Rightarrow> result_ciphertexts tenant rs)"

text \<open>What may happen to a row: its identity stays.\<close>

definition same_row :: "computation_row \<Rightarrow> computation_row \<Rightarrow> bool" where
  "same_row r r' \<longleftrightarrow>
     cr_tenant_id r' = cr_tenant_id r \<and> cr_output_handle r' = cr_output_handle r
   \<and> cr_dependencies r' = cr_dependencies r \<and> cr_fhe_operation r' = cr_fhe_operation r
   \<and> cr_is_scalar r' = cr_is_scalar r \<and> cr_dependence_chain_id r' = cr_dependence_chain_id r
   \<and> cr_transaction_id r' = cr_transaction_id r \<and> cr_is_allowed r' = cr_is_allowed r"

definition row_key :: "computation_row \<Rightarrow> handle \<times> handle" where
  "row_key r = (cr_output_handle r, cr_transaction_id r)"

lemma matches_row_key: "matches_row tenant K r \<longleftrightarrow> cr_tenant_id r = tenant \<and> row_key r \<in> K"
  by (simp add: matches_row_def row_key_def)

text \<open>One row under the errors of a list of results.\<close>

fun mark_errors :: "i32 \<Rightarrow> dfg_tx_result list \<Rightarrow> computation_row \<Rightarrow> computation_row" where
  "mark_errors tenant [] row = row"
| "mark_errors tenant (r # rs) row =
     mark_errors tenant rs
       (case txr_compressed r of
          Err e \<Rightarrow>
            (if \<not> internal_error e \<and> cr_tenant_id row = tenant \<and> row_key row = result_key r
             then row\<lparr>cr_is_error := True, cr_error_message := Some (snd (classify_error e))\<rparr> else row)
        | _ \<Rightarrow> row)"

lemma classify_internal:
  "fst (classify_error e) = OfScheduler DataflowGraphError \<or> fst (classify_error e) = OfScheduler SchedulerFailure
   \<longleftrightarrow> internal_error e"
  by (cases e) simp_all

lemma classify_missing: "fst (classify_error e) = OfScheduler MissingInputs \<longleftrightarrow> e = WScheduler MissingInputs"
  by (cases e) simp_all

lemma update_where_map:
  "update_where P f t = t\<lparr>t_computations := map (\<lambda>r. if P r then f r else r) (t_computations t)\<rparr>"
  by (simp add: update_where_def)

lemma collect_results_ok:
  assumes "collect_results tenant rs cts unc x = Ok (cts', unc', y)"
  shows "cts' = cts @ result_ciphertexts tenant rs \<and> set unc' = set unc \<union> missing_keys rs
    \<and> x_tables y = (x_tables x)\<lparr>t_computations := map (mark_errors tenant rs) (t_computations (x_tables x))\<rparr>
    \<and> x_now y = x_now x"
  using assms
proof (induction rs arbitrary: cts unc x)
  case Nil
  then show ?case by (simp add: missing_keys_def)
next
  case (Cons r rs)
  show ?case
  proof (cases "txr_compressed r")
    case (Ok c)
    obtain ty b where c: "c = (ty, b)" by (cases c)
    from Cons.prems Ok c have "collect_results tenant rs
        (cts @ result_ciphertexts tenant [r]) unc x = Ok (cts', unc', y)" by simp
    from Cons.IH [OF this] Ok c show ?thesis by (auto simp: missing_keys_def)
  next
    case (Panic p)
    with Cons.prems show ?thesis by simp
  next
    case (Err e)
    obtain ce e' where ce: "classify_error e = (ce, e')" by fastforce
    show ?thesis
    proof (cases "internal_error e")
      case True
      then have "ce = OfScheduler DataflowGraphError \<or> ce = OfScheduler SchedulerFailure"
        using classify_internal [of e] by (simp add: ce)
      with Cons.prems Err ce have "collect_results tenant rs cts unc x = Ok (cts', unc', y)" by simp
      moreover have "e \<noteq> WScheduler MissingInputs" using True by auto
      ultimately show ?thesis using Cons.IH [of cts unc x] Err True by (auto simp: missing_keys_def)
    next
      case False
      then have ni: "\<not> (ce = OfScheduler DataflowGraphError \<or> ce = OfScheduler SchedulerFailure)"
        using classify_internal [of e] by (simp add: ce)
      let ?unc = "if ce = OfScheduler MissingInputs then unc @ [(txr_handle r, txr_transaction_id r)] else unc"
      from Cons.prems Err ce ni obtain z where
        z: "statement (set_computation_error tenant (txr_handle r) (txr_transaction_id r) e') x = Ok z"
           "collect_results tenant rs cts ?unc z = Ok (cts', unc', y)"
        by (auto simp: of_db_def bind_res_eq_Ok)
      have tz: "x_tables z = (x_tables x)\<lparr>t_computations := map (\<lambda>row.
            if cr_tenant_id row = tenant \<and> row_key row = result_key r
            then row\<lparr>cr_is_error := True, cr_error_message := Some e'\<rparr> else row) (t_computations (x_tables x))\<rparr>"
        "x_now z = x_now x"
        using statement_ok [OF z(1)]
        by (simp_all add: set_computation_error_def update_where_def matches_row_key result_key_def)
      have ms: "set ?unc \<union> missing_keys rs = set unc \<union> missing_keys (r # rs)"
        using classify_missing [of e] Err by (auto simp: missing_keys_def result_key_def ce)
      from Cons.IH [OF z(2)] show ?thesis
        unfolding ms using Err False tz by (simp add: ce comp_def)
    qed
  qed
qed

text \<open>The message of an error: the engine's errors all leave the text of \<open>BadInputs\<close>.\<close>

fun stored_message :: "work_error \<Rightarrow> work_error" where
  "stored_message (WFhevm e) = WFhevm BadInputs"
| "stored_message (WScheduler e) = WScheduler e"
| "stored_message (WLib e) = WLib e"

lemma classify_message: "snd (classify_error e) = stored_message e"
  by (cases e) simp_all

definition message_of :: "dfg_tx_result list \<Rightarrow> handle \<times> handle \<Rightarrow> work_error \<Rightarrow> bool" where
  "message_of rs k m \<longleftrightarrow>
     (\<exists>r \<in> set rs. result_key r = k
        \<and> (\<exists>e. txr_compressed r = Err e \<and> \<not> internal_error e \<and> m = stored_message e))"

lemma failed_keys_Cons:
  "failed_keys (r # rs) =
     (case txr_compressed r of Err e \<Rightarrow> if internal_error e then {} else {result_key r} | _ \<Rightarrow> {}) \<union> failed_keys rs"
  by (auto simp: failed_keys_def split: res.split)

lemma mark_errors_row:
  "\<exists>e m. mark_errors tenant rs row = row\<lparr>cr_is_error := e, cr_error_message := m\<rparr>
     \<and> (e \<longleftrightarrow> cr_is_error row \<or> cr_tenant_id row = tenant \<and> row_key row \<in> failed_keys rs)
     \<and> (if cr_tenant_id row = tenant \<and> row_key row \<in> failed_keys rs
        then \<exists>m'. m = Some m' \<and> message_of rs (row_key row) m'
        else m = cr_error_message row)"
proof (induction rs arbitrary: row)
  case Nil
  then show ?case
    by (intro exI [of _ "cr_is_error row"] exI [of _ "cr_error_message row"]) (simp add: failed_keys_def)
next
  case (Cons r rs)
  let ?hit = "cr_tenant_id row = tenant \<and> row_key row = result_key r
      \<and> (\<exists>e. txr_compressed r = Err e \<and> \<not> internal_error e)"
  show ?case
  proof (cases ?hit)
    case False
    then have eq1: "mark_errors tenant (r # rs) row = mark_errors tenant rs row"
      by (auto split: res.split)
    have eq2: "(cr_tenant_id row = tenant \<and> row_key row \<in> failed_keys (r # rs))
        = (cr_tenant_id row = tenant \<and> row_key row \<in> failed_keys rs)"
      using False by (auto simp: failed_keys_Cons split: res.split)
    have more: "message_of rs k m \<Longrightarrow> message_of (r # rs) k m" for k m
      by (auto simp: message_of_def)
    obtain b m where bm:
      "mark_errors tenant rs row = row\<lparr>cr_is_error := b, cr_error_message := m\<rparr>"
      "b \<longleftrightarrow> cr_is_error row \<or> cr_tenant_id row = tenant \<and> row_key row \<in> failed_keys rs"
      "if cr_tenant_id row = tenant \<and> row_key row \<in> failed_keys rs
        then \<exists>m'. m = Some m' \<and> message_of rs (row_key row) m'
        else m = cr_error_message row"
      using Cons.IH [of row] by blast
    have "if cr_tenant_id row = tenant \<and> row_key row \<in> failed_keys rs
        then \<exists>m'. m = Some m' \<and> message_of (r # rs) (row_key row) m'
        else m = cr_error_message row"
      using bm(3) more [of "row_key row"] by (cases "cr_tenant_id row = tenant \<and> row_key row \<in> failed_keys rs") auto
    with bm(1,2) show ?thesis unfolding eq1 eq2 by blast
  next
    case True
    then obtain e where e: "txr_compressed r = Err e" "\<not> internal_error e" by blast
    let ?row = "row\<lparr>cr_is_error := True, cr_error_message := Some (stored_message e)\<rparr>"
    have m: "mark_errors tenant (r # rs) row = mark_errors tenant rs ?row"
      using True e by (simp add: classify_message)
    have k: "row_key ?row = row_key row" by (simp add: row_key_def)
    have f: "row_key row \<in> failed_keys (r # rs)" using True e by (simp add: failed_keys_Cons)
    have here: "message_of (r # rs) (row_key row) (stored_message e)"
      using True e by (auto simp: message_of_def)
    have more: "message_of rs k m \<Longrightarrow> message_of (r # rs) k m" for k m
      by (auto simp: message_of_def)
    from Cons.IH [of ?row] obtain b m' where
      b: "mark_errors tenant rs ?row = ?row\<lparr>cr_is_error := b, cr_error_message := m'\<rparr>" "b"
      and m': "if cr_tenant_id row = tenant \<and> row_key row \<in> failed_keys rs
        then \<exists>m''. m' = Some m'' \<and> message_of rs (row_key row) m'' else m' = Some (stored_message e)"
      unfolding k by (elim exE conjE) simp
    have "\<exists>m''. m' = Some m'' \<and> message_of (r # rs) (row_key row) m''"
      using m' here more [of "row_key row"]
      by (cases "cr_tenant_id row = tenant \<and> row_key row \<in> failed_keys rs") auto
    with b have "mark_errors tenant rs ?row = ?row\<lparr>cr_is_error := b, cr_error_message := m'\<rparr>" "b"
        "\<exists>m''. m' = Some m'' \<and> message_of (r # rs) (row_key row) m''" by simp_all
    then show ?thesis using True f m by (intro exI [of _ True] exI [of _ m']) simp
  qed
qed

text \<open>What the writing of the results does to a row.\<close>

definition settled ::
  "i32 \<Rightarrow> nat \<Rightarrow> (handle \<times> handle) set \<Rightarrow> dfg_tx_result list \<Rightarrow> computation_row \<Rightarrow> computation_row \<Rightarrow> bool" where
  "settled tenant now reported rs r r' \<longleftrightarrow>
     same_row r r'
   \<and> (cr_is_completed r' \<longleftrightarrow> cr_is_completed r \<or> cr_tenant_id r = tenant \<and> row_key r \<in> reported)
   \<and> (cr_is_error r' \<longleftrightarrow> cr_is_error r \<or> cr_tenant_id r = tenant \<and> row_key r \<in> failed_keys rs)
   \<and> (if cr_tenant_id r = tenant \<and> row_key r \<in> failed_keys rs
      then \<exists>m. cr_error_message r' = Some m \<and> message_of rs (row_key r) m
      else cr_error_message r' = cr_error_message r)
   \<and> (if cr_tenant_id r = tenant \<and> row_key r \<in> missing_keys rs
      then cr_schedule_order r' = now + cr_uncomputable_counter r
         \<and> cr_uncomputable_counter r' = min (cr_uncomputable_counter r * 2) 32000
      else cr_schedule_order r' = cr_schedule_order r
         \<and> cr_uncomputable_counter r' = cr_uncomputable_counter r)"

lemma same_row_refl: "same_row r r"
  by (simp add: same_row_def)

lemma same_row_update:
  "same_row r r' \<Longrightarrow> same_row r (r'\<lparr>cr_is_completed := b\<rparr>)"
  "same_row r r' \<Longrightarrow> same_row r (r'\<lparr>cr_is_error := e, cr_error_message := m\<rparr>)"
  "same_row r r' \<Longrightarrow> same_row r (r'\<lparr>cr_schedule_order := s, cr_uncomputable_counter := c\<rparr>)"
  by (simp_all add: same_row_def)

lemma same_row_key: "same_row r r' \<Longrightarrow> row_key r' = row_key r \<and> cr_tenant_id r' = cr_tenant_id r"
  by (simp add: same_row_def row_key_def)

definition put_off :: "nat \<Rightarrow> computation_row \<Rightarrow> computation_row" where
  "put_off now r =
     r\<lparr>cr_schedule_order := now + cr_uncomputable_counter r,
       cr_uncomputable_counter := min (cr_uncomputable_counter r * 2) 32000\<rparr>"

definition settle_row ::
  "i32 \<Rightarrow> nat \<Rightarrow> (handle \<times> handle) set \<Rightarrow> dfg_tx_result list \<Rightarrow> computation_row \<Rightarrow> computation_row" where
  "settle_row tenant now reported rs r =
     (let r1 = mark_errors tenant rs r;
          r2 = (if matches_row tenant reported r1 then r1\<lparr>cr_is_completed := True\<rparr> else r1)
      in if matches_row tenant (missing_keys rs) r2 then put_off now r2 else r2)"

lemma settled_row: "settled tenant now reported rs r (settle_row tenant now reported rs r)"
proof -
  obtain e m where em: "mark_errors tenant rs r = r\<lparr>cr_is_error := e, cr_error_message := m\<rparr>"
    "e \<longleftrightarrow> cr_is_error r \<or> cr_tenant_id r = tenant \<and> row_key r \<in> failed_keys rs"
    "if cr_tenant_id r = tenant \<and> row_key r \<in> failed_keys rs
        then \<exists>m'. m = Some m' \<and> message_of rs (row_key r) m'
        else m = cr_error_message r"
    using mark_errors_row [of tenant rs r] by blast
  define r1 where "r1 = r\<lparr>cr_is_error := e, cr_error_message := m\<rparr>"
  define r2 where "r2 = (if matches_row tenant reported r1 then r1\<lparr>cr_is_completed := True\<rparr> else r1)"
  have s1: "same_row r r1" unfolding r1_def by (intro same_row_update same_row_refl)
  then have s2: "same_row r r2" unfolding r2_def by (auto intro: same_row_update)
  have m1: "matches_row tenant K r1 \<longleftrightarrow> cr_tenant_id r = tenant \<and> row_key r \<in> K" for K
    using same_row_key [OF s1] by (simp add: matches_row_key)
  have m2: "matches_row tenant K r2 \<longleftrightarrow> cr_tenant_id r = tenant \<and> row_key r \<in> K" for K
    using same_row_key [OF s2] by (simp add: matches_row_key)
  have f2: "cr_is_error r2 = e" "cr_error_message r2 = m" "cr_schedule_order r2 = cr_schedule_order r"
    "cr_uncomputable_counter r2 = cr_uncomputable_counter r"
    "cr_is_completed r2 \<longleftrightarrow> cr_is_completed r \<or> cr_tenant_id r = tenant \<and> row_key r \<in> reported"
    unfolding r2_def m1 by (auto simp: r1_def)
  have r3: "settle_row tenant now reported rs r
      = (if cr_tenant_id r = tenant \<and> row_key r \<in> missing_keys rs then put_off now r2 else r2)"
    by (simp only: settle_row_def em(1) Let_def r1_def [symmetric] r2_def [symmetric] m2)
  have "same_row r (put_off now r2)" unfolding put_off_def by (rule same_row_update(3) [OF s2])
  then show ?thesis
    using s2 em(2,3) by (simp add: settled_def r3 f2 put_off_def)
qed

lemma upload_effect:
  assumes "upload_transaction_graph_results tenant g unneeded x = Ok y"
  shows "x_tables y = (x_tables x)
           \<lparr>t_ciphertexts := fold (insert_new ciphertext_key) (result_ciphertexts tenant (cg_results g))
                              (t_ciphertexts (x_tables x)),
            t_computations := t_computations (x_tables y)\<rparr>
    \<and> list_all2 (settled tenant (x_now x) (set (fst (get_handles g)) \<union> set unneeded) (cg_results g))
        (t_computations (x_tables x)) (t_computations (x_tables y))"
proof -
  let ?rs = "cg_results g" and ?done = "fst (get_handles g) @ unneeded"
  have gr: "get_results g = (?rs, g\<lparr>cg_results := []\<rparr>)" by (simp add: get_results_def)
  have gh: "fst (get_handles (g\<lparr>cg_results := []\<rparr>)) = fst (get_handles g)" by (simp add: get_handles_def)
  obtain g2 where gh2: "get_handles (g\<lparr>cg_results := []\<rparr>) = (fst (get_handles g), g2)"
    using gh by (cases "get_handles (g\<lparr>cg_results := []\<rparr>)") simp
  obtain cts unc x1 x2 x3 x4 where
    c: "collect_results tenant ?rs [] [] x = Ok (cts, unc, x1)" and
    s: "statement (insert_ciphertexts cts) x1 = Ok x2" "statement id x2 = Ok x3"
       "statement (set_completed tenant ?done) x3 = Ok x4"
       "statement (update_uncomputable_handles tenant (x_now x4) unc) x4 = Ok y"
    using assms
    by (auto simp: upload_transaction_graph_results_def gr gh2 Let_def of_db_def bind_res_eq_Ok)
  note cr = collect_results_ok [OF c]
  have now: "x_now x4 = x_now x" using cr s by (auto dest!: statement_ok)
  have unc: "set unc = missing_keys ?rs" using cr by simp
  have d: "set ?done = set (fst (get_handles g)) \<union> set unneeded" by simp
  let ?settle = "settle_row tenant (x_now x) (set ?done) ?rs"
  have "x_tables x1 = (x_tables x)\<lparr>t_computations := map (mark_errors tenant ?rs) (t_computations (x_tables x))\<rparr>"
    "cts = result_ciphertexts tenant ?rs" using cr by simp_all
  then have ty: "x_tables y = (x_tables x)\<lparr>t_computations := map ?settle (t_computations (x_tables x)),
      t_ciphertexts := fold (insert_new ciphertext_key) (result_ciphertexts tenant ?rs) (t_ciphertexts (x_tables x))\<rparr>"
    using s [THEN statement_ok] now
    by (simp add: insert_ciphertexts_def set_completed_def update_uncomputable_handles_def
        update_where_def comp_def settle_row_def [abs_def] put_off_def [abs_def] Let_def unc)
  have "list_all2 (settled tenant (x_now x) (set ?done) ?rs)
      (t_computations (x_tables x)) (map ?settle (t_computations (x_tables x)))"
    by (simp add: list_all2_map2 list_all2_same settled_row del: set_append)
  then show ?thesis by (simp add: ty d del: set_append)
qed

lemmas upload_settles = upload_effect [THEN conjunct2]

text \<open>
  C25. What the worker writes for a tenant is exactly what its graph reports. Every ciphertext that
  was computed and kept is stored, none is overwritten. A row is completed when its handle is
  reported by the graph or unneeded, is an error when a result says so that is not an internal
  failure of the scheduler, and is put off with a doubled, bounded delay when its inputs were
  missing; no other row, and nothing else of a row or of another table, changes. The message stored
  for any error of the engine is that of \<open>BadInputs\<close>.
\<close>

theorem results_written:
  assumes "upload_transaction_graph_results tenant g unneeded x = Ok y"
  shows "x_tables y = (x_tables x)
           \<lparr>t_ciphertexts := fold (insert_new ciphertext_key) (result_ciphertexts tenant (cg_results g))
                              (t_ciphertexts (x_tables x)),
            t_computations := t_computations (x_tables y)\<rparr>
    \<and> list_all2 (settled tenant (x_now x) (set (fst (get_handles g)) \<union> set unneeded) (cg_results g))
        (t_computations (x_tables x)) (t_computations (x_tables y))"
  using assms by (rule upload_effect)


section \<open>Witnesses\<close>

definition division_log :: "u8 \<Rightarrow> log_tfhe" where
  "division_log d =
     \<lparr> lt_event = EFheDiv [1] [d] 1 [2], lt_transaction_hash = Some [7], lt_is_allowed = True,
       lt_block_number = None \<rparr>"

theorem event_becomes_operation_witness:
  "(\<exists>e. (work_operation (computation_of_log 1 0 (division_log 0) [5]) :: (cycle_error, nat dfg_op) res)
        = Err (CycleCoprocessor (OfFhevm e)))
   \<and> work_operation (computation_of_log 1 0 (division_log 3) [5])
     = Ok \<lparr> output_handle = [2], fhe_operation = FheDiv,
            dfg_inputs = [TaskDependence [1], TaskValue (Scalar [3] :: nat sfc)], dfg_is_allowed = True \<rparr>"
  using event_becomes_operation [of "division_log 0" "[2]" "[[1], [0]]" "[]" 1 1 0 "[5]"]
    event_becomes_operation [of "division_log 3" "[2]" "[[1], [3]]" "[]" 1 1 0 "[5]"]
  by (simp add: division_log_def event_computation_def event_refused_def event_inputs_def)

text \<open>The rows of the operations of \<open>sample_ops\<close>.\<close>

definition sample_row :: "bytes \<Rightarrow> bytes \<Rightarrow> i16 \<Rightarrow> bool \<Rightarrow> computation_row" where
  "sample_row h d code allowed =
     \<lparr> cr_tenant_id = 1, cr_output_handle = h, cr_dependencies = [d], cr_fhe_operation = code,
       cr_is_scalar = False, cr_dependence_chain_id = h, cr_transaction_id = [7],
       cr_is_allowed = allowed, cr_is_completed = False, cr_is_error = False, cr_error_message = None,
       cr_schedule_order = 0, cr_uncomputable_counter = 1 \<rparr>"

definition sample_rows :: "computation_row list" where
  "sample_rows =
     [sample_row [1] [9] (op_to_i16 FheNeg) False, sample_row [2] [1] (op_to_i16 FheNot) True,
      sample_row [3] [1] (op_to_i16 FheNot) False]"

definition sample_trx :: "trx" where
  "sample_trx =
     \<lparr> x_tables = no_tables\<lparr>t_computations := sample_rows\<rparr>, x_now = 10, x_faults = [] \<rparr>"

definition same_order :: group_order where
  "same_order = \<lparr> go_tenants = (\<lambda>ks. ks), go_transactions = (\<lambda>ks. ks) \<rparr>"

lemma work_operation_unary:
  assumes "op_type op = Unary"
  shows "(work_operation (sample_row h d (op_to_i16 op) a) :: (cycle_error, nat dfg_op) res)
       = Ok \<lparr> output_handle = h, fhe_operation = op, dfg_inputs = [TaskDependence d], dfg_is_allowed = a \<rparr>"
proof -
  let ?w = "sample_row h d (op_to_i16 op) a"
  have op: "op_try_from_i16 (cr_fhe_operation ?w) = Ok op" by (simp add: sample_row_def op16.dec_enc)
  have ni: "op \<noteq> FheGetInputCiphertext" "\<not> does_have_more_than_one_scalar op"
    using assms by (auto simp: more_than_one_scalar_iff)
  have fs: "operand_flags False op 0 (Suc 0) = [False]" using ni by (simp add: operand_flags_Suc)
  from work_operation_accepted [OF op ni(1)] show ?thesis
    using assms fs by (simp add: sample_row_def operands_accepted_def operand_input_def)
qed

lemma sample_rows_ops: "work_operations sample_rows = Ok sample_ops"
  using work_operation_unary [of FheNeg "[1]" "[9]" False] work_operation_unary [of FheNot "[2]" "[1]" True]
    work_operation_unary [of FheNot "[3]" "[1]" False]
  by (simp add: sample_rows_def sample_ops_def)

lemma sample_work: "the_work 1 (\<lambda>_. False) (x_tables sample_trx) = sample_rows"
  by (simp add: the_work_def selected_transactions_def sample_trx_def sample_rows_def sample_row_def
      is_pending_def)

lemma sample_query:
  "\<exists>cs us. query_for_work 1 (\<lambda>_. False) 4 list_dag same_order sample_trx
     = Some (Ok (sample_trx, [(1, cs :: nat component list)], us))"
proof -
  obtain cs us where b: "build_component_nodes 4 list_dag sample_ops [7] = Some (Ok (cs, us))"
    using sample_build by blast
  have st: "statement id sample_trx = Ok sample_trx" by (simp add: statement_def sample_trx_def)
  have f: "filter (\<lambda>w. cr_tenant_id w = 1) sample_rows = sample_rows"
    "filter (\<lambda>w. cr_transaction_id w = [7]) sample_rows = sample_rows"
    "remdups (map cr_tenant_id sample_rows) = [1]" "remdups (map cr_transaction_id sample_rows) = [[7]]"
    "sample_rows \<noteq> []"
    by (simp_all add: sample_rows_def sample_row_def)
  show ?thesis
    by (simp add: query_for_work_def of_db_def st sample_work [unfolded One_nat_def] f same_order_def Let_def sample_rows_ops b)
qed

theorem work_is_complete_witness:
  "\<exists>cs us. query_for_work 1 (\<lambda>_. False) 4 list_dag same_order sample_trx
       = Some (Ok (sample_trx, [(1, cs :: nat component list)], us))
     \<and> distinct (component_keys cs) \<and> allowed_keys sample_rows 1 \<subseteq> set (component_keys cs)
     \<and> row_keys sample_rows 1 \<subseteq> set (component_keys cs) \<union> set us"
proof -
  obtain cs us where q: "query_for_work 1 (\<lambda>_. False) 4 list_dag same_order sample_trx
     = Some (Ok (sample_trx, [(1, cs :: nat component list)], us))" using sample_query by blast
  have g: "groups_ok same_order" by (simp add: groups_ok_def same_order_def)
  have d: "distinct (map computation_key (t_computations (x_tables sample_trx)))"
    "length (t_computations (x_tables sample_trx)) < 4"
    by (simp_all add: sample_trx_def sample_rows_def sample_row_def computation_key_def)
  from work_is_complete [OF list_dag_queries list_dag_removal list_dag_view g d q] q show ?thesis
    unfolding sample_work by auto
qed

text \<open>A graph of two components, with a result of the first and an error of the second.\<close>

definition sample_results :: "dfg_tx_result list" where
  "sample_results =
     [\<lparr> txr_handle = [2], txr_transaction_id = [7], txr_compressed = Ok (2, [5]) \<rparr>,
      \<lparr> txr_handle = [3], txr_transaction_id = [7],
        txr_compressed = Err (WFhevm InvalidHandle) \<rparr>]"

lemma statement_none: "x_faults x = [] \<Longrightarrow> statement f x = Ok (x\<lparr>x_tables := f (x_tables x)\<rparr>)"
  by (rule statement_no_fault)

theorem results_written_witness:
  "\<exists>y. upload_transaction_graph_results 1 (sample_graph\<lparr>cg_results := sample_results\<rparr>) [([1], [7])] sample_trx = Ok y
     \<and> list_all2 (settled 1 10 (set (fst (get_handles (sample_graph\<lparr>cg_results := sample_results\<rparr>))) \<union> {([1], [7])})
          sample_results) sample_rows (t_computations (x_tables y))"
proof -
  let ?g = "sample_graph\<lparr>cg_results := sample_results\<rparr>"
  have "is_ok (upload_transaction_graph_results 1 ?g [([1], [7])] sample_trx)"
    by (simp add: upload_transaction_graph_results_def get_results_def get_handles_def sample_results_def
        sample_trx_def statement_def of_db_def)
  then obtain y where y: "upload_transaction_graph_results 1 ?g [([1], [7])] sample_trx = Ok y"
    by (cases "upload_transaction_graph_results 1 ?g [([1], [7])] sample_trx") auto
  from results_written [OF y] y show ?thesis by (auto simp: sample_trx_def)
qed

definition waiting_row :: computation_row where
  "waiting_row = (sample_row [3] [2] (op_to_i16 FheNot) True)\<lparr>cr_transaction_id := [0]\<rparr>"


end
