(* ===== verification/BlockListener.thy ===== *)
theory BlockListener
  imports HostEvents
begin

text \<open>
  How the host listener obtains the blocks it inserts (\<open>host-listener/src/cmd/block_history.rs\<close> and
  \<open>InfiniteLogIter\<close> of \<open>cmd/mod.rs\<close>): the history of recent blocks, the catch-up over a range of
  blocks in pages, the ancestors that a reorganisation makes missing, and the iterator over them and
  the blocks of the subscription. Block numbers are \<open>u64\<close> and wrap as in a release build.
\<close>

section \<open>History of blocks\<close>

type_synonym i64 = "64 word"

text \<open>
  A \<open>VecDeque\<close>, oldest block first. How many elements it makes room for is the allocator's: at least
  what was asked for, and more than before when it grows.
\<close>

record block_history =
  ordered_blocks :: "block_summary list"
  bh_capacity :: nat

record allocator =
  with_capacity :: "nat \<Rightarrow> nat"
  grown_capacity :: "nat \<Rightarrow> nat"

definition allocator_ok :: "allocator \<Rightarrow> bool" where
  "allocator_ok A \<longleftrightarrow> (\<forall>n. n \<le> with_capacity A n) \<and> (\<forall>n. n < grown_capacity A n)"

definition MAXIMUM_NUMBER_OF_COMPETING_CHAIN :: u64 where
  "MAXIMUM_NUMBER_OF_COMPETING_CHAIN = 5"

definition MINIMUM_HISTORY_SIZE :: nat where
  "MINIMUM_HISTORY_SIZE = 2"

definition MINIMUM_BLOCK_TIME_SECONDS :: u64 where
  "MINIMUM_BLOCK_TIME_SECONDS = 1"

definition new_history :: "allocator \<Rightarrow> u64 \<Rightarrow> block_history" where
  "new_history A expected_reorg_duration =
     \<lparr> ordered_blocks = [],
       bh_capacity = with_capacity A
         (unat (expected_reorg_duration * 2 * MAXIMUM_NUMBER_OF_COMPETING_CHAIN)) \<rparr>"

definition is_ready_to_detect_reorg :: "block_history \<Rightarrow> bool" where
  "is_ready_to_detect_reorg h \<longleftrightarrow> MINIMUM_HISTORY_SIZE \<le> length (ordered_blocks h)"

definition is_known :: "block_history \<Rightarrow> bytes \<Rightarrow> bool" where
  "is_known h block_hash = list_ex (\<lambda>b. bs_hash b = block_hash) (rev (ordered_blocks h))"

definition find_block_by_number :: "block_history \<Rightarrow> u64 \<Rightarrow> block_summary option" where
  "find_block_by_number h block_number =
     List.find (\<lambda>b. bs_number b = block_number) (rev (ordered_blocks h))"

definition last_of :: "'a list \<Rightarrow> 'a option" where
  "last_of xs = (if xs = [] then None else Some (last xs))"

definition tip :: "block_history \<Rightarrow> block_summary option" where
  "tip h = last_of (ordered_blocks h)"

text \<open>\<open>pop_front\<close> of an empty deque does nothing; \<open>push_back\<close> onto a full one grows it.\<close>

definition add_block :: "allocator \<Rightarrow> block_history \<Rightarrow> block_summary \<Rightarrow> block_history" where
  "add_block A h block =
     (let blocks = (if length (ordered_blocks h) = bh_capacity h then tl (ordered_blocks h)
                    else ordered_blocks h)
      in \<lparr> ordered_blocks = blocks @ [block],
           bh_capacity = (if length blocks = bh_capacity h then grown_capacity A (bh_capacity h)
                          else bh_capacity h) \<rparr>)"

text \<open>
  \<open>estimated_block_time\<close> rounds the quotient half up. The code computes it in \<open>f64\<close>, which agrees
  with the exact quotient for differences below \<open>2 ^ 52\<close>.
\<close>

definition estimated_block_time :: "block_history \<Rightarrow> u64 option" where
  "estimated_block_time h =
     (case rev (ordered_blocks h) of
        newest # before # _ \<Rightarrow>
          if bs_timestamp newest \<le> bs_timestamp before then None
          else if bs_number newest \<le> bs_number before then None
          else
            (let dt = unat (bs_timestamp newest - bs_timestamp before);
                 dn = unat (bs_number newest - bs_number before)
             in Some (max (of_nat ((2 * dt + dn) div (2 * dn))) MINIMUM_BLOCK_TIME_SECONDS))
      | _ \<Rightarrow> None)"

section \<open>The node and the listener\<close>

text \<open>
  The node of the chain is a parameter. Its answers depend on the question and on the number of
  questions asked before, so that it may change its mind, fail or refuse. \<open>Limited\<close> is an error
  whose text contains \<open>limited\<close>: the range is too large.
\<close>

datatype rpc_error = Limited | RpcFailure

datatype log_filter = BlockRange u64 u64 "bytes list" | AtBlockHash bytes "bytes list"

datatype block_id = ByNumber u64 | Latest

datatype stream_event = EventTimeout | EventEnd | EventHeader block_summary

record chain_node =
  nd_connect :: "nat \<Rightarrow> bool"
  nd_subscribe :: "nat \<Rightarrow> bool"
  nd_block_number :: "nat \<Rightarrow> rpc_error + u64"
  nd_logs :: "nat \<Rightarrow> log_filter \<Rightarrow> rpc_error + raw_log list"
  nd_block :: "nat \<Rightarrow> block_id \<Rightarrow> rpc_error + block_summary option"
  nd_block_by_hash :: "nat \<Rightarrow> bytes \<Rightarrow> rpc_error + block_summary option"
  nd_event :: "nat \<Rightarrow> stream_event"

text \<open>
  \<open>InfiniteLogIter\<close>: whether there is a subscription and a provider, and how many questions the
  node has been asked.
\<close>

record listener =
  li_block_time :: u64
  li_contract_addresses :: "bytes list"
  li_catchup_blocks :: "(u64 \<times> u64 option) option"
  li_next_blocklogs :: "block_logs list"
  li_stream :: bool
  li_provider :: bool
  li_last_valid_block :: "u64 option"
  li_start_at_block :: "i64 option"
  li_end_at_block :: "u64 option"
  li_catchup_margin :: u64
  li_catchup_paging :: u64
  li_reorg_maximum_duration_in_blocks :: u64
  li_block_history :: block_history
  li_calls :: nat

definition asked :: "listener \<Rightarrow> listener" where
  "asked s = s\<lparr>li_calls := Suc (li_calls s)\<rparr>"

record listener_args =
  ar_addresses :: "bytes list"
  ar_initial_block_time :: u64
  ar_start_at_block :: "i64 option"
  ar_end_at_block :: "u64 option"
  ar_catchup_margin :: u64
  ar_catchup_paging :: u64
  ar_reorg_maximum_duration_in_blocks :: u64

definition new_listener :: "allocator \<Rightarrow> listener_args \<Rightarrow> listener" where
  "new_listener A args =
     \<lparr> li_block_time = ar_initial_block_time args, li_contract_addresses = ar_addresses args,
       li_catchup_blocks = None, li_next_blocklogs = [], li_stream = False, li_provider = False,
       li_last_valid_block = None, li_start_at_block = ar_start_at_block args,
       li_end_at_block = ar_end_at_block args, li_catchup_margin = ar_catchup_margin args,
       li_catchup_paging = ar_catchup_paging args,
       li_reorg_maximum_duration_in_blocks = ar_reorg_maximum_duration_in_blocks args,
       li_block_history = new_history A (ar_reorg_maximum_duration_in_blocks args),
       li_calls = 0 \<rparr>"

text \<open>
  \<open>main\<close> sets the block to start at from the last valid block of the database, when no block is
  given.
\<close>

definition start_from_database :: "u64 \<Rightarrow> i64 option \<Rightarrow> listener \<Rightarrow> listener" where
  "start_from_database margin last_valid s =
     (case li_start_at_block s of
        None \<Rightarrow> s\<lparr>li_start_at_block := map_option (\<lambda>n. n - margin) last_valid\<rparr>
      | Some _ \<Rightarrow> s)"

text \<open>
  Where the catch-up starts. \<open>as_number().unwrap_or(0)\<close> turns the earliest block into 0, and so
  does this function. Negating the least \<open>i64\<close> leaves it negative, and its conversion panics.
\<close>

definition catchup_block_from :: "chain_node \<Rightarrow> listener \<Rightarrow> (unit, u64 \<times> listener) res" where
  "catchup_block_from N s =
     (case li_last_valid_block s of
        Some last_seen_block \<Rightarrow> Ok (last_seen_block - li_catchup_margin s + 1, s)
      | None \<Rightarrow>
          (case li_start_at_block s of
             Some start_at_block \<Rightarrow>
               if 0 \<le> sint start_at_block then Ok (start_at_block, s)
               else
                 (case nd_block_number N (li_calls s) of
                    Inl _ \<Rightarrow> Ok (0, asked s)
                  | Inr last_block \<Rightarrow>
                      if sint (- start_at_block) < 0 then Panic ExpectFailed
                      else Ok (last_block - min (- start_at_block) last_block, asked s))
           | None \<Rightarrow>
               (case nd_block_number N (li_calls s) of
                  Inl _ \<Rightarrow> Ok (0, asked s)
                | Inr last_block \<Rightarrow>
                    Ok (last_block - min (li_catchup_margin s) last_block, asked s))))"

section \<open>Questions that are repeated\<close>

definition REORG_RETRY_GET_LOGS :: nat where
  "REORG_RETRY_GET_LOGS = 10"

definition REORG_RETRY_GET_BLOCK :: nat where
  "REORG_RETRY_GET_BLOCK = 10"

fun retry :: "nat \<Rightarrow> (nat \<Rightarrow> 'a option) \<Rightarrow> listener \<Rightarrow> 'a option \<times> listener" where
  "retry 0 ask s = (None, s)"
| "retry (Suc i) ask s =
     (if \<not> li_provider s then (None, s)
      else case ask (li_calls s) of
             Some x \<Rightarrow> (Some x, asked s)
           | None \<Rightarrow> retry i ask (asked s))"

definition found_block :: "rpc_error + block_summary option \<Rightarrow> block_summary option" where
  "found_block r = (case r of Inr b \<Rightarrow> b | Inl _ \<Rightarrow> None)"

definition get_block_by_id ::
  "chain_node \<Rightarrow> block_id \<Rightarrow> listener \<Rightarrow> block_summary option \<times> listener" where
  "get_block_by_id N i = retry (Suc REORG_RETRY_GET_BLOCK) (\<lambda>n. found_block (nd_block N n i))"

definition get_block :: "chain_node \<Rightarrow> bytes \<Rightarrow> listener \<Rightarrow> block_summary option \<times> listener" where
  "get_block N block_hash =
     retry (Suc REORG_RETRY_GET_BLOCK) (\<lambda>n. found_block (nd_block_by_hash N n block_hash))"

definition get_logs_at_hash ::
  "chain_node \<Rightarrow> bytes \<Rightarrow> listener \<Rightarrow> raw_log list option \<times> listener" where
  "get_logs_at_hash N block_hash s =
     retry REORG_RETRY_GET_LOGS
       (\<lambda>n. case nd_logs N n (AtBlockHash block_hash (li_contract_addresses s)) of
              Inr logs \<Rightarrow> Some logs | Inl _ \<Rightarrow> None) s"

section \<open>Splitting logs into blocks\<close>

definition zero_hash :: bytes where
  "zero_hash = replicate 32 0"

definition deduce_block_summary ::
  "chain_node \<Rightarrow> u64 \<Rightarrow> raw_log \<Rightarrow> block_logs option \<Rightarrow> listener \<Rightarrow> block_summary \<times> listener" where
  "deduce_block_summary N number log previous_block s =
     (case find_block_by_number (li_block_history s) number of
        Some summary \<Rightarrow> (summary, s)
      | None \<Rightarrow>
          (case get_block_by_id N (ByNumber number) s of
             (Some summary, s') \<Rightarrow> (summary, s')
           | (None, s') \<Rightarrow>
               (let estimated_timestamp =
                      (case previous_block of None \<Rightarrow> 0 | Some b \<Rightarrow> bs_timestamp (bk_summary b))
                      + li_block_time s
                in (\<lparr> bs_number = number,
                      bs_hash = (case rl_block_hash log of None \<Rightarrow> zero_hash | Some h \<Rightarrow> h),
                      bs_parent_hash =
                        (case previous_block of None \<Rightarrow> zero_hash | Some b \<Rightarrow> bs_hash (bk_summary b)),
                      bs_timestamp =
                        (case rl_block_timestamp log of None \<Rightarrow> estimated_timestamp | Some ts \<Rightarrow> ts) \<rparr>,
                    s'))))"

text \<open>
  The first loop leaves the last log out: it gets no number and its order is not looked at.
\<close>

fun assume_numbers :: "raw_log list \<Rightarrow> u64 \<Rightarrow> bool \<Rightarrow> raw_log list \<times> bool" where
  "assume_numbers (log # log' # logs) prev_block_number is_sorted =
     (let log_block_number =
            (case rl_block_number log of None \<Rightarrow> prev_block_number | Some n \<Rightarrow> n);
          (logs', is_sorted') =
            assume_numbers (log' # logs) log_block_number
              (is_sorted \<and> prev_block_number \<le> log_block_number)
      in (log\<lparr>rl_block_number := Some log_block_number\<rparr> # logs', is_sorted'))"
| "assume_numbers logs prev_block_number is_sorted = (logs, is_sorted)"

fun last_of_block :: "raw_log list \<Rightarrow> bool list" where
  "last_of_block (log # log' # logs) =
     (rl_block_number log' \<noteq> rl_block_number log) # last_of_block (log' # logs)"
| "last_of_block [log] = [True]"
| "last_of_block [] = []"

fun group_logs ::
  "chain_node \<Rightarrow> (raw_log \<times> bool) list \<Rightarrow> raw_log list \<Rightarrow> block_logs list \<Rightarrow> listener
     \<Rightarrow> (unit, block_logs list \<times> listener) res" where
  "group_logs N [] current_logs blocks_logs s = assert_then (current_logs = []) (Ok (blocks_logs, s))"
| "group_logs N ((log, is_last) # logs) current_logs blocks_logs s =
     (if \<not> is_last then group_logs N logs (current_logs @ [log]) blocks_logs s
      else case rl_block_number log of
             None \<Rightarrow> Panic ExpectFailed
           | Some number \<Rightarrow>
               (let (summary, s') = deduce_block_summary N number log (last_of blocks_logs) s
                in group_logs N logs []
                     (blocks_logs @
                        [\<lparr> bk_logs = current_logs @ [log], bk_summary = summary, bk_catchup = True \<rparr>])
                     s'))"

text \<open>A sort of at least two logs looks at the number of each of them.\<close>

definition split_by_block ::
  "chain_node \<Rightarrow> raw_log list \<Rightarrow> listener \<Rightarrow> (unit, block_logs list \<times> listener) res" where
  "split_by_block N logs s =
     (if logs = [] then Ok ([], s)
      else
        (let (logs', is_sorted) = assume_numbers logs 0 True
         in if \<not> is_sorted \<and> (\<exists>log \<in> set logs'. rl_block_number log = None) then Panic ExpectFailed
            else
              (let logs'' = (if is_sorted then logs'
                             else sort_key (\<lambda>log. the (rl_block_number log)) logs')
               in group_logs N (zip logs'' (last_of_block logs'')) [] [] s)))"

section \<open>Catching up\<close>

text \<open>
  The paging loop of \<open>consume_catchup_blocks\<close>. The outer \<open>None\<close> is the end of the fuel, the inner one an early return.
\<close>

fun catchup_page ::
  "nat \<Rightarrow> chain_node \<Rightarrow> u64 \<Rightarrow> listener
     \<Rightarrow> ((raw_log list \<times> u64) option \<times> listener) option" where
  "catchup_page 0 N paging_size s = None"
| "catchup_page (Suc k) N paging_size s =
     (case li_catchup_blocks s of
        None \<Rightarrow> Some (None, s)
      | Some (from_block, to_block) \<Rightarrow>
          (let paging_to_block =
                 (case to_block of
                    Some b \<Rightarrow> min b (from_block + paging_size)
                  | None \<Rightarrow> from_block + paging_size)
           in if \<not> li_provider s then Some (None, s)
              else
                (case nd_logs N (li_calls s)
                        (BlockRange from_block paging_to_block (li_contract_addresses s)) of
                   Inr logs \<Rightarrow> Some (Some (logs, paging_to_block), asked s)
                 | Inl Limited \<Rightarrow>
                     if paging_size = 1 then
                       catchup_page k N paging_size
                         ((asked s)\<lparr>li_catchup_blocks := Some (from_block + 1, to_block)\<rparr>)
                     else catchup_page k N (max (paging_size div 2) 1) (asked s)
                 | Inl RpcFailure \<Rightarrow> Some (None, asked s))))"

text \<open>What remains to catch up after a page, when the queue holds \<open>nb_logs\<close> blocks.\<close>

definition after_page :: "chain_node \<Rightarrow> u64 option \<Rightarrow> u64 \<Rightarrow> listener \<Rightarrow> listener" where
  "after_page N to_block paging_to_block s =
     (let s1 = s\<lparr>li_catchup_blocks := Some (paging_to_block + 1, to_block)\<rparr>
      in case to_block of
           Some b \<Rightarrow>
             if paging_to_block = b \<or> paging_to_block + 1 > b then s1\<lparr>li_catchup_blocks := None\<rparr> else s1
         | None \<Rightarrow>
             if li_next_blocklogs s1 = [] then
               (if \<not> li_provider s1 then s1
                else case nd_block_number N (li_calls s1) of
                       Inr current_block \<Rightarrow>
                         if current_block < paging_to_block + 1 then (asked s1)\<lparr>li_catchup_blocks := None\<rparr>
                         else asked s1
                     | Inl _ \<Rightarrow> asked s1)
             else s1)"

definition consume_catchup_blocks ::
  "nat \<Rightarrow> chain_node \<Rightarrow> listener \<Rightarrow> (unit, listener) res option" where
  "consume_catchup_blocks k N s =
     (case li_catchup_blocks s of
        None \<Rightarrow> Some (Ok s)
      | Some (_, to_block) \<Rightarrow>
          (case catchup_page k N (li_catchup_paging s) s of
             None \<Rightarrow> None
           | Some (None, s1) \<Rightarrow> Some (Ok s1)
           | Some (Some (logs, paging_to_block), s1) \<Rightarrow>
               Some (bind_res (split_by_block N logs s1) (\<lambda>(by_blocks, s2).
                 Ok (after_page N to_block paging_to_block
                       (s2\<lparr>li_next_blocklogs := li_next_blocklogs s2 @ by_blocks\<rparr>))))))"

section \<open>Missing ancestors\<close>

text \<open>The ancestors, the youngest first; the code reverses them at the end.\<close>

fun collect_missing ::
  "nat \<Rightarrow> chain_node \<Rightarrow> block_summary \<Rightarrow> listener \<Rightarrow> block_summary list \<times> listener" where
  "collect_missing 0 N current_block s = ([], s)"
| "collect_missing (Suc i) N current_block s =
     (let parent_block_hash = bs_parent_hash current_block
      in if is_known (li_block_history s) parent_block_hash \<or> parent_block_hash = zero_hash then ([], s)
         else
           (case get_block N parent_block_hash s of
              (None, s') \<Rightarrow> ([], s')
            | (Some parent_block, s') \<Rightarrow>
                (let (missing_blocks, s'') = collect_missing i N parent_block s'
                 in (parent_block # missing_blocks, s''))))"

definition get_missings_ancestors ::
  "chain_node \<Rightarrow> block_summary \<Rightarrow> listener \<Rightarrow> block_summary list \<times> listener" where
  "get_missings_ancestors N current_block s =
     (let (missing_blocks, s') =
            collect_missing (unat (li_reorg_maximum_duration_in_blocks s)) N current_block s
      in (rev missing_blocks, s'))"

definition history_add :: "allocator \<Rightarrow> block_summary \<Rightarrow> listener \<Rightarrow> listener" where
  "history_add A block s = s\<lparr>li_block_history := add_block A (li_block_history s) block\<rparr>"

fun populate_catchup_logs_from_missing_blocks ::
  "allocator \<Rightarrow> chain_node \<Rightarrow> block_summary list \<Rightarrow> listener \<Rightarrow> listener" where
  "populate_catchup_logs_from_missing_blocks A N [] s = s"
| "populate_catchup_logs_from_missing_blocks A N (missing_block # missing_blocks) s =
     (case get_logs_at_hash N (bs_hash missing_block) s of
        (None, s') \<Rightarrow> populate_catchup_logs_from_missing_blocks A N missing_blocks s'
      | (Some logs, s') \<Rightarrow>
          populate_catchup_logs_from_missing_blocks A N missing_blocks
            (history_add A missing_block
               (s'\<lparr>li_next_blocklogs := li_next_blocklogs s' @
                   [\<lparr> bk_logs = logs, bk_summary = missing_block, bk_catchup = True \<rparr>]\<rparr>)))"

definition check_missing_ancestors ::
  "allocator \<Rightarrow> chain_node \<Rightarrow> block_summary \<Rightarrow> listener \<Rightarrow> listener" where
  "check_missing_ancestors A N current_block_summary s =
     (if \<not> is_ready_to_detect_reorg (li_block_history s) then history_add A current_block_summary s
      else
        (let (missing_blocks, s') = get_missings_ancestors N current_block_summary s
         in if missing_blocks = [] then history_add A current_block_summary s'
            else
              history_add A current_block_summary
                (populate_catchup_logs_from_missing_blocks A N missing_blocks s')))"

section \<open>The iterator\<close>

text \<open>
  \<open>new_log_stream\<close>: on the first connection the listener gives up after 20 retries. The number of
  retries left is a signed integer, since a later connection is retried for ever. \<open>None\<close>: fuel.
\<close>

fun new_log_stream ::
  "nat \<Rightarrow> chain_node \<Rightarrow> bool \<Rightarrow> int \<Rightarrow> listener \<Rightarrow> (unit, listener) res option" where
  "new_log_stream 0 N not_initialized retries s = None"
| "new_log_stream (Suc k) N not_initialized retries s =
     (if nd_connect N (li_calls s) then
        Some (bind_res (catchup_block_from N (asked s)) (\<lambda>(catch_up_from, s1).
          let s2 = s1\<lparr>li_catchup_blocks := Some (catch_up_from, li_end_at_block s1)\<rparr>
          in if nd_subscribe N (li_calls s2) then Ok ((asked s2)\<lparr>li_stream := True, li_provider := True\<rparr>)
             else Panic ExpectFailed))
      else if not_initialized \<and> retries = 0 then Some (Panic ExplicitPanic)
      else new_log_stream k N not_initialized (retries - 1) (asked s))"

definition attach_logs_to ::
  "chain_node \<Rightarrow> block_summary \<Rightarrow> listener \<Rightarrow> block_logs option \<times> listener" where
  "attach_logs_to N block_header s =
     (case get_logs_at_hash N (bs_hash block_header) s of
        (Some logs, s') \<Rightarrow>
          (Some \<lparr> bk_logs = logs, bk_summary = block_header, bk_catchup = False \<rparr>, s')
      | (None, s') \<Rightarrow> (None, s'))"

definition find_last_block_and_logs :: "chain_node \<Rightarrow> listener \<Rightarrow> block_logs option \<times> listener" where
  "find_last_block_and_logs N s =
     (case get_block_by_id N Latest s of
        (Some block, s') \<Rightarrow> attach_logs_to N block s'
      | (None, s') \<Rightarrow> (None, s'))"

text \<open>\<open>next_block\<close>, when there is a stream.\<close>

datatype block_or_timeout_or_none = BlockItem block_logs | TimeoutItem | NoItem

definition next_block ::
  "chain_node \<Rightarrow> listener \<Rightarrow> block_or_timeout_or_none option \<times> listener" where
  "next_block N s =
     (if \<not> li_stream s then (None, s)
      else case nd_event N (li_calls s) of
             EventTimeout \<Rightarrow> (Some TimeoutItem, asked s)
           | EventEnd \<Rightarrow> (Some NoItem, asked s)
           | EventHeader h \<Rightarrow>
               (case attach_logs_to N h (asked s) of
                  (Some b, s') \<Rightarrow> (Some (BlockItem b), s')
                | (None, s') \<Rightarrow> (None, s')))"

definition end_at_block_reached :: "chain_node \<Rightarrow> listener \<Rightarrow> bool \<times> listener" where
  "end_at_block_reached N s =
     (case li_end_at_block s of
        None \<Rightarrow> (False, s)
      | Some end_at_block \<Rightarrow>
          (case tip (li_block_history s) of
             Some current_block \<Rightarrow> (bs_number current_block > end_at_block, s)
           | None \<Rightarrow>
               (case get_block_by_id N Latest s of
                  (Some current_block, s') \<Rightarrow> (bs_number current_block > end_at_block, s')
                | (None, s') \<Rightarrow> (False, s'))))"

text \<open>A block of the stream is put behind its missing ancestors, and the first of them delivered.\<close>

definition deliver_block ::
  "allocator \<Rightarrow> chain_node \<Rightarrow> block_logs \<Rightarrow> listener \<Rightarrow> block_logs option \<times> listener" where
  "deliver_block A N block_logs s =
     (let s' = check_missing_ancestors A N (bk_summary block_logs) s
      in case li_next_blocklogs s' @ [block_logs] of
           b # bs \<Rightarrow> (Some b, s'\<lparr>li_next_blocklogs := bs\<rparr>)
         | [] \<Rightarrow> (None, s'))"

fun next_logs ::
  "nat \<Rightarrow> nat \<Rightarrow> allocator \<Rightarrow> chain_node \<Rightarrow> bool \<Rightarrow> listener
     \<Rightarrow> (unit, block_logs option \<times> listener) res option" where
  "next_logs k 0 A N not_initialized s = None"
| "next_logs k (Suc n) A N not_initialized s =
     (if \<not> li_stream s then
        (case new_log_stream k N not_initialized 20 s of
           Some (Ok s') \<Rightarrow> next_logs k n A N False s'
         | Some (Err e) \<Rightarrow> Some (Err e)
         | Some (Panic p) \<Rightarrow> Some (Panic p)
         | None \<Rightarrow> None)
      else
        (case (if li_next_blocklogs s = [] then consume_catchup_blocks k N s else Some (Ok s)) of
           None \<Rightarrow> None
         | Some (Err e) \<Rightarrow> Some (Err e)
         | Some (Panic p) \<Rightarrow> Some (Panic p)
         | Some (Ok s1) \<Rightarrow>
             (case li_next_blocklogs s1 of
                b # bs \<Rightarrow> Some (Ok (Some b, s1\<lparr>li_next_blocklogs := bs\<rparr>))
              | [] \<Rightarrow>
                  (case end_at_block_reached N s1 of
                     (True, s2) \<Rightarrow> Some (Ok (None, s2))
                   | (False, s2) \<Rightarrow>
                       (case next_block N s2 of
                          (None, s3) \<Rightarrow> next_logs k n A N not_initialized (s3\<lparr>li_stream := False\<rparr>)
                        | (Some NoItem, s3) \<Rightarrow> next_logs k n A N not_initialized (s3\<lparr>li_stream := False\<rparr>)
                        | (Some TimeoutItem, s3) \<Rightarrow>
                            (case find_last_block_and_logs N s3 of
                               (None, s4) \<Rightarrow> next_logs k n A N not_initialized s4
                             | (Some b, s4) \<Rightarrow> Some (Ok (deliver_block A N b s4)))
                        | (Some (BlockItem b), s3) \<Rightarrow> Some (Ok (deliver_block A N b s3)))))))"

end
