(* ===== verification/BlockListenerCorrect.thy ===== *)
theory BlockListenerCorrect
  imports BlockListener "HOL-Library.Sublist"
begin

text \<open>
  What the listener obtains from the chain: logs are grouped by block, a range of blocks is caught
  up without a gap, and the ancestors a reorganisation makes missing are delivered before the block
  that needs them.
\<close>

section \<open>Questions change nothing but their number\<close>

definition only_asked :: "listener \<Rightarrow> listener \<Rightarrow> bool" where
  "only_asked s s' \<longleftrightarrow> (\<exists>n. s' = s\<lparr>li_calls := n\<rparr>)"

lemma only_asked_refl [simp]: "only_asked s s"
  unfolding only_asked_def by (rule exI [of _ "li_calls s"]) simp

lemma only_asked_asked [simp]: "only_asked s (asked s)"
  unfolding only_asked_def asked_def by (rule exI, rule refl)

lemma only_asked_trans [trans]: "only_asked s t \<Longrightarrow> only_asked t u \<Longrightarrow> only_asked s u"
  by (auto simp: only_asked_def)

lemma only_askedD:
  assumes "only_asked s s'"
  shows "li_block_history s' = li_block_history s" "li_next_blocklogs s' = li_next_blocklogs s"
    "li_catchup_blocks s' = li_catchup_blocks s" "li_provider s' = li_provider s"
    "li_contract_addresses s' = li_contract_addresses s" "li_catchup_paging s' = li_catchup_paging s"
    "li_reorg_maximum_duration_in_blocks s' = li_reorg_maximum_duration_in_blocks s"
    "li_block_time s' = li_block_time s"
  using assms by (auto simp: only_asked_def)

lemma retry_only_asked: "only_asked s (snd (retry i ask s))"
proof (induction i arbitrary: s)
  case (Suc i)
  show ?case
    using only_asked_trans [OF only_asked_asked Suc.IH]
    by (cases "ask (li_calls s)") simp_all
qed simp

lemma retry_Some:
  "fst (retry i ask s) = Some x \<Longrightarrow> \<exists>t. ask t = Some x"
  by (induction i arbitrary: s) (auto split: if_splits option.splits)

lemma retry_None:
  "fst (retry i ask s) = None \<Longrightarrow> li_provider s \<Longrightarrow> j < i \<Longrightarrow> ask (li_calls s + j) = None"
proof (induction i arbitrary: s j)
  case (Suc i)
  then have a: "ask (li_calls s) = None" "fst (retry i ask (asked s)) = None"
    by (auto split: option.splits)
  show ?case
  proof (cases j)
    case (Suc j')
    with Suc.IH [OF a(2), of j'] Suc.prems show ?thesis by (simp add: asked_def)
  qed (use a in simp)
qed simp

lemma deduce_only_asked: "only_asked s (snd (deduce_block_summary N number log prev s))"
proof (cases "find_block_by_number (li_block_history s) number")
  case None
  obtain r s' where g: "get_block_by_id N (ByNumber number) s = (r, s')"
    by (cases "get_block_by_id N (ByNumber number) s")
  have "only_asked s s'"
    using retry_only_asked [of s "Suc REORG_RETRY_GET_BLOCK" "\<lambda>n. found_block (nd_block N n (ByNumber number))"] g
    by (simp add: get_block_by_id_def)
  with None g show ?thesis by (cases r) (simp_all add: deduce_block_summary_def Let_def)
qed (simp add: deduce_block_summary_def)

section \<open>Splitting logs into blocks\<close>

definition block_of :: "raw_log \<Rightarrow> u64" where
  "block_of log = the (rl_block_number log)"

definition numbered :: "raw_log list \<Rightarrow> bool" where
  "numbered logs \<longleftrightarrow> (\<forall>log \<in> set logs. rl_block_number log \<noteq> None)"

text \<open>A block as the split gives it: its logs have its number.\<close>

definition block_number_of :: "block_logs \<Rightarrow> u64" where
  "block_number_of b = block_of (hd (bk_logs b))"

definition one_block :: "block_logs \<Rightarrow> bool" where
  "one_block b \<longleftrightarrow> bk_catchup b \<and> bk_logs b \<noteq> [] \<and> (\<forall>log \<in> set (bk_logs b). block_of log = block_number_of b)"

lemma number_eq_iff:
  "rl_block_number a \<noteq> None \<Longrightarrow> rl_block_number b \<noteq> None
     \<Longrightarrow> rl_block_number a = rl_block_number b \<longleftrightarrow> block_of a = block_of b"
  by (auto simp: block_of_def)

lemma group_logs_ok:
  assumes "numbered logs" "logs \<noteq> []" "\<forall>log \<in> set cur. block_of log = block_of (hd logs)"
  shows "\<exists>new s'. group_logs N (zip logs (last_of_block logs)) cur bs s = Ok (bs @ new, s')
    \<and> only_asked s s' \<and> concat (map bk_logs new) = cur @ logs \<and> (\<forall>b \<in> set new. one_block b)
    \<and> new \<noteq> [] \<and> block_number_of (hd new) = block_of (hd logs)
    \<and> (sorted (map block_of logs) \<longrightarrow> sorted_wrt (<) (map block_number_of new))"
  using assms
proof (induction logs arbitrary: cur bs s rule: last_of_block.induct)
  case (1 log log' logs)
  have n: "rl_block_number log \<noteq> None" "rl_block_number log' \<noteq> None" "numbered (log' # logs)"
    using "1.prems"(1) by (simp_all add: numbered_def)
  show ?case
  proof (cases "rl_block_number log' = rl_block_number log")
    case True
    then have e: "block_of log' = block_of log" by (simp add: block_of_def)
    have "\<forall>l \<in> set (cur @ [log]). block_of l = block_of (hd (log' # logs))"
      using "1.prems"(3) e by simp
    from "1.IH" [OF n(3) _ this, of bs s] show ?thesis using True e by simp
  next
    case False
    with n have ne: "block_of log \<noteq> block_of log'" by (auto simp: block_of_def)
    obtain num where num: "rl_block_number log = Some num" using n(1) by auto
    obtain summary s1 where d: "deduce_block_summary N num log (last_of bs) s = (summary, s1)"
      by (cases "deduce_block_summary N num log (last_of bs) s")
    define b where "b = \<lparr> bk_logs = cur @ [log], bk_summary = summary, bk_catchup = True \<rparr>"
    have bn: "block_number_of b = block_of log"
      using "1.prems"(3) by (cases cur) (simp_all add: b_def block_number_of_def)
    have ob: "one_block b" using "1.prems"(3) bn by (auto simp: one_block_def b_def)
    from "1.IH" [OF n(3), of "[]" "bs @ [b]" s1] obtain new s' where new:
      "group_logs N (zip (log' # logs) (last_of_block (log' # logs))) [] (bs @ [b]) s1 = Ok ((bs @ [b]) @ new, s')"
      "only_asked s1 s'" "concat (map bk_logs new) = log' # logs" "\<forall>b \<in> set new. one_block b" "new \<noteq> []"
      "block_number_of (hd new) = block_of log'"
      "sorted (map block_of (log' # logs)) \<longrightarrow> sorted_wrt (<) (map block_number_of new)" by auto
    have oa: "only_asked s s'"
      using deduce_only_asked [of s N num log "last_of bs"] new(2) unfolding d
      by (auto intro: only_asked_trans)
    have srt: "sorted_wrt (<) (map block_number_of (b # new))" if "sorted (map block_of (log # log' # logs))"
    proof -
      have w: "sorted_wrt (<) (map block_number_of new)" "block_of log < block_of log'"
        using that new(7) ne by auto
      obtain c cs where c: "new = c # cs" using new(5) by (cases new) auto
      with new(6) have "block_number_of c = block_of log'" by simp
      with w c bn show ?thesis by auto
    qed
    have g: "group_logs N (zip (log # log' # logs) (last_of_block (log # log' # logs))) cur bs s
        = Ok (bs @ (b # new), s')"
      using False num d new(1) by (simp add: b_def)
    show ?thesis
      by (rule exI [of _ "b # new"], rule exI [of _ s'])
         (use g oa new ob bn srt in \<open>simp add: b_def\<close>)
  qed
next
  case (2 log)
  obtain num where num: "rl_block_number log = Some num" using "2.prems"(1) by (auto simp: numbered_def)
  obtain summary s1 where d: "deduce_block_summary N num log (last_of bs) s = (summary, s1)"
    by (cases "deduce_block_summary N num log (last_of bs) s")
  have "only_asked s s1" using deduce_only_asked [of s N num log "last_of bs"] d by simp
  with num d "2.prems"(3) show ?case
    by (cases cur) (auto simp: assert_then_def one_block_def block_number_of_def)
qed simp

lemma group_logs_panics:
  "rl_block_number (last logs) = None \<Longrightarrow> numbered (butlast logs) \<Longrightarrow> logs \<noteq> []
    \<Longrightarrow> panics (group_logs N (zip logs (last_of_block logs)) cur bs s)"
  by (induction logs arbitrary: cur bs s rule: last_of_block.induct)
     (auto simp: numbered_def split: prod.splits)

section \<open>Assumed numbers\<close>

lemma assume_numbers_numbered:
  "numbered logs \<Longrightarrow> fst (assume_numbers logs prev ok) = logs"
proof (induction logs prev ok rule: assume_numbers.induct)
  case (1 log log' logs prev ok)
  then obtain n where n: "rl_block_number log = Some n" by (auto simp: numbered_def)
  have "fst (assume_numbers (log' # logs) n (ok \<and> prev \<le> n)) = log' # logs"
    using "1.IH" [of n] "1.prems" n by (simp add: numbered_def)
  with n show ?case by (auto split: prod.splits)
qed simp_all

lemma assume_numbers_sorted:
  "numbered logs \<Longrightarrow>
     snd (assume_numbers logs prev ok) \<longleftrightarrow> ok \<and> sorted (prev # map block_of (butlast logs))"
proof (induction logs prev ok rule: assume_numbers.induct)
  case (1 log log' logs prev ok)
  then obtain n where n: "rl_block_number log = Some n" by (auto simp: numbered_def)
  have "snd (assume_numbers (log' # logs) n (ok \<and> prev \<le> n))
      \<longleftrightarrow> (ok \<and> prev \<le> n) \<and> sorted (n # map block_of (butlast (log' # logs)))"
    using "1.IH" [of n] "1.prems" n by (simp add: numbered_def)
  moreover have "butlast (log # log' # logs) = log # butlast (log' # logs)" by simp
  moreover have "block_of log = n" by (simp add: block_of_def n)
  ultimately show ?case using n by (simp add: sorted2 Let_def case_prod_beta del: butlast.simps sorted_wrt.simps)
qed simp_all

lemma assume_numbers_last:
  "logs \<noteq> [] \<Longrightarrow> fst (assume_numbers logs prev ok) \<noteq> []
     \<and> last (fst (assume_numbers logs prev ok)) = last logs
     \<and> numbered (butlast (fst (assume_numbers logs prev ok)))"
  by (induction logs prev ok rule: assume_numbers.induct)
     (auto simp: numbered_def Let_def split: prod.splits)

lemma split_by_block_result:
  "(panics (split_by_block N logs s) \<longleftrightarrow> logs \<noteq> [] \<and> rl_block_number (last logs) = None)
    \<and> (numbered logs \<longrightarrow>
        (\<exists>bs s'. split_by_block N logs s = Ok (bs, s') \<and> only_asked s s'
          \<and> mset (concat (map bk_logs bs)) = mset logs \<and> (\<forall>b \<in> set bs. one_block b)
          \<and> (sorted (map block_of (butlast logs)) \<longrightarrow> concat (map bk_logs bs) = logs)
          \<and> (sorted (map block_of logs) \<or> \<not> sorted (map block_of (butlast logs))
              \<longrightarrow> sorted_wrt (<) (map block_number_of bs))))"
proof (cases "logs = []")
  case True
  then show ?thesis by (simp add: split_by_block_def numbered_def)
next
  case False
  obtain logs' srt where a: "assume_numbers logs 0 True = (logs', srt)"
    by (cases "assume_numbers logs 0 True")
  have l: "logs' \<noteq> []" "last logs' = last logs" "numbered (butlast logs')"
    using assume_numbers_last [OF False, of 0 True] a by simp_all
  have l': "numbered logs' \<longleftrightarrow> rl_block_number (last logs) \<noteq> None"
    using l by (subst append_butlast_last_id [OF l(1), symmetric]) (simp add: numbered_def)
  have pan: "panics (split_by_block N logs s)" if "rl_block_number (last logs) = None"
  proof (cases srt)
    case True
    have "panics (group_logs N (zip logs' (last_of_block logs')) [] [] s)"
      by (rule group_logs_panics) (use that l in simp_all)
    with True False a show ?thesis by (simp add: split_by_block_def)
  next
    case False
    have "last logs' \<in> set logs'" using l(1) by simp
    with that l(2) have "\<exists>log \<in> set logs'. rl_block_number log = None" by auto
    with False \<open>logs \<noteq> []\<close> a show ?thesis by (simp add: split_by_block_def)
  qed
  let ?logs = "if srt then logs' else sort_key block_of logs'"
  have ok: "\<exists>bs s'. split_by_block N logs s = Ok (bs, s') \<and> only_asked s s'
      \<and> concat (map bk_logs bs) = ?logs \<and> (\<forall>b \<in> set bs. one_block b)
      \<and> (sorted (map block_of ?logs) \<longrightarrow> sorted_wrt (<) (map block_number_of bs))"
    if "numbered logs'"
  proof -
    have n: "numbered ?logs" using that by (simp add: numbered_def)
    have "set ?logs = set logs'" by simp
    with l(1) have ne: "?logs \<noteq> []" by (metis set_empty)
    from group_logs_ok [OF n ne, of "[]" N "[]" s] obtain new s' where new:
      "group_logs N (zip ?logs (last_of_block ?logs)) [] [] s = Ok (new, s')" "only_asked s s'"
      "concat (map bk_logs new) = ?logs" "\<forall>b \<in> set new. one_block b"
      "sorted (map block_of ?logs) \<longrightarrow> sorted_wrt (<) (map block_number_of new)" by auto
    have e: "(\<lambda>log. the (rl_block_number log)) = block_of" by (simp add: block_of_def fun_eq_iff)
    have "split_by_block N logs s = Ok (new, s')"
      using that False new(1) by (simp add: split_by_block_def a e numbered_def Let_def split: if_splits)
    with new show ?thesis by blast
  qed
  have np: "\<not> panics (split_by_block N logs s)" if "rl_block_number (last logs) \<noteq> None"
    using ok l' that by fastforce
  have all: "\<exists>bs s'. split_by_block N logs s = Ok (bs, s') \<and> only_asked s s'
      \<and> mset (concat (map bk_logs bs)) = mset logs \<and> (\<forall>b \<in> set bs. one_block b)
      \<and> (sorted (map block_of (butlast logs)) \<longrightarrow> concat (map bk_logs bs) = logs)
      \<and> (sorted (map block_of logs) \<or> \<not> sorted (map block_of (butlast logs))
          \<longrightarrow> sorted_wrt (<) (map block_number_of bs))" if n: "numbered logs"
  proof -
    have lg: "logs' = logs" using assume_numbers_numbered [OF n, of 0 True] a by simp
    have st: "srt \<longleftrightarrow> sorted (map block_of (butlast logs))"
      using assume_numbers_sorted [OF n, of 0 True] a by simp
    from ok n lg obtain bs s' where bs: "split_by_block N logs s = Ok (bs, s')" "only_asked s s'"
      "concat (map bk_logs bs) = ?logs" "\<forall>b \<in> set bs. one_block b"
      "sorted (map block_of ?logs) \<longrightarrow> sorted_wrt (<) (map block_number_of bs)" by auto
    have m: "mset ?logs = mset logs" "sorted (map block_of logs) \<or> \<not> srt \<Longrightarrow> sorted (map block_of ?logs)"
      "srt \<Longrightarrow> ?logs = logs"
      by (auto simp: lg)
    show ?thesis
      by (rule exI [of _ bs], rule exI [of _ s'], intro conjI impI)
         (use bs m st in simp_all)
  qed
  have "panics (split_by_block N logs s) \<longleftrightarrow> logs \<noteq> [] \<and> rl_block_number (last logs) = None"
    using pan np False by (cases "rl_block_number (last logs) = None") simp_all
  with all show ?thesis by (intro conjI impI)
qed

text \<open>
  C29. The logs of a page are split into blocks: nothing is lost or added, each block holds logs of
  one number, and logs whose order was right stay in it. The blocks come in increasing order, each
  once, unless it is only the last log that is out of place, which the code does not look at. The
  split panics exactly when the last log has no block number.
\<close>

theorem logs_split_into_blocks:
  "(panics (split_by_block N logs s) \<longleftrightarrow> logs \<noteq> [] \<and> rl_block_number (last logs) = None)
    \<and> (numbered logs \<longrightarrow>
        (\<exists>bs s'. split_by_block N logs s = Ok (bs, s') \<and> only_asked s s'
          \<and> mset (concat (map bk_logs bs)) = mset logs \<and> (\<forall>b \<in> set bs. one_block b)
          \<and> (sorted (map block_of (butlast logs)) \<longrightarrow> concat (map bk_logs bs) = logs)
          \<and> (sorted (map block_of logs) \<or> \<not> sorted (map block_of (butlast logs))
              \<longrightarrow> sorted_wrt (<) (map block_number_of bs))))"
  by (rule split_by_block_result)

section \<open>Catching up\<close>

text \<open>
  A node that serves a finite chain of logs, in order: an answer has exactly the logs of the range,
  and a range of at most two blocks is never refused as too large.
\<close>

definition in_blocks :: "u64 \<Rightarrow> u64 \<Rightarrow> raw_log \<Rightarrow> bool" where
  "in_blocks a b log \<longleftrightarrow> a \<le> block_of log \<and> block_of log \<le> b"

definition serves :: "chain_node \<Rightarrow> bytes list \<Rightarrow> raw_log list \<Rightarrow> bool" where
  "serves N addresses chain \<longleftrightarrow>
     (\<forall>t a b. case nd_logs N t (BlockRange a b addresses) of
                Inr logs \<Rightarrow> logs = filter (in_blocks a b) chain
              | Inl e \<Rightarrow> e = Limited \<longrightarrow> unat a + 1 < unat b)"

lemma serves_logs:
  "serves N addresses chain \<Longrightarrow> nd_logs N t (BlockRange a b addresses) = Inr logs
     \<Longrightarrow> logs = filter (in_blocks a b) chain"
  unfolding serves_def by (drule spec [of _ t], drule spec [of _ a], drule spec [of _ b]) simp

lemma serves_limited:
  "serves N addresses chain \<Longrightarrow> nd_logs N t (BlockRange a b addresses) = Inl Limited
     \<Longrightarrow> unat a + 1 < unat b"
  unfolding serves_def by (drule spec [of _ t], drule spec [of _ a], drule spec [of _ b]) simp

text \<open>A page of an interval: the paging loop halves the size at most as often as it has bits.\<close>

lemma catchup_page_serves:
  assumes sv: "serves N (li_contract_addresses s) chain"
    and cb: "li_catchup_blocks s = Some (a, Some b)" and ab: "a \<le> b"
    and ov: "unat b + unat p < 2 ^ 64" and p: "unat p < 2 ^ j" and k: "j < k"
  shows "\<exists>r s'. catchup_page k N p s = Some (r, s') \<and> only_asked s s'
    \<and> (case r of None \<Rightarrow> \<not> li_provider s \<or> (\<exists>t f. nd_logs N t f = Inl RpcFailure)
       | Some (logs, c) \<Rightarrow> a \<le> c \<and> c \<le> b \<and> logs = filter (in_blocks a c) chain)"
  using assms
proof (induction k arbitrary: j p s)
  case (Suc k)
  note sv = Suc.prems(1) and cb = Suc.prems(2)
  let ?c = "min b (a + p)"
  have un: "unat (a + p) = unat a + unat p"
    using ab Suc.prems(4) by (simp add: unat_plus_if_size word_size word_le_nat_alt)
  then have c: "a \<le> ?c" "?c \<le> b" using ab by (auto simp: word_le_nat_alt min_def)
  have cp: "unat ?c \<le> unat a + unat p" using un by (simp add: min_def word_le_nat_alt)
  show ?case
  proof (cases "li_provider s")
    case False
    with cb show ?thesis by simp
  next
    case True
    show ?thesis
    proof (cases "nd_logs N (li_calls s) (BlockRange a ?c (li_contract_addresses s))")
      case (Inr logs)
      with serves_logs [OF sv Inr] True cb c show ?thesis by (simp add: Let_def)
    next
      case (Inl e)
      show ?thesis
      proof (cases e)
        case RpcFailure
        with Inl True cb show ?thesis by auto
      next
        case Limited
        with serves_limited [OF sv] Inl cp have p2: "2 \<le> unat p" by fastforce
        then have p1: "p \<noteq> 1" by auto
        have h: "unat (p div 2) = unat p div 2" by (simp add: unat_div)
        then have "1 \<le> p div 2" using p2 by (simp add: word_le_nat_alt)
        then have m: "max (p div 2) 1 = p div 2" by (simp add: max_def)
        obtain j' where j: "j = Suc j'" using p2 Suc.prems(5) by (cases j) auto
        have ca: "catchup_page (Suc k) N p s = catchup_page k N (p div 2) (asked s)"
          using True cb Inl Limited p1 m by simp
        have ih: "\<exists>r s'. catchup_page k N (p div 2) (asked s) = Some (r, s') \<and> only_asked (asked s) s'
          \<and> (case r of None \<Rightarrow> \<not> li_provider (asked s) \<or> (\<exists>t f. nd_logs N t f = Inl RpcFailure)
             | Some (logs, c) \<Rightarrow> a \<le> c \<and> c \<le> b \<and> logs = filter (in_blocks a c) chain)"
          by (rule Suc.IH [of "asked s" "p div 2" j'])
             (use Suc.prems h j ab in \<open>simp_all add: asked_def\<close>)
        have pa: "li_provider (asked s) = li_provider s" by (simp add: asked_def)
        from ih [unfolded pa] obtain r s' where "catchup_page k N (p div 2) (asked s) = Some (r, s')"
          "only_asked (asked s) s'"
          "case r of None \<Rightarrow> \<not> li_provider s \<or> (\<exists>t f. nd_logs N t f = Inl RpcFailure)
             | Some (logs, c) \<Rightarrow> a \<le> c \<and> c \<le> b \<and> logs = filter (in_blocks a c) chain"
          by blast
        with ca only_asked_trans [OF only_asked_asked] show ?thesis by (metis (no_types, lifting))
      qed
    qed
  qed
qed simp

text \<open>The catch-up repeated.\<close>

fun catchups :: "nat \<Rightarrow> nat \<Rightarrow> chain_node \<Rightarrow> listener \<Rightarrow> (unit, listener) res option" where
  "catchups k 0 N s = Some (Ok s)"
| "catchups k (Suc n) N s =
     (case consume_catchup_blocks k N s of
        Some (Ok s') \<Rightarrow> catchups k n N s'
      | r \<Rightarrow> r)"

text \<open>What is fetched so far, of an interval that ends at \<open>b\<close>.\<close>

definition fetched :: "u64 \<Rightarrow> u64 \<Rightarrow> listener \<Rightarrow> raw_log \<Rightarrow> bool" where
  "fetched a b s log \<longleftrightarrow>
     a \<le> block_of log \<and>
     (case li_catchup_blocks s of None \<Rightarrow> block_of log \<le> b | Some (c, _) \<Rightarrow> block_of log < c)"

definition queued_logs :: "listener \<Rightarrow> raw_log list" where
  "queued_logs s = concat (map bk_logs (li_next_blocklogs s))"

lemma filter_split:
  assumes "sorted (map block_of chain)" "a \<le> c"
  shows "filter (\<lambda>l. a \<le> block_of l \<and> block_of l < c) chain @ filter (in_blocks c d) chain
    = filter (\<lambda>l. a \<le> block_of l \<and> block_of l \<le> d \<or> a \<le> block_of l \<and> block_of l < c) chain"
  using assms
proof (induction chain)
  case (Cons l ls)
  show ?case
  proof (cases "block_of l < c")
    case True
    then show ?thesis using Cons by (auto simp: in_blocks_def)
  next
    case False
    then have "filter (\<lambda>l. a \<le> block_of l \<and> block_of l < c) (l # ls) = []"
      using Cons.prems(1) by (auto simp: filter_empty_conv)
    moreover have "filter (in_blocks c d) (l # ls)
        = filter (\<lambda>l. a \<le> block_of l \<and> block_of l \<le> d \<or> a \<le> block_of l \<and> block_of l < c) (l # ls)"
      by (rule filter_cong) (use False Cons.prems in \<open>auto simp: in_blocks_def\<close>)
    ultimately show ?thesis by simp
  qed
qed simp

lemma fetched_simps:
  "li_catchup_blocks s = None \<Longrightarrow> fetched a b s = in_blocks a b"
  "li_catchup_blocks s = Some (c, l) \<Longrightarrow> fetched a b s = (\<lambda>log. a \<le> block_of log \<and> block_of log < c)"
  by (simp_all add: fetched_def in_blocks_def fun_eq_iff)

text \<open>One step: either the page failed, or it is fetched and split.\<close>

lemma numbered_filter: "numbered chain \<Longrightarrow> numbered (filter P chain)"
  by (simp add: numbered_def)

lemma sorted_filter_blocks: "sorted (map block_of chain) \<Longrightarrow> sorted (map block_of (filter P chain))"
  by (rule sorted_filter)

lemma split_sorted:
  assumes "numbered logs" "sorted (map block_of logs)"
  shows "\<exists>bs s'. split_by_block N logs s = Ok (bs, s') \<and> only_asked s s' \<and> concat (map bk_logs bs) = logs"
proof -
  have "sorted (map block_of (butlast logs))"
    using assms(2) by (simp add: map_butlast sorted_butlast)
  with split_by_block_result [THEN conjunct2, rule_format, OF assms(1), of N s] show ?thesis by blast
qed

lemma consume_step:
  assumes sv: "serves N (li_contract_addresses s) chain"
    and ch: "numbered chain" "sorted (map block_of chain)"
    and cb: "li_catchup_blocks s = Some (c, Some b)" and cab: "a \<le> c" "c \<le> b"
    and ov: "unat b + unat (li_catchup_paging s) < 2 ^ 64" and k: "64 < k"
  shows "\<exists>s'. consume_catchup_blocks k N s = Some (Ok s')
    \<and> li_contract_addresses s' = li_contract_addresses s \<and> li_catchup_paging s' = li_catchup_paging s
    \<and> li_provider s' = li_provider s
    \<and> (only_asked s s' \<and> (\<not> li_provider s \<or> (\<exists>t f. nd_logs N t f = Inl RpcFailure))
       \<or> (\<exists>d \<ge> c. d \<le> b \<and> queued_logs s' = queued_logs s @ filter (in_blocks c d) chain
            \<and> li_catchup_blocks s' = (if d = b then None else Some (d + 1, Some b))))"
proof -
  have p: "unat (li_catchup_paging s) < 2 ^ 64" using ov by simp
  obtain r s1 where r: "catchup_page k N (li_catchup_paging s) s = Some (r, s1)" "only_asked s s1"
    "case r of None \<Rightarrow> \<not> li_provider s \<or> (\<exists>t f. nd_logs N t f = Inl RpcFailure)
       | Some (logs, d) \<Rightarrow> c \<le> d \<and> d \<le> b \<and> logs = filter (in_blocks c d) chain"
    using catchup_page_serves [OF sv cb cab(2) ov p k] by blast
  show ?thesis
  proof (cases r)
    case None
    with r cb have "consume_catchup_blocks k N s = Some (Ok s1)"
      by (simp add: consume_catchup_blocks_def)
    with r None only_askedD [OF r(2)] show ?thesis by auto
  next
    case (Some x)
    then obtain d where d: "r = Some (filter (in_blocks c d) chain, d)" "c \<le> d" "d \<le> b"
      using r(3) by (cases x) auto
    obtain bs s2 where sp: "split_by_block N (filter (in_blocks c d) chain) s1 = Ok (bs, s2)"
      "only_asked s1 s2" "concat (map bk_logs bs) = filter (in_blocks c d) chain"
      using split_sorted [OF numbered_filter [OF ch(1)] sorted_filter_blocks [OF ch(2)]] by blast
    define s3 where "s3 = s2\<lparr>li_next_blocklogs := li_next_blocklogs s2 @ bs\<rparr>"
    have o: "only_asked s s2" using r(2) sp(2) by (rule only_asked_trans)
    have cs: "consume_catchup_blocks k N s = Some (Ok (after_page N (Some b) d s3))"
      using cb r(1) d sp(1) by (simp add: consume_catchup_blocks_def s3_def)
    have lt: "d \<noteq> b \<Longrightarrow> \<not> b < d + 1"
      using d by (metis inc_le leD order_le_less)
    have "li_catchup_blocks (after_page N (Some b) d s3) = (if d = b then None else Some (d + 1, Some b))"
      using lt by (simp add: after_page_def Let_def)
    moreover have "queued_logs (after_page N (Some b) d s3) = queued_logs s @ filter (in_blocks c d) chain"
      using only_askedD [OF o] sp(3) by (simp add: after_page_def Let_def queued_logs_def s3_def)
    moreover have "li_contract_addresses (after_page N (Some b) d s3) = li_contract_addresses s"
      "li_catchup_paging (after_page N (Some b) d s3) = li_catchup_paging s"
      "li_provider (after_page N (Some b) d s3) = li_provider s"
      using only_askedD [OF o] by (simp_all add: after_page_def Let_def s3_def)
    ultimately show ?thesis using cs d(2,3) by blast
  qed
qed

lemma unat_step: "(d::u64) < b \<Longrightarrow> unat (d + 1) = Suc (unat d)"
proof -
  assume "d < b"
  then have "unat d + 1 < 2 ^ 64" using unsigned_less [of b, where ?'a = nat] by (simp add: word_less_nat_alt)
  then show ?thesis by (simp add: unat_plus_if_size word_size)
qed

lemma fetched_append:
  assumes "sorted (map block_of chain)" "a \<le> c" "c \<le> d" "d \<le> b"
    and "li_catchup_blocks s = Some (c, l)"
    and "li_catchup_blocks s' = (if d = b then None else Some (d + 1, Some b))"
  shows "filter (fetched a b s) chain @ filter (in_blocks c d) chain = filter (fetched a b s') chain"
proof -
  have cd: "x < c \<Longrightarrow> x \<le> d" for x using assms(3) by simp
  have "fetched a b s' = (\<lambda>l. a \<le> block_of l \<and> block_of l \<le> d \<or> a \<le> block_of l \<and> block_of l < c)"
  proof (cases "d = b")
    case True
    with assms(6) have "fetched a b s' = in_blocks a b" by (simp add: fetched_simps)
    with True cd show ?thesis by (auto simp: in_blocks_def fun_eq_iff)
  next
    case False
    with assms(4) have u: "unat (d + 1) = Suc (unat d)" by (intro unat_step [of d b]) simp
    have lt: "x < d + 1 \<longleftrightarrow> x \<le> d" for x :: u64
      by (simp add: word_less_nat_alt word_le_nat_alt u less_Suc_eq_le)
    from False assms(6) have "fetched a b s' = (\<lambda>l. a \<le> block_of l \<and> block_of l < d + 1)"
      by (simp add: fetched_simps)
    with cd show ?thesis unfolding lt by (auto simp: fun_eq_iff)
  qed
  with assms(5) filter_split [OF assms(1,2), of d] show ?thesis by (simp add: fetched_simps)
qed

definition catching :: "u64 \<Rightarrow> u64 \<Rightarrow> listener \<Rightarrow> bool" where
  "catching a b s \<longleftrightarrow> (\<forall>c l. li_catchup_blocks s = Some (c, l) \<longrightarrow> l = Some b \<and> a \<le> c \<and> c \<le> b)"

definition blocks_left :: "u64 \<Rightarrow> listener \<Rightarrow> nat" where
  "blocks_left b s = (case li_catchup_blocks s of None \<Rightarrow> 0 | Some (c, _) \<Rightarrow> Suc (unat b - unat c))"

lemma catchups_invariant:
  assumes "serves N (li_contract_addresses s) chain" "numbered chain" "sorted (map block_of chain)"
    and "catching a b s" "unat b + unat (li_catchup_paging s) < 2 ^ 64" "64 < k"
    and "queued_logs s = Q @ filter (fetched a b s) chain"
  shows "\<exists>s'. catchups k n N s = Some (Ok s') \<and> queued_logs s' = Q @ filter (fetched a b s') chain
    \<and> (li_provider s \<and> (\<forall>t f. nd_logs N t f \<noteq> Inl RpcFailure) \<and> blocks_left b s \<le> n
        \<longrightarrow> li_catchup_blocks s' = None)"
  using assms
proof (induction n arbitrary: s)
  case 0
  then show ?case by (auto simp: blocks_left_def split: option.splits)
next
  case (Suc n)
  show ?case
  proof (cases "li_catchup_blocks s")
    case None
    with Suc.IH [OF Suc.prems] show ?thesis by (simp add: consume_catchup_blocks_def blocks_left_def)
  next
    case (Some x)
    with Suc.prems(4) obtain c where c: "li_catchup_blocks s = Some (c, Some b)" "a \<le> c" "c \<le> b"
      by (cases x) (auto simp: catching_def)
    from consume_step [OF Suc.prems(1,2,3) c Suc.prems(5,6)] obtain s' where s':
      "consume_catchup_blocks k N s = Some (Ok s')"
      "li_contract_addresses s' = li_contract_addresses s" "li_catchup_paging s' = li_catchup_paging s"
      "li_provider s' = li_provider s"
      "only_asked s s' \<and> (\<not> li_provider s \<or> (\<exists>t f. nd_logs N t f = Inl RpcFailure))
       \<or> (\<exists>d \<ge> c. d \<le> b \<and> queued_logs s' = queued_logs s @ filter (in_blocks c d) chain
            \<and> li_catchup_blocks s' = (if d = b then None else Some (d + 1, Some b)))" by blast
    have run: "catchups k (Suc n) N s = catchups k n N s'" by (simp add: s'(1))
    have pre: "serves N (li_contract_addresses s') chain"
      "unat b + unat (li_catchup_paging s') < 2 ^ 64" using Suc.prems s'(2,3) by simp_all
    from s'(5) consider
      (failed) "only_asked s s'" "\<not> li_provider s \<or> (\<exists>t f. nd_logs N t f = Inl RpcFailure)"
    | (page) d where "c \<le> d" "d \<le> b" "queued_logs s' = queued_logs s @ filter (in_blocks c d) chain"
        "li_catchup_blocks s' = (if d = b then None else Some (d + 1, Some b))" by blast
    then show ?thesis
    proof cases
      case failed
      note o = failed(1) and f = failed(2)
      have "catching a b s'" "queued_logs s' = Q @ filter (fetched a b s') chain"
        using Suc.prems(4,7) only_askedD [OF o]
        by (simp_all add: catching_def queued_logs_def fetched_def [abs_def])
      from Suc.IH [OF pre(1) Suc.prems(2,3) this(1) pre(2) Suc.prems(6) this(2)] f run
      show ?thesis by auto
    next
      case page
      note d = page(1,2) and q = page(3) and cb = page(4)
      have u: "d \<noteq> b \<Longrightarrow> unat (d + 1) = Suc (unat d)" using d(2) by (intro unat_step [of d b]) simp
      have "catching a b s'"
        using c(2) d u by (auto simp: catching_def cb word_le_nat_alt word_unat_eq_iff split: if_splits)
      moreover have "queued_logs s' = Q @ filter (fetched a b s') chain"
        using q Suc.prems(7) fetched_append [OF Suc.prems(3) c(2) d c(1) cb] by simp
      moreover have "blocks_left b s' \<le> n" if "blocks_left b s \<le> Suc n"
        using that d u c by (auto simp: blocks_left_def cb word_le_nat_alt word_unat_eq_iff)
      ultimately show ?thesis
        using Suc.IH [OF pre(1) Suc.prems(2,3) _ pre(2) Suc.prems(6)] run s'(4) by fastforce
    qed
  qed
qed


section \<open>The history\<close>

definition history_ok :: "block_history \<Rightarrow> bool" where
  "history_ok h \<longleftrightarrow> 0 < bh_capacity h \<and> length (ordered_blocks h) \<le> bh_capacity h"

text \<open>The last \<open>n\<close> elements.\<close>

definition recent :: "nat \<Rightarrow> 'a list \<Rightarrow> 'a list" where
  "recent n xs = drop (length xs - n) xs"

lemma length_recent [simp]: "length (recent n xs) = min n (length xs)"
  by (simp add: recent_def)

lemma recent_recent_append: "recent n (recent n xs @ ys) = recent n (xs @ ys)"
  by (cases "length xs \<le> n") (auto simp: recent_def add.commute)

lemma recent_short: "length xs \<le> n \<Longrightarrow> recent n xs = xs"
  by (simp add: recent_def)

lemma add_block_recent:
  assumes "history_ok h"
  shows "add_block A h b = h\<lparr>ordered_blocks := recent (bh_capacity h) (ordered_blocks h @ [b])\<rparr>"
proof (cases "length (ordered_blocks h) = bh_capacity h")
  case True
  then obtain x xs where "ordered_blocks h = x # xs" using assms by (cases "ordered_blocks h") (auto simp: history_ok_def)
  with True assms show ?thesis by (cases h) (simp add: add_block_def recent_def Let_def history_ok_def)
next
  case False
  with assms show ?thesis by (cases h) (simp add: add_block_def recent_def Let_def history_ok_def)
qed

lemma foldl_add_block:
  "history_ok h \<Longrightarrow>
     foldl (add_block A) h bs = h\<lparr>ordered_blocks := recent (bh_capacity h) (ordered_blocks h @ bs)\<rparr>"
proof (induction bs arbitrary: h)
  case Nil
  then show ?case by (simp add: recent_short history_ok_def)
next
  case (Cons b bs)
  let ?h = "h\<lparr>ordered_blocks := recent (bh_capacity h) (ordered_blocks h @ [b])\<rparr>"
  have "history_ok ?h" using Cons.prems by (simp add: history_ok_def)
  from Cons.IH [OF this] show ?case
    by (simp add: add_block_recent [OF Cons.prems] recent_recent_append)
qed

lemma is_known_iff: "is_known h x \<longleftrightarrow> (\<exists>b \<in> set (ordered_blocks h). bs_hash b = x)"
  by (auto simp: is_known_def list_ex_iff)

section \<open>Missing ancestors\<close>

text \<open>A node that gives the block it is asked for.\<close>

definition honest :: "chain_node \<Rightarrow> bool" where
  "honest N \<longleftrightarrow> (\<forall>t h b. nd_block_by_hash N t h = Inr (Some b) \<longrightarrow> bs_hash b = h)"

text \<open>Each block is the parent of the next.\<close>

definition parents :: "block_summary list \<Rightarrow> bool" where
  "parents bs \<longleftrightarrow> successively (\<lambda>b c. bs_parent_hash c = bs_hash b) bs"

text \<open>Why the collection of ancestors stops at a block.\<close>

definition no_parent :: "chain_node \<Rightarrow> listener \<Rightarrow> block_summary \<Rightarrow> bool" where
  "no_parent N s b \<longleftrightarrow>
     is_known (li_block_history s) (bs_parent_hash b) \<or> bs_parent_hash b = zero_hash \<or> \<not> li_provider s
     \<or> (\<exists>t. \<forall>i \<le> REORG_RETRY_GET_BLOCK. found_block (nd_block_by_hash N (t + i) (bs_parent_hash b)) = None)"

lemma get_block_cases:
  assumes "get_block N h s = (r, s')"
  shows "only_asked s s'"
    "r = None \<Longrightarrow> \<not> li_provider s
       \<or> (\<exists>t. \<forall>i \<le> REORG_RETRY_GET_BLOCK. found_block (nd_block_by_hash N (t + i) h) = None)"
    "r = Some b \<Longrightarrow> honest N \<Longrightarrow> bs_hash b = h"
proof -
  let ?ask = "\<lambda>n. found_block (nd_block_by_hash N n h)"
  have r: "retry (Suc REORG_RETRY_GET_BLOCK) ?ask s = (r, s')" using assms by (simp add: get_block_def)
  show "only_asked s s'" using retry_only_asked [of s "Suc REORG_RETRY_GET_BLOCK" ?ask] unfolding r by simp
  show "\<not> li_provider s \<or> (\<exists>t. \<forall>i \<le> REORG_RETRY_GET_BLOCK. ?ask (t + i) = None)" if "r = None"
    using retry_None [of "Suc REORG_RETRY_GET_BLOCK" ?ask s] that unfolding r
    by (auto simp: less_Suc_eq_le intro!: exI [of _ "li_calls s"])
  show "bs_hash b = h" if rb: "r = Some b" "honest N"
  proof -
    obtain t where "?ask t = Some b" using retry_Some [of "Suc REORG_RETRY_GET_BLOCK" ?ask s b] rb(1) unfolding r by auto
    then have "nd_block_by_hash N t h = Inr (Some b)" by (simp add: found_block_def split: sum.splits)
    with rb(2) show ?thesis by (simp add: honest_def)
  qed
qed

lemma collect_missing_chain:
  assumes "honest N" "collect_missing i N b s = (ms, s')"
  shows "only_asked s s' \<and> length ms \<le> i \<and> parents (rev ms @ [b])
    \<and> (\<forall>m \<in> set ms. \<not> is_known (li_block_history s) (bs_hash m))
    \<and> (length ms < i \<longrightarrow> no_parent N s (hd (rev ms @ [b])))"
  using assms
proof (induction i arbitrary: b s ms s')
  case 0
  then show ?case by (simp add: parents_def)
next
  case (Suc i)
  let ?h = "bs_parent_hash b"
  show ?case
  proof (cases "is_known (li_block_history s) ?h \<or> ?h = zero_hash")
    case True
    with Suc.prems show ?thesis by (auto simp: parents_def no_parent_def)
  next
    case False
    obtain r s1 where g: "get_block N ?h s = (r, s1)" by (cases "get_block N ?h s")
    show ?thesis
    proof (cases r)
      case None
      with False g Suc.prems(2) have "ms = []" "s' = s1" by (auto split: prod.splits)
      with get_block_cases(1,2) [OF g] None show ?thesis by (auto simp: parents_def no_parent_def)
    next
      case (Some p)
      obtain ms' where c: "collect_missing i N p s1 = (ms', s')" and ms: "ms = p # ms'"
        using Suc.prems(2) False g Some by (auto simp: Let_def split: prod.splits)
      note ih = Suc.IH [OF Suc.prems(1) c]
      have o: "only_asked s s1" by (rule get_block_cases(1) [OF g])
      have ph: "bs_hash p = ?h" using get_block_cases(3) [OF g Some Suc.prems(1)] .
      have "no_parent N s1 x = no_parent N s x" for x using only_askedD [OF o] by (simp add: no_parent_def)
      moreover have "hd (rev ms @ [b]) = hd (rev ms' @ [p])" unfolding ms by (cases "rev ms'") auto
      moreover have "parents (rev ms @ [b])"
        using ih ph unfolding ms parents_def by (auto simp: successively_append_iff)
      ultimately show ?thesis
        using ih o only_askedD(1) [OF o] False ph by (auto simp: ms intro: only_asked_trans)
    qed
  qed
qed

text \<open>The missing blocks whose logs the node gives, with their logs.\<close>

definition logs_of_block :: "chain_node \<Rightarrow> bytes list \<Rightarrow> block_logs \<Rightarrow> bool" where
  "logs_of_block N addresses b \<longleftrightarrow>
     bk_catchup b \<and> (\<exists>t. nd_logs N t (AtBlockHash (bs_hash (bk_summary b)) addresses) = Inr (bk_logs b))"

definition gives_logs :: "chain_node \<Rightarrow> bytes list \<Rightarrow> bool" where
  "gives_logs N addresses \<longleftrightarrow> (\<forall>t h. \<exists>logs. nd_logs N t (AtBlockHash h addresses) = Inr logs)"

lemma get_logs_cases:
  assumes "get_logs_at_hash N h s = (r, s')"
  shows "only_asked s s'"
    "r = Some logs \<Longrightarrow> \<exists>t. nd_logs N t (AtBlockHash h (li_contract_addresses s)) = Inr logs"
    "gives_logs N (li_contract_addresses s) \<Longrightarrow> li_provider s \<Longrightarrow> r \<noteq> None"
proof -
  let ?ask = "\<lambda>n. case nd_logs N n (AtBlockHash h (li_contract_addresses s)) of
      Inr logs \<Rightarrow> Some logs | Inl _ \<Rightarrow> None"
  have r: "retry REORG_RETRY_GET_LOGS ?ask s = (r, s')" using assms by (simp add: get_logs_at_hash_def)
  show "only_asked s s'" using retry_only_asked [of s REORG_RETRY_GET_LOGS ?ask] unfolding r by simp
  show "\<exists>t. nd_logs N t (AtBlockHash h (li_contract_addresses s)) = Inr logs" if rl: "r = Some logs"
  proof -
    obtain t where "?ask t = Some logs" using retry_Some [of REORG_RETRY_GET_LOGS ?ask s logs] rl unfolding r by auto
    then show ?thesis by (auto split: sum.splits)
  qed
  show "r \<noteq> None" if g: "gives_logs N (li_contract_addresses s)" "li_provider s"
  proof
    assume "r = None"
    with retry_None [of REORG_RETRY_GET_LOGS ?ask s 0] g(2) have "?ask (li_calls s) = None"
      unfolding r by (simp add: REORG_RETRY_GET_LOGS_def)
    moreover obtain logs where "nd_logs N (li_calls s) (AtBlockHash h (li_contract_addresses s)) = Inr logs"
      using g(1) by (auto simp: gives_logs_def)
    ultimately show False by simp
  qed
qed

lemma populate_blocks:
  "\<exists>new. li_next_blocklogs (populate_catchup_logs_from_missing_blocks A N ms s) = li_next_blocklogs s @ new
    \<and> li_block_history (populate_catchup_logs_from_missing_blocks A N ms s)
        = foldl (add_block A) (li_block_history s) (map bk_summary new)
    \<and> subseq (map bk_summary new) ms \<and> (\<forall>b \<in> set new. logs_of_block N (li_contract_addresses s) b)
    \<and> (gives_logs N (li_contract_addresses s) \<and> li_provider s \<longrightarrow> map bk_summary new = ms)"
proof (induction ms arbitrary: s)
  case Nil
  then show ?case by (intro exI [of _ "[]"]) simp
next
  case (Cons m ms)
  obtain r s1 where g: "get_logs_at_hash N (bs_hash m) s = (r, s1)"
    by (cases "get_logs_at_hash N (bs_hash m) s")
  note o = only_askedD [OF get_logs_cases(1) [OF g]]
  show ?case
  proof (cases r)
    case None
    obtain new where new: "li_next_blocklogs (populate_catchup_logs_from_missing_blocks A N ms s1) = li_next_blocklogs s @ new"
      "li_block_history (populate_catchup_logs_from_missing_blocks A N ms s1)
        = foldl (add_block A) (li_block_history s) (map bk_summary new)"
      "subseq (map bk_summary new) ms" "\<forall>b \<in> set new. logs_of_block N (li_contract_addresses s) b"
      using Cons.IH [of s1] unfolding o by blast
    show ?thesis
      by (rule exI [of _ new])
         (use new g None get_logs_cases(3) [OF g] in \<open>auto intro: subseq_Cons'\<close>)
  next
    case (Some logs)
    define b where "b = \<lparr> bk_logs = logs, bk_summary = m, bk_catchup = True \<rparr>"
    let ?s = "history_add A m (s1\<lparr>li_next_blocklogs := li_next_blocklogs s1 @ [b]\<rparr>)"
    have f: "li_next_blocklogs ?s = li_next_blocklogs s @ [b]"
      "li_block_history ?s = add_block A (li_block_history s) m"
      "li_contract_addresses ?s = li_contract_addresses s" "li_provider ?s = li_provider s"
      by (simp_all add: history_add_def o)
    obtain new where new: "li_next_blocklogs (populate_catchup_logs_from_missing_blocks A N ms ?s)
          = (li_next_blocklogs s @ [b]) @ new"
      "li_block_history (populate_catchup_logs_from_missing_blocks A N ms ?s)
        = foldl (add_block A) (add_block A (li_block_history s) m) (map bk_summary new)"
      "subseq (map bk_summary new) ms" "\<forall>b \<in> set new. logs_of_block N (li_contract_addresses s) b"
      "gives_logs N (li_contract_addresses s) \<and> li_provider s \<longrightarrow> map bk_summary new = ms"
      using Cons.IH [of ?s] unfolding f by blast
    have lb: "logs_of_block N (li_contract_addresses s) b"
      using get_logs_cases(2) [OF g Some] by (simp add: logs_of_block_def b_def)
    have e: "populate_catchup_logs_from_missing_blocks A N (m # ms) s
        = populate_catchup_logs_from_missing_blocks A N ms ?s"
      using g Some by (simp add: b_def)
    have bm: "bk_summary b = m" by (simp add: b_def)
    show ?thesis unfolding e
      by (rule exI [of _ "b # new"]) (use new lb bm in simp)
  qed
qed

text \<open>
  C28. A block of the stream is delivered after the ancestors the listener has not seen. These are a
  chain of parents that ends in the block, none of them in the history, at most as many as a
  reorganisation may take; the chain is shorter only where the next parent is known, the zero hash,
  or a block the node has failed to give eleven times. Those whose logs the node gives are queued
  before the block, oldest first and with exactly the logs it gave; the history gets them and the
  block, and keeps the most recent blocks it has room for.
\<close>

theorem ancestors_before_block:
  assumes node: "honest N" and h: "history_ok (li_block_history s)"
    and ready: "is_ready_to_detect_reorg (li_block_history s)"
  shows "\<exists>ms new. parents (ms @ [bk_summary block])
    \<and> length ms \<le> unat (li_reorg_maximum_duration_in_blocks s)
    \<and> (\<forall>m \<in> set ms. \<not> is_known (li_block_history s) (bs_hash m))
    \<and> (length ms < unat (li_reorg_maximum_duration_in_blocks s)
         \<longrightarrow> no_parent N s (hd (ms @ [bk_summary block])))
    \<and> subseq (map bk_summary new) ms \<and> (\<forall>b \<in> set new. logs_of_block N (li_contract_addresses s) b)
    \<and> (gives_logs N (li_contract_addresses s) \<and> li_provider s \<longrightarrow> map bk_summary new = ms)
    \<and> (case deliver_block A N block s of (first, s') \<Rightarrow>
         first \<noteq> None \<and> the first # li_next_blocklogs s' = li_next_blocklogs s @ new @ [block]
         \<and> ordered_blocks (li_block_history s') = recent (bh_capacity (li_block_history s))
             (ordered_blocks (li_block_history s) @ map bk_summary new @ [bk_summary block]))"
proof -
  let ?b = "bk_summary block"
  obtain ms s1 where c: "collect_missing (unat (li_reorg_maximum_duration_in_blocks s)) N ?b s = (ms, s1)"
    by (cases "collect_missing (unat (li_reorg_maximum_duration_in_blocks s)) N ?b s")
  note ch = collect_missing_chain [OF node c]
  then have o: "only_asked s s1" by simp
  define s2 where "s2 = populate_catchup_logs_from_missing_blocks A N (rev ms) s1"
  obtain new where new: "li_next_blocklogs s2 = li_next_blocklogs s @ new"
    "li_block_history s2 = foldl (add_block A) (li_block_history s) (map bk_summary new)"
    "subseq (map bk_summary new) (rev ms)" "\<forall>b \<in> set new. logs_of_block N (li_contract_addresses s) b"
    "gives_logs N (li_contract_addresses s) \<and> li_provider s \<longrightarrow> map bk_summary new = rev ms"
    using populate_blocks [of A N "rev ms" s1] unfolding only_askedD [OF o] s2_def by blast
  have chk: "check_missing_ancestors A N ?b s = history_add A ?b s2"
    using ready c by (auto simp: check_missing_ancestors_def get_missings_ancestors_def s2_def)
  have hist: "ordered_blocks (li_block_history (history_add A ?b s2))
      = recent (bh_capacity (li_block_history s))
          (ordered_blocks (li_block_history s) @ map bk_summary new @ [?b])"
    using foldl_add_block [OF h, of A "map bk_summary new @ [?b]"]
    by (simp add: history_add_def new(2))
  have q: "li_next_blocklogs (history_add A ?b s2) = li_next_blocklogs s @ new"
    by (simp add: history_add_def new(1))
  have d: "case deliver_block A N block s of (first, s') \<Rightarrow>
      first \<noteq> None \<and> the first # li_next_blocklogs s' = li_next_blocklogs s @ new @ [block]
      \<and> li_block_history s' = li_block_history (history_add A ?b s2)"
    by (cases "li_next_blocklogs s @ new") (simp_all add: deliver_block_def chk q Let_def)
  show ?thesis
    by (rule exI [of _ "rev ms"], rule exI [of _ new]) (use ch new d hist in auto)
qed

section \<open>Where the catch-up starts\<close>

lemma sint_nonneg_iff: "0 \<le> sint (w :: i64) \<longleftrightarrow> unat w < 2 ^ 63"
proof -
  have u: "uint w < 2 ^ 64" "0 \<le> uint w" using uint_lt2p [of w] by simp_all
  have o: "odd (uint w div 2 ^ 63) \<longleftrightarrow> 2 ^ 63 \<le> uint w"
  proof (cases "uint w < 2 ^ 63")
    case True
    with u(2) have "uint w div 2 ^ 63 = 0" by (rule div_pos_pos_trivial)
    with True show ?thesis by simp
  next
    case False
    have "uint w div 2 ^ 63 = 1" by (rule int_div_pos_eq [of _ _ _ "uint w - 2 ^ 63"]) (use u False in simp_all)
    with False show ?thesis by simp
  qed
  have "0 \<le> sint w \<longleftrightarrow> \<not> bit (uint w) 63"
    unfolding sint_uint signed_take_bit_nonnegative_iff by simp
  also have "\<dots> \<longleftrightarrow> uint w < 2 ^ 63" unfolding bit_iff_odd o by (rule not_le)
  also have "\<dots> \<longleftrightarrow> unat w < 2 ^ 63"
    using nat_less_iff [OF u(2), of "2 ^ 63"] by simp
  finally show ?thesis .
qed

lemma minus_nonneg_iff:
  assumes "unat (n :: i64) < 2 ^ 63" "unat m < 2 ^ 63"
  shows "0 \<le> sint (n - m) \<longleftrightarrow> m \<le> n"
proof (cases "m \<le> n")
  case True
  then have "unat (n - m) = unat n - unat m" by (rule unat_sub)
  with True assms show ?thesis by (simp add: sint_nonneg_iff)
next
  case False
  then have "unat (n - m) = unat n + 2 ^ 64 - unat m"
    by (simp add: unat_sub_if_size word_size word_le_nat_alt)
  with False assms show ?thesis by (simp add: sint_nonneg_iff word_le_nat_alt)
qed

text \<open>The first block, as numbers.\<close>

definition start_block :: "u64 \<Rightarrow> u64 \<Rightarrow> i64 option \<Rightarrow> i64 option \<Rightarrow> nat" where
  "start_block margin current given last_valid =
     (case given of
        Some b \<Rightarrow> if 0 \<le> sint b then unat b else unat current - nat (- sint b)
      | None \<Rightarrow>
          (case last_valid of
             None \<Rightarrow> unat current - unat margin
           | Some n \<Rightarrow>
               if unat margin \<le> unat n then unat n - unat margin
               else unat current - (unat margin - unat n)))"

lemma unat_minus_min: "unat (c - min d c) = unat c - unat (d::u64)"
proof -
  have "min d c \<le> c" by simp
  then have "unat (c - min d c) = unat c - unat (min d c)" by (rule unat_sub)
  then show ?thesis by (simp add: min_def word_le_nat_alt)
qed

lemma unat_uminus_negative:
  assumes "sint (b :: i64) < 0"
  shows "unat (- b) = nat (- sint b)"
proof -
  have "- (2 ^ 63) \<le> sint b" using sint_ge [of b] by simp
  then have "take_bit 64 (- sint b) = - sint b"
    using assms by (intro take_bit_int_eq_self) simp_all
  moreover have "uint (- b) = take_bit 64 (- sint b)"
    using uint_word_of_int_eq [of "- sint b", where 'a = 64] by simp
  ultimately have "uint (- b) = - sint b" by simp
  then have "nat (uint (- b)) = nat (- sint b)" by (rule arg_cong)
  then show ?thesis unfolding nat_uint_eq .
qed

lemma catchup_block_from_start:
  assumes s: "start_from_database (ar_catchup_margin args) last_valid (new_listener A args) = s"
    and cur: "nd_block_number N 0 = Inr current" and m: "unat (ar_catchup_margin args) < 2 ^ 63"
    and l: "\<And>n. last_valid = Some n \<Longrightarrow> unat n < 2 ^ 63"
    and g: "\<And>b. ar_start_at_block args = Some b \<Longrightarrow> - (2 ^ 63) < sint b"
  shows "\<exists>start s'. catchup_block_from N s = Ok (start, s')
    \<and> unat start = start_block (ar_catchup_margin args) current (ar_start_at_block args) last_valid"
proof -
  have f: "li_last_valid_block s = None" "li_catchup_margin s = ar_catchup_margin args"
    "li_calls s = 0"
    "li_start_at_block s = (case ar_start_at_block args of Some b \<Rightarrow> Some b
       | None \<Rightarrow> map_option (\<lambda>n. n - ar_catchup_margin args) last_valid)"
    unfolding s [symmetric] by (auto simp: start_from_database_def new_listener_def split: option.splits)
  have neg: "\<exists>s'. catchup_block_from N s = Ok (current - min (- b) current, s')"
    if "li_start_at_block s = Some b" "sint b < 0" "unat (- b) < 2 ^ 63" for b
  proof -
    have "0 \<le> sint (- b)" using that(3) by (simp only: sint_nonneg_iff)
    with that(1,2) show ?thesis by (simp add: catchup_block_from_def f(1,3) cur)
  qed
  show ?thesis
  proof (cases "ar_start_at_block args")
    case (Some b)
    with f have st: "li_start_at_block s = Some b" by simp
    show ?thesis
    proof (cases "0 \<le> sint b")
      case True
      with st Some show ?thesis by (simp add: catchup_block_from_def f(1) start_block_def)
    next
      case False
      then have u: "unat (- b) = nat (- sint b)" by (intro unat_uminus_negative) simp
      with g [OF Some] have "unat (- b) < 2 ^ 63" by simp
      with neg [OF st] False obtain s' where "catchup_block_from N s = Ok (current - min (- b) current, s')"
        by auto
      with Some False show ?thesis by (simp add: start_block_def unat_minus_min u)
    qed
  next
    case None
    show ?thesis
    proof (cases last_valid)
      case None
      with \<open>ar_start_at_block args = None\<close> f cur show ?thesis
        by (simp add: catchup_block_from_def start_block_def unat_minus_min)
    next
      case (Some n)
      let ?m = "ar_catchup_margin args"
      have st: "li_start_at_block s = Some (n - ?m)" using f(4) None Some by simp
      note nn = minus_nonneg_iff [OF l [OF Some] m]
      show ?thesis
      proof (cases "?m \<le> n")
        case True
        with nn have "0 \<le> sint (n - ?m)" by simp
        with True st None Some show ?thesis
          by (simp add: catchup_block_from_def f(1) start_block_def unat_sub word_le_nat_alt [symmetric])
      next
        case False
        with nn have ng: "sint (n - ?m) < 0" by simp
        have u: "unat (- (n - ?m)) = unat ?m - unat n"
          using False by (simp add: unat_sub)
        then have "unat (- (n - ?m)) < 2 ^ 63" using m by simp
        with neg [OF st ng] obtain s' where
          "catchup_block_from N s = Ok (current - min (- (n - ?m)) current, s')" by auto
        with None Some False u show ?thesis
          by (simp add: start_block_def unat_minus_min word_le_nat_alt)
      qed
    qed
  qed
qed

text \<open>
  C30. The catch-up of a listener that connects starts at the block that was given, counted from the
  current block when it is negative, and otherwise a margin before the last valid block of the
  database, or before the current block when the database has none. But when the last valid block is
  smaller than the margin, the difference is negative and is counted from the current block: then
  the blocks between are skipped exactly when the chain is longer than the margin.
\<close>

theorem catchup_start:
  assumes s: "start_from_database (ar_catchup_margin args) last_valid (new_listener A args) = s"
    and cur: "nd_block_number N 0 = Inr current" and m: "unat (ar_catchup_margin args) < 2 ^ 63"
    and l: "\<And>n. last_valid = Some n \<Longrightarrow> unat n < 2 ^ 63"
    and g: "\<And>b. ar_start_at_block args = Some b \<Longrightarrow> - (2 ^ 63) < sint b"
  shows "\<exists>start s'. catchup_block_from N s = Ok (start, s')
    \<and> unat start = start_block (ar_catchup_margin args) current (ar_start_at_block args) last_valid
    \<and> (ar_start_at_block args = None \<longrightarrow>
        (\<forall>n. last_valid = Some n \<longrightarrow>
           (unat n < unat start \<longleftrightarrow> n < ar_catchup_margin args \<and> ar_catchup_margin args < current)))"
proof -
  obtain start s' where st: "catchup_block_from N s = Ok (start, s')"
    "unat start = start_block (ar_catchup_margin args) current (ar_start_at_block args) last_valid"
    using catchup_block_from_start [OF assms] by blast
  have "unat n < unat start \<longleftrightarrow> n < ar_catchup_margin args \<and> ar_catchup_margin args < current"
    if "ar_start_at_block args = None" "last_valid = Some n" for n
    using that by (auto simp: st(2) start_block_def word_less_nat_alt)
  with st show ?thesis by blast
qed

section \<open>Witnesses\<close>

definition log_at :: "u64 \<Rightarrow> raw_log" where
  "log_at n =
     \<lparr> rl_address = [], rl_data = [], rl_transaction_hash = None, rl_block_number = Some n,
       rl_block_hash = None, rl_block_timestamp = None \<rparr>"

definition block_at :: "u8 \<Rightarrow> block_summary" where
  "block_at n =
     \<lparr> bs_number = ucast n, bs_hash = [n], bs_parent_hash = [n - 1], bs_timestamp = 12 * ucast n \<rparr>"

definition sample_chain :: "raw_log list" where
  "sample_chain = [log_at 1, log_at 1, log_at 3]"

text \<open>A node that refuses more than two blocks at once.\<close>

definition sample_node :: chain_node where
  "sample_node =
     \<lparr> nd_connect = (\<lambda>_. True), nd_subscribe = (\<lambda>_. True), nd_block_number = (\<lambda>_. Inr 100),
       nd_logs = (\<lambda>_ f. case f of
          BlockRange a b _ \<Rightarrow>
            if unat a + 1 < unat b then Inl Limited else Inr (filter (in_blocks a b) sample_chain)
        | AtBlockHash h _ \<Rightarrow> Inr []),
       nd_block = (\<lambda>_ _. Inr None),
       nd_block_by_hash = (\<lambda>_ h. Inr (if length h = 1 then Some (block_at (hd h)) else None)),
       nd_event = (\<lambda>_. EventEnd) \<rparr>"

definition sample_allocator :: allocator where
  "sample_allocator = \<lparr> with_capacity = (\<lambda>n. n), grown_capacity = (\<lambda>n. 2 * n + 4) \<rparr>"

lemma sample_allocator_ok: "allocator_ok sample_allocator"
  by (simp add: allocator_ok_def sample_allocator_def)

definition sample_args :: listener_args where
  "sample_args =
     \<lparr> ar_addresses = [], ar_initial_block_time = 12, ar_start_at_block = None, ar_end_at_block = Some 3,
       ar_catchup_margin = 5, ar_catchup_paging = 10, ar_reorg_maximum_duration_in_blocks = 50 \<rparr>"

definition sample_listener :: listener where
  "sample_listener =
     (new_listener sample_allocator sample_args)
       \<lparr>li_provider := True, li_stream := True, li_catchup_blocks := Some (1, Some 3),
        li_block_history := \<lparr> ordered_blocks = [block_at 1, block_at 2], bh_capacity = 500 \<rparr>\<rparr>"

lemmas sample_defs = sample_listener_def new_listener_def sample_args_def

lemma sample_serves: "serves sample_node addresses sample_chain"
  by (simp add: serves_def sample_node_def)

theorem logs_split_into_blocks_witness:
  "\<exists>bs s'. split_by_block sample_node [log_at 2, log_at 1, log_at 3] sample_listener = Ok (bs, s')
     \<and> mset (concat (map bk_logs bs)) = mset [log_at 2, log_at 1, log_at 3]
     \<and> sorted_wrt (<) (map block_number_of bs)"
proof -
  have n: "numbered [log_at 2, log_at 1, log_at 3]" by (simp add: numbered_def log_at_def)
  have u: "\<not> sorted (map block_of (butlast [log_at 2, log_at 1, log_at 3]))"
    by (simp add: log_at_def block_of_def word_le_nat_alt)
  from logs_split_into_blocks [THEN conjunct2, rule_format, OF n] u show ?thesis by blast
qed


theorem ancestors_before_block_witness:
  "\<exists>ms new. parents (ms @ [block_at 5]) \<and> map bk_summary new = ms
    \<and> (case deliver_block sample_allocator sample_node
              \<lparr> bk_logs = [log_at 5], bk_summary = block_at 5, bk_catchup = False \<rparr> sample_listener of
         (first, s') \<Rightarrow> the first # li_next_blocklogs s'
           = new @ [\<lparr> bk_logs = [log_at 5], bk_summary = block_at 5, bk_catchup = False \<rparr>])"
proof -
  let ?b = "\<lparr> bk_logs = [log_at 5], bk_summary = block_at 5, bk_catchup = False \<rparr>"
  have h: "honest sample_node"
    by (auto simp: honest_def sample_node_def block_at_def length_Suc_conv split: if_splits)
  have r: "history_ok (li_block_history sample_listener)"
    "is_ready_to_detect_reorg (li_block_history sample_listener)"
    by (simp_all add: sample_defs history_ok_def is_ready_to_detect_reorg_def MINIMUM_HISTORY_SIZE_def)
  have g: "gives_logs sample_node (li_contract_addresses sample_listener)" "li_provider sample_listener"
    "li_next_blocklogs sample_listener = []"
    by (simp_all add: gives_logs_def sample_node_def sample_defs)
  obtain first s' where d: "deliver_block sample_allocator sample_node ?b sample_listener = (first, s')"
    by (cases "deliver_block sample_allocator sample_node ?b sample_listener")
  show ?thesis
    using ancestors_before_block [OF h r, of ?b sample_allocator] g unfolding d by auto
qed

theorem catchup_start_witness:
  "\<exists>start s'. catchup_block_from sample_node
       (start_from_database (ar_catchup_margin sample_args) (Some 2)
          (new_listener sample_allocator sample_args)) = Ok (start, s')
     \<and> unat start = 97"
proof -
  have p: "nd_block_number sample_node 0 = Inr 100" "unat (ar_catchup_margin sample_args) < 2 ^ 63"
    by (simp_all add: sample_node_def sample_args_def)
  have n: "unat n < 2 ^ 63" if "Some 2 = Some n" for n :: i64 using that by auto
  have b: "- (2 ^ 63) < sint b" if "ar_start_at_block sample_args = Some b" for b
    using that by (simp add: sample_args_def)
  have "start_block (ar_catchup_margin sample_args) 100 (ar_start_at_block sample_args) (Some 2) = 97"
    by (simp add: sample_args_def start_block_def)
  with catchup_start [OF refl p n b, where A = sample_allocator and last_valid = "Some 2"] show ?thesis by auto
qed

end
