(* ===== verification/Server.thy ===== *)
theory Server
  imports WorkCycle
begin

text \<open>
  The gRPC server (\<open>tfhe-worker/src/server.rs\<close>, \<open>check_if_api_key_is_valid\<close> of
  \<open>tfhe-worker/src/db_queries.rs\<close>): batches of computations, uploaded inputs, trivial encryptions
  and the ciphertexts handed out, over the tables the services share.
\<close>

section \<open>Requests\<close>

type_synonym i64 = "64 word"

record server_args =
  maximum_compact_inputs_upload :: nat
  maximum_handles_per_input :: u8
  server_maximum_ciphertexts_to_schedule :: nat
  server_maximum_ciphertexts_to_get :: nat

text \<open>
  What ends a request: an error of the coprocessor, of the database, of the engine, of the fetching
  of the keys, or the panic of a task it waited for.
\<close>

datatype status =
    Status coprocessor_error
  | StatusDb sqlx_error
  | StatusFhevm fhevm_error
  | StatusKeys string
  | StatusTask panic_reason

definition status_db :: "(sqlx_error, 'a) res \<Rightarrow> (status, 'a) res" where
  "status_db r = map_err StatusDb r"

section \<open>Authorisation\<close>

text \<open>
  The header, absent or with its text: none when it is not UTF-8, and otherwise its characters in
  lower case as code points. \<open>trim\<close> removes white space on both sides. Parsing a key is a parameter,
  and so is the answer of the query for the tenants of a key.
\<close>

type_synonym code_points = "nat list"

definition is_whitespace :: "nat \<Rightarrow> bool" where
  "is_whitespace c \<longleftrightarrow>
     9 \<le> c \<and> c \<le> 13 \<or> 8192 \<le> c \<and> c \<le> 8202
     \<or> c \<in> {32, 133, 160, 5760, 8232, 8233, 8239, 8287, 12288}"

definition trim :: "code_points \<Rightarrow> code_points" where
  "trim s = rev (dropWhile is_whitespace (rev (dropWhile is_whitespace s)))"

text \<open>\<open>"bearer "\<close>.\<close>

definition bearer_prefix :: code_points where
  "bearer_prefix = [98, 101, 97, 114, 101, 114, 32]"

record 'u auth_lib =
  parse_uuid :: "code_points \<Rightarrow> 'u option"
  tenants_of_key :: "'u \<Rightarrow> sqlx_error + i32 list"

definition check_if_api_key_is_valid ::
  "'u auth_lib \<Rightarrow> code_points option option \<Rightarrow> (status, i32) res" where
  "check_if_api_key_is_valid K authorization =
     (case authorization of
        Some auth \<Rightarrow>
          (case auth of
             None \<Rightarrow> Err (Status Unauthorized)
           | Some auth_header \<Rightarrow>
               if take (length bearer_prefix) auth_header \<noteq> bearer_prefix then Err (Status Unauthorized)
               else
                 (case parse_uuid K (trim (drop (length bearer_prefix) auth_header)) of
                    None \<Rightarrow> Err (Status Unauthorized)
                  | Some api_key \<Rightarrow>
                      (case tenants_of_key K api_key of
                         Inl e \<Rightarrow> Err (StatusDb e)
                       | Inr tenant \<Rightarrow>
                           (case tenant of
                              [] \<Rightarrow> Err (Status Unauthorized)
                            | tenant_id # _ \<Rightarrow> Ok tenant_id))))
      | None \<Rightarrow> Err (Status Unauthorized))"

section \<open>Batches of computations\<close>

text \<open>
  The loop over the inputs of a computation: the operands, which of them are scalars, and whether
  one is.
\<close>

fun request_operands ::
  "i32 \<Rightarrow> nat \<Rightarrow> comp_input option list \<Rightarrow> (status, bytes list \<times> bool list \<times> bool) res" where
  "request_operands operation idx [] = Ok ([], [], False)"
| "request_operands operation idx (ih # ihs) =
     bind_res (map_err (\<lambda>e. Status (OfFhevm e)) (op_try_from_i32 operation)) (\<lambda>fhe_op.
       case ih of
         Some (InputHandle h) \<Rightarrow>
           bind_res (request_operands operation (Suc idx) ihs) (\<lambda>(inputs, scalars, is_computation_scalar).
             Ok (h # inputs, False # scalars, is_computation_scalar))
       | Some (ScalarInput sc) \<Rightarrow>
           assert_then (idx = 1 \<or> does_have_more_than_one_scalar fhe_op)
             (bind_res (request_operands operation (Suc idx) ihs) (\<lambda>(inputs, scalars, _).
                Ok (sc # inputs, True # scalars, True)))
       | None \<Rightarrow> request_operands operation (Suc idx) ihs)"

text \<open>The loop over the sorted computations: the operands to store, once they are checked.\<close>

fun check_computations ::
  "async_computation list \<Rightarrow> (status, (bytes list \<times> bool) list) res" where
  "check_computations [] = Ok []"
| "check_computations (c # cs) =
     bind_res (request_operands (ac_operation c) 0 (ac_inputs c))
       (\<lambda>(this_comp_inputs, is_scalar_op_vec, is_computation_scalar).
     bind_res (map_err (\<lambda>e. Status (OfFhevm e))
         (check_fhe_operand_types (ac_operation c) this_comp_inputs is_scalar_op_vec)) (\<lambda>_.
     bind_res (check_computations cs) (\<lambda>rest.
       Ok ((this_comp_inputs, is_computation_scalar) # rest))))"

text \<open>
  The buckets: a computation joins the bucket of the first of its inputs that has one, and opens its
  own otherwise.
\<close>

fun bucket_of_inputs :: "(bytes \<rightharpoonup> bytes) \<Rightarrow> comp_input option list \<Rightarrow> bytes option" where
  "bucket_of_inputs bucket_map [] = None"
| "bucket_of_inputs bucket_map (ih # ihs) =
     (case ih of
        Some (InputHandle inp) \<Rightarrow>
          (case bucket_map inp of
             Some ce \<Rightarrow> Some ce
           | None \<Rightarrow> bucket_of_inputs bucket_map ihs)
      | _ \<Rightarrow> bucket_of_inputs bucket_map ihs)"

fun bucket_computations :: "(bytes \<rightharpoonup> bytes) \<Rightarrow> async_computation list \<Rightarrow> bytes list" where
  "bucket_computations bucket_map [] = []"
| "bucket_computations bucket_map (c # cs) =
     (let outp = ac_output_handle c;
          ce = (case bucket_of_inputs bucket_map (ac_inputs c) of Some ce \<Rightarrow> ce | None \<Rightarrow> outp)
      in ce # bucket_computations (bucket_map(outp \<mapsto> ce)) cs)"

definition sort_computations_into_bucket :: "async_computation list \<Rightarrow> bytes list" where
  "sort_computations_into_bucket computations = bucket_computations Map.empty computations"

text \<open>The columns the query does not name take their defaults.\<close>

definition request_row ::
  "i32 \<Rightarrow> nat \<Rightarrow> async_computation \<Rightarrow> bytes list \<times> bool \<Rightarrow> bytes \<Rightarrow> i16 \<Rightarrow> computation_row" where
  "request_row tenant_id now c ops bucket op_code =
     \<lparr> cr_tenant_id = tenant_id, cr_output_handle = ac_output_handle c, cr_dependencies = fst ops,
       cr_fhe_operation = op_code, cr_is_scalar = snd ops, cr_dependence_chain_id = bucket,
       cr_transaction_id = ac_transaction_id c, cr_is_allowed = ac_is_allowed c,
       cr_is_completed = False, cr_is_error = False, cr_error_message = None,
       cr_schedule_order = now, cr_uncomputable_counter = 1 \<rparr>"

definition insert_request ::
  "i32 \<Rightarrow> async_computation \<times> (bytes list \<times> bool) \<times> bytes \<Rightarrow> trx \<Rightarrow> (status, trx) res" where
  "insert_request tenant_id entry x =
     (case entry of (c, ops, bucket) \<Rightarrow>
        (case i32_try_into_i16 (ac_operation c) of
           None \<Rightarrow> Err (Status (OfFhevm (UnknownFheOperation (ac_operation c))))
         | Some op_code \<Rightarrow>
             status_db (statement (\<lambda>t. t\<lparr>t_computations := insert_new computation_key
               (request_row tenant_id (x_now x) c ops bucket op_code) (t_computations t)\<rparr>) x)))"

text \<open>
  The request: the tables change when it ends well. Beginning and committing the transaction are
  statements.
\<close>

definition async_compute ::
  "server_args \<Rightarrow> 'u auth_lib \<Rightarrow> code_points option option \<Rightarrow> async_computation list \<Rightarrow> trx
     \<Rightarrow> (status, tables) res" where
  "async_compute args K authorization computations x =
     (if server_maximum_ciphertexts_to_schedule args < length computations then
        Err (Status (TooManyCiphertextsInBatch (server_maximum_ciphertexts_to_schedule args)
               (length computations)))
      else
        bind_res (check_if_api_key_is_valid K authorization) (\<lambda>tenant_id.
          if computations = [] then Ok (x_tables x)
          else
            bind_res (map_err Status (sort_computations_by_dependencies computations)) (\<lambda>(sorted, _).
            bind_res (check_computations sorted) (\<lambda>ops.
            let computation_buckets = sort_computations_into_bucket sorted in
            bind_res (status_db (statement id x)) (\<lambda>x1.
            bind_res (for_each (insert_request tenant_id) (zip sorted (zip ops computation_buckets)) x1) (\<lambda>x2.
            bind_res (status_db (statement id x2)) (\<lambda>x3. Ok (x_tables x3))))))))"

section \<open>Uploaded inputs\<close>

record input_to_upload =
  input_payload :: bytes
  contract_address :: string
  user_address :: string

record verification =
  cv_acl_address :: bytes
  cv_hash_of_ciphertext :: bytes
  cv_handles_list :: "nat list"
  cv_user_address :: bytes
  cv_contract_address :: bytes

record input_response =
  ir_acl_address :: string
  ir_hash_of_ciphertext :: bytes
  ir_input_handles :: "(bytes \<times> i32) list"
  ir_contract_address :: string
  ir_user_address :: string
  ir_signer_address :: string
  ir_eip712_signature :: bytes

text \<open>The keys of a tenant, as fetched: what the requests read of them.\<close>

record tenant_keys =
  tk_chain_id :: i64
  tk_verifying_contract_address :: string
  tk_acl_contract_address :: string

text \<open>
  What the requests call outside this file: the hash, the engine with the keys of the tenant,
  addresses, and the signature of a verification for a chain and a contract.
\<close>

record 'c upload_lib =
  keccak :: "bytes \<Rightarrow> bytes"
  expand_list :: "bytes \<Rightarrow> (fhevm_error, 'c sfc list) res"
  compress_input :: "'c sfc \<Rightarrow> (fhevm_error, i16 \<times> bytes) res"
  parse_address :: "string \<Rightarrow> string + bytes"
  show_address :: "bytes \<Rightarrow> string"
  signer_address :: string
  u256_from_be_slice :: "bytes \<Rightarrow> nat option"
  sign_verification :: "i64 \<Rightarrow> bytes \<Rightarrow> verification \<Rightarrow> string + bytes"
  sign_ciphertext :: "nat \<Rightarrow> bytes \<Rightarrow> string + bytes"

definition parse_tenant_address :: "'c upload_lib \<Rightarrow> string \<Rightarrow> (status, bytes) res" where
  "parse_tenant_address U s =
     (case parse_address U s of
        Inl e \<Rightarrow> Err (Status (CannotParseTenantEthereumAddress s e))
      | Inr a \<Rightarrow> Ok a)"

text \<open>The error of a user address names the contract address.\<close>

fun parse_input_addresses ::
  "'c upload_lib \<Rightarrow> input_to_upload list \<Rightarrow> (status, (bytes \<times> bytes) list) res" where
  "parse_input_addresses U [] = Ok []"
| "parse_input_addresses U (ci # cis) =
     (case parse_address U (contract_address ci) of
        Inl e \<Rightarrow> Err (Status (CannotParseEthereumAddress (contract_address ci) e))
      | Inr contract \<Rightarrow>
          (case parse_address U (user_address ci) of
             Inl e \<Rightarrow> Err (Status (CannotParseEthereumAddress (contract_address ci) e))
           | Inr user \<Rightarrow>
               bind_res (parse_input_addresses U cis) (\<lambda>rest. Ok ((contract, user) # rest))))"

text \<open>
  The task of an input, a panic of which is an error of the request; and the loop that joins the
  tasks, in the order \<open>js\<close> in which they finish.
\<close>

definition task_status :: "('e \<Rightarrow> status) \<Rightarrow> ('e, 'a) res \<Rightarrow> (status, 'a) res" where
  "task_status f r =
     (case r of Ok a \<Rightarrow> Ok a | Err e \<Rightarrow> Err (f e) | Panic p \<Rightarrow> Err (StatusTask p))"

definition expand_task :: "'c upload_lib \<Rightarrow> input_to_upload \<Rightarrow> (fhevm_error, 'c sfc list \<times> bytes) res" where
  "expand_task U ci =
     (let blob_hash = keccak U (input_payload ci) in
      assert_then (length blob_hash = 32)
        (bind_res (expand_list U (input_payload ci)) (\<lambda>expanded. Ok (expanded, blob_hash))))"

fun join_expansions ::
  "server_args \<Rightarrow> 'c upload_lib \<Rightarrow> input_to_upload list \<Rightarrow> nat list \<Rightarrow> (nat \<rightharpoonup> 'c sfc list \<times> bytes)
     \<Rightarrow> (status, nat \<rightharpoonup> 'c sfc list \<times> bytes) res" where
  "join_expansions args U cis [] results = Ok results"
| "join_expansions args U cis (idx # js) results =
     bind_res (task_status StatusFhevm (expand_task U (cis ! idx))) (\<lambda>(cts, hash).
       if unat (maximum_handles_per_input args) < length cts then
         Err (Status (CompactInputCiphertextHasMoreCiphertextThanLimitAllows idx (length cts)
                (unat (maximum_handles_per_input args))))
       else
         assert_then (results idx = None)
           (join_expansions args U cis js (results(idx \<mapsto> (cts, hash)))))"

text \<open>\<open>to_be_bytes\<close> of a \<open>u64\<close>.\<close>

definition u64_to_be_bytes :: "u64 \<Rightarrow> bytes" where
  "u64_to_be_bytes v = map (\<lambda>i. ucast (drop_bit (8 * (7 - i)) v)) [0..<8]"

text \<open>
  The handle of a ciphertext: the hash of the blob's hash, the index, the ACL contract and the chain,
  with the index, the type and the version written over its last bytes.
\<close>

definition input_handle ::
  "'c upload_lib \<Rightarrow> bytes \<Rightarrow> i64 \<Rightarrow> bytes \<Rightarrow> nat \<Rightarrow> 'c sfc \<Rightarrow> (fhevm_error, bytes \<times> bytes \<times> i16) res" where
  "input_handle U acl_contract_address chain_id blob_hash ct_idx the_ct =
     bind_res (compress_input U the_ct) (\<lambda>(serialized_type, serialized_ct).
       let handle = keccak U (blob_hash @ [of_nat ct_idx] @ acl_contract_address @ u64_to_be_bytes chain_id)
       in assert_then (length handle = 32)
            (Ok (handle[29 := of_nat ct_idx, 30 := ucast serialized_type, 31 := ucast current_ciphertext_version],
                 serialized_ct, serialized_type)))"

text \<open>A handle as a number: too long a slice panics.\<close>

definition from_be_slice :: "'c upload_lib \<Rightarrow> bytes \<Rightarrow> (status, nat) res" where
  "from_be_slice U h = (case u256_from_be_slice U h of Some n \<Rightarrow> Ok n | None \<Rightarrow> Panic LibraryPanic)"

text \<open>
  The loop over the ciphertexts of a blob: what is stored, and the handles of the response, with the
  numbers to be signed.
\<close>

fun store_ciphertexts ::
  "'c upload_lib \<Rightarrow> i32 \<Rightarrow> bytes \<Rightarrow> i64 \<Rightarrow> bytes \<Rightarrow> nat \<Rightarrow> 'c sfc list \<Rightarrow> trx
     \<Rightarrow> (status, (bytes \<times> nat \<times> i32) list \<times> trx) res" where
  "store_ciphertexts U tenant_id acl chain_id blob_hash ct_idx [] x = Ok ([], x)"
| "store_ciphertexts U tenant_id acl chain_id blob_hash ct_idx (the_ct # cts) x =
     bind_res (task_status StatusFhevm (input_handle U acl chain_id blob_hash ct_idx the_ct))
       (\<lambda>(handle, serialized_ct, serialized_type).
     bind_res (status_db (statement (insert_ciphertexts
         [\<lparr> ct_tenant_id = tenant_id, ct_handle = handle, ct_ciphertext = serialized_ct,
            ct_version = current_ciphertext_version, ct_type = serialized_type,
            ct_input_blob_hash = Some blob_hash, ct_input_blob_index = of_nat ct_idx \<rparr>]) x)) (\<lambda>x1.
     bind_res (from_be_slice U handle) (\<lambda>n.
     bind_res (store_ciphertexts U tenant_id acl chain_id blob_hash (Suc ct_idx) cts x1) (\<lambda>(handles, x2).
       Ok ((handle, n, i16_as_i32 serialized_type) # handles, x2)))))"

text \<open>One blob: its row, its ciphertexts, and the signed response.\<close>

definition store_blob ::
  "'c upload_lib \<Rightarrow> i32 \<Rightarrow> tenant_keys \<Rightarrow> bytes \<Rightarrow> bytes \<Rightarrow> input_to_upload \<Rightarrow> bytes \<times> bytes
     \<Rightarrow> 'c sfc list \<times> bytes \<Rightarrow> trx \<Rightarrow> (status, input_response \<times> trx) res" where
  "store_blob U tenant_id tk verifying acl ci addresses result x =
     (case result of (corresponding_unpacked, blob_hash) \<Rightarrow>
        bind_res (status_db (statement (\<lambda>t. t\<lparr>t_blobs := insert_new blob_key
            \<lparr> ib_tenant_id = tenant_id, ib_blob_hash = blob_hash, ib_blob_data = input_payload ci,
              ib_ciphertext_count = of_nat (length corresponding_unpacked) \<rparr> (t_blobs t)\<rparr>) x)) (\<lambda>x1.
        bind_res (store_ciphertexts U tenant_id acl (tk_chain_id tk) blob_hash 0 corresponding_unpacked x1)
          (\<lambda>(handles, x2).
             case sign_verification U (tk_chain_id tk) verifying
                    \<lparr> cv_acl_address = acl, cv_hash_of_ciphertext = blob_hash,
                      cv_handles_list = map (\<lambda>(_, n, _). n) handles,
                      cv_user_address = snd addresses, cv_contract_address = fst addresses \<rparr> of
               Inl e \<Rightarrow> Err (Status (Eip712SigningFailure e))
             | Inr signature \<Rightarrow>
                 Ok (\<lparr> ir_acl_address = tk_acl_contract_address tk, ir_hash_of_ciphertext = blob_hash,
                       ir_input_handles = map (\<lambda>(h, _, ty). (h, ty)) handles,
                       ir_contract_address = show_address U (fst addresses),
                       ir_user_address = show_address U (snd addresses),
                       ir_signer_address = signer_address U, ir_eip712_signature = signature \<rparr>, x2))))"

fun store_blobs ::
  "'c upload_lib \<Rightarrow> i32 \<Rightarrow> tenant_keys \<Rightarrow> bytes \<Rightarrow> bytes \<Rightarrow> (nat \<rightharpoonup> 'c sfc list \<times> bytes) \<Rightarrow> nat
     \<Rightarrow> (input_to_upload \<times> bytes \<times> bytes) list \<Rightarrow> trx \<Rightarrow> (status, input_response list \<times> trx) res" where
  "store_blobs U tenant_id tk verifying acl results idx [] x = Ok ([], x)"
| "store_blobs U tenant_id tk verifying acl results idx ((ci, addresses) # cis) x =
     (case results idx of
        None \<Rightarrow> Panic ExpectFailed
      | Some result \<Rightarrow>
          bind_res (store_blob U tenant_id tk verifying acl ci addresses result x) (\<lambda>(ct_resp, x1).
          bind_res (store_blobs U tenant_id tk verifying acl results (Suc idx) cis x1) (\<lambda>(resps, x2).
            Ok (ct_resp # resps, x2))))"

text \<open>The request; \<open>keys\<close> is the answer of \<open>fetch_tenant_server_key\<close>.\<close>

definition upload_inputs ::
  "server_args \<Rightarrow> 'u auth_lib \<Rightarrow> code_points option option \<Rightarrow> 'c upload_lib
     \<Rightarrow> (i32 \<Rightarrow> (string, tenant_keys) res) \<Rightarrow> nat list \<Rightarrow> input_to_upload list \<Rightarrow> trx
     \<Rightarrow> (status, input_response list \<times> tables) res" where
  "upload_inputs args K authorization U keys js cis x =
     bind_res (check_if_api_key_is_valid K authorization) (\<lambda>tenant_id.
       if maximum_compact_inputs_upload args < length cis then
         Err (Status (MoreThanMaximumCompactInputCiphertextsUploaded (length cis)
                (maximum_compact_inputs_upload args)))
       else if cis = [] then Ok ([], x_tables x)
       else
         bind_res (map_err StatusKeys (keys tenant_id)) (\<lambda>tk.
         bind_res (parse_tenant_address U (tk_verifying_contract_address tk)) (\<lambda>verifying.
         bind_res (parse_tenant_address U (tk_acl_contract_address tk)) (\<lambda>acl.
         bind_res (parse_input_addresses U cis) (\<lambda>addresses.
         bind_res (join_expansions args U cis js Map.empty) (\<lambda>results.
         assert_then (card (dom results) = length cis)
           (bind_res (status_db (statement id x)) (\<lambda>x1.
            bind_res (store_blobs U tenant_id tk verifying acl results 0 (zip cis addresses) x1) (\<lambda>(resps, x2).
            bind_res (status_db (statement id x2)) (\<lambda>x3. Ok (resps, x_tables x3)))))))))))"

section \<open>Trivial encryptions\<close>

record trivial_request =
  tr_handle :: bytes
  tr_be_value :: bytes
  tr_output_type :: i32

fun check_trivial_requests ::
  "trivial_request list \<Rightarrow> bytes set \<Rightarrow> (status, unit) res" where
  "check_trivial_requests [] unique_handles = Ok ()"
| "check_trivial_requests (v # vs) unique_handles =
     bind_res (map_err (\<lambda>e. Status (OfFhevm e)) (validate_fhe_type (tr_output_type v))) (\<lambda>_.
       if tr_handle v \<in> unique_handles then Err (Status (DuplicateOutputHandleInBatch (tr_handle v)))
       else check_trivial_requests vs (insert (tr_handle v) unique_handles))"

text \<open>The task that encrypts and compresses the values.\<close>

fun encrypt_trivially ::
  "'c tfhe \<Rightarrow> ('c sfc \<Rightarrow> (fhevm_error, i16 \<times> bytes) res) \<Rightarrow> trivial_request list
     \<Rightarrow> (fhevm_error, (bytes \<times> i16 \<times> bytes) list) res" where
  "encrypt_trivially B compress [] = Ok []"
| "encrypt_trivially B compress (v # vs) =
     bind_res (trivial_encrypt_be_bytes B (i32_as_i16 (tr_output_type v)) (tr_be_value v)) (\<lambda>ct.
     bind_res (compress ct) (\<lambda>(ct_type, ct_bytes).
     bind_res (encrypt_trivially B compress vs) (\<lambda>rest. Ok ((tr_handle v, ct_type, ct_bytes) # rest))))"

definition insert_trivial :: "i32 \<Rightarrow> bytes \<times> i16 \<times> bytes \<Rightarrow> trx \<Rightarrow> (status, trx) res" where
  "insert_trivial tenant_id c x =
     (case c of (handle, db_type, db_bytes) \<Rightarrow>
        status_db (statement (insert_ciphertexts
          [\<lparr> ct_tenant_id = tenant_id, ct_handle = handle, ct_ciphertext = db_bytes,
             ct_version = current_ciphertext_version, ct_type = db_type,
             ct_input_blob_hash = None, ct_input_blob_index = 0 \<rparr>]) x))"

text \<open>A panic of the task is unwrapped, so that it is one of the request.\<close>

definition trivial_encrypt_ciphertexts ::
  "'u auth_lib \<Rightarrow> code_points option option \<Rightarrow> 'c tfhe \<Rightarrow> ('c sfc \<Rightarrow> (fhevm_error, i16 \<times> bytes) res)
     \<Rightarrow> (i32 \<Rightarrow> (string, tenant_keys) res) \<Rightarrow> trivial_request list \<Rightarrow> trx \<Rightarrow> (status, tables) res" where
  "trivial_encrypt_ciphertexts K authorization B compress keys values x =
     bind_res (check_if_api_key_is_valid K authorization) (\<lambda>tenant_id.
     bind_res (check_trivial_requests values {}) (\<lambda>_.
     bind_res (map_err StatusKeys (keys tenant_id)) (\<lambda>tk.
     bind_res (map_err StatusFhevm (encrypt_trivially B compress values)) (\<lambda>out_cts.
     bind_res (status_db (statement id x)) (\<lambda>x1.
     bind_res (for_each (insert_trivial tenant_id) out_cts x1) (\<lambda>x2.
     bind_res (status_db (statement id x2)) (\<lambda>x3. Ok (x_tables x3))))))))"

section \<open>Handing out ciphertexts\<close>

record fetched_ciphertext =
  fc_ciphertext_bytes :: bytes
  fc_ciphertext_type :: i32
  fc_ciphertext_version :: i32
  fc_signature :: bytes

text \<open>The rows of the handles asked for, indexed by handle: a later row replaces an earlier one.\<close>

definition fetched_rows :: "bytes set \<Rightarrow> i32 \<Rightarrow> tables \<Rightarrow> (bytes \<rightharpoonup> ciphertext_row)" where
  "fetched_rows hs tenant_id t =
     foldl (\<lambda>m r. m(ct_handle r \<mapsto> r)) Map.empty
       (filter (\<lambda>r. ct_tenant_id r = tenant_id \<and> ct_handle r \<in> hs) (t_ciphertexts t))"

fun fetch_responses ::
  "'c upload_lib \<Rightarrow> (bytes \<rightharpoonup> ciphertext_row) \<Rightarrow> bytes list
     \<Rightarrow> (status, (bytes \<times> fetched_ciphertext option) list) res" where
  "fetch_responses U the_map [] = Ok []"
| "fetch_responses U the_map (h # hs) =
     bind_res
       (case the_map h of
          None \<Rightarrow> Ok None
        | Some r \<Rightarrow>
            bind_res (from_be_slice U h) (\<lambda>n.
             case sign_ciphertext U n (keccak U (ct_ciphertext r)) of
               Inl e \<Rightarrow> Err (Status (Eip712SigningFailure e))
             | Inr signature \<Rightarrow>
                 Ok (Some \<lparr> fc_ciphertext_bytes = ct_ciphertext r,
                            fc_ciphertext_type = i16_as_i32 (ct_type r),
                            fc_ciphertext_version = i16_as_i32 (ct_version r),
                            fc_signature = signature \<rparr>)))
       (\<lambda>ciphertext. bind_res (fetch_responses U the_map hs) (\<lambda>rest. Ok ((h, ciphertext) # rest)))"

definition get_ciphertexts ::
  "server_args \<Rightarrow> 'u auth_lib \<Rightarrow> code_points option option \<Rightarrow> 'c upload_lib \<Rightarrow> bytes list \<Rightarrow> trx
     \<Rightarrow> (status, (bytes \<times> fetched_ciphertext option) list) res" where
  "get_ciphertexts args K authorization U handles x =
     bind_res (check_if_api_key_is_valid K authorization) (\<lambda>tenant_id.
       if server_maximum_ciphertexts_to_get args < length handles then
         Err (Status (MoreThanMaximumCiphertextsAttemptedToDownload (length handles)
                (server_maximum_ciphertexts_to_get args)))
       else
         bind_res (status_db (statement id x)) (\<lambda>x1.
           fetch_responses U (fetched_rows (set handles) tenant_id (x_tables x1)) handles))"

end
