(* ===== verification/ServerCorrect.thy ===== *)
theory ServerCorrect
  imports Server WorkCycleCorrect
begin

text \<open>
  What the server does with its requests: an accepted batch is stored in an executable order as rows
  the worker reads back as the computations asked for, uploaded inputs get handles of their own, and
  a tenant is only handed its own ciphertexts.
\<close>

section \<open>Requests that get through\<close>

lemma status_db_ok [simp]: "status_db r = Ok y \<longleftrightarrow> r = Ok y"
  by (simp add: status_db_def)

lemma status_db_no_panic [simp]: "panics (status_db r) = panics r"
  by (simp add: status_db_def)

lemma check_api_key_no_panic [simp]: "\<not> panics (check_if_api_key_is_valid K a)"
  by (auto simp: check_if_api_key_is_valid_def split: option.split sum.split list.split)

section \<open>Batches of computations\<close>

fun input_bytes :: "comp_input option \<Rightarrow> bytes" where
  "input_bytes (Some (InputHandle h)) = h"
| "input_bytes (Some (ScalarInput sc)) = sc"
| "input_bytes None = []"

fun is_scalar_input :: "comp_input option \<Rightarrow> bool" where
  "is_scalar_input (Some (ScalarInput sc)) = True"
| "is_scalar_input _ = False"

text \<open>What the sort leaves of the inputs of a computation.\<close>

fun inputs_valid :: "fhe_op \<Rightarrow> nat \<Rightarrow> comp_input option list \<Rightarrow> bool" where
  "inputs_valid op k [] = True"
| "inputs_valid op k (ih # ihs) =
     (ih \<noteq> None \<and> (is_scalar_input ih \<longrightarrow> k = 1 \<or> does_have_more_than_one_scalar op)
      \<and> inputs_valid op (Suc k) ihs)"

definition computation_valid :: "async_computation \<Rightarrow> bool" where
  "computation_valid c \<longleftrightarrow> (\<exists>op. op_try_from_i32 (ac_operation c) = Ok op \<and> inputs_valid op 0 (ac_inputs c))"

lemma collect_inputs_valid:
  "collect_inputs oh idx c op k ihs ds db = Ok r \<Longrightarrow> inputs_valid op k ihs"
proof (induction oh idx c op k ihs ds db rule: collect_inputs.induct)
  case (2 oh idx c op k ih ihs ds db)
  show ?case
  proof (cases ih)
    case None
    with 2 show ?thesis by simp
  next
    case (Some i)
    with 2 show ?thesis
      by (cases i) (auto simp: bind_res_eq_Ok split: if_splits option.splits)
  qed
qed simp

lemma collect_dependencies_valid:
  "collect_dependencies oh idx cs deps db = Ok r \<Longrightarrow> c \<in> set cs \<Longrightarrow> computation_valid c"
proof (induction oh idx cs deps db rule: collect_dependencies.induct)
  case (2 oh idx c0 rest deps db)
  from "2.prems"(1) obtain op ds db1 where op: "op_try_from_i32 (ac_operation c0) = Ok op"
    and ins: "collect_inputs oh idx c0 op 0 (ac_inputs c0) [] db = Ok (ds, db1)"
    and rest: "collect_dependencies oh (Suc idx) rest (deps @ [(idx, rev (sort ds))]) db1 = Ok r"
    by (auto simp: bind_res_eq_Ok)
  show ?case
  proof (cases "c = c0")
    case True
    with op collect_inputs_valid [OF ins] show ?thesis by (auto simp: computation_valid_def)
  next
    case False
    with "2.prems"(2) have "c \<in> set rest" by simp
    with "2.IH" op ins rest show ?thesis by blast
  qed
qed simp

lemma sort_valid:
  assumes "sort_computations_by_dependencies cs = Ok (out, db)" "c \<in> set cs"
  shows "computation_valid c"
proof -
  from assms(1) obtain oh deps where
    "collect_dependencies oh 0 cs [] {} = Ok (deps, db)"
    by (auto simp: sort_computations_by_dependencies_def bind_res_eq_Ok)
  from collect_dependencies_valid [OF this assms(2)] show ?thesis .
qed

lemma request_operands_valid:
  assumes "op_try_from_i32 code = Ok op"
  shows "inputs_valid op k ihs \<Longrightarrow>
    request_operands code k ihs
      = Ok (map input_bytes ihs, map is_scalar_input ihs, list_ex is_scalar_input ihs)"
proof (induction ihs arbitrary: k)
  case (Cons ih ihs)
  then obtain i where "ih = Some i" by auto
  with Cons assms show ?case by (cases i) simp_all
qed simp

definition request_accepted :: "async_computation \<Rightarrow> bool" where
  "request_accepted c \<longleftrightarrow>
     (\<exists>op. op_try_from_i32 (ac_operation c) = Ok op
        \<and> operands_accepted op (map input_bytes (ac_inputs c)) (map is_scalar_input (ac_inputs c)))"

abbreviation request_ops :: "async_computation \<Rightarrow> bytes list \<times> bool" where
  "request_ops c \<equiv> (map input_bytes (ac_inputs c), list_ex is_scalar_input (ac_inputs c))"

lemma check_computations_ok:
  "\<forall>c \<in> set cs. computation_valid c \<Longrightarrow>
     check_computations cs = Ok ops \<longleftrightarrow> (\<forall>c \<in> set cs. request_accepted c) \<and> ops = map request_ops cs"
proof (induction cs arbitrary: ops)
  case (Cons c cs)
  then obtain op where op: "op_try_from_i32 (ac_operation c) = Ok op" "inputs_valid op 0 (ac_inputs c)"
    by (auto simp: computation_valid_def)
  have acc: "check_fhe_operand_types (ac_operation c) (map input_bytes (ac_inputs c))
      (map is_scalar_input (ac_inputs c)) = Ok () \<longleftrightarrow> request_accepted c"
    using check_accepted [OF op(1)] by (simp add: request_accepted_def op(1))
  have IH: "\<And>ops. check_computations cs = Ok ops
      \<longleftrightarrow> (\<forall>c \<in> set cs. request_accepted c) \<and> ops = map request_ops cs"
    using Cons.IH Cons.prems by simp
  show ?case
    by (simp add: request_operands_valid [OF op] bind_res_eq_Ok acc IH) auto
qed auto

lemma check_computations_panic:
  "\<forall>c \<in> set cs. computation_valid c \<Longrightarrow> panics (check_computations cs) \<Longrightarrow>
     \<exists>c \<in> set cs. op_try_from_i32 (ac_operation c) = Ok FheGetInputCiphertext"
proof (induction cs)
  case (Cons c cs)
  then obtain op where op: "op_try_from_i32 (ac_operation c) = Ok op" "inputs_valid op 0 (ac_inputs c)"
    by (auto simp: computation_valid_def)
  from Cons.prems(2) have "panics (check_fhe_operand_types (ac_operation c) (map input_bytes (ac_inputs c))
      (map is_scalar_input (ac_inputs c))) \<or> panics (check_computations cs)"
    by (auto simp: request_operands_valid [OF op] panics_bind_res)
  then show ?case
  proof
    assume "panics (check_fhe_operand_types (ac_operation c) (map input_bytes (ac_inputs c))
      (map is_scalar_input (ac_inputs c)))"
    then have "op = FheGetInputCiphertext" unfolding check_panics [OF op(1)] by simp
    with op(1) show ?thesis by simp
  next
    assume "panics (check_computations cs)"
    with Cons.IH Cons.prems(1) show ?thesis by simp
  qed
qed simp

text \<open>The operation a computation of the request means.\<close>

fun request_input :: "comp_input option \<Rightarrow> 'c task_input" where
  "request_input (Some (InputHandle h)) = TaskDependence h"
| "request_input (Some (ScalarInput sc)) = TaskValue (Scalar sc)"
| "request_input None = undefined"

definition request_operation :: "async_computation \<Rightarrow> 'c dfg_op" where
  "request_operation c =
     \<lparr> output_handle = ac_output_handle c, fhe_operation = (case op_try_from_i32 (ac_operation c) of Ok op \<Rightarrow> op),
       dfg_inputs = map request_input (ac_inputs c), dfg_is_allowed = ac_is_allowed c \<rparr>"

lemma accepted_flags:
  assumes "operands_accepted op hs flags"
  shows "operand_flags (list_ex id flags) op 0 (length hs) = flags"
proof -
  have len: "length hs = length flags" using assms by (simp add: operands_accepted_def)
  show ?thesis unfolding len
    using assms by (cases op) (auto simp: operands_accepted_def operand_flags_Suc more_than_one_scalar_iff)
qed

lemma code_of_known:
  assumes "op_try_from_i32 code = Ok op"
  obtains v where "i32_try_into_i16 code = Some v" "op_try_from_i16 v = Ok op" "i16_as_i32 v = code"
proof -
  from assms obtain v where v: "i32_try_into_i16 code = Some v" "op_try_from_i16 v = Ok op"
    by (auto simp: op_try_from_i32_def split: option.splits)
  have b: "- (2 ^ 15) \<le> sint code \<and> sint code < 2 ^ 15" and vd: "v = word_of_int (sint code)"
    using v(1) by (auto simp: i32_try_into_i16_def split: if_splits)
  have "sint (word_of_int (sint code) :: i16) = signed_take_bit 15 (sint code)"
    using sint_sbintrunc' [where 'a = 16, of "sint code"] by simp
  also have "\<dots> = sint code" using b by (intro signed_take_bit_int_eq_self) simp_all
  finally have "sint (word_of_int (sint code) :: i16) = sint code" .
  then have "i16_as_i32 v = code" by (simp add: i16_as_i32_def vd)
  with v that show thesis by blast
qed

lemma accepted_code: "request_accepted c \<Longrightarrow> \<exists>v. i32_try_into_i16 (ac_operation c) = Some v"
  unfolding request_accepted_def by (meson code_of_known)

lemma request_row_operation:
  assumes acc: "request_accepted c" and val: "computation_valid c"
    and code: "i32_try_into_i16 (ac_operation c) = Some v"
  shows "work_operation (request_row tenant now c (request_ops c) bucket v) = Ok (request_operation c)"
proof -
  from acc obtain op where op: "op_try_from_i32 (ac_operation c) = Ok op"
    and a: "operands_accepted op (map input_bytes (ac_inputs c)) (map is_scalar_input (ac_inputs c))"
    by (auto simp: request_accepted_def)
  have iv: "inputs_valid op 0 (ac_inputs c)" using val op by (auto simp: computation_valid_def)
  let ?w = "request_row tenant now c (request_ops c) bucket v"
  have o: "op_try_from_i16 (cr_fhe_operation ?w) = Ok op"
    using code_of_known [OF op] code by (auto simp: request_row_def)
  have ni: "op \<noteq> FheGetInputCiphertext" using a by (auto simp: operands_accepted_def)
  have fl: "operand_flags (list_ex is_scalar_input (ac_inputs c)) op 0 (length (ac_inputs c))
      = map is_scalar_input (ac_inputs c)"
    using accepted_flags [OF a] by (simp add: list_ex_iff)
  have "map2 operand_input (map is_scalar_input ihs) (map input_bytes ihs) = map request_input ihs"
    if "inputs_valid op k ihs" for k and ihs :: "comp_input option list"
    using that
  proof (induction ihs arbitrary: k)
    case (Cons ih ihs)
    then obtain i where "ih = Some i" by auto
    with Cons show ?case by (cases i) (auto simp: operand_input_def)
  qed simp
  note ins = this [OF iv]
  from work_operation_accepted [OF o ni] a fl op show ?thesis
    by (simp add: request_row_def request_operation_def ins)
qed

text \<open>
  The buckets: a computation with an input some earlier one produces joins the bucket of such a
  producer, any other opens a bucket of its own.
\<close>

definition chained :: "async_computation list \<Rightarrow> bytes list \<Rightarrow> bool" where
  "chained cs bs \<longleftrightarrow> length bs = length cs \<and>
     (\<forall>i < length cs.
        (\<exists>k < i. ac_output_handle (cs ! k) \<in> handle_inputs (cs ! i) \<and> bs ! i = bs ! k)
      \<or> handle_inputs (cs ! i) \<inter> ac_output_handle ` set (take i cs) = {}
        \<and> bs ! i = ac_output_handle (cs ! i))"

lemma bucket_of_inputs_Some:
  "bucket_of_inputs m ihs = Some b \<Longrightarrow> \<exists>h. Some (InputHandle h) \<in> set ihs \<and> m h = Some b"
proof (induction m ihs rule: bucket_of_inputs.induct)
  case (2 m ih ihs)
  show ?case
  proof (cases ih)
    case (Some i)
    with 2 show ?thesis by (cases i) (auto split: option.splits)
  qed (use 2 in auto)
qed simp

lemma bucket_of_inputs_None:
  "bucket_of_inputs m ihs = None \<Longrightarrow> Some (InputHandle h) \<in> set ihs \<Longrightarrow> m h = None"
proof (induction m ihs rule: bucket_of_inputs.induct)
  case (2 m ih ihs)
  show ?case
  proof (cases ih)
    case (Some i)
    with 2 show ?thesis by (cases i) (auto split: option.splits)
  qed (use 2 in auto)
qed simp

lemma length_bucket_computations [simp]: "length (bucket_computations m cs) = length cs"
  by (induction cs arbitrary: m) (simp_all add: Let_def)

text \<open>The map when computation \<open>i\<close> is reached.\<close>

lemma bucket_computations_nth:
  "i < length cs \<Longrightarrow> \<exists>mi. bucket_computations m cs ! i
       = (case bucket_of_inputs mi (ac_inputs (cs ! i)) of Some ce \<Rightarrow> ce | None \<Rightarrow> ac_output_handle (cs ! i))
     \<and> dom mi = dom m \<union> ac_output_handle ` set (take i cs)
     \<and> (\<forall>h b. mi h = Some b \<longrightarrow> m h = Some b
           \<or> (\<exists>k < i. ac_output_handle (cs ! k) = h \<and> bucket_computations m cs ! k = b))"
proof (induction cs arbitrary: m i)
  case (Cons c cs)
  let ?ce = "case bucket_of_inputs m (ac_inputs c) of Some ce \<Rightarrow> ce | None \<Rightarrow> ac_output_handle c"
  let ?m = "m(ac_output_handle c \<mapsto> ?ce)"
  have bc: "bucket_computations m (c # cs) = ?ce # bucket_computations ?m cs" by (simp add: Let_def)
  show ?case
  proof (cases i)
    case 0
    show ?thesis unfolding bc 0 nth_Cons_0 by (intro exI [of _ m]) simp
  next
    case (Suc j)
    then have "j < length cs" using Cons.prems by simp
    from Cons.IH [OF this, of ?m] obtain mi where mi:
      "bucket_computations ?m cs ! j
         = (case bucket_of_inputs mi (ac_inputs (cs ! j)) of Some ce \<Rightarrow> ce | None \<Rightarrow> ac_output_handle (cs ! j))"
      "dom mi = dom ?m \<union> ac_output_handle ` set (take j cs)"
      "\<forall>h b. mi h = Some b \<longrightarrow> ?m h = Some b
           \<or> (\<exists>k < j. ac_output_handle (cs ! k) = h \<and> bucket_computations ?m cs ! k = b)" by blast
    have "m h = Some b \<or> (\<exists>k < i. ac_output_handle ((c # cs) ! k) = h \<and> (?ce # bucket_computations ?m cs) ! k = b)"
      if hb: "mi h = Some b" for h b
    proof -
      from mi(3) hb consider "?m h = Some b"
        | k where "k < j" "ac_output_handle (cs ! k) = h" "bucket_computations ?m cs ! k = b" by blast
      then show ?thesis
      proof cases
        case 1
        show ?thesis
        proof (cases "h = ac_output_handle c")
          case True
          with 1 have "b = ?ce" by simp
          with True Suc show ?thesis by (intro disjI2 exI [of _ 0]) simp
        next
          case False
          with 1 show ?thesis by simp
        qed
      next
        case 2
        with Suc show ?thesis by (intro disjI2 exI [of _ "Suc k"]) simp
      qed
    qed
    moreover have "dom mi = dom m \<union> ac_output_handle ` set (take i (c # cs))" using mi(2) Suc by auto
    ultimately show ?thesis using mi(1) unfolding bc Suc nth_Cons_Suc by (intro exI [of _ mi]) simp
  qed
qed simp

lemma buckets_chained: "chained cs (sort_computations_into_bucket cs)"
proof -
  let ?bs = "bucket_computations Map.empty cs"
  have "(\<exists>k < i. ac_output_handle (cs ! k) \<in> handle_inputs (cs ! i) \<and> ?bs ! i = ?bs ! k)
      \<or> handle_inputs (cs ! i) \<inter> ac_output_handle ` set (take i cs) = {} \<and> ?bs ! i = ac_output_handle (cs ! i)"
    if "i < length cs" for i
  proof -
    from bucket_computations_nth [OF that, of Map.empty] obtain mi where mi:
      "?bs ! i = (case bucket_of_inputs mi (ac_inputs (cs ! i)) of Some ce \<Rightarrow> ce | None \<Rightarrow> ac_output_handle (cs ! i))"
      "dom mi = ac_output_handle ` set (take i cs)"
      "\<And>h b. mi h = Some b \<Longrightarrow> \<exists>k < i. ac_output_handle (cs ! k) = h \<and> ?bs ! k = b" by auto
    show ?thesis
    proof (cases "bucket_of_inputs mi (ac_inputs (cs ! i))")
      case None
      from bucket_of_inputs_None [OF None] have "handle_inputs (cs ! i) \<inter> dom mi = {}"
        by (auto simp: handle_inputs_def)
      with None mi(1,2) show ?thesis by simp
    next
      case (Some b)
      from bucket_of_inputs_Some [OF Some] obtain h where
        h: "h \<in> handle_inputs (cs ! i)" "mi h = Some b" by (auto simp: handle_inputs_def)
      from mi(3) [OF h(2)] obtain k where "k < i" "ac_output_handle (cs ! k) = h" "?bs ! k = b" by blast
      with h(1) Some mi(1) show ?thesis by auto
    qed
  qed
  then show ?thesis by (simp add: chained_def sort_computations_into_bucket_def)
qed

text \<open>The insertion of the rows.\<close>

definition rows_of :: "i32 \<Rightarrow> nat \<Rightarrow> async_computation list \<Rightarrow> bytes list \<Rightarrow> computation_row list" where
  "rows_of tenant now cs bs =
     map2 (\<lambda>c b. request_row tenant now c (request_ops c) b (the (i32_try_into_i16 (ac_operation c)))) cs bs"

lemma insert_requests_ok:
  assumes "for_each (insert_request tenant) (zip cs (zip (map request_ops cs) bs)) x = Ok y"
    and "length bs = length cs"
  shows "x_tables y = (x_tables x)\<lparr>t_computations :=
       fold (insert_new computation_key) (rows_of tenant (x_now x) cs bs) (t_computations (x_tables x))\<rparr>"
  using assms
proof (induction cs arbitrary: bs x)
  case (Cons c cs)
  then obtain b bs' where bs: "bs = b # bs'" by (cases bs) auto
  from Cons.prems(1) obtain x1 where i: "insert_request tenant (c, request_ops c, b) x = Ok x1"
    and rest: "for_each (insert_request tenant) (zip cs (zip (map request_ops cs) bs')) x1 = Ok y"
    by (auto simp: bs bind_res_eq_Ok)
  from i obtain v where v: "i32_try_into_i16 (ac_operation c) = Some v"
    and x1: "statement (\<lambda>t. t\<lparr>t_computations := insert_new computation_key
        (request_row tenant (x_now x) c (request_ops c) b v) (t_computations t)\<rparr>) x = Ok x1"
    by (auto simp: insert_request_def split: option.splits)
  from Cons.IH [OF rest] Cons.prems(2) statement_ok [OF x1] v show ?case
    by (simp add: bs rows_of_def)
qed (simp add: rows_of_def)

lemma rows_of_meant:
  assumes "\<forall>c \<in> set cs. request_accepted c \<and> computation_valid c" and "length bs = length cs"
  shows "list_all2 (\<lambda>c w. computation_key w = (tenant, ac_output_handle c, ac_transaction_id c)
       \<and> work_operation w = Ok (request_operation c :: 'c dfg_op)) cs (rows_of tenant now cs bs)
     \<and> map cr_dependence_chain_id (rows_of tenant now cs bs) = bs"
  using assms
proof (induction cs arbitrary: bs)
  case (Cons c cs)
  then obtain b bs' where bs: "bs = b # bs'" by (cases bs) auto
  from Cons.prems(1) obtain op where "op_try_from_i32 (ac_operation c) = Ok op"
    by (auto simp: request_accepted_def)
  then obtain v where v: "i32_try_into_i16 (ac_operation c) = Some v" by (rule code_of_known)
  from Cons.prems(1) have "request_accepted c" "computation_valid c" by simp_all
  from request_row_operation [OF this v, of tenant now b] Cons v show ?case
    by (simp add: bs rows_of_def) (simp add: computation_key_def request_row_def)
qed (simp add: rows_of_def)

lemma async_compute_ok:
  assumes "async_compute args K auth cs x = Ok t"
  obtains tenant out where "check_if_api_key_is_valid K auth = Ok tenant"
    and "mset out = mset cs" and "executable ((\<Union>c \<in> set cs. handle_inputs c) - ac_output_handle ` set cs) {} out"
    and "\<forall>c \<in> set out. request_accepted c \<and> computation_valid c"
    and "t = (x_tables x)\<lparr>t_computations := fold (insert_new computation_key)
           (rows_of tenant (x_now x) out (sort_computations_into_bucket out)) (t_computations (x_tables x))\<rparr>"
proof -
  from assms obtain tenant where tenant: "check_if_api_key_is_valid K auth = Ok tenant"
    by (auto simp: async_compute_def bind_res_eq_Ok split: if_splits)
  show thesis
  proof (cases "cs = []")
    case True
    with assms tenant that [of tenant "[]"] show ?thesis
      by (simp add: async_compute_def rows_of_def split: if_splits)
  next
    case False
    let ?b = "sort_computations_into_bucket"
    from assms tenant False obtain out db ops x1 x2 x3 where
      sort: "sort_computations_by_dependencies cs = Ok (out, db)" and
      ops: "check_computations out = Ok ops" and
      x1: "statement id x = Ok x1" and
      ins: "for_each (insert_request tenant) (zip out (zip ops (?b out))) x1 = Ok x2" and
      x3: "statement id x2 = Ok x3" and t: "t = x_tables x3"
      by (auto simp: async_compute_def bind_res_eq_Ok Let_def split: if_splits)
    note so = sort_sound [OF sort]
    then have "set out = set cs" by (metis set_mset_mset)
    with sort_valid [OF sort] have val: "\<forall>c \<in> set out. computation_valid c" by blast
    note ok = iffD1 [OF check_computations_ok [OF val] ops]
    have len: "length (?b out) = length out" by (simp add: sort_computations_into_bucket_def)
    note rows = insert_requests_ok [OF ins [unfolded conjunct2 [OF ok]] len]
    show ?thesis
    proof (rule that [OF tenant, of out])
      show "executable ((\<Union>c \<in> set cs. handle_inputs c) - ac_output_handle ` set cs) {} out"
        using so by (elim conjE) (simp only:)
      show "t = (x_tables x)\<lparr>t_computations := fold (insert_new computation_key)
           (rows_of tenant (x_now x) out (?b out)) (t_computations (x_tables x))\<rparr>"
        using rows statement_ok [OF x1] statement_ok [OF x3] by (simp add: t)
    qed (use so ok val in auto)
  qed
qed

text \<open>
  C31. A batch the server accepts is stored whole: one row for every computation, in an order in which
  each comes after those that produce its inputs, under the tenant of the key; the worker reads every
  row back as the operation asked for, with its handles as dependences and its scalars in place; and
  a computation shares the bucket of a producer of one of its inputs, where the batch has one.
\<close>

theorem request_stored:
  assumes "async_compute args K auth cs x = Ok t"
  shows "\<exists>tenant out rows. check_if_api_key_is_valid K auth = Ok tenant \<and> mset out = mset cs
     \<and> executable ((\<Union>c \<in> set cs. handle_inputs c) - ac_output_handle ` set cs) {} out
     \<and> t = (x_tables x)\<lparr>t_computations :=
             fold (insert_new computation_key) rows (t_computations (x_tables x))\<rparr>
     \<and> list_all2 (\<lambda>c w. computation_key w = (tenant, ac_output_handle c, ac_transaction_id c)
          \<and> work_operation w = Ok (request_operation c :: 'c dfg_op)) out rows
     \<and> chained out (map cr_dependence_chain_id rows)"
proof -
  from async_compute_ok [OF assms] obtain tenant out where o:
    "check_if_api_key_is_valid K auth = Ok tenant" "mset out = mset cs"
    "executable ((\<Union>c \<in> set cs. handle_inputs c) - ac_output_handle ` set cs) {} out"
    "\<forall>c \<in> set out. request_accepted c \<and> computation_valid c"
    "t = (x_tables x)\<lparr>t_computations := fold (insert_new computation_key)
           (rows_of tenant (x_now x) out (sort_computations_into_bucket out)) (t_computations (x_tables x))\<rparr>" .
  have "length (sort_computations_into_bucket out) = length out"
    by (simp add: sort_computations_into_bucket_def)
  note rows = rows_of_meant [OF o(4) this, of tenant "x_now x", where ?'c = 'c]
  show ?thesis
    using o(1,2,3,5) rows buckets_chained [of out]
    by (intro exI [of _ tenant] exI [of _ out] exI [of _ "rows_of tenant (x_now x) out (sort_computations_into_bucket out)"])
      simp
qed

section \<open>Which batches are accepted\<close>

lemma insert_requests_fault_free:
  assumes "\<forall>c \<in> set cs. \<exists>v. i32_try_into_i16 (ac_operation c) = Some v" and "fault_free x"
  shows "\<exists>y. for_each (insert_request tenant) (zip cs opbs) x = Ok y \<and> fault_free y"
  using assms
proof (induction cs arbitrary: opbs x)
  case (Cons c cs)
  show ?case
  proof (cases opbs)
    case (Cons ob opbs')
    obtain v where v: "i32_try_into_i16 (ac_operation c) = Some v" using Cons.prems(1) by auto
    obtain ops b where ob: "ob = (ops, b)" by (cases ob)
    from statement_fault_free [OF Cons.prems(2), of "\<lambda>t. t\<lparr>t_computations := insert_new computation_key
        (request_row tenant (x_now x) c ops b v) (t_computations t)\<rparr>"]
    obtain y where y: "statement (\<lambda>t. t\<lparr>t_computations := insert_new computation_key
        (request_row tenant (x_now x) c ops b v) (t_computations t)\<rparr>) x = Ok y" "fault_free y" by blast
    have "insert_request tenant (c, ob) x = Ok y" by (simp add: insert_request_def ob v y(1))
    with Cons.IH [OF _ y(2), of opbs'] Cons.prems(1) show ?thesis by (simp add: Cons)
  qed (use Cons.prems in simp)
qed simp

lemma sort_no_panic: "\<not> panics (sort_computations_by_dependencies cs)"
proof -
  have v: "\<not> panics (check_valid_ciphertext_handle h)" for h
    by (simp add: check_valid_ciphertext_handle_def)
  have o: "\<not> panics (collect_outputs idx cs m)" for idx m
    by (induction idx cs m rule: collect_outputs.induct)
      (auto simp: panics_bind_res v simp del: fun_upd_apply)
  have i: "\<not> panics (collect_inputs oh idx c op k ihs ds db)" for oh idx c op k ihs ds db
  proof (induction oh idx c op k ihs ds db rule: collect_inputs.induct)
    case (2 oh idx c op k ih ihs ds db)
    show ?case
    proof (cases ih)
      case (Some a)
      with 2 show ?thesis by (cases a) (auto simp: panics_bind_res v split: option.split)
    qed simp
  qed simp
  have d: "\<not> panics (collect_dependencies oh idx cs ds db)" for oh idx ds db
    by (induction oh idx cs ds db rule: collect_dependencies.induct)
      (auto simp: panics_bind_res op_try_from_i32_no_panic i)
  have r: "\<not> panics (run_rounds inp db q seen out)" for inp db q seen out
  proof (induction inp db q seen out rule: run_rounds.induct)
    case (1 inp db q seen out)
    show ?case
      by (subst run_rounds.simps) (use 1 in \<open>simp add: Let_def\<close>)
  qed
  show ?thesis by (simp add: sort_computations_by_dependencies_def panics_bind_res o d r)
qed

lemma insert_request_no_panic: "\<not> panics (insert_request tenant e x)"
  by (auto simp: insert_request_def split: prod.split option.split)

lemma async_compute_outcome:
  assumes "fault_free x"
  shows "(is_ok (async_compute args K auth cs x) \<longleftrightarrow>
       length cs \<le> server_maximum_ciphertexts_to_schedule args
     \<and> is_ok (check_if_api_key_is_valid K auth)
     \<and> (cs = [] \<or> is_ok (sort_computations_by_dependencies cs) \<and> (\<forall>c \<in> set cs. request_accepted c)))
   \<and> (panics (async_compute args K auth cs x) \<longrightarrow>
       (\<exists>c \<in> set cs. op_try_from_i32 (ac_operation c) = Ok FheGetInputCiphertext))"
proof (cases "length cs \<le> server_maximum_ciphertexts_to_schedule args \<and> is_ok (check_if_api_key_is_valid K auth)
    \<and> cs \<noteq> [] \<and> is_ok (sort_computations_by_dependencies cs)")
  case False
  have "\<not> panics (check_if_api_key_is_valid K auth)" "\<not> panics (sort_computations_by_dependencies cs)"
    by (simp_all add: sort_no_panic)
  with False show ?thesis
    by (cases "check_if_api_key_is_valid K auth"; cases "sort_computations_by_dependencies cs")
      (auto simp: async_compute_def)
next
  case True
  then obtain tenant out db where tenant: "check_if_api_key_is_valid K auth = Ok tenant"
    and sort: "sort_computations_by_dependencies cs = Ok (out, db)" and len: "length cs \<le> server_maximum_ciphertexts_to_schedule args"
    and ne: "cs \<noteq> []"
    by (auto simp: is_ok_def split: res.splits)
  have same: "set out = set cs" using sort_sound [OF sort] by (metis set_mset_mset)
  with sort_valid [OF sort] have val: "\<forall>c \<in> set out. computation_valid c" by blast
  have step: "async_compute args K auth cs x =
      bind_res (check_computations out) (\<lambda>ops.
        bind_res (status_db (statement id x)) (\<lambda>x1.
        bind_res (for_each (insert_request tenant) (zip out (zip ops (sort_computations_into_bucket out))) x1) (\<lambda>x2.
        bind_res (status_db (statement id x2)) (\<lambda>x3. Ok (x_tables x3)))))"
    using len ne by (simp add: async_compute_def tenant sort Let_def)
  have nf: "\<not> panics (for_each (insert_request tenant) es y)" for es y
    by (rule for_each_no_panic) (rule insert_request_no_panic)
  have np: "panics (async_compute args K auth cs x) \<Longrightarrow> panics (check_computations out)"
    unfolding step by (simp add: panics_bind_res nf)
  have p: "\<exists>c \<in> set cs. op_try_from_i32 (ac_operation c) = Ok FheGetInputCiphertext"
    if "panics (async_compute args K auth cs x)"
    using check_computations_panic [OF val np [OF that]] same by simp
  have ok: "is_ok (async_compute args K auth cs x) \<longleftrightarrow> (\<forall>c \<in> set cs. request_accepted c)"
  proof
    assume "is_ok (async_compute args K auth cs x)"
    then have "is_ok (check_computations out)"
      unfolding step by (cases "check_computations out") simp_all
    then obtain ops where "check_computations out = Ok ops" by (cases "check_computations out") simp_all
    from iffD1 [OF check_computations_ok [OF val] this] same show "\<forall>c \<in> set cs. request_accepted c" by simp
  next
    assume acc: "\<forall>c \<in> set cs. request_accepted c"
    then have "check_computations out = Ok (map request_ops out)"
      using check_computations_ok [OF val] same by simp
    moreover obtain x1 where x1: "statement id x = Ok x1" "fault_free x1"
      using statement_fault_free [OF assms] by blast
    moreover have "\<forall>c \<in> set out. \<exists>v. i32_try_into_i16 (ac_operation c) = Some v"
      using acc same accepted_code by blast
    from insert_requests_fault_free [OF this x1(2)] obtain x2 where
      "for_each (insert_request tenant)
         (zip out (zip (map request_ops out) (sort_computations_into_bucket out))) x1 = Ok x2" "fault_free x2"
      by blast
    moreover obtain x3 where "statement id x2 = Ok x3"
      using statement_fault_free [OF \<open>fault_free x2\<close>] by blast
    ultimately show "is_ok (async_compute args K auth cs x)" unfolding step by (simp add: status_db_def)
  qed
  show ?thesis using ok p True by simp
qed

text \<open>
  C32. Where no statement fails, a batch is accepted exactly when it is within the size limit, its key
  is one of a tenant, it can be sorted and every computation has the operands its operation takes. No
  batch makes the server panic, except through the code of the input operation: the assertion that
  only the second operand is a scalar never fails.
\<close>

theorem request_outcome:
  assumes "fault_free x"
  shows "(is_ok (async_compute args K auth cs x) \<longleftrightarrow>
       length cs \<le> server_maximum_ciphertexts_to_schedule args
     \<and> is_ok (check_if_api_key_is_valid K auth)
     \<and> (cs = [] \<or> is_ok (sort_computations_by_dependencies cs) \<and> (\<forall>c \<in> set cs. request_accepted c)))
   \<and> (panics (async_compute args K auth cs x) \<longrightarrow>
       (\<exists>c \<in> set cs. op_try_from_i32 (ac_operation c) = Ok FheGetInputCiphertext))"
  by (rule async_compute_outcome [OF assms])

section \<open>Uploaded inputs\<close>

text \<open>The row of the ciphertext at index \<open>j\<close> of a blob.\<close>

definition stored_as :: "'c upload_lib \<Rightarrow> i32 \<Rightarrow> bytes \<Rightarrow> nat \<Rightarrow> 'c sfc \<Rightarrow> ciphertext_row \<Rightarrow> bool" where
  "stored_as U tenant hash j ct r \<longleftrightarrow>
     compress_input U ct = Ok (ct_type r, ct_ciphertext r) \<and> ct_tenant_id r = tenant
   \<and> ct_version r = current_ciphertext_version
   \<and> ct_input_blob_hash r = Some hash \<and> ct_input_blob_index r = of_nat j
   \<and> length (ct_handle r) = 32 \<and> ct_handle r ! 29 = of_nat j
   \<and> ct_handle r ! 30 = ucast (ct_type r) \<and> ct_handle r ! 31 = ucast current_ciphertext_version"

lemma task_status_ok [simp]: "task_status f r = Ok a \<longleftrightarrow> r = Ok a"
  by (simp add: task_status_def split: res.split)

lemma input_handle_ok:
  assumes "input_handle U acl chain hash j ct = Ok (h, bs, ty)"
  shows "compress_input U ct = Ok (ty, bs) \<and> length h = 32 \<and> h ! 29 = of_nat j \<and> h ! 30 = ucast ty
    \<and> h ! 31 = ucast current_ciphertext_version"
  using assms by (auto simp: input_handle_def bind_res_eq_Ok Let_def assert_then_def split: if_splits)

lemma insert_ciphertexts_Cons:
  "insert_ciphertexts (r # rs) t = insert_ciphertexts rs (insert_ciphertexts [r] t)"
  by (simp add: insert_ciphertexts_def)

lemma store_ciphertexts_ok:
  "store_ciphertexts U tenant acl chain hash k cts x = Ok (hs, y) \<Longrightarrow>
    \<exists>rows. x_tables y = insert_ciphertexts rows (x_tables x) \<and> length rows = length cts
      \<and> map fst hs = map ct_handle rows
      \<and> (\<forall>j < length cts. stored_as U tenant hash (k + j) (cts ! j) (rows ! j))"
proof (induction cts arbitrary: k x hs)
  case Nil
  then show ?case by (simp add: insert_ciphertexts_def)
next
  case (Cons ct cts)
  from Cons.prems obtain h bs ty x1 n hs' where
    h: "input_handle U acl chain hash k ct = Ok (h, bs, ty)"
    and x1: "statement (insert_ciphertexts
         [\<lparr> ct_tenant_id = tenant, ct_handle = h, ct_ciphertext = bs,
            ct_version = current_ciphertext_version, ct_type = ty,
            ct_input_blob_hash = Some hash, ct_input_blob_index = of_nat k \<rparr>]) x = Ok x1"
    and rest: "store_ciphertexts U tenant acl chain hash (Suc k) cts x1 = Ok (hs', y)"
    and hs: "hs = (h, n, i16_as_i32 ty) # hs'"
    by (auto simp: bind_res_eq_Ok)
  let ?r = "\<lparr> ct_tenant_id = tenant, ct_handle = h, ct_ciphertext = bs,
            ct_version = current_ciphertext_version, ct_type = ty,
            ct_input_blob_hash = Some hash, ct_input_blob_index = of_nat k \<rparr>"
  from Cons.IH [OF rest] obtain rows where rows:
    "x_tables y = insert_ciphertexts rows (x_tables x1)" "length rows = length cts"
    "map fst hs' = map ct_handle rows"
    "\<forall>j < length cts. stored_as U tenant hash (Suc k + j) (cts ! j) (rows ! j)" by blast
  have r: "stored_as U tenant hash k ct ?r" using input_handle_ok [OF h] by (simp add: stored_as_def)
  have "x_tables y = insert_ciphertexts (?r # rows) (x_tables x)"
    unfolding insert_ciphertexts_Cons [of ?r rows] using rows(1) statement_ok [OF x1] by simp
  moreover have "stored_as U tenant hash (k + j) ((ct # cts) ! j) ((?r # rows) ! j)" if "j < length (ct # cts)" for j
    using that r rows(4) by (cases j) simp_all
  ultimately show ?case using rows(2,3) by (intro exI [of _ "?r # rows"]) (simp add: hs)
qed

lemma stored_distinct:
  assumes "\<forall>j < length cts. stored_as U tenant hash j (cts ! j) (rows ! j)"
    and "length rows = length cts" "length cts \<le> 256"
  shows "distinct (map ct_handle rows)"
proof -
  have "i = j" if "i < length rows" "j < length rows" "ct_handle (rows ! i) = ct_handle (rows ! j)" for i j
  proof -
    have "(of_nat i :: u8) = of_nat j" using that assms(1,2) by (metis stored_as_def)
    then have "i mod 256 = j mod 256" using unat_of_nat [where 'a = 8, of i] unat_of_nat [where 'a = 8, of j] by simp
    with that assms(2,3) show ?thesis by simp
  qed
  then show ?thesis by (simp add: distinct_conv_nth) blast
qed

lemma add_blob_then:
  "(x\<lparr>t_blobs := b\<rparr>)\<lparr>t_ciphertexts := c\<rparr> = x\<lparr>t_ciphertexts := c, t_blobs := b\<rparr>" for x :: tables
  by simp

text \<open>What a blob of the request becomes: its response and its rows.\<close>

definition blob_stored ::
  "server_args \<Rightarrow> 'c upload_lib \<Rightarrow> i32 \<Rightarrow> input_to_upload \<Rightarrow> input_response \<Rightarrow> ciphertext_row list \<Rightarrow> bool" where
  "blob_stored args U tenant ci resp rows \<longleftrightarrow>
     (\<exists>cts. expand_list U (input_payload ci) = Ok cts
        \<and> length cts \<le> unat (maximum_handles_per_input args) \<and> length rows = length cts
        \<and> ir_hash_of_ciphertext resp = keccak U (input_payload ci)
        \<and> map fst (ir_input_handles resp) = map ct_handle rows \<and> distinct (map ct_handle rows)
        \<and> (\<forall>j < length cts. stored_as U tenant (keccak U (input_payload ci)) j (cts ! j) (rows ! j)))"

definition expanded_ok ::
  "server_args \<Rightarrow> 'c upload_lib \<Rightarrow> input_to_upload \<Rightarrow> 'c sfc list \<times> bytes \<Rightarrow> bool" where
  "expanded_ok args U ci result \<longleftrightarrow>
     expand_list U (input_payload ci) = Ok (fst result) \<and> snd result = keccak U (input_payload ci)
   \<and> length (fst result) \<le> unat (maximum_handles_per_input args)"

lemma join_expansions_ok:
  "join_expansions args U cis js m = Ok m' \<Longrightarrow> \<forall>i r. m i = Some r \<longrightarrow> expanded_ok args U (cis ! i) r
    \<Longrightarrow> m' i = Some r \<Longrightarrow> expanded_ok args U (cis ! i) r"
proof (induction js arbitrary: m)
  case Nil
  from Nil.prems(2) [rule_format, of i r] Nil.prems(1,3) show ?case by simp
next
  case (Cons idx js)
  from Cons.prems(1) obtain cts hash where t: "expand_task U (cis ! idx) = Ok (cts, hash)"
    and l: "length cts \<le> unat (maximum_handles_per_input args)"
    and rest: "join_expansions args U cis js (m(idx \<mapsto> (cts, hash))) = Ok m'"
    by (auto simp: bind_res_eq_Ok assert_then_def split: if_splits)
  have "expanded_ok args U (cis ! idx) (cts, hash)"
    using t l by (auto simp: expand_task_def Let_def assert_then_def bind_res_eq_Ok expanded_ok_def split: if_splits)
  with Cons.prems(2) have "\<forall>i r. (m(idx \<mapsto> (cts, hash))) i = Some r \<longrightarrow> expanded_ok args U (cis ! i) r" by simp
  from Cons.IH [OF rest this Cons.prems(3)] show ?case .
qed

lemma byte_bound: "length cts \<le> unat (n :: u8) \<Longrightarrow> length cts \<le> 256"
  by (rule order.trans [OF _ less_imp_le [OF unat_byte_less]])

lemma store_blob_ok:
  assumes "store_blob U tenant tk verifying acl ci addresses result x = Ok (resp, y)"
    and "expanded_ok args U ci result"
  shows "\<exists>rows b. x_tables y = insert_ciphertexts rows ((x_tables x)\<lparr>t_blobs := insert_new blob_key b (t_blobs (x_tables x))\<rparr>)
     \<and> blob_stored args U tenant ci resp rows"
proof -
  obtain cts hash where res: "result = (cts, hash)" by (cases result)
  let ?b = "\<lparr> ib_tenant_id = tenant, ib_blob_hash = hash, ib_blob_data = input_payload ci,
              ib_ciphertext_count = of_nat (length cts) \<rparr>"
  let ?cv = "\<lambda>hs. \<lparr> cv_acl_address = acl, cv_hash_of_ciphertext = hash,
      cv_handles_list = map (\<lambda>(_, n, _). n) hs,
      cv_user_address = snd addresses, cv_contract_address = fst addresses \<rparr>"
  let ?resp = "\<lambda>hs signature. \<lparr> ir_acl_address = tk_acl_contract_address tk, ir_hash_of_ciphertext = hash,
      ir_input_handles = map (\<lambda>(h, _, ty). (h, ty)) hs,
      ir_contract_address = show_address U (fst addresses),
      ir_user_address = show_address U (snd addresses),
      ir_signer_address = signer_address U, ir_eip712_signature = signature \<rparr>"
  from assms(1) obtain x1 hs z where
    x1: "statement (\<lambda>t. t\<lparr>t_blobs := insert_new blob_key ?b (t_blobs t)\<rparr>) x = Ok x1" and
    st0: "store_ciphertexts U tenant acl (tk_chain_id tk) hash 0 cts x1 = Ok (hs, z)" and
    sign: "(case sign_verification U (tk_chain_id tk) verifying (?cv hs) of
        Inl e \<Rightarrow> Err (Status (Eip712SigningFailure e))
      | Inr signature \<Rightarrow> Ok (?resp hs signature, z)) = Ok (resp, y)"
    by (auto simp only: store_blob_def res bind_res_eq_Ok prod.case status_db_ok split_paired_Ex)
  from sign have st: "store_ciphertexts U tenant acl (tk_chain_id tk) hash 0 cts x1 = Ok (hs, y)"
    and resp: "ir_hash_of_ciphertext resp = hash" "ir_input_handles resp = map (\<lambda>(h, _, ty). (h, ty)) hs"
    using st0 by (cases "sign_verification U (tk_chain_id tk) verifying (?cv hs)"; auto)+
  from store_ciphertexts_ok [OF st] obtain rows where rows:
    "x_tables y = insert_ciphertexts rows (x_tables x1)" "length rows = length cts" "map fst hs = map ct_handle rows"
    "\<forall>j < length cts. stored_as U tenant hash j (cts ! j) (rows ! j)" by auto
  from assms(2) have e: "expand_list U (input_payload ci) = Ok cts" "hash = keccak U (input_payload ci)"
    "length cts \<le> unat (maximum_handles_per_input args)"
    by (simp_all add: expanded_ok_def res)
  have "map fst (map (\<lambda>(h, _, ty). (h, ty)) hs) = map fst hs" by (induction hs) auto
  with resp rows(3) have h: "map fst (ir_input_handles resp) = map ct_handle rows" by simp
  have "distinct (map ct_handle rows)" by (rule stored_distinct [OF rows(4,2) byte_bound [OF e(3)]])
  with e rows(2,4) resp(1) h have "blob_stored args U tenant ci resp rows"
    unfolding blob_stored_def by (intro exI [of _ cts]) simp
  with rows(1) statement_ok [OF x1] show ?thesis by (intro exI [of _ rows] exI [of _ ?b]) simp
qed

lemma store_blobs_ok:
  "store_blobs U tenant tk verifying acl results k cas x = Ok (resps, y) \<Longrightarrow>
   \<forall>i < length cas. \<forall>r. results (k + i) = Some r \<longrightarrow> expanded_ok args U (fst (cas ! i)) r \<Longrightarrow>
   \<exists>rowss bs. list_all2 (\<lambda>ca (resp, rows). blob_stored args U tenant (fst ca) resp rows) cas (zip resps rowss)
     \<and> length resps = length cas \<and> length rowss = length cas
     \<and> x_tables y = (x_tables x)\<lparr>t_ciphertexts := fold (insert_new ciphertext_key) (concat rowss) (t_ciphertexts (x_tables x)),
          t_blobs := fold (insert_new blob_key) bs (t_blobs (x_tables x))\<rparr>"
proof (induction cas arbitrary: k x resps)
  case Nil
  then show ?case by (intro exI [of _ "[]"]) simp
next
  case (Cons ca cas)
  obtain ci addresses where ca: "ca = (ci, addresses)" by (cases ca)
  from Cons.prems(1) obtain result resp x1 resps' where
    res: "results k = Some result" and
    b: "store_blob U tenant tk verifying acl ci addresses result x = Ok (resp, x1)" and
    rest: "store_blobs U tenant tk verifying acl results (Suc k) cas x1 = Ok (resps', y)" and
    resps: "resps = resp # resps'"
    by (auto simp: ca bind_res_eq_Ok split: option.splits)
  have "expanded_ok args U ci result" using Cons.prems(2) [rule_format, of 0 result] res by (simp add: ca)
  from store_blob_ok [OF b this] obtain rows bl where r:
    "x_tables x1 = insert_ciphertexts rows ((x_tables x)\<lparr>t_blobs := insert_new blob_key bl (t_blobs (x_tables x))\<rparr>)"
    "blob_stored args U tenant ci resp rows" by blast
  have "\<forall>i < length cas. \<forall>r. results (Suc k + i) = Some r \<longrightarrow> expanded_ok args U (fst (cas ! i)) r"
  proof (intro allI impI)
    fix i r assume "i < length cas" "results (Suc k + i) = Some r"
    with Cons.prems(2) [rule_format, of "Suc i" r] show "expanded_ok args U (fst (cas ! i)) r" by simp
  qed
  from Cons.IH [OF rest this] obtain rowss bs where i:
    "list_all2 (\<lambda>ca (resp, rows). blob_stored args U tenant (fst ca) resp rows) cas (zip resps' rowss)"
    "length resps' = length cas" "length rowss = length cas"
    "x_tables y = (x_tables x1)\<lparr>t_ciphertexts := fold (insert_new ciphertext_key) (concat rowss) (t_ciphertexts (x_tables x1)),
          t_blobs := fold (insert_new blob_key) bs (t_blobs (x_tables x1))\<rparr>" by blast
  show ?case
    using i r by (intro exI [of _ "rows # rowss"] exI [of _ "bl # bs"]) (simp add: resps ca insert_ciphertexts_def)
qed

lemma parse_input_addresses_length:
  "parse_input_addresses U cis = Ok as \<Longrightarrow> length as = length cis"
  by (induction cis arbitrary: as) (auto simp: bind_res_eq_Ok split: sum.splits)

text \<open>
  C33. Uploaded inputs, whatever the order in which their lists are expanded: the response has for
  every blob the handles of its ciphertexts in order, no two the same, each naming its index, type
  and version; each has a row with the compressed ciphertext, in the one transaction that writes
  nothing else but the blobs; and no blob has more ciphertexts than allowed.
\<close>

theorem inputs_stored:
  assumes "upload_inputs args K auth U keys js cis x = Ok (resps, t)"
  shows "\<exists>tenant rowss bs. check_if_api_key_is_valid K auth = Ok tenant
     \<and> length cis \<le> maximum_compact_inputs_upload args
     \<and> length resps = length cis \<and> length rowss = length cis
     \<and> (\<forall>i < length cis. blob_stored args U tenant (cis ! i) (resps ! i) (rowss ! i))
     \<and> t = (x_tables x)\<lparr>t_ciphertexts := fold (insert_new ciphertext_key) (concat rowss) (t_ciphertexts (x_tables x)),
            t_blobs := fold (insert_new blob_key) bs (t_blobs (x_tables x))\<rparr>"
proof -
  from assms obtain tenant where tenant: "check_if_api_key_is_valid K auth = Ok tenant"
    and len: "length cis \<le> maximum_compact_inputs_upload args"
    by (auto simp: upload_inputs_def bind_res_eq_Ok split: if_splits)
  show ?thesis
  proof (cases "cis = []")
    case True
    with assms tenant have "resps = []" "t = x_tables x" by (simp_all add: upload_inputs_def)
    with True tenant show ?thesis
      by (intro exI [of _ tenant] exI [of _ "[]"] exI [of _ "[]"]) simp
  next
    case False
    from assms tenant len False obtain tk verifying acl as results x1 x2 x3 where
      as: "parse_input_addresses U cis = Ok as" and
      js: "join_expansions args U cis js Map.empty = Ok results" and
      x1: "statement id x = Ok x1" and
      st: "store_blobs U tenant tk verifying acl results 0 (zip cis as) x1 = Ok (resps, x2)" and
      x3: "statement id x2 = Ok x3" and t: "t = x_tables x3"
      by (auto simp: upload_inputs_def bind_res_eq_Ok assert_then_def split: if_splits)
    have l: "length as = length cis" by (rule parse_input_addresses_length [OF as])
    have "\<forall>i < length (zip cis as). \<forall>r. results (0 + i) = Some r \<longrightarrow> expanded_ok args U (fst (zip cis as ! i)) r"
      using join_expansions_ok [OF js] by (simp add: l)
    from store_blobs_ok [OF st this] obtain rowss bs where r:
      "list_all2 (\<lambda>ca (resp, rows). blob_stored args U tenant (fst ca) resp rows) (zip cis as) (zip resps rowss)"
      "length resps = length (zip cis as)" "length rowss = length (zip cis as)"
      "x_tables x2 = (x_tables x1)\<lparr>t_ciphertexts := fold (insert_new ciphertext_key) (concat rowss) (t_ciphertexts (x_tables x1)),
          t_blobs := fold (insert_new blob_key) bs (t_blobs (x_tables x1))\<rparr>" by blast
    have "blob_stored args U tenant (cis ! i) (resps ! i) (rowss ! i)" if "i < length cis" for i
      using list_all2_nthD [OF r(1), of i] r(2,3) that l by simp
    with tenant len r(2-4) l statement_ok [OF x1] statement_ok [OF x3] show ?thesis
      by (intro exI [of _ tenant] exI [of _ rowss] exI [of _ bs]) (simp add: t)
  qed
qed

section \<open>Handing out ciphertexts\<close>

lemma fetched_rows_spec:
  "(fetched_rows hs tenant t h = Some r \<longrightarrow>
      r \<in> set (t_ciphertexts t) \<and> ct_tenant_id r = tenant \<and> ct_handle r = h)
   \<and> (fetched_rows hs tenant t h = None \<longrightarrow> h \<in> hs \<longrightarrow>
      (\<forall>r \<in> set (t_ciphertexts t). ct_tenant_id r = tenant \<longrightarrow> ct_handle r \<noteq> h))"
proof -
  let ?f = "\<lambda>m r. m(ct_handle r \<mapsto> r)"
  let ?rs = "filter (\<lambda>r. ct_tenant_id r = tenant \<and> ct_handle r \<in> hs) (t_ciphertexts t)"
  have s: "foldl ?f m rs h = Some r \<Longrightarrow> m h = Some r \<or> (r \<in> set rs \<and> ct_handle r = h)" for m rs
  proof (induction rs arbitrary: m)
    case (Cons r0 rs)
    from Cons.IH [of "?f m r0"] Cons.prems show ?case by (auto split: if_splits)
  qed simp
  have n: "foldl ?f m rs h = None \<longleftrightarrow> m h = None \<and> (\<forall>r \<in> set rs. ct_handle r \<noteq> h)" for m rs
  proof (induction rs arbitrary: m)
    case (Cons r0 rs)
    from Cons.IH [of "?f m r0"] show ?case by auto
  qed simp
  have "fetched_rows hs tenant t h = Some r \<Longrightarrow> r \<in> set ?rs \<and> ct_handle r = h"
    using s [of Map.empty ?rs] unfolding fetched_rows_def by simp blast
  moreover have "fetched_rows hs tenant t h = None \<Longrightarrow> \<forall>r \<in> set ?rs. ct_handle r \<noteq> h"
    using n [of Map.empty ?rs] by (simp add: fetched_rows_def)
  ultimately show ?thesis by auto
qed

lemma fetch_responses_ok:
  "fetch_responses U m hs = Ok rs \<Longrightarrow> map fst rs = hs \<and>
    (\<forall>(h, c) \<in> set rs. case m h of None \<Rightarrow> c = None
       | Some r \<Rightarrow> \<exists>s. c = Some \<lparr> fc_ciphertext_bytes = ct_ciphertext r, fc_ciphertext_type = i16_as_i32 (ct_type r),
                           fc_ciphertext_version = i16_as_i32 (ct_version r), fc_signature = s \<rparr>)"
proof (induction hs arbitrary: rs)
  case (Cons h hs)
  show ?case
  proof (cases "m h")
    case None
    with Cons show ?thesis by (auto simp: bind_res_eq_Ok)
  next
    case (Some r)
    from Cons.prems obtain n c rs' where n: "from_be_slice U h = Ok n"
      and c: "(case sign_ciphertext U n (keccak U (ct_ciphertext r)) of
            Inl e \<Rightarrow> Err (Status (Eip712SigningFailure e))
          | Inr s \<Rightarrow> Ok (Some \<lparr> fc_ciphertext_bytes = ct_ciphertext r, fc_ciphertext_type = i16_as_i32 (ct_type r),
                           fc_ciphertext_version = i16_as_i32 (ct_version r), fc_signature = s \<rparr>)) = Ok c"
      and rs: "fetch_responses U m hs = Ok rs'" "rs = (h, c) # rs'"
      by (auto simp: Some bind_res_eq_Ok)
    from c obtain s where "c = Some \<lparr> fc_ciphertext_bytes = ct_ciphertext r, fc_ciphertext_type = i16_as_i32 (ct_type r),
        fc_ciphertext_version = i16_as_i32 (ct_version r), fc_signature = s \<rparr>"
      by (cases "sign_ciphertext U n (keccak U (ct_ciphertext r))") auto
    with Cons.IH [OF rs(1)] Some show ?thesis by (simp add: rs(2))
  qed
qed simp

text \<open>
  C34. The ciphertexts handed out: one answer for each handle asked for, in order, never more than the
  limit; an answer is empty exactly when the tenant of the key has no ciphertext for the handle, and
  otherwise it is one the tenant has, with its type and version. No other tenant's is handed out.
\<close>

theorem own_ciphertexts:
  assumes "get_ciphertexts args K auth U hs x = Ok rs"
  shows "\<exists>tenant. check_if_api_key_is_valid K auth = Ok tenant \<and> map fst rs = hs
     \<and> length hs \<le> server_maximum_ciphertexts_to_get args
     \<and> (\<forall>(h, c) \<in> set rs.
          (c = None \<longleftrightarrow> (\<forall>r \<in> set (t_ciphertexts (x_tables x)). ct_tenant_id r = tenant \<longrightarrow> ct_handle r \<noteq> h))
        \<and> (\<forall>f. c = Some f \<longrightarrow> (\<exists>r \<in> set (t_ciphertexts (x_tables x)). ct_tenant_id r = tenant \<and> ct_handle r = h
              \<and> fc_ciphertext_bytes f = ct_ciphertext r \<and> fc_ciphertext_type f = i16_as_i32 (ct_type r)
              \<and> fc_ciphertext_version f = i16_as_i32 (ct_version r))))"
proof -
  from assms obtain tenant x1 where tenant: "check_if_api_key_is_valid K auth = Ok tenant"
    and len: "length hs \<le> server_maximum_ciphertexts_to_get args"
    and x1: "statement id x = Ok x1"
    and f: "fetch_responses U (fetched_rows (set hs) tenant (x_tables x1)) hs = Ok rs"
    by (auto simp: get_ciphertexts_def bind_res_eq_Ok split: if_splits)
  have t: "x_tables x1 = x_tables x" using statement_ok [OF x1] by simp
  let ?m = "fetched_rows (set hs) tenant (x_tables x)"
  note ok = fetch_responses_ok [OF f [unfolded t]]
  have "(c = None \<longleftrightarrow> (\<forall>r \<in> set (t_ciphertexts (x_tables x)). ct_tenant_id r = tenant \<longrightarrow> ct_handle r \<noteq> h))
        \<and> (\<forall>f. c = Some f \<longrightarrow> (\<exists>r \<in> set (t_ciphertexts (x_tables x)). ct_tenant_id r = tenant \<and> ct_handle r = h
              \<and> fc_ciphertext_bytes f = ct_ciphertext r \<and> fc_ciphertext_type f = i16_as_i32 (ct_type r)
              \<and> fc_ciphertext_version f = i16_as_i32 (ct_version r)))" if hc: "(h, c) \<in> set rs" for h c
  proof -
    have spec: "case ?m h of None \<Rightarrow> c = None
       | Some r \<Rightarrow> \<exists>s. c = Some \<lparr> fc_ciphertext_bytes = ct_ciphertext r, fc_ciphertext_type = i16_as_i32 (ct_type r),
                           fc_ciphertext_version = i16_as_i32 (ct_version r), fc_signature = s \<rparr>"
      using bspec [OF conjunct2 [OF ok] hc] by simp
    have "h \<in> set (map fst rs)" using hc by force
    then have h: "h \<in> set hs" unfolding conjunct1 [OF ok] .
    show ?thesis
    proof (cases "?m h")
      case None
      with conjunct2 [OF fetched_rows_spec [of "set hs" tenant "x_tables x" h]] h
      have "\<forall>r \<in> set (t_ciphertexts (x_tables x)). ct_tenant_id r = tenant \<longrightarrow> ct_handle r \<noteq> h" by simp
      with None spec show ?thesis by simp
    next
      case (Some r)
      with conjunct1 [OF fetched_rows_spec [of "set hs" tenant "x_tables x" h]]
      have r: "r \<in> set (t_ciphertexts (x_tables x))" "ct_tenant_id r = tenant" "ct_handle r = h" by simp_all
      from Some spec obtain s where c: "c = Some \<lparr> fc_ciphertext_bytes = ct_ciphertext r,
          fc_ciphertext_type = i16_as_i32 (ct_type r), fc_ciphertext_version = i16_as_i32 (ct_version r),
          fc_signature = s \<rparr>" by auto
      from r have "\<exists>r \<in> set (t_ciphertexts (x_tables x)). ct_tenant_id r = tenant \<and> ct_handle r = h" by blast
      moreover have "\<exists>r' \<in> set (t_ciphertexts (x_tables x)). ct_tenant_id r' = tenant \<and> ct_handle r' = h
          \<and> ct_ciphertext r = ct_ciphertext r' \<and> i16_as_i32 (ct_type r) = i16_as_i32 (ct_type r')
          \<and> i16_as_i32 (ct_version r) = i16_as_i32 (ct_version r')"
        by (rule bexI [OF _ r(1)]) (simp add: r(2,3))
      ultimately show ?thesis by (simp add: c)
    qed
  qed
  note each = this
  show ?thesis
  proof (intro exI [of _ tenant] conjI ballI)
    fix p assume p: "p \<in> set rs"
    obtain h c where hc: "p = (h, c)" by (cases p)
    from each [of h c] p show "case p of (h, c) \<Rightarrow>
          (c = None \<longleftrightarrow> (\<forall>r \<in> set (t_ciphertexts (x_tables x)). ct_tenant_id r = tenant \<longrightarrow> ct_handle r \<noteq> h))
        \<and> (\<forall>f. c = Some f \<longrightarrow> (\<exists>r \<in> set (t_ciphertexts (x_tables x)). ct_tenant_id r = tenant \<and> ct_handle r = h
              \<and> fc_ciphertext_bytes f = ct_ciphertext r \<and> fc_ciphertext_type f = i16_as_i32 (ct_type r)
              \<and> fc_ciphertext_version f = i16_as_i32 (ct_version r)))"
      unfolding hc prod.case by blast
  qed (rule tenant len conjunct1 [OF ok])+
qed

section \<open>Witnesses\<close>

text \<open>One key, of tenant 1.\<close>

definition sample_auth :: "unit auth_lib" where
  "sample_auth = \<lparr> parse_uuid = (\<lambda>s. if s = [49] then Some () else None), tenants_of_key = (\<lambda>_. Inr [1]) \<rparr>"

definition sample_header :: "code_points option option" where
  "sample_header = Some (Some (bearer_prefix @ [32, 49, 32]))"

definition sample_args :: server_args where
  "sample_args =
     \<lparr> maximum_compact_inputs_upload = 2, maximum_handles_per_input = 255,
       server_maximum_ciphertexts_to_schedule = 3, server_maximum_ciphertexts_to_get = 3 \<rparr>"

lemma sample_key: "check_if_api_key_is_valid sample_auth sample_header = Ok 1"
  by (simp add: check_if_api_key_is_valid_def sample_auth_def sample_header_def bearer_prefix_def trim_def
      is_whitespace_def)

definition empty_trx :: trx where
  "empty_trx = \<lparr> x_tables = no_tables, x_now = 10, x_faults = [] \<rparr>"

text \<open>Two negations, the second of the first, asked for in reverse.\<close>

definition sample_request :: "async_computation list" where
  "sample_request = [sample_computation 3 2, sample_computation 2 1]"

lemma sample_request_sorted:
  "sort_computations_by_dependencies sample_request = Ok ([sample_computation 2 1, sample_computation 3 2], {[1]})"
  by code_simp

lemma sample_accepted: "\<forall>c \<in> set sample_request. request_accepted c"
proof -
  have "op_try_from_i32 20 = Ok FheNeg" by code_simp
  then show ?thesis
    by (simp add: sample_request_def sample_computation_def request_accepted_def operands_accepted_def)
qed

lemma sample_ok: "is_ok (async_compute sample_args sample_auth sample_header sample_request empty_trx)"
proof -
  have "fault_free empty_trx" by (simp add: empty_trx_def)
  moreover have "length sample_request \<le> server_maximum_ciphertexts_to_schedule sample_args"
    by (simp add: sample_request_def sample_args_def)
  ultimately show ?thesis
    using async_compute_outcome [of empty_trx sample_args sample_auth sample_header sample_request]
      sample_key sample_request_sorted sample_accepted
    by simp
qed

theorem request_outcome_witness:
  "is_ok (async_compute sample_args sample_auth sample_header sample_request empty_trx)
   \<and> \<not> is_ok (async_compute sample_args sample_auth None sample_request empty_trx)"
proof -
  have f: "fault_free empty_trx" by (simp add: empty_trx_def)
  have "length sample_request \<le> server_maximum_ciphertexts_to_schedule sample_args"
    by (simp add: sample_request_def sample_args_def)
  moreover have "\<not> is_ok (check_if_api_key_is_valid sample_auth None)"
    by (simp add: check_if_api_key_is_valid_def)
  ultimately show ?thesis
    using request_outcome [OF f, of sample_args sample_auth sample_header sample_request]
      request_outcome [OF f, of sample_args sample_auth None sample_request]
      sample_key sample_request_sorted sample_accepted
    by simp
qed

theorem request_stored_witness:
  "\<exists>t out rows. async_compute sample_args sample_auth sample_header sample_request empty_trx = Ok t
     \<and> mset out = mset sample_request \<and> t_computations t = fold (insert_new computation_key) rows []
     \<and> list_all2 (\<lambda>c w. work_operation w = Ok (request_operation c :: nat dfg_op)) out rows
     \<and> chained out (map cr_dependence_chain_id rows)"
proof -
  obtain t where t: "async_compute sample_args sample_auth sample_header sample_request empty_trx = Ok t"
    using sample_ok
    by (cases "async_compute sample_args sample_auth sample_header sample_request empty_trx") simp_all
  from request_stored [OF t, where ?'c = nat] obtain out rows where r:
    "mset out = mset sample_request"
    "t = no_tables\<lparr>t_computations := fold (insert_new computation_key) rows []\<rparr>"
    "list_all2 (\<lambda>c w. computation_key w = (1, ac_output_handle c, ac_transaction_id c)
          \<and> work_operation w = Ok (request_operation c :: nat dfg_op)) out rows"
    "chained out (map cr_dependence_chain_id rows)"
    by (auto simp: sample_key empty_trx_def no_tables_def)
  have "list_all2 (\<lambda>c w. work_operation w = Ok (request_operation c :: nat dfg_op)) out rows"
    by (rule list_all2_mono [OF r(3)]) simp
  with t r(1,2,4) show ?thesis by (intro exI [of _ t] exI [of _ out] exI [of _ rows]) simp
qed

text \<open>A blob that expands to a byte and a boolean, and a chain of zeros for a hash.\<close>

definition sample_upload :: "nat upload_lib" where
  "sample_upload =
     \<lparr> keccak = (\<lambda>_. replicate 32 0), expand_list = (\<lambda>bs. Ok [FheUint8 3, FheBool 1]),
       compress_input = compress_ct (\<lambda>t c. Some (replicate c 0)) Some,
       parse_address = (\<lambda>s. Inr [1]), show_address = (\<lambda>a. ''address''), signer_address = ''signer'',
       u256_from_be_slice = (\<lambda>h. Some (be_val h)),
       sign_verification = (\<lambda>chain c v. Inr [5]), sign_ciphertext = (\<lambda>n d. Inr [6]) \<rparr>"

definition sample_blob :: input_to_upload where
  "sample_blob = \<lparr> input_payload = [1], contract_address = ''c'', user_address = ''u'' \<rparr>"

definition sample_keys :: "i32 \<Rightarrow> (string, tenant_keys) res" where
  "sample_keys tenant =
     Ok \<lparr> tk_chain_id = 7, tk_verifying_contract_address = ''v'', tk_acl_contract_address = ''a'' \<rparr>"

lemma sample_uploaded:
  "is_ok (upload_inputs sample_args sample_auth sample_header sample_upload sample_keys [0] [sample_blob] empty_trx)"
  by (simp add: upload_inputs_def sample_key sample_args_def sample_keys_def parse_tenant_address_def sample_upload_def
      sample_blob_def expand_task_def task_status_def status_db_def statement_def empty_trx_def store_blob_def
      input_handle_def compress_ct_def safe_serialize_def from_be_slice_def)

theorem inputs_stored_witness:
  "\<exists>resp t rows. upload_inputs sample_args sample_auth sample_header sample_upload sample_keys [0] [sample_blob] empty_trx
       = Ok ([resp], t)
     \<and> t_ciphertexts t = fold (insert_new ciphertext_key) rows [] \<and> length rows = 2
     \<and> map fst (ir_input_handles resp) = map ct_handle rows \<and> distinct (map ct_handle rows)"
proof -
  obtain resps t where u: "upload_inputs sample_args sample_auth sample_header sample_upload sample_keys [0]
      [sample_blob] empty_trx = Ok (resps, t)"
    using sample_uploaded
    by (cases "upload_inputs sample_args sample_auth sample_header sample_upload sample_keys [0] [sample_blob] empty_trx")
      auto
  from inputs_stored [OF u] obtain tenant rowss bs where r:
    "length resps = 1" "length rowss = 1" "blob_stored sample_args sample_upload tenant sample_blob (resps ! 0) (rowss ! 0)"
    "t = no_tables\<lparr>t_ciphertexts := fold (insert_new ciphertext_key) (concat rowss) [],
            t_blobs := fold (insert_new blob_key) bs []\<rparr>"
    by (auto simp: empty_trx_def no_tables_def)
  from r(1,2) obtain resp rows where l: "resps = [resp]" "rowss = [rows]" by (auto simp: length_Suc_conv)
  from r(3) have "length rows = 2" "map fst (ir_input_handles resp) = map ct_handle rows" "distinct (map ct_handle rows)"
    unfolding l by (auto simp: blob_stored_def sample_upload_def)
  with u r(4) show ?thesis unfolding l by (intro exI [of _ resp] exI [of _ t] exI [of _ rows]) simp
qed

text \<open>Two tenants with a ciphertext of the same handle.\<close>

definition tenant_ciphertext :: "i32 \<Rightarrow> bytes \<Rightarrow> ciphertext_row" where
  "tenant_ciphertext tenant bs =
     \<lparr> ct_tenant_id = tenant, ct_handle = [3], ct_ciphertext = bs, ct_version = 0, ct_type = 2,
       ct_input_blob_hash = None, ct_input_blob_index = 0 \<rparr>"

definition two_tenants :: trx where
  "two_tenants = empty_trx\<lparr>x_tables := no_tables\<lparr>t_ciphertexts := [tenant_ciphertext 1 [5], tenant_ciphertext 2 [6]]\<rparr>\<rparr>"

theorem own_ciphertexts_witness:
  "\<exists>rs. get_ciphertexts sample_args sample_auth sample_header sample_upload [[3], [4]] two_tenants = Ok rs
     \<and> map fst rs = [[3], [4]] \<and> (\<forall>f. ([3], Some f) \<in> set rs \<longrightarrow> fc_ciphertext_bytes f = [5])
     \<and> ([4], None) \<in> set rs"
proof -
  let ?get = "get_ciphertexts sample_args sample_auth sample_header sample_upload [[3], [4]] two_tenants"
  have "is_ok ?get"
    by (simp add: get_ciphertexts_def sample_key sample_args_def status_db_def statement_def two_tenants_def
        empty_trx_def fetched_rows_def tenant_ciphertext_def no_tables_def from_be_slice_def sample_upload_def)
  then obtain rs where g: "?get = Ok rs" by (cases ?get) simp_all
  let ?rows = "{tenant_ciphertext 1 [5], tenant_ciphertext 2 [6]}"
  from own_ciphertexts [OF g] have o: "map fst rs = [[3], [4]]"
    "\<And>h c. (h, c) \<in> set rs \<Longrightarrow> (c = None \<longleftrightarrow> (\<forall>r \<in> ?rows. ct_tenant_id r = 1 \<longrightarrow> ct_handle r \<noteq> h))"
    "\<And>h f. (h, Some f) \<in> set rs \<Longrightarrow> \<exists>r \<in> ?rows. ct_tenant_id r = 1 \<and> ct_handle r = h
       \<and> fc_ciphertext_bytes f = ct_ciphertext r"
    by (auto simp: sample_key two_tenants_def)
  from o(1) obtain c d where "rs = [([3], c), ([4], d)]" by (auto simp: map_eq_Cons_conv)
  with g o(1) o(2) [of "[4]" d] o(3) [of "[3]"] show ?thesis
    by (intro exI [of _ rs]) (auto simp: tenant_ciphertext_def)
qed

end
