(* ===== verification/WorkSoundness.thy ===== *)
theory WorkSoundness
  imports WorkCycleCorrect ExecutionCorrect SchedulerCorrect
begin

text \<open>
  The coprocessor as a whole: a meaning gives every handle a clear value that fits the operations of
  the rows, and every ciphertext the worker stores decrypts to the meaning of its handle, whatever
  the order of tasks, tenants and transactions, the re-randomisations and the failures.
\<close>

section \<open>Meanings\<close>

type_synonym meaning = "handle \<Rightarrow> clear option"

definition random_ops :: "fhe_op set" where
  "random_ops = {FheRand, FheRandBounded}"

fun meant_arg :: "('c \<Rightarrow> nat) \<Rightarrow> meaning \<Rightarrow> 'c task_input \<Rightarrow> clear option" where
  "meant_arg dec V (TaskValue v) = Some (abs_ct dec v)"
| "meant_arg dec V (TaskDependence h) = V h"
| "meant_arg dec V (TaskCompressed t c) = None"

fun literal :: "'c task_input \<Rightarrow> 'c sfc option" where
  "literal (TaskValue v) = Some v"
| "literal _ = None"

text \<open>
  The value of an operation: clear arithmetic on the meanings of its operands; for a random one, what
  the library draws for its scalars, which hold the seed.
\<close>

definition op_value ::
  "('c, 'x, 's) engine \<Rightarrow> ('c \<Rightarrow> nat) \<Rightarrow> shift_sem \<Rightarrow> meaning \<Rightarrow> fhe_op \<Rightarrow> 'c task_input list \<Rightarrow> clear option" where
  "op_value E dec sh V op inputs =
     (if op \<in> random_ops then
        (case those (map literal inputs) of
           None \<Rightarrow> None
         | Some vs \<Rightarrow> map_option (abs_ct dec) (ok_val (perform_fhe_operation_impl (eng_lib E) (op_to_i16 op) vs)))
      else
        (case those (map (meant_arg dec V) inputs) of
           None \<Rightarrow> None
         | Some xs \<Rightarrow> clear_perform sh op xs))"

definition meaning_ok :: "meaning \<Rightarrow> bool" where
  "meaning_ok V \<longleftrightarrow> (\<forall>h c. V h = Some c \<longrightarrow> clear_ok c)"

definition node_meant ::
  "('c, 'x, 's) engine \<Rightarrow> ('c \<Rightarrow> nat) \<Rightarrow> shift_sem \<Rightarrow> meaning \<Rightarrow> 'c op_node \<Rightarrow> bool" where
  "node_meant E dec sh V node \<longleftrightarrow>
     (\<exists>op. opcode node = i16_as_i32 (op_to_i16 op) \<and> op \<noteq> FheGetInputCiphertext
        \<and> (\<forall>v. TaskValue v \<in> set (op_inputs node) \<longrightarrow> ct_ok dec v)
        \<and> (op \<in> random_ops \<longrightarrow> (\<forall>i \<in> set (op_inputs node). literal i \<noteq> None))
        \<and> (\<forall>c. op_value E dec sh V op (op_inputs node) = Some c \<longrightarrow> V (result_handle node) = Some c))"

definition means :: "('c \<Rightarrow> nat) \<Rightarrow> meaning \<Rightarrow> handle \<Rightarrow> 'c sfc \<Rightarrow> bool" where
  "means dec V h x \<longleftrightarrow> V h = Some (abs_ct dec x)"

definition result_meant ::
  "('c, 'x, 's) engine \<Rightarrow> ('c \<Rightarrow> nat) \<Rightarrow> meaning \<Rightarrow> handle \<Rightarrow> (work_error, 'c task_result) res \<Rightarrow> bool" where
  "result_meant E dec V h r \<longleftrightarrow>
     (case r of
        Ok tr \<Rightarrow> means dec V h (tr_ct tr)
          \<and> (\<forall>cc. tr_compressed tr = Some cc \<longrightarrow> eng_compress E (tr_ct tr) = Ok cc)
      | _ \<Rightarrow> True)"

definition results_meant ::
  "('c, 'x, 's) engine \<Rightarrow> ('c \<Rightarrow> nat) \<Rightarrow> meaning \<Rightarrow> 'c results \<Rightarrow> bool" where
  "results_meant E dec V res \<longleftrightarrow> (\<forall>h r. res h = Some r \<longrightarrow> result_meant E dec V h r)"

lemma means_ok: "meaning_ok V \<Longrightarrow> means dec V h x \<Longrightarrow> ct_ok dec x"
  unfolding means_def meaning_ok_def by (metis clear_ok_abs)

section \<open>One operation\<close>

text \<open>An input while the component runs: as it was, or the value of the handle it depends on.\<close>

definition input_meant :: "('c \<Rightarrow> nat) \<Rightarrow> meaning \<Rightarrow> 'c task_input \<Rightarrow> 'c task_input \<Rightarrow> bool" where
  "input_meant dec V i0 i \<longleftrightarrow>
     i = i0 \<or> (\<exists>h x. i0 = TaskDependence h \<and> i = TaskValue x \<and> means dec V h x)"

definition node_state :: "('c \<Rightarrow> nat) \<Rightarrow> meaning \<Rightarrow> 'c op_node \<Rightarrow> 'c op_node \<Rightarrow> bool" where
  "node_state dec V n0 n \<longleftrightarrow>
     opcode n = opcode n0 \<and> result_handle n = result_handle n0 \<and> node_is_allowed n = node_is_allowed n0
     \<and> list_all2 (input_meant dec V) (op_inputs n0) (op_inputs n)"

definition tx_meant :: "('c \<Rightarrow> nat) \<Rightarrow> meaning \<Rightarrow> 'c tx_inputs \<Rightarrow> bool" where
  "tx_meant dec V tx \<longleftrightarrow> (\<forall>h x. tx_value tx h = Some x \<longrightarrow> means dec V h x)"

lemma ready_meant:
  assumes "tx_meant dec V tx" "input_meant dec V i0 i" "ready_value tx i = Some x"
  shows "meant_arg dec V i0 = Some (abs_ct dec x) \<and> (literal i0 \<noteq> None \<longrightarrow> literal i0 = Some x)
    \<and> (i0 = TaskValue x \<or> (\<exists>h. means dec V h x))"
  using assms by (cases i0; cases i) (auto simp: input_meant_def ready_value_def tx_meant_def means_def)

lemma args_meant:
  assumes "tx_meant dec V tx" "list_all2 (input_meant dec V) is0 is"
    and "those (map (ready_value tx) is) = Some cts"
  shows "those (map (meant_arg dec V) is0) = Some (map (abs_ct dec) cts)
    \<and> (\<forall>x \<in> set cts. TaskValue x \<in> set is0 \<or> (\<exists>h. means dec V h x))
    \<and> ((\<forall>i \<in> set is0. literal i \<noteq> None) \<longrightarrow> those (map literal is0) = Some cts)"
  using assms(2,3)
proof (induction arbitrary: cts rule: list_all2_induct)
  case (Cons i0 is0 i "is")
  from Cons.prems obtain x xs where x: "ready_value tx i = Some x"
    "those (map (ready_value tx) is) = Some xs" "cts = x # xs"
    by (auto split: option.splits)
  from ready_meant [OF assms(1) Cons.hyps(1) x(1)] Cons.IH [OF x(2)] x(3) show ?case by auto
qed simp

lemma run_meant:
  assumes E: "engine_ok E dec sh" and V: "meaning_ok V" and n0: "node_meant E dec sh V n0"
    and tx: "tx_meant dec V tx" and n: "node_state dec V n0 n"
    and rdy: "those (map (ready_value tx) (op_inputs n)) = Some cts"
    and run: "run_computation E (opcode n) cts (node_is_allowed n) = r" and np: "\<not> panics r"
  shows "result_meant E dec V (result_handle n) (task_outcome n r)"
proof (cases r)
  case (Ok p)
  obtain x cc where p: "p = (x, cc)" by (cases p)
  from n0 obtain op where op: "opcode n0 = i16_as_i32 (op_to_i16 op)" "op \<noteq> FheGetInputCiphertext"
    and lit: "\<And>v. TaskValue v \<in> set (op_inputs n0) \<Longrightarrow> ct_ok dec v"
    and rnd: "op \<in> random_ops \<Longrightarrow> \<forall>i \<in> set (op_inputs n0). literal i \<noteq> None"
    and val: "\<And>c. op_value E dec sh V op (op_inputs n0) = Some c \<Longrightarrow> V (result_handle n0) = Some c"
    unfolding node_meant_def by blast
  have code: "opcode n = i16_as_i32 (op_to_i16 op)" and h: "result_handle n = result_handle n0"
    using n op by (simp_all add: node_state_def)
  have "list_all2 (input_meant dec V) (op_inputs n0) (op_inputs n)" using n by (simp add: node_state_def)
  note args = args_meant [OF tx this rdy]
  have okc: "\<forall>y \<in> set cts. ct_ok dec y" using args lit means_ok [OF V] by blast
  let ?p = "perform_fhe_operation_impl (eng_lib E) (op_to_i16 op) cts"
  have rc: "run_computation E (opcode n) cts (node_is_allowed n) =
      bind_res (of_fhevm ?p) (\<lambda>result.
        if node_is_allowed n then bind_res (of_fhevm (eng_compress E result)) (\<lambda>cc. Ok (result, Some cc))
        else Ok (result, None))"
    using op(2) by (simp add: run_computation_def code opcode_read perform_fhe_operation_def)
  have pr: "?p = Ok x" and cmp: "\<And>c. node_is_allowed n \<Longrightarrow> cc = Some c \<Longrightarrow> eng_compress E x = Ok c"
    using run Ok p unfolding rc by (auto simp: bind_res_eq_Ok of_fhevm_def split: if_splits)
  have "op_value E dec sh V op (op_inputs n0) = Some (abs_ct dec x)"
  proof (cases "op \<in> random_ops")
    case True
    with args rnd have "those (map literal (op_inputs n0)) = Some cts" by blast
    with True show ?thesis by (simp add: op_value_def pr)
  next
    case False
    then have det: "op \<notin> {FheRand, FheRandBounded, FheGetInputCiphertext}"
      using op(2) by (auto simp: random_ops_def)
    from run_computation_clear [OF E code det okc, of "node_is_allowed n"] np run Ok p
    have "clear_perform sh op (map (abs_ct dec) cts) = Some (abs_ct dec x)" by simp
    with False args show ?thesis by (simp add: op_value_def)
  qed
  then have "V (result_handle n) = Some (abs_ct dec x)" unfolding h by (rule val)
  with cmp show ?thesis by (auto simp: result_meant_def means_def task_outcome_def Ok p)
qed (simp_all add: result_meant_def task_outcome_def)

section \<open>A component\<close>

text \<open>The edges of a component lead to the inputs that depend on their source.\<close>

definition dfg_meant ::
  "('c, 'x, 's) engine \<Rightarrow> ('c \<Rightarrow> nat) \<Rightarrow> shift_sem \<Rightarrow> meaning \<Rightarrow> 'c dfgraph \<Rightarrow> bool" where
  "dfg_meant E dec sh V D \<longleftrightarrow>
     (\<forall>n \<in> set (dg_nodes D). node_meant E dec sh V n)
   \<and> (\<forall>ts. dg_topo D = Some ts \<longrightarrow> distinct ts)
   \<and> (\<forall>u < length (dg_nodes D). \<forall>(v, w) \<in> set (dg_out D u). v < length (dg_nodes D) \<longrightarrow>
        unat w < length (op_inputs (dg_nodes D ! v))
        \<and> op_inputs (dg_nodes D ! v) ! unat w = TaskDependence (result_handle (dg_nodes D ! u)))"

lemma dfg_meant_ok:
  assumes "dfg_ok D" and "\<forall>n \<in> set (dg_nodes D). node_meant E dec sh V n"
  shows "dfg_meant E dec sh V D"
proof -
  have "v < length (dg_nodes D) \<longrightarrow> unat w < length (op_inputs (dg_nodes D ! v))
      \<and> op_inputs (dg_nodes D ! v) ! unat w = TaskDependence (result_handle (dg_nodes D ! u))"
    if "u < length (dg_nodes D)" "(v, w) \<in> set (dg_out D u)" for u v w
    using dfg_ok_edge [OF assms(1) that(1), of v "unat w"] that(2) by blast
  with assms dfg_ok_topo(1) [OF assms(1)] show ?thesis by (auto simp: dfg_meant_def)
qed

definition nodes_state :: "('c \<Rightarrow> nat) \<Rightarrow> meaning \<Rightarrow> 'c op_node list \<Rightarrow> nat set \<Rightarrow> 'c op_node list \<Rightarrow> bool" where
  "nodes_state dec V N0 todo N \<longleftrightarrow>
     length N = length N0 \<and> (\<forall>v \<in> todo. v < length N0 \<longrightarrow> node_state dec V (N0 ! v) (N ! v))"

lemma nodes_state_other:
  "nodes_state dec V N0 todo N \<Longrightarrow> n \<notin> todo \<Longrightarrow> nodes_state dec V N0 todo (N[n := m])"
  unfolding nodes_state_def by (metis length_list_update nth_list_update_neq)

lemma push_meant:
  assumes "\<forall>(v, w) \<in> set es. v < length N0 \<longrightarrow> unat w < length (op_inputs (N0 ! v))
        \<and> op_inputs (N0 ! v) ! unat w = TaskDependence h"
    and "means dec V h x" "nodes_state dec V N0 todo N" "push_to_consumers x es N = Ok N'"
  shows "nodes_state dec V N0 todo N'"
  using assms
proof (induction x es N arbitrary: N' rule: push_to_consumers.induct)
  case (2 ct child weight es N)
  have len: "length N = length N0" using "2.prems"(3) by (simp add: nodes_state_def)
  show ?case
  proof (cases "child < length N")
    case True
    let ?n = "N ! child"
    let ?N = "N[child := ?n\<lparr>op_inputs := (op_inputs ?n)[unat weight := TaskValue ct]\<rparr>]"
    from "2.prems"(4) True have w: "unat weight < length (op_inputs ?n)"
      and p: "push_to_consumers ct es ?N = Ok N'" by (auto split: if_splits)
    have dep: "unat weight < length (op_inputs (N0 ! child))"
      "op_inputs (N0 ! child) ! unat weight = TaskDependence h"
      using "2.prems"(1) True len by auto
    have "node_state dec V (N0 ! v) (?N ! v)" if v: "v \<in> todo" "v < length N0" for v
    proof (cases "v = child")
      case False
      then show ?thesis using v "2.prems"(3) by (simp add: nodes_state_def)
    next
      case c: True
      from "2.prems"(3) v c have st: "node_state dec V (N0 ! child) ?n" by (simp add: nodes_state_def)
      have "input_meant dec V (op_inputs (N0 ! child) ! unat weight) (TaskValue ct)"
        using dep(2) "2.prems"(2) by (auto simp: input_meant_def)
      moreover have "list_all2 (input_meant dec V) (op_inputs (N0 ! child)) (op_inputs ?n)"
        using st by (simp add: node_state_def)
      ultimately have "list_all2 (input_meant dec V) (op_inputs (N0 ! child)) ((op_inputs ?n)[unat weight := TaskValue ct])"
        using list_all2_update_cong [of "input_meant dec V" "op_inputs (N0 ! child)" "op_inputs ?n"
            "op_inputs (N0 ! child) ! unat weight" "TaskValue ct" "unat weight"] by simp
      with st c True show ?thesis by (simp add: node_state_def)
    qed
    then have "nodes_state dec V N0 todo ?N" using len by (simp add: nodes_state_def)
    with "2.IH"(1) [OF True w] "2.prems"(1,2) p show ?thesis by simp
  next
    case False
    with "2.IH"(2) "2.prems" show ?thesis by simp
  qed
qed simp

lemma execute_nodes_meant:
  assumes E: "engine_ok E dec sh" and V: "meaning_ok V" and D: "dfg_meant E dec sh V D"
    and tx: "tx_meant dec V tx"
  shows "distinct ts \<Longrightarrow> nodes_state dec V (dg_nodes D) (set ts) N \<Longrightarrow> results_meant E dec V res
    \<Longrightarrow> execute_nodes E (dg_out D) tx ts N res = Ok res' \<Longrightarrow> results_meant E dec V res'"
proof (induction ts arbitrary: N res)
  case (Cons n ts)
  let ?N0 = "dg_nodes D"
  have len: "length N = length ?N0" using Cons.prems(2) by (simp add: nodes_state_def)
  have rest: "nodes_state dec V ?N0 (set ts) N" using Cons.prems(2) by (simp add: nodes_state_def)
  have upd: "nodes_state dec V ?N0 (set ts) (N[n := m])" for m
    using nodes_state_other [OF rest] Cons.prems(1) by simp
  have d: "distinct ts" using Cons.prems(1) by simp
  show ?case
  proof (cases "n < length N")
    case False
    with Cons.prems Cons.IH [OF d rest] show ?thesis by simp
  next
    case n: True
    have st: "node_state dec V (?N0 ! n) (N ! n)" using Cons.prems(2) n len by (simp add: nodes_state_def)
    have nm: "node_meant E dec sh V (?N0 ! n)" using D n len by (simp add: dfg_meant_def)
    show ?thesis
    proof (cases "those (map (ready_value tx) (op_inputs (N ! n)))")
      case None
      then obtain "is" where "try_execute_node E (N ! n) tx = (Inl SchedulerFailure, (N ! n)\<lparr>op_inputs := is\<rparr>)"
        using try_execute_view [where tx = tx and node = "N ! n" and E = E] by auto
      with Cons.prems n Cons.IH [OF d upd] show ?thesis by simp
    next
      case (Some cts)
      let ?node = "(N ! n)\<lparr>op_inputs := []\<rparr>"
      obtain r where r: "run_computation E (opcode (N ! n)) cts (node_is_allowed (N ! n)) = r" by simp
      have run: "try_execute_node E (N ! n) tx = (Inr r, ?node)"
        using try_execute_view [where tx = tx and node = "N ! n" and E = E] Some r by simp
      have np: "\<not> panics r" using Cons.prems(4) n run by (cases r) auto
      have rn: "result_meant E dec V (result_handle (N ! n)) (task_outcome (N ! n) r)"
        by (rule run_meant [OF E V nm tx st Some r np])
      from rn have rm: "results_meant E dec V (res(result_handle ?node \<mapsto> task_outcome ?node r))"
        using Cons.prems(3) by (simp add: results_meant_def task_outcome_def)
      show ?thesis
      proof (cases r)
        case (Err e)
        with Cons.prems(4) n run Cons.IH [OF d upd rm [unfolded Err]] show ?thesis by (simp del: fun_upd_apply)
      next
        case (Panic p)
        with np show ?thesis by simp
      next
        case (Ok p)
        obtain x cc where p: "p = (x, cc)" by (cases p)
        from Cons.prems(4) n run Ok p obtain N' where
          N': "push_to_consumers x (dg_out D n) (N[n := ?node]) = Ok N'"
          "execute_nodes E (dg_out D) tx ts N' (res(result_handle ?node \<mapsto> task_outcome ?node r)) = Ok res'"
          by (auto simp: bind_res_eq_Ok simp del: fun_upd_apply)
        have hn: "result_handle (N ! n) = result_handle (?N0 ! n)" using st by (simp add: node_state_def)
        have "means dec V (result_handle (N ! n)) x"
          using rn by (simp add: result_meant_def task_outcome_def Ok p)
        then have mx: "means dec V (result_handle (?N0 ! n)) x" by (simp add: hn)
        have es: "\<forall>(v, w) \<in> set (dg_out D n). v < length ?N0 \<longrightarrow> unat w < length (op_inputs (?N0 ! v))
          \<and> op_inputs (?N0 ! v) ! unat w = TaskDependence (result_handle (?N0 ! n))"
          using D n unfolding dfg_meant_def len by blast
        show ?thesis by (rule Cons.IH [OF d push_meant [OF es mx upd N'(1)] rm N'(2)])
      qed
    qed
  qed
qed simp

section \<open>A task\<close>

text \<open>The inputs of a component: a value, or a stored ciphertext, of the meaning of its handle.\<close>

definition stored_meant ::
  "('c, 'x, 's) engine \<Rightarrow> ('c \<Rightarrow> nat) \<Rightarrow> meaning \<Rightarrow> handle \<Rightarrow> i16 \<times> bytes \<Rightarrow> bool" where
  "stored_meant E dec V h tc \<longleftrightarrow> (\<exists>x. eng_decompress E (fst tc) (snd tc) = Ok x \<and> means dec V h x)"

fun tx_input_meant ::
  "('c, 'x, 's) engine \<Rightarrow> ('c \<Rightarrow> nat) \<Rightarrow> meaning \<Rightarrow> handle \<Rightarrow> 'c tx_input option \<Rightarrow> bool" where
  "tx_input_meant E dec V h None = True"
| "tx_input_meant E dec V h (Some (TxValue v b)) = means dec V h v"
| "tx_input_meant E dec V h (Some (TxCompressed t c b)) = stored_meant E dec V h (t, c)"

definition inputs_meant ::
  "('c, 'x, 's) engine \<Rightarrow> ('c \<Rightarrow> nat) \<Rightarrow> meaning \<Rightarrow> 'c tx_inputs \<Rightarrow> bool" where
  "inputs_meant E dec V ins \<longleftrightarrow> (\<forall>(h, i) \<in> set ins. tx_input_meant E dec V h i)"

lemma fill_inputs_meant:
  assumes "results_meant E dec V res"
  shows "inputs_meant E dec V ins \<Longrightarrow> fill_inputs res ins = Some ins' \<Longrightarrow> inputs_meant E dec V ins'"
proof (induction ins arbitrary: ins')
  case (Cons hi rest)
  obtain h i where hi: "hi = (h, i)" by (cases hi)
  have rest: "inputs_meant E dec V rest" using Cons.prems(1) by (simp add: inputs_meant_def)
  note IH = Cons.IH [OF rest]
  show ?case
  proof (cases i)
    case (Some v)
    with Cons.prems IH hi show ?thesis by (auto simp: inputs_meant_def)
  next
    case None
    with Cons.prems(2) hi obtain tr ins'' where r: "res h = Some (Ok tr)" "fill_inputs res rest = Some ins''"
      "ins' = (h, Some (TxValue (tr_ct tr) (tr_is_allowed tr))) # ins''"
      by (auto split: option.splits res.splits)
    have "means dec V h (tr_ct tr)"
      using assms r(1) by (auto simp: results_meant_def result_meant_def dest: spec [of _ h])
    with IH [OF r(2)] r(3) show ?thesis by (simp add: inputs_meant_def)
  qed
qed simp

lemma rerandomise_meant:
  assumes E: "engine_ok E dec sh" and ins: "inputs_meant E dec V ins"
    and rr: "re_randomise_transaction_inputs E ins tid cid = Ok ins'"
  shows "tx_meant dec V ins'"
  unfolding tx_meant_def
proof (intro allI impI)
  fix h x assume "tx_value ins' h = Some x"
  with rerandomise_clear [OF E rr, of h] have c: "clear_tx E dec ins h = Some (abs_ct dec x)" by simp
  then obtain i where i: "map_of ins h = Some (Some i)"
    by (auto simp: clear_tx_def split: option.splits)
  from map_of_SomeD [OF i] ins have "tx_input_meant E dec V h (Some i)" by (auto simp: inputs_meant_def)
  with c i show "means dec V h x"
    by (cases i) (auto simp: clear_tx_def means_def stored_meant_def)
qed

definition task_meant ::
  "('c, 'x, 's) engine \<Rightarrow> ('c \<Rightarrow> nat) \<Rightarrow> shift_sem \<Rightarrow> meaning \<Rightarrow> 'c component_task \<Rightarrow> bool" where
  "task_meant E dec sh V task \<longleftrightarrow>
     (case task of (dfg, tx_inputs, tid, cid) \<Rightarrow> dfg_meant E dec sh V dfg \<and> inputs_meant E dec V tx_inputs)"

lemma mark_allowed_meant:
  "results_meant E dec V res \<Longrightarrow> results_meant E dec V (mark_allowed e nodes res)"
  unfolding mark_allowed_def
proof (induction nodes arbitrary: res)
  case (Cons n nodes)
  have "results_meant E dec V (res(result_handle n \<mapsto> Err (WScheduler e)))"
    using Cons.prems by (simp add: results_meant_def result_meant_def)
  with Cons show ?case by simp
qed simp

lemma nodes_state_refl: "nodes_state dec V N todo N"
  by (simp add: nodes_state_def node_state_def input_meant_def list_all2_refl)

lemma execute_transaction_meant:
  assumes E: "engine_ok E dec sh" and V: "meaning_ok V" and task: "task_meant E dec sh V task"
    and res: "results_meant E dec V res" and run: "execute_transaction E task res = Ok res'"
  shows "results_meant E dec V res'"
proof -
  obtain dfg ins tid cid where t: "task = (dfg, ins, tid, cid)" by (cases task)
  have D: "dfg_meant E dec sh V dfg" and I: "inputs_meant E dec V ins"
    using task by (simp_all add: task_meant_def t)
  show ?thesis
  proof (cases "fill_inputs res ins")
    case None
    with run mark_allowed_meant [OF res] show ?thesis by (auto simp: execute_transaction_def t)
  next
    case (Some ins1)
    note I1 = fill_inputs_meant [OF res I Some]
    show ?thesis
    proof (cases "re_randomise_transaction_inputs E ins1 tid cid")
      case (Ok ins2)
      note tx = rerandomise_meant [OF E I1 Ok]
      show ?thesis
      proof (cases "dg_topo dfg")
        case None
        with run Some Ok mark_allowed_meant [OF res] show ?thesis by (auto simp: execute_transaction_def t)
      next
        case (Some ts)
        with D have d: "distinct ts" by (simp add: dfg_meant_def)
        have "execute_nodes E (dg_out dfg) ins2 ts (dg_nodes dfg) res = Ok res'"
          using run \<open>fill_inputs res ins = Some ins1\<close> Ok Some by (simp add: execute_transaction_def t)
        from execute_nodes_meant [OF E V D tx d nodes_state_refl res this] show ?thesis .
      qed
    next
      case (Err e)
      with run Some mark_allowed_meant [OF res] show ?thesis by (auto simp: execute_transaction_def t)
    next
      case (Panic p)
      with run Some show ?thesis by (simp add: execute_transaction_def t)
    qed
  qed
qed

lemma execute_partition_meant:
  assumes "engine_ok E dec sh" "meaning_ok V"
  shows "\<forall>task \<in> set tasks. task_meant E dec sh V task \<Longrightarrow> results_meant E dec V res
    \<Longrightarrow> execute_partition E tasks res = Ok res' \<Longrightarrow> results_meant E dec V res'"
proof (induction tasks arbitrary: res)
  case (Cons task tasks)
  from Cons.prems(3) obtain r where r: "execute_transaction E task res = Ok r"
    "execute_partition E tasks r = Ok res'" by (auto simp: bind_res_eq_Ok)
  have "results_meant E dec V r"
    using execute_transaction_meant [OF assms _ Cons.prems(2) r(1)] Cons.prems(1) by simp
  with Cons.IH [OF _ _ r(2)] Cons.prems(1) show ?case by simp
qed simp

section \<open>The graph of components\<close>

definition component_meant ::
  "('c, 'x, 's) engine \<Rightarrow> ('c \<Rightarrow> nat) \<Rightarrow> shift_sem \<Rightarrow> meaning \<Rightarrow> 'c component \<Rightarrow> bool" where
  "component_meant E dec sh V tx \<longleftrightarrow>
     dfg_meant E dec sh V (c_graph tx) \<and> inputs_meant E dec V (c_inputs tx)"

text \<open>A result that is reported decrypts to the meaning of its handle once it is stored.\<close>

definition report_meant ::
  "('c, 'x, 's) engine \<Rightarrow> ('c \<Rightarrow> nat) \<Rightarrow> meaning \<Rightarrow> dfg_tx_result \<Rightarrow> bool" where
  "report_meant E dec V r \<longleftrightarrow>
     (\<forall>tc. txr_compressed r = Ok tc \<longrightarrow> stored_meant E dec V (txr_handle r) tc)"

definition graph_meant ::
  "('c, 'x, 's) engine \<Rightarrow> ('c \<Rightarrow> nat) \<Rightarrow> shift_sem \<Rightarrow> meaning \<Rightarrow> 'c component_graph \<Rightarrow> bool" where
  "graph_meant E dec sh V g \<longleftrightarrow>
     (\<forall>tx \<in> set (cg_nodes g). component_meant E dec sh V tx)
   \<and> (\<forall>r \<in> set (cg_results g). report_meant E dec V r)"

text \<open>What is compressed is read back with its value.\<close>

definition storage_ok :: "('c, 'x, 's) engine \<Rightarrow> ('c \<Rightarrow> nat) \<Rightarrow> bool" where
  "storage_ok E dec \<longleftrightarrow>
     (\<forall>x t c. eng_compress E x = Ok (t, c) \<longrightarrow>
        (\<exists>y. eng_decompress E t c = Ok y \<and> abs_ct dec y = abs_ct dec x))"

lemma storage_stored:
  "storage_ok E dec \<Longrightarrow> eng_compress E x = Ok tc \<Longrightarrow> means dec V h x \<Longrightarrow> stored_meant E dec V h tc"
  by (cases tc) (fastforce simp: storage_ok_def stored_meant_def means_def)

lemma set_list_update_all:
  "\<forall>x \<in> set xs. P x \<Longrightarrow> P y \<Longrightarrow> \<forall>x \<in> set (xs[i := y]). P x"
  using set_update_subset_insert by fastforce

lemma modify_input_meant:
  assumes "component_meant E dec sh V tx" "tx_input_meant E dec V h (Some v)"
  shows "component_meant E dec sh V (modify_input h v tx)"
  using assms by (auto simp: component_meant_def modify_input_def inputs_meant_def split: if_splits)

lemma forward_to_meant:
  assumes "means dec V h (tr_ct r)"
  shows "\<forall>tx \<in> set nodes. component_meant E dec sh V tx \<Longrightarrow> forward_to h r ds nodes = Ok nodes'
    \<Longrightarrow> \<forall>tx \<in> set nodes'. component_meant E dec sh V tx"
proof (induction ds arbitrary: nodes)
  case (Cons d ds)
  show ?case
  proof (cases "d < length nodes")
    case True
    let ?tx = "modify_input h (TxValue (tr_ct r) (tr_is_allowed r)) (nodes ! d)"
    have "component_meant E dec sh V ?tx"
      by (rule modify_input_meant) (use Cons.prems(1) True assms in simp_all)
    from Cons.IH [OF set_list_update_all [OF Cons.prems(1) this]] Cons.prems(2) True show ?thesis by simp
  qed (use Cons.prems in simp)
qed simp

lemma add_input_to_meant:
  assumes "tx_input_meant E dec V h (Some v)"
  shows "\<forall>tx \<in> set nodes. component_meant E dec sh V tx \<Longrightarrow> add_input_to h v ns nodes = Ok nodes'
    \<Longrightarrow> \<forall>tx \<in> set nodes'. component_meant E dec sh V tx"
proof (induction ns arbitrary: nodes)
  case (Cons n ns)
  show ?case
  proof (cases "n < length nodes")
    case True
    have "component_meant E dec sh V (modify_input h v (nodes ! n))"
      by (rule modify_input_meant) (use Cons.prems(1) True assms in simp_all)
    from Cons.IH [OF set_list_update_all [OF Cons.prems(1) this]] Cons.prems(2) True show ?thesis by simp
  qed (use Cons.prems in simp)
qed simp

text \<open>Marking components uncomputable changes none of this.\<close>

lemma uncomputable_meant:
  "\<forall>tx \<in> set nodes. component_meant E dec sh V tx \<Longrightarrow> set_uncomputable k out i nodes = Some (Ok nodes')
    \<Longrightarrow> \<forall>tx \<in> set nodes'. component_meant E dec sh V tx"
  "\<forall>tx \<in> set nodes. component_meant E dec sh V tx \<Longrightarrow> set_all_uncomputable k out ds nodes = Some (Ok nodes')
    \<Longrightarrow> \<forall>tx \<in> set nodes'. component_meant E dec sh V tx"
proof (induction k out i nodes and k out ds nodes arbitrary: nodes' and nodes'
    rule: set_uncomputable_set_all_uncomputable.induct)
  case (2 k out i nodes)
  show ?case
  proof (cases "i < length nodes")
    case True
    have "component_meant E dec sh V ((nodes ! i)\<lparr>c_is_uncomputable := True\<rparr>)"
      using "2.prems"(1) True by (simp add: component_meant_def)
    from "2.IH" [OF True set_list_update_all [OF "2.prems"(1) this]] "2.prems"(2) True show ?thesis by simp
  qed (use "2.prems" in simp)
next
  case (4 k out d ds nodes)
  from "4.prems"(2) obtain n1 where n1: "set_uncomputable k out d nodes = Some (Ok n1)"
    "set_all_uncomputable k out ds n1 = Some (Ok nodes')"
    by (auto split: option.splits res.splits)
  from "4.IH"(2) [OF n1(1) refl "4.IH"(1) [OF "4.prems"(1) n1(1)] n1(2)] show ?case .
qed simp_all

lemma add_output_meant:
  assumes st: "storage_ok E dec" and g: "graph_meant E dec sh V g" and r: "result_meant E dec V h r"
    and run: "add_output fuel out h r g = Some (Ok g')"
  shows "graph_meant E dec sh V g'"
proof (cases "cg_allowed g h")
  case None
  with run g show ?thesis by (simp add: add_output_def)
next
  case (Some p)
  from run Some obtain nodes where nodes: "propagate fuel out h r p (cg_nodes g) = Some (Ok nodes)"
    and g': "(if save_result r then record_result h r p (g\<lparr>cg_nodes := nodes\<rparr>) else Ok (g\<lparr>cg_nodes := nodes\<rparr>)) = Ok g'"
    by (auto simp: add_output_def bind_res_eq_Ok split: option.splits)
  have g0: "\<forall>tx \<in> set (cg_nodes g). component_meant E dec sh V tx"
    "\<forall>r \<in> set (cg_results g). report_meant E dec V r" using g by (simp_all add: graph_meant_def)
  have n: "\<forall>tx \<in> set nodes. component_meant E dec sh V tx"
  proof (cases r)
    case (Ok tr)
    with r have "means dec V h (tr_ct tr)" by (simp add: result_meant_def)
    from forward_to_meant [OF this g0(1)] nodes Ok show ?thesis by (simp add: propagate_def)
  qed (use uncomputable_meant(1) [OF g0(1)] nodes in \<open>simp_all add: propagate_def\<close>)
  have rep: "report_meant E dec V \<lparr> txr_handle = h, txr_transaction_id = tid,
      txr_compressed = bind_res r (\<lambda>rok. Ok (the (tr_compressed rok))) \<rparr>"
    if "\<not> (case r of Ok tr \<Rightarrow> tr_compressed tr = None | _ \<Rightarrow> False)" for tid
  proof (cases r)
    case (Ok tr)
    with that obtain cc where cc: "tr_compressed tr = Some cc" by auto
    with r Ok have "stored_meant E dec V h cc" by (intro storage_stored [OF st]) (auto simp: result_meant_def)
    with Ok cc show ?thesis by (simp add: report_meant_def)
  qed (simp_all add: report_meant_def)
  from g' show ?thesis
    using n rep g0(2) by (auto simp: record_result_def graph_meant_def split: if_splits)
qed

section \<open>The scheduler\<close>

definition sched_meant ::
  "('c, 'x, 's) engine \<Rightarrow> ('c \<Rightarrow> nat) \<Rightarrow> shift_sem \<Rightarrow> meaning \<Rightarrow> 'c sched \<Rightarrow> bool" where
  "sched_meant E dec sh V s \<longleftrightarrow>
     graph_meant E dec sh V (sc_graph s)
   \<and> (\<forall>(t, args) \<in> set (sc_running s). \<forall>task \<in> set args. task_meant E dec sh V task)"

lemma gather_args_meant:
  "\<forall>tx \<in> set nodes. component_meant E dec sh V tx \<Longrightarrow> gather_args skip ns nodes = Ok (args, nodes')
    \<Longrightarrow> (\<forall>task \<in> set args. task_meant E dec sh V task) \<and> (\<forall>tx \<in> set nodes'. component_meant E dec sh V tx)"
proof (induction ns arbitrary: nodes args)
  case (Cons n ns)
  show ?case
  proof (cases "n < length nodes")
    case True
    let ?tx = "nodes ! n"
    have tx: "component_meant E dec sh V ?tx" using Cons.prems(1) True by simp
    have "component_meant E dec sh V (?tx\<lparr>c_graph := empty_dfgraph, c_inputs := []\<rparr>)"
      by (simp add: component_meant_def empty_dfgraph_def dfg_meant_def inputs_meant_def)
    note keep = set_list_update_all [OF Cons.prems(1) this, of n]
    show ?thesis
    proof (cases "skip \<and> c_is_uncomputable ?tx")
      case skip: True
      with Cons.IH [OF Cons.prems(1)] Cons.prems(2) True show ?thesis by simp
    next
      case False
      with Cons.prems(2) True obtain as where
        "gather_args skip ns (nodes[n := ?tx\<lparr>c_graph := empty_dfgraph, c_inputs := []\<rparr>]) = Ok (as, nodes')"
        "args = (c_graph ?tx, c_inputs ?tx, c_transaction_id ?tx, c_component_id ?tx) # as"
        by (auto simp: Let_def bind_res_eq_Ok)
      with Cons.IH [OF keep] tx show ?thesis by (simp add: task_meant_def component_meant_def)
    qed
  qed (use Cons.prems in simp)
qed simp

lemma start_task_meant:
  assumes s: "sched_meant E dec sh V s" and run: "start_task skip eg i s = Ok s'"
  shows "sched_meant E dec sh V s'"
proof -
  from run obtain args nodes where g: "gather_args skip (df_nodes (exec_nodes eg ! i)) (cg_nodes (sc_graph s)) = Ok (args, nodes)"
    "s' = s\<lparr>sc_graph := (sc_graph s)\<lparr>cg_nodes := nodes\<rparr>, sc_running := sc_running s @ [(i, args)]\<rparr>"
    by (auto simp: start_task_def bind_res_eq_Ok)
  have "\<forall>tx \<in> set (cg_nodes (sc_graph s)). component_meant E dec sh V tx"
    using s by (simp add: sched_meant_def graph_meant_def)
  from gather_args_meant [OF this g(1)] s show ?thesis
    by (auto simp: g(2) sched_meant_def graph_meant_def)
qed

lemma prime_meant:
  "sched_meant E dec sh V s \<Longrightarrow> prime eg is s = Ok s' \<Longrightarrow> sched_meant E dec sh V s'"
proof (induction "is" arbitrary: s)
  case (Cons i "is")
  then show ?case by (auto simp: bind_res_eq_Ok dest: start_task_meant split: if_splits)
qed simp

lemma sched_meant_counters: "sched_meant E dec sh V (s\<lparr>sc_counters := cs\<rparr>) = sched_meant E dec sh V s"
  by (simp add: sched_meant_def)

lemma release_meant:
  "sched_meant E dec sh V s \<Longrightarrow> release eg ds s = Ok s' \<Longrightarrow> sched_meant E dec sh V s'"
proof (induction ds arbitrary: s)
  case (Cons d ds)
  then have d: "d < length (sc_counters s)" by (auto split: if_splits)
  let ?s = "s\<lparr>sc_counters := (sc_counters s)[d := sc_counters s ! d - 1]\<rparr>"
  have s: "sched_meant E dec sh V ?s" using Cons.prems(1) by (simp add: sched_meant_counters)
  show ?case
  proof (cases "sc_counters ?s ! d = 0")
    case True
    with Cons.prems(2) d obtain s1 where "start_task True eg d ?s = Ok s1" "release eg ds s1 = Ok s'"
      by (auto simp: Let_def bind_res_eq_Ok)
    with Cons.IH [OF start_task_meant [OF s]] show ?thesis by blast
  next
    case False
    with Cons.prems(2) d Cons.IH [OF s] show ?thesis by (simp add: Let_def)
  qed
qed simp

lemma add_outputs_meant:
  assumes "storage_ok E dec"
  shows "graph_meant E dec sh V g \<Longrightarrow> \<forall>(h, r) \<in> set rs. result_meant E dec V h r
    \<Longrightarrow> add_outputs fuel out rs g = Some (Ok g') \<Longrightarrow> graph_meant E dec sh V g'"
proof (induction rs arbitrary: g)
  case (Cons hr rs)
  obtain h r where hr: "hr = (h, r)" by (cases hr)
  from Cons.prems(3) hr obtain g1 where g1: "add_output fuel out h r g = Some (Ok g1)"
    "add_outputs fuel out rs g1 = Some (Ok g')"
    by (auto split: option.splits res.splits)
  have "graph_meant E dec sh V g1"
    by (rule add_output_meant [OF assms Cons.prems(1) _ g1(1)]) (use Cons.prems(2) hr in simp)
  with Cons.IH [OF _ _ g1(2)] Cons.prems(2) show ?case by simp
qed simp

lemma joins_meant:
  assumes E: "engine_ok E dec sh" and V: "meaning_ok V" and st: "storage_ok E dec"
    and s0: "sched_meant E dec sh V s0"
  shows "joins E fuel out eg s0 js s \<Longrightarrow> sched_meant E dec sh V s"
proof (induction rule: joins.induct)
  case joins_start
  then show ?case by (rule s0)
next
  case (joins_task js s us t args vs res rs s')
  have args: "\<forall>task \<in> set args. task_meant E dec sh V task"
    using joins_task.IH joins_task.hyps(2) by (simp add: sched_meant_def)
  have "results_meant E dec V Map.empty" by (simp add: results_meant_def)
  from execute_partition_meant [OF E V args this joins_task.hyps(3)] have res: "results_meant E dec V res" .
  have rs: "\<forall>(h, r) \<in> set rs. result_meant E dec V h r"
  proof clarify
    fix h r assume "(h, r) \<in> set rs"
    with joins_task.hyps(4) have "res h = Some r" by (auto simp: listing_def)
    with res show "result_meant E dec V h r" by (simp add: results_meant_def)
  qed
  let ?s = "s\<lparr>sc_running := us @ vs\<rparr>"
  from joins_task.hyps(5) obtain g where g: "add_outputs fuel out rs (sc_graph ?s) = Some (Ok g)"
    "release eg (exec_out eg t) (?s\<lparr>sc_graph := g\<rparr>) = Ok s'"
    by (auto simp: join_task_def bind_res_eq_Ok)
  have "graph_meant E dec sh V (sc_graph ?s)" using joins_task.IH by (simp add: sched_meant_def)
  from add_outputs_meant [OF st this rs g(1)] have "graph_meant E dec sh V g" .
  then have "sched_meant E dec sh V (?s\<lparr>sc_graph := g\<rparr>)"
    using joins_task.IH joins_task.hyps(2) by (simp add: sched_meant_def)
  from release_meant [OF this g(2)] show ?case .
qed

section \<open>Rows and their components\<close>

text \<open>A row is meant when the value of its operation is the meaning of its result.\<close>

definition operation_meant ::
  "('c, 'x, 's) engine \<Rightarrow> ('c \<Rightarrow> nat) \<Rightarrow> shift_sem \<Rightarrow> meaning \<Rightarrow> fhe_op \<Rightarrow> 'c task_input list \<Rightarrow> handle \<Rightarrow> bool" where
  "operation_meant E dec sh V op inputs result \<longleftrightarrow>
     (\<forall>c. op_value E dec sh V op inputs = Some c \<longrightarrow> V result = Some c)"

definition row_meant ::
  "('c, 'x, 's) engine \<Rightarrow> ('c \<Rightarrow> nat) \<Rightarrow> shift_sem \<Rightarrow> meaning \<Rightarrow> computation_row \<Rightarrow> bool" where
  "row_meant E dec sh V w \<longleftrightarrow>
     (\<forall>op. work_operation w = Ok op \<longrightarrow>
        operation_meant E dec sh V (fhe_operation op) (dfg_inputs op) (output_handle op))"

text \<open>What the operand check leaves of the inputs of an operation.\<close>

lemma work_operation_inputs:
  assumes "work_operation w = Ok op"
  shows "fhe_operation op \<noteq> FheGetInputCiphertext"
    and "TaskValue v \<in> set (dfg_inputs op) \<Longrightarrow> \<exists>bs. v = Scalar bs"
    and "fhe_operation op \<in> random_ops \<Longrightarrow> i \<in> set (dfg_inputs op) \<Longrightarrow> literal i \<noteq> None"
proof -
  obtain fo where fo: "op_try_from_i16 (cr_fhe_operation w) = Ok fo"
    using assms by (cases "op_try_from_i16 (cr_fhe_operation w)") (simp_all add: work_operation_def)
  let ?fs = "operand_flags (cr_is_scalar w) fo 0 (length (cr_dependencies w))"
  have code: "op_try_from_i32 (i16_as_i32 (cr_fhe_operation w)) = Ok fo"
    by (simp add: try_from_i32_of_i16 fo)
  from assms have op: "op = \<lparr> output_handle = cr_output_handle w, fhe_operation = fo,
      dfg_inputs = map2 operand_input ?fs (cr_dependencies w), dfg_is_allowed = cr_is_allowed w \<rparr>"
    and ok: "check_fhe_operand_types (i16_as_i32 (cr_fhe_operation w)) (cr_dependencies w) ?fs = Ok ()"
    by (auto simp: work_operation_known [OF fo] Let_def bind_res_eq_Ok)
  have acc: "operands_accepted fo (cr_dependencies w) ?fs" using ok check_accepted [OF code] by simp
  then show "fhe_operation op \<noteq> FheGetInputCiphertext" by (auto simp: op operands_accepted_def)
  show "\<exists>bs. v = Scalar bs" if "TaskValue v \<in> set (dfg_inputs op)"
    using that by (auto simp: op operand_input_def split: if_splits)
  show "literal i \<noteq> None" if "fhe_operation op \<in> random_ops" "i \<in> set (dfg_inputs op)"
  proof -
    from that(1) have "does_have_more_than_one_scalar fo" by (auto simp: op random_ops_def more_than_one_scalar_iff)
    then have "set ?fs \<subseteq> {True}" by (auto simp: operand_flags_def)
    with that(2) show ?thesis by (auto simp: op operand_input_def dest!: set_zip_leftD)
  qed
qed

lemma row_node_meant:
  assumes "row_meant E dec sh V w" "work_operation w = Ok op"
  shows "node_meant E dec sh V (op_node_of op)"
  using assms work_operation_inputs [OF assms(2)]
  by (fastforce simp: node_meant_def op_node_of_def row_meant_def operation_meant_def)

lemma built_component_meant:
  assumes lib: "queries_ok L" and ops: "ops_ok ops" and b: "build_component L ops tid cid = Ok c"
    and n: "\<forall>op \<in> set ops. node_meant E dec sh V (op_node_of op)"
  shows "component_meant E dec sh V c"
proof -
  have nodes: "dg_nodes (c_graph c) = map op_node_of ops" by (rule build_component_data(2) [OF lib ops b])
  have "dfg_meant E dec sh V (c_graph c)"
    by (rule dfg_meant_ok [OF build_component_dfg [OF lib ops b]]) (use n in \<open>auto simp: nodes\<close>)
  moreover have "inputs_meant E dec V (c_inputs c)"
    unfolding inputs_meant_def using build_component_data(4) [OF lib ops b] by fastforce
  ultimately show ?thesis by (simp add: component_meant_def)
qed

lemma transaction_meant:
  assumes lib: "queries_ok L" "removal_ok L" "view_ok L"
    and rows: "work_operations ws = Ok ops" and d: "distinct (map cr_output_handle ws)"
    and k: "length ws < k" and b: "build_component_nodes k L ops tid = Some (Ok (cs, us))"
    and m: "\<forall>w \<in> set ws. row_meant E dec sh V w"
  shows "\<forall>c \<in> set cs. component_meant E dec sh V c"
proof -
  have ok: "ops_ok ops" by (rule work_operations_ok [OF rows d])
  have len: "length ops < k" using k arg_cong [OF work_operations_handles [OF rows], of length] by simp
  from transaction_units [OF lib ok b len] obtain parts where
    p: "list_all2 (\<lambda>p c. \<exists>cid. build_component L p tid cid = Ok c) parts cs"
    "distinct (map output_handle (concat parts))"
    "set (concat parts) = {op \<in> set ops. output_handle op \<in> needed_handles (set ops)}" by blast
  show ?thesis
  proof
    fix c assume "c \<in> set cs"
    then obtain j where j: "j < length cs" "c = cs ! j" by (auto simp: in_set_conv_nth)
    have "\<exists>cid. build_component L (parts ! j) tid cid = Ok c"
      using list_all2_nthD2 [OF p(1) j(1)] unfolding j(2) .
    moreover have "parts ! j \<in> set parts" using j(1) list_all2_lengthD [OF p(1)] by simp
    ultimately obtain q cid where q: "q \<in> set parts" "build_component L q tid cid = Ok c" by blast
    have sub: "set q \<subseteq> set ops" using q(1) p(3) by auto
    moreover have "distinct (map output_handle q)"
      using p(2) q(1) by (auto simp: map_concat distinct_concat_iff)
    ultimately have "ops_ok q" using ok by (auto simp: ops_ok_def)
    moreover have "\<forall>op \<in> set q. node_meant E dec sh V (op_node_of op)"
    proof
      fix op assume "op \<in> set q"
      with sub have "op \<in> set ops" by blast
      then obtain i where i: "i < length ops" "op = ops ! i" by (auto simp: in_set_conv_nth)
      with rows have "work_operation (ws ! i) = Ok op" "ws ! i \<in> set ws"
        unfolding work_operations_all2 by (auto simp: list_all2_conv_all_nth)
      with m show "node_meant E dec sh V (op_node_of op)" by (blast intro: row_node_meant)
    qed
    ultimately show "component_meant E dec sh V c" using built_component_meant [OF lib(1) _ q(2)] by blast
  qed
qed

lemma query_meant:
  assumes lib: "queries_ok L" "removal_ok L" "view_ok L"
    and d: "distinct (map computation_key (t_computations (x_tables x)))"
    and k: "length (t_computations (x_tables x)) < k"
    and m: "\<forall>w \<in> set (t_computations (x_tables x)). cr_tenant_id w = tenant \<longrightarrow> row_meant E dec sh V w"
    and run: "query_for_work n locked k L G x = Some (Ok (x', txs, us))"
    and tx: "(tenant, cs) \<in> set txs"
  shows "\<forall>c \<in> set cs. component_meant E dec sh V c"
proof -
  define work where "work = the_work n locked (x_tables x)"
  have sub: "set work \<subseteq> set (t_computations (x_tables x))" by (auto simp: work_def the_work_def)
  have dw: "distinct (map computation_key work)" using d by (simp add: work_def the_work_def distinct_map_filter)
  have "length work \<le> length (t_computations (x_tables x))" by (simp add: work_def the_work_def)
  with k have kw: "length work < k" by simp
  have "work \<noteq> []" using query_for_work_ok [OF run, folded work_def] tx by auto
  with query_for_work_ok [OF run, folded work_def]
  have "build_tenants k L G work (go_tenants G (remdups (map cr_tenant_id work))) = Some (Ok (txs, us))" by simp
  from build_tenants_parts [OF this] obtain parts where
    p: "txs = zip (go_tenants G (remdups (map cr_tenant_id work))) (map fst parts)"
    "list_all2 (\<lambda>tenant p.
        let mine = filter (\<lambda>w. cr_tenant_id w = tenant) work
        in build_transactions k L mine (go_transactions G (remdups (map cr_transaction_id mine))) = Some (Ok p))
      (go_tenants G (remdups (map cr_tenant_id work))) parts" by blast
  let ?mine = "filter (\<lambda>w. cr_tenant_id w = tenant) work"
  let ?ts = "go_transactions G (remdups (map cr_transaction_id ?mine))"
  let ?tenants = "go_tenants G (remdups (map cr_tenant_id work))"
  have len: "length parts = length ?tenants" using p(2) by (simp add: list_all2_lengthD)
  from tx obtain i where i: "i < length ?tenants" "tenant = ?tenants ! i" "cs = fst (parts ! i)"
    using len by (auto simp: p(1) in_set_zip)
  then have bt: "build_transactions k L ?mine ?ts = Some (Ok (cs, snd (parts ! i)))"
    using p(2) by (simp add: list_all2_conv_all_nth Let_def)
  from build_transactions_parts [OF bt] obtain ps where
    ps: "cs = concat (map fst ps)"
    "list_all2 (\<lambda>tid p. \<exists>ops. work_operations (filter (\<lambda>w. cr_transaction_id w = tid) ?mine) = Ok ops
          \<and> build_component_nodes k L ops tid = Some (Ok p)) ?ts ps" by blast
  show ?thesis
  proof
    fix c assume "c \<in> set cs"
    then obtain q where q: "q \<in> set ps" "c \<in> set (fst q)" by (auto simp: ps(1))
    then obtain j where j: "j < length ps" "q = ps ! j" by (auto simp: in_set_conv_nth)
    define tid where "tid = ?ts ! j"
    have "\<exists>ops. work_operations (filter (\<lambda>w. cr_transaction_id w = tid) ?mine) = Ok ops
        \<and> build_component_nodes k L ops tid = Some (Ok q)"
      using list_all2_nthD2 [OF ps(2) j(1)] unfolding tid_def j(2) .
    then obtain ops where t: "work_operations (transaction_rows work tenant tid) = Ok ops"
      "build_component_nodes k L ops tid = Some (Ok (fst q, snd q))"
      unfolding filter_transaction_rows by auto
    have "length (transaction_rows work tenant tid) \<le> length work" by (simp add: transaction_rows_def)
    with kw have l: "length (transaction_rows work tenant tid) < k" by simp
    have "\<forall>w \<in> set (transaction_rows work tenant tid). row_meant E dec sh V w"
      using m sub by (auto simp: transaction_rows_def)
    from transaction_meant [OF lib t(1) distinct_transaction_rows [OF dw] l t(2) this] q(2)
    show "component_meant E dec sh V c" by blast
  qed
qed

section \<open>The tables\<close>

text \<open>
  The laws of what the worker calls: the engine of every tenant, what it stores, the graph crates
  and the iteration orders; and the meanings are clear values of their types.
\<close>

definition worker_laws ::
  "('c, 'x, 's) worker \<Rightarrow> (i32 \<Rightarrow> 'c \<Rightarrow> nat) \<Rightarrow> shift_sem \<Rightarrow> (i32 \<Rightarrow> meaning) \<Rightarrow> bool" where
  "worker_laws W dec sh V \<longleftrightarrow>
     (\<forall>i. engine_ok (wk_engine W i) (dec i) sh \<and> storage_ok (wk_engine W i) (dec i) \<and> meaning_ok (V i))
   \<and> queries_ok (wk_dag W) \<and> removal_ok (wk_dag W) \<and> view_ok (wk_dag W)
   \<and> (\<forall>m. \<forall>(h, x) \<in> set (wk_iter W m). m h = Some x)"

definition ciphertext_meant ::
  "('c, 'x, 's) worker \<Rightarrow> (i32 \<Rightarrow> 'c \<Rightarrow> nat) \<Rightarrow> (i32 \<Rightarrow> meaning) \<Rightarrow> ciphertext_row \<Rightarrow> bool" where
  "ciphertext_meant W dec V r \<longleftrightarrow>
     stored_meant (wk_engine W (ct_tenant_id r)) (dec (ct_tenant_id r)) (V (ct_tenant_id r))
       (ct_handle r) (ct_type r, ct_ciphertext r)"

definition computation_meant ::
  "('c, 'x, 's) worker \<Rightarrow> (i32 \<Rightarrow> 'c \<Rightarrow> nat) \<Rightarrow> shift_sem \<Rightarrow> (i32 \<Rightarrow> meaning) \<Rightarrow> computation_row \<Rightarrow> bool" where
  "computation_meant W dec sh V w \<longleftrightarrow>
     row_meant (wk_engine W (cr_tenant_id w)) (dec (cr_tenant_id w)) sh (V (cr_tenant_id w)) w"

definition tables_meant ::
  "('c, 'x, 's) worker \<Rightarrow> (i32 \<Rightarrow> 'c \<Rightarrow> nat) \<Rightarrow> shift_sem \<Rightarrow> (i32 \<Rightarrow> meaning) \<Rightarrow> tables \<Rightarrow> bool" where
  "tables_meant W dec sh V t \<longleftrightarrow>
     distinct (map computation_key (t_computations t))
   \<and> (\<forall>w \<in> set (t_computations t). computation_meant W dec sh V w)
   \<and> (\<forall>r \<in> set (t_ciphertexts t). ciphertext_meant W dec V r)"

lemma same_row_operation: "same_row w w' \<Longrightarrow> work_operation w' = work_operation w"
  by (cases "op_try_from_i16 (cr_fhe_operation w)") (simp_all add: same_row_def work_operation_def)

lemma same_row_meant: "same_row w w' \<Longrightarrow> computation_meant W dec sh V w' = computation_meant W dec sh V w"
  by (simp add: computation_meant_def row_meant_def same_row_operation) (simp add: same_row_def)

lemma same_rows_meant:
  assumes "list_all2 same_row ws ws'"
  shows "map computation_key ws' = map computation_key ws
    \<and> ((\<forall>w \<in> set ws'. computation_meant W dec sh V w) \<longleftrightarrow> (\<forall>w \<in> set ws. computation_meant W dec sh V w))"
  using assms
proof (induction rule: list_all2_induct)
  case (Cons w ws w' ws')
  moreover have "computation_key w' = computation_key w"
    using Cons.hyps(1) by (simp add: same_row_def computation_key_def)
  ultimately show ?case using same_row_meant [OF Cons.hyps(1), of W dec sh V] by simp
qed simp

lemma query_ciphertexts_row:
  assumes "query_ciphertexts hs tenant t h = Some (ty, c)"
  shows "\<exists>r \<in> set (t_ciphertexts t). ct_tenant_id r = tenant \<and> ct_handle r = h \<and> ct_type r = ty \<and> ct_ciphertext r = c"
proof -
  have "foldl (\<lambda>m r. m(ct_handle r \<mapsto> (ct_type r, ct_ciphertext r))) m rs h = Some (ty, c)
      \<Longrightarrow> m h = Some (ty, c) \<or> (\<exists>r \<in> set rs. ct_handle r = h \<and> ct_type r = ty \<and> ct_ciphertext r = c)" for m rs
  proof (induction rs arbitrary: m)
    case (Cons r rs)
    from Cons.IH [of "m(ct_handle r \<mapsto> (ct_type r, ct_ciphertext r))"] Cons.prems show ?case
      by (auto split: if_splits)
  qed simp
  from this [of Map.empty] assms show ?thesis by (fastforce simp: query_ciphertexts_def)
qed

lemma add_inputs_meant:
  "graph_meant E dec sh V g \<Longrightarrow> \<forall>(h, tc) \<in> set cts. stored_meant E dec V h tc \<Longrightarrow> add_inputs cts g = Ok g'
    \<Longrightarrow> graph_meant E dec sh V g'"
proof (induction cts arbitrary: g)
  case (Cons htc cts)
  obtain h ty ct where c: "htc = (h, ty, ct)" by (cases htc)
  from Cons.prems(3) c obtain g1 where g1: "add_input g h (TxCompressed ty ct True) = Ok g1" "add_inputs cts g1 = Ok g'"
    by (auto simp: bind_res_eq_Ok)
  have tm: "tx_input_meant E dec V h (Some (TxCompressed ty ct True))" using Cons.prems(2) c by simp
  have "graph_meant E dec sh V g1"
  proof (cases "cg_needed g h")
    case None
    with g1(1) Cons.prems(1) show ?thesis by (simp add: add_input_def)
  next
    case (Some ns)
    with g1(1) obtain nodes where n: "add_input_to h (TxCompressed ty ct True) ns (cg_nodes g) = Ok nodes"
      "g1 = g\<lparr>cg_nodes := nodes\<rparr>" by (auto simp: add_input_def bind_res_eq_Ok)
    have "\<forall>tx \<in> set (cg_nodes g). component_meant E dec sh V tx" using Cons.prems(1) by (simp add: graph_meant_def)
    from add_input_to_meant [OF tm this n(1)] Cons.prems(1) show ?thesis by (simp add: graph_meant_def n(2))
  qed
  with Cons.IH [OF _ _ g1(2)] Cons.prems(2) show ?case by simp
qed simp

lemma result_ciphertexts_row:
  "r \<in> set (result_ciphertexts tenant rs) \<Longrightarrow>
    ct_tenant_id r = tenant
    \<and> (\<exists>res \<in> set rs. txr_compressed res = Ok (ct_type r, ct_ciphertext r) \<and> txr_handle res = ct_handle r)"
  by (induction rs) (auto split: res.splits)

lemma upload_meant:
  assumes up: "upload_transaction_graph_results tenant g us x = Ok y"
    and g: "graph_meant (wk_engine W tenant) (dec tenant) sh (V tenant) g"
    and t: "tables_meant W dec sh V (x_tables x)"
  shows "tables_meant W dec sh V (x_tables y) \<and> list_all2 same_row (t_computations (x_tables x)) (t_computations (x_tables y))"
proof -
  note e = upload_effect [OF up]
  have same: "list_all2 same_row (t_computations (x_tables x)) (t_computations (x_tables y))"
    by (rule list_all2_mono [OF conjunct2 [OF e]]) (simp add: settled_def)
  have cts: "t_ciphertexts (x_tables y) = fold (insert_new ciphertext_key) (result_ciphertexts tenant (cg_results g))
      (t_ciphertexts (x_tables x))"
    using arg_cong [OF conjunct1 [OF e], of t_ciphertexts] by simp
  have "ciphertext_meant W dec V r" if "r \<in> set (result_ciphertexts tenant (cg_results g))" for r
    using result_ciphertexts_row [OF that] g by (auto simp: ciphertext_meant_def graph_meant_def report_meant_def)
  moreover have "set (t_ciphertexts (x_tables y))
      \<subseteq> set (result_ciphertexts tenant (cg_results g)) \<union> set (t_ciphertexts (x_tables x))"
    unfolding cts by (rule ciphertexts.fold_rows)
  ultimately have "\<forall>r \<in> set (t_ciphertexts (x_tables y)). ciphertext_meant W dec V r"
    using t by (auto simp: tables_meant_def)
  with same_rows_meant [OF same, of W dec sh V] t same show ?thesis by (simp add: tables_meant_def)
qed

lemma tenant_step_meant:
  assumes W: "worker_laws W dec sh V" and t: "tables_meant W dec sh V (x_tables x)"
    and cs: "\<forall>c \<in> set cs. component_meant (wk_engine W tenant) (dec tenant) sh (V tenant) c"
    and step: "tenant_step W tenant cs us x y"
  shows "tables_meant W dec sh V (x_tables y) \<and> list_all2 same_row (t_computations (x_tables x)) (t_computations (x_tables y))"
  using step
proof (rule tenant_stepE)
  fix x1 g eg s0 js s
  assume b: "build_transaction_graph (wk_cycle_check W) (wk_iter W) tenant cs x = Ok (x1, g)"
    and s0: "start_schedule eg g = Ok s0"
    and js: "joins (wk_engine W tenant) (wk_mark_fuel W) (out_edges (wk_view W g)) eg s0 js s"
    and up: "upload_transaction_graph_results tenant (sc_graph s) us x1 = Ok y"
  let ?E = "wk_engine W tenant" and ?d = "dec tenant" and ?V = "V tenant"
  have E: "engine_ok ?E ?d sh" "storage_ok ?E ?d" "meaning_ok ?V" using W by (simp_all add: worker_laws_def)
  from b obtain g0 where g0: "build_graph (wk_cycle_check W) cs = Ok g0" and x1: "statement id x = Ok x1"
    and g: "add_inputs (wk_iter W (query_ciphertexts (dom (cg_needed g0)) tenant (x_tables x1))) g0 = Ok g"
    by (auto simp: build_transaction_graph_def bind_res_eq_Ok of_db_def)
  have same: "x_tables x1 = x_tables x" using statement_ok [OF x1] by simp
  have "graph_meant ?E ?d sh ?V g0"
    using g0 cs by (auto simp: build_graph_def Let_def bind_res_eq_Ok graph_meant_def split: prod.splits)
  moreover have "\<forall>(h, tc) \<in> set (wk_iter W (query_ciphertexts (dom (cg_needed g0)) tenant (x_tables x1))).
      stored_meant ?E ?d ?V h tc"
  proof clarify
    fix h ty c
    assume "(h, ty, c) \<in> set (wk_iter W (query_ciphertexts (dom (cg_needed g0)) tenant (x_tables x1)))"
    with W have "query_ciphertexts (dom (cg_needed g0)) tenant (x_tables x1) h = Some (ty, c)"
      unfolding worker_laws_def by blast
    from query_ciphertexts_row [OF this] t show "stored_meant ?E ?d ?V h (ty, c)"
      unfolding same by (auto simp: tables_meant_def ciphertext_meant_def)
  qed
  ultimately have gm: "graph_meant ?E ?d sh ?V g" by (rule add_inputs_meant [OF _ _ g])
  have "sched_meant ?E ?d sh ?V (initial_sched g eg)" using gm by (simp add: sched_meant_def initial_sched_def)
  from prime_meant [OF this s0 [unfolded start_schedule_def]] have "sched_meant ?E ?d sh ?V s0" .
  from joins_meant [OF E(1,3,2) this js] have "graph_meant ?E ?d sh ?V (sc_graph s)" by (simp add: sched_meant_def)
  from upload_meant [where W = W and dec = dec and V = V, OF up this] t same show ?thesis by simp
qed

lemma tenants_run_meant:
  assumes W: "worker_laws W dec sh V"
  shows "tenants_run W txs us x y \<Longrightarrow> tables_meant W dec sh V (x_tables x)
    \<Longrightarrow> \<forall>(tenant, cs) \<in> set txs. \<forall>c \<in> set cs. component_meant (wk_engine W tenant) (dec tenant) sh (V tenant) c
    \<Longrightarrow> tables_meant W dec sh V (x_tables y)"
proof (induction rule: tenants_run.induct)
  case (tenants_next tenant cs us x x1 txs x2)
  have "\<forall>c \<in> set cs. component_meant (wk_engine W tenant) (dec tenant) sh (V tenant) c"
    using tenants_next.prems(2) by simp
  from tenant_step_meant [OF W tenants_next.prems(1) this tenants_next.hyps(1)]
  have "tables_meant W dec sh V (x_tables x1)" ..
  with tenants_next.IH tenants_next.prems(2) show ?case by simp
qed simp

lemma query_tables:
  assumes "query_for_work n locked k L G x = Some (Ok (x', txs, us))"
  shows "x_tables x' = x_tables x"
proof -
  obtain x1 where x1: "statement id x = Ok x1"
    using assms by (cases "statement id x") (simp_all add: query_for_work_def of_db_def)
  with assms have "x' = x1"
    by (auto simp: query_for_work_def of_db_def Let_def bind_res_eq_Ok split: if_splits)
  with statement_ok [OF x1] show ?thesis by simp
qed

lemma worker_iteration_meant:
  assumes W: "worker_laws W dec sh V" and t: "tables_meant W dec sh V (x_tables x)"
    and k: "length (t_computations (x_tables x)) < wk_build_fuel W"
    and run: "worker_iteration W n locked x t'"
  shows "tables_meant W dec sh V t'"
  using run
proof cases
  case iteration_idle
  with t show ?thesis by simp
next
  case (iteration_work x1 txs us x2 x3)
  note x1 = query_tables [OF iteration_work(2)]
  have "\<forall>(tenant, cs) \<in> set txs. \<forall>c \<in> set cs. component_meant (wk_engine W tenant) (dec tenant) sh (V tenant) c"
  proof clarify
    fix tenant cs c assume tx: "(tenant, cs) \<in> set txs" and c: "c \<in> set cs"
    have rows: "\<forall>w \<in> set (t_computations (x_tables x)). cr_tenant_id w = tenant
        \<longrightarrow> row_meant (wk_engine W tenant) (dec tenant) sh (V tenant) w"
      using t by (auto simp: tables_meant_def computation_meant_def)
    have lib: "queries_ok (wk_dag W)" "removal_ok (wk_dag W)" "view_ok (wk_dag W)"
      and d: "distinct (map computation_key (t_computations (x_tables x)))"
      using W t by (simp_all add: worker_laws_def tables_meant_def)
    from query_meant [OF lib d k rows iteration_work(2) tx] c
    show "component_meant (wk_engine W tenant) (dec tenant) sh (V tenant) c" by blast
  qed
  with tenants_run_meant [OF W iteration_work(4)] t x1 have "tables_meant W dec sh V (x_tables x2)" by simp
  with statement_ok [OF iteration_work(5)] iteration_work(1) show ?thesis by simp
qed

end
