(* ===== verification/Coprocessor.thy ===== *)
theory Coprocessor
  imports WorkSoundness ServerCorrect
begin

text \<open>
  The services together: the listener inserts blocks, the server accepts batches, inputs are stored
  and workers run their cycles over the same tables, in any order; what they store is what the events
  and requests mean.
\<close>

section \<open>The services together\<close>

text \<open>
  An event is meant when the meaning of its result is the value of its operation: the arithmetic of
  the clear values on the meanings of the handles it names.
\<close>

definition event_meant ::
  "('c, 'x, 's) worker \<Rightarrow> (i32 \<Rightarrow> 'c \<Rightarrow> nat) \<Rightarrow> shift_sem \<Rightarrow> (i32 \<Rightarrow> meaning) \<Rightarrow> i32 \<Rightarrow> tfhe_event \<Rightarrow> bool" where
  "event_meant W dec sh V tenant ev \<longleftrightarrow>
     (case event_computation ev of
        Some (result, _) \<Rightarrow>
          operation_meant (wk_engine W tenant) (dec tenant) sh (V tenant) (event_operation ev) (event_inputs ev) result
      | None \<Rightarrow> True)"

lemma event_row_meant:
  fixes W :: "('c, 'x, 's) worker"
  assumes "event_meant W dec sh V tenant (lt_event log)" "is_computation log"
  shows "computation_meant W dec sh V (computation_of_log tenant now log bucket)"
proof -
  obtain result hs bs sb where c: "event_computation (lt_event log) = Some (result, hs, bs, sb)"
    using assms(2) by (cases "event_computation (lt_event log)") (auto simp: is_computation_def)
  have t: "cr_tenant_id (computation_of_log tenant now log bucket) = tenant"
    by (simp add: computation_of_log_def c)
  have m: "operation_meant (wk_engine W tenant) (dec tenant) sh (V tenant) (event_operation (lt_event log))
      (event_inputs (lt_event log)) result"
    using assms(1) by (simp add: event_meant_def c)
  note row = event_row_operation [OF c, of tenant now bucket]
  show ?thesis
  proof (cases "event_refused (lt_event log)")
    case True
    with row have "\<exists>e. (work_operation (computation_of_log tenant now log bucket) :: (cycle_error, 'c dfg_op) res)
        = Err (CycleCoprocessor (OfFhevm e))" by simp
    then show ?thesis by (auto simp: computation_meant_def row_meant_def)
  next
    case False
    with row have "(work_operation (computation_of_log tenant now log bucket) :: (cycle_error, 'c dfg_op) res)
        = Ok \<lparr> output_handle = result, fhe_operation = event_operation (lt_event log),
               dfg_inputs = event_inputs (lt_event log), dfg_is_allowed = lt_is_allowed log \<rparr>" by simp
    with m show ?thesis by (simp add: computation_meant_def row_meant_def t)
  qed
qed

lemma add_computation_meant:
  assumes "computation_meant W dec sh V w" "tables_meant W dec sh V t"
  shows "tables_meant W dec sh V (add_computation w t)"
proof -
  have "set (insert_new computation_key w (t_computations t)) \<subseteq> insert w (set (t_computations t))"
    by (rule computations.ins_rows)
  moreover have "distinct (map computation_key (insert_new computation_key w (t_computations t)))"
    using assms(2) by (intro computations.ins_distinct) (simp add: tables_meant_def)
  ultimately show ?thesis using assms by (auto simp: tables_meant_def add_computation_def)
qed

lemma fold_invariant:
  "(\<And>a t. a \<in> set as \<Longrightarrow> P t \<Longrightarrow> P (f a t)) \<Longrightarrow> P t \<Longrightarrow> P (fold f as t)"
  by (induction as arbitrary: t) simp_all

lemma acl_effect_meant:
  assumes "tables_meant W dec sh V t"
  shows "tables_meant W dec sh V (acl_effect A tenant e t)"
  unfolding acl_effect_def
  by (intro fold_invariant [where P = "tables_meant W dec sh V"] assms)
     (simp_all add: tables_meant_def add_allowed_def add_pbs_def)

lemma block_effect_meant:
  assumes ev: "\<forall>log \<in> set (tfhe_events A acl tfhe (bk_logs block)). event_meant W dec sh V tenant (lt_event log)"
    and t: "tables_meant W dec sh V t"
  shows "tables_meant W dec sh V (block_effect A acl tfhe block now tenant chain buckets t)"
proof -
  let ?logs = "block_computations A acl tfhe (bk_logs block)"
  have "computation_meant W dec sh V w" if w: "w \<in> set (map2 (computation_of_log tenant now) ?logs buckets)" for w
  proof -
    from w obtain log b where l: "log \<in> set ?logs" "w = computation_of_log tenant now log b"
      by (auto dest: set_zip_leftD)
    from l(1) obtain log0 where "log0 \<in> set (tfhe_events A acl tfhe (bk_logs block))" "is_computation log0"
      "log = update_allowed (allowed_handles A acl (bk_logs block)) log0"
      by (auto simp: block_computations_def)
    with ev l(2) show ?thesis
      using event_row_meant [of W dec sh V tenant log now b] by (simp add: update_allowed_def is_computation_def)
  qed
  then have "tables_meant W dec sh V
      (fold add_computation (map2 (computation_of_log tenant now) ?logs buckets)
         (fold (acl_effect A tenant) (acl_events A acl (bk_logs block)) t))"
    by (intro fold_invariant [where P = "tables_meant W dec sh V"] add_computation_meant acl_effect_meant t)
  then show ?thesis by (simp add: block_effect_def tables_meant_def add_block_row_def)
qed

lemma block_meant:
  assumes ev: "\<forall>log \<in> set (tfhe_events A acl tfhe (bk_logs block)).
      event_meant W dec sh V (hd_tenant_id D) (lt_event log)"
    and t: "tables_meant W dec sh V t"
    and run: "db_insert_block retries faults L A acl tfhe block now D t = (r, t', D')"
  shows "tables_meant W dec sh V t'"
proof (cases r)
  case (Ok u)
  with db_insert_block_outcome [where retries = retries and faults = faults and L = L and A = A and acl = acl
        and tfhe = tfhe and block = block and now = now and D = D and t = t] run
  obtain buckets where "t' = block_effect A acl tfhe block now (hd_tenant_id D) (hd_chain_id D) buckets t"
    by auto
  with block_effect_meant [OF ev t] show ?thesis by simp
next
  case (Err e)
  with db_insert_block_outcome [where retries = retries and faults = faults and L = L and A = A and acl = acl
        and tfhe = tfhe and block = block and now = now and D = D and t = t] run t show ?thesis by simp
next
  case (Panic p)
  with db_insert_block_outcome [where retries = retries and faults = faults and L = L and A = A and acl = acl
        and tfhe = tfhe and block = block and now = now and D = D and t = t] run show ?thesis by simp
qed

text \<open>The same for a computation a client asks for.\<close>

definition request_meant ::
  "('c, 'x, 's) worker \<Rightarrow> (i32 \<Rightarrow> 'c \<Rightarrow> nat) \<Rightarrow> shift_sem \<Rightarrow> (i32 \<Rightarrow> meaning) \<Rightarrow> i32 \<Rightarrow> async_computation \<Rightarrow> bool" where
  "request_meant W dec sh V tenant c \<longleftrightarrow>
     operation_meant (wk_engine W tenant) (dec tenant) sh (V tenant)
       (fhe_operation (request_operation c :: 'c dfg_op)) (dfg_inputs (request_operation c)) (ac_output_handle c)"

lemma batch_meant:
  fixes W :: "('c, 'x, 's) worker"
  assumes run: "async_compute args K auth cs x = Ok t'"
    and m: "\<forall>tenant. check_if_api_key_is_valid K auth = Ok tenant \<longrightarrow>
        (\<forall>c \<in> set cs. request_meant W dec sh V tenant c)"
    and t: "tables_meant W dec sh V (x_tables x)"
  shows "tables_meant W dec sh V t'"
proof -
  let ?bs = "sort_computations_into_bucket"
  from async_compute_ok [OF run] obtain tenant out where o:
    "check_if_api_key_is_valid K auth = Ok tenant" "mset out = mset cs"
    "\<forall>c \<in> set out. request_accepted c \<and> computation_valid c"
    "t' = (x_tables x)\<lparr>t_computations := fold (insert_new computation_key)
           (rows_of tenant (x_now x) out (?bs out)) (t_computations (x_tables x))\<rparr>" .
  let ?rows = "rows_of tenant (x_now x) out (?bs out)"
  have "set out = set cs" using o(2) by (metis set_mset_mset)
  with m o(1) have mc: "\<forall>c \<in> set out. request_meant W dec sh V tenant c" by simp
  have "length (?bs out) = length out" by (simp add: sort_computations_into_bucket_def)
  from rows_of_meant [OF o(3) this, of tenant "x_now x", where ?'c = 'c]
  have rows: "list_all2 (\<lambda>c w. computation_key w = (tenant, ac_output_handle c, ac_transaction_id c)
       \<and> work_operation w = Ok (request_operation c :: 'c dfg_op)) out ?rows" ..
  have "computation_meant W dec sh V w" if w: "w \<in> set ?rows" for w
  proof -
    from w obtain j where j: "j < length ?rows" "w = ?rows ! j" by (auto simp: in_set_conv_nth)
    with rows have jo: "j < length out" by (simp add: list_all2_lengthD)
    from list_all2_nthD2 [OF rows j(1)] j(2) have
      w: "computation_key w = (tenant, ac_output_handle (out ! j), ac_transaction_id (out ! j))"
      "work_operation w = Ok (request_operation (out ! j) :: 'c dfg_op)" by simp_all
    have "request_meant W dec sh V tenant (out ! j)" using mc jo by simp
    then show ?thesis
      using w by (simp add: computation_meant_def row_meant_def request_meant_def computation_key_def request_operation_def)
  qed
  moreover have "set (fold (insert_new computation_key) ?rows (t_computations (x_tables x)))
      \<subseteq> set ?rows \<union> set (t_computations (x_tables x))"
    by (rule computations.fold_rows)
  moreover have "distinct (map computation_key (fold (insert_new computation_key) ?rows (t_computations (x_tables x))))"
    using t by (intro computations.fold_distinct) (simp add: tables_meant_def)
  ultimately show ?thesis using t by (auto simp: tables_meant_def o(4))
qed

text \<open>
  The steps of the services on the tables: the listener inserts a block, whatever fails and however
  often it is tried; the server accepts a batch of computations; verified inputs are stored; a worker runs a cycle, under any locks, faults and
  order of its tasks, with enough fuel for the rows there are.
\<close>

inductive coprocessor_step ::
  "('c, 'x, 's) worker \<Rightarrow> (i32 \<Rightarrow> 'c \<Rightarrow> nat) \<Rightarrow> shift_sem \<Rightarrow> (i32 \<Rightarrow> meaning) \<Rightarrow> 'u auth_lib
     \<Rightarrow> 'k lru \<Rightarrow> abi \<Rightarrow> bytes option \<Rightarrow> bytes option \<Rightarrow> tables \<Rightarrow> tables \<Rightarrow> bool"
  for W :: "('c, 'x, 's) worker" and dec sh V and K :: "'u auth_lib" and L :: "'k lru" and A acl tfhe where
  step_block:
    "\<lbrakk> db_insert_block BLOCK_RETRIES faults L A acl tfhe block now D t = (r, t', D');
       \<forall>log \<in> set (tfhe_events A acl tfhe (bk_logs block)).
         event_meant W dec sh V (hd_tenant_id D) (lt_event log) \<rbrakk>
     \<Longrightarrow> coprocessor_step W dec sh V K L A acl tfhe t t'"
| step_batch:
    "\<lbrakk> async_compute args K authorization cs x = Ok t'; x_tables x = t;
       \<forall>tenant. check_if_api_key_is_valid K authorization = Ok tenant \<longrightarrow>
         (\<forall>c \<in> set cs. request_meant W dec sh V tenant c) \<rbrakk>
     \<Longrightarrow> coprocessor_step W dec sh V K L A acl tfhe t t'"
| step_inputs:
    "\<forall>r \<in> set rows. ciphertext_meant W dec V r
     \<Longrightarrow> coprocessor_step W dec sh V K L A acl tfhe t (insert_ciphertexts rows t)"
| step_work:
    "\<lbrakk> worker_iteration (W\<lparr>wk_build_fuel := k, wk_mark_fuel := m\<rparr>) batch_size locked x t';
       x_tables x = t; length (t_computations t) < k \<rbrakk>
     \<Longrightarrow> coprocessor_step W dec sh V K L A acl tfhe t t'"

lemma fuel_meant:
  "tables_meant (W\<lparr>wk_build_fuel := k, wk_mark_fuel := m\<rparr>) dec sh V t = tables_meant W dec sh V t"
  "worker_laws (W\<lparr>wk_build_fuel := k, wk_mark_fuel := m\<rparr>) dec sh V = worker_laws W dec sh V"
  by (simp_all add: tables_meant_def computation_meant_def ciphertext_meant_def worker_laws_def)

lemma coprocessor_step_meant:
  assumes W: "worker_laws W dec sh V" and t: "tables_meant W dec sh V t"
    and step: "coprocessor_step W dec sh V K L A acl tfhe t t'"
  shows "tables_meant W dec sh V t'"
  using step
proof cases
  case (step_block faults block now D r D')
  from block_meant [OF step_block(2) t step_block(1)] show ?thesis .
next
  case (step_batch args authorization cs x)
  from batch_meant [OF step_batch(1,3)] t step_batch(2) show ?thesis by simp
next
  case (step_inputs rows)
  have "set (fold (insert_new ciphertext_key) rows (t_ciphertexts t)) \<subseteq> set rows \<union> set (t_ciphertexts t)"
    by (rule ciphertexts.fold_rows)
  with step_inputs t show ?thesis by (auto simp: tables_meant_def insert_ciphertexts_def)
next
  case (step_work k m batch_size locked x)
  from worker_iteration_meant [OF _ _ _ step_work(1), of dec sh V] W t step_work(2,3)
  show ?thesis by (simp add: fuel_meant)
qed

lemma coprocessor_meant:
  assumes W: "worker_laws W dec sh V"
    and run: "(coprocessor_step W dec sh V K L A acl tfhe)\<^sup>*\<^sup>* t0 t" and t0: "tables_meant W dec sh V t0"
  shows "tables_meant W dec sh V t"
  using run
proof (induction rule: rtranclp_induct)
  case base
  show ?case by (rule t0)
next
  case (step t t')
  show ?case by (rule coprocessor_step_meant [OF W step.IH step.hyps(2)])
qed

section \<open>A concrete run\<close>

text \<open>
  An engine on clear numbers that stores a number in unary, and a worker on list graphs.
\<close>

definition unary_engine :: "(nat, unit, unit) engine" where
  "unary_engine =
     clear_engine\<lparr>eng_decompress := decompress_ct Inr (\<lambda>l t. Inr (Some (length l))),
                  eng_compress := compress_ct (\<lambda>t c. Some (replicate c 0)) Some\<rparr>"

definition sum_worker :: "(nat, unit, unit) worker" where
  "sum_worker =
     \<lparr> wk_dag = list_dag, wk_engine = (\<lambda>_. unary_engine), wk_cycle_check = path_check,
       wk_view = (\<lambda>g. list_gview (length (cg_nodes g)) (cg_edges g)), wk_strategy = MaxParallelism,
       wk_groups = same_order,
       wk_iter = (\<lambda>m. [(h, the (m h)). h \<leftarrow> [[1], [2]], m h \<noteq> None]),
       wk_build_fuel = 2, wk_mark_fuel = 2 \<rparr>"

definition sum_meaning :: "i32 \<Rightarrow> meaning" where
  "sum_meaning = (\<lambda>_. [[1] \<mapsto> Val TUint8 3, [2] \<mapsto> Val TUint8 4, [3] \<mapsto> Val TUint8 7])"

abbreviation sum_dec :: "i32 \<Rightarrow> nat \<Rightarrow> nat" where
  "sum_dec \<equiv> \<lambda>_. clear_dec"

lemma sum_laws: "worker_laws sum_worker sum_dec no_shift sum_meaning"
proof -
  have "engine_ok unary_engine clear_dec no_shift"
    using clear_engine_ok by (simp add: engine_ok_def unary_engine_def compress_ct_not_Err)
  moreover have "storage_ok unary_engine clear_dec"
    unfolding storage_ok_def
  proof (intro allI impI)
    fix x t c assume c: "eng_compress unary_engine x = Ok (t, c)"
    show "\<exists>y. eng_decompress unary_engine t c = Ok y \<and> abs_ct clear_dec y = abs_ct clear_dec x"
      using c by (cases x) (auto simp: unary_engine_def compress_ct_def safe_serialize_def decompress_ct_def
          decompress_impl_def get_or_missing_def)
  qed
  moreover have "meaning_ok (sum_meaning i)" for i
    by (auto simp: meaning_ok_def sum_meaning_def clear_ok_def split: if_splits)
  ultimately show ?thesis
    using list_dag_queries list_dag_removal list_dag_view
    by (auto simp: worker_laws_def sum_worker_def)
qed

text \<open>The ciphertexts of the inputs, and the row of the addition.\<close>

definition sum_input :: "handle \<Rightarrow> nat \<Rightarrow> ciphertext_row" where
  "sum_input h n =
     \<lparr> ct_tenant_id = 1, ct_handle = h, ct_ciphertext = replicate n 0, ct_version = 0, ct_type = 2,
       ct_input_blob_hash = None, ct_input_blob_index = 0 \<rparr>"

abbreviation sum_inputs :: "ciphertext_row list" where
  "sum_inputs \<equiv> [sum_input [1] 3, sum_input [2] 4]"

definition sum_row :: computation_row where
  "sum_row =
     \<lparr> cr_tenant_id = 1, cr_output_handle = [3], cr_dependencies = [[1], [2]], cr_fhe_operation = 0,
       cr_is_scalar = False, cr_dependence_chain_id = [3], cr_transaction_id = [9],
       cr_is_allowed = True, cr_is_completed = False, cr_is_error = False, cr_error_message = None,
       cr_schedule_order = 0, cr_uncomputable_counter = 1 \<rparr>"

lemma sum_inputs_meant: "\<forall>r \<in> set sum_inputs. ciphertext_meant sum_worker sum_dec sum_meaning r"
  by (simp add: ciphertext_meant_def sum_worker_def sum_input_def stored_meant_def means_def sum_meaning_def
      unary_engine_def decompress_ct_def decompress_impl_def get_or_missing_def abs_ct_def clear_dec_def)

lemma sum_event_meant: "event_meant sum_worker sum_dec no_shift sum_meaning 1 (EFheAdd [1] [2] 0 [3])"
  by (simp add: event_meant_def event_computation_def operation_meant_def op_value_def random_ops_def
      event_inputs_def sum_meaning_def clear_arith_def uint_ty_def)

definition sum_start :: tables where
  "sum_start = insert_ciphertexts sum_inputs no_tables"

lemma sum_block:
  "\<exists>t D. db_insert_block BLOCK_RETRIES [] (list_lru 16) example_abi None (Some [7]) example_block 0 example_host
       sum_start = (Ok (), t, D)
     \<and> t_computations t = [sum_row] \<and> t_ciphertexts t = sum_inputs"
  by (simp add: BLOCK_RETRIES_def eval_nat_numeral db_insert_block_no_retry_def example_block_def
      example_log_def example_abi_def statement_def handle_acl_event_def insert_allowed_handle_def
      insert_pbs_computations_def insert_pbs_computation_def allowed_entry_def update_allowed_def
      tfhe_result_handle_def insert_tfhe_event_def insert_binary_def insert_computation_def
      insert_computation_inner_def sort_computation_into_bucket_def link_or_new_def put_transaction_def
      list_lru_def touch_def mark_block_as_valid_def insert_new_def computation_key_def allowed_key_def
      pbs_key_def block_key_def example_host_def no_tables_def Let_def sum_start_def insert_ciphertexts_def
      sum_input_def ciphertext_key_def sum_row_def i32_as_i16_def i16_as_i32_def)

definition sum_op :: "nat dfg_op" where
  "sum_op = \<lparr> output_handle = [3], fhe_operation = FheAdd,
     dfg_inputs = [TaskDependence [1], TaskDependence [2]], dfg_is_allowed = True \<rparr>"

lemma sum_operation: "work_operation sum_row = Ok sum_op"
proof -
  have o: "op_try_from_i16 (cr_fhe_operation sum_row) = Ok FheAdd"
    using op16.dec_enc [of FheAdd] by (simp add: sum_row_def)
  have fs: "operand_flags False FheAdd 0 (Suc (Suc 0)) = [False, False]"
    by (simp add: operand_flags_Suc more_than_one_scalar_iff)
  from work_operation_accepted [OF o] show ?thesis
    using fs by (simp add: sum_row_def sum_op_def operands_accepted_def operand_input_def)
qed

lemma sum_partition:
  "partition_preserving_parallelism path_check (list_gview 1 [])
     = Ok \<lparr> exec_nodes = [\<lparr> df_nodes = [0], dependence_counter = 0 \<rparr>], exec_edges = [] \<rparr>"
proof -
  have "partition_preserving_parallelism wc (list_gview 1 [])
     = Ok \<lparr> exec_nodes = [\<lparr> df_nodes = [0], dependence_counter = 0 \<rparr>], exec_edges = [] \<rparr>" for wc
    by code_simp
  then show ?thesis .
qed

definition sum_component :: "nat component" where
  "sum_component =
     \<lparr> c_graph = \<lparr> dg_nodes = [op_node_of sum_op], dg_out = (\<lambda>_. []), dg_topo = Some [0] \<rparr>,
       c_inputs = [([1], None), ([2], None)], c_results = [[3]], c_transaction_id = [9],
       c_is_uncomputable = False, c_component_id = 0 \<rparr>"

lemma sum_build: "build_component_nodes 2 list_dag [sum_op] [9] = Some (Ok ([sum_component], []))"
proof -
  have "operation_dag list_dag [sum_op] = Ok \<lparr> od_nodes = [(True, 0)], od_edges = [] \<rparr>"
    by (simp add: operation_dag_def sum_op_def list_dag_def)
  moreover have "finalize 2 list_dag \<lparr> od_nodes = [(True, 0)], od_edges = [] \<rparr>
      = Some ([], \<lparr> od_nodes = [(True, 0)], od_edges = [] \<rparr>)"
    by (simp add: finalize_def list_dag_def unneeded_nodes_def numeral_eq_Suc)
  moreover have "dl_view list_dag \<lparr> od_nodes = [(True, 0)], od_edges = [] \<rparr> = list_gview 1 []"
    by (simp add: list_dag_def list_gview_def)
  moreover have "build_component list_dag [sum_op] [9] 0 = Ok sum_component"
    by (simp add: build_component_def sum_op_def sum_component_def list_dag_def)
  ultimately show ?thesis
    by (simp add: build_component_nodes_def Let_def list_dag_wc sum_partition [unfolded One_nat_def])
qed

definition at_tables :: "tables \<Rightarrow> trx" where
  "at_tables t = \<lparr> x_tables = t, x_now = 1, x_faults = [] \<rparr>"

lemma at_statement [simp]: "statement f (at_tables t) = Ok (at_tables (f t))"
  by (simp add: statement_def at_tables_def)

lemma at_tables_sel [simp]: "x_tables (at_tables t) = t" "x_now (at_tables t) = 1"
  by (simp_all add: at_tables_def)

lemma sum_query:
  assumes "t_computations t = [sum_row]"
  shows "query_for_work 1 (\<lambda>_. False) 2 list_dag same_order (at_tables t)
     = Some (Ok (at_tables t, [(1, [sum_component])], []))"
proof -
  have "the_work 1 (\<lambda>_. False) t = [sum_row]"
    by (simp add: the_work_def selected_transactions_def assms is_pending_def sum_row_def)
  moreover have "cr_tenant_id sum_row = 1" "cr_transaction_id sum_row = [9]" by (simp_all add: sum_row_def)
  ultimately show ?thesis
    by (simp add: query_for_work_def of_db_def same_order_def sum_operation sum_build)
qed

definition sum_graph :: "nat tx_inputs \<Rightarrow> nat component_graph" where
  "sum_graph ins =
     \<lparr> cg_nodes = [sum_component\<lparr>c_inputs := ins\<rparr>], cg_edges = [],
       cg_needed = [[1] \<mapsto> [0], [2] \<mapsto> [0]], cg_allowed = [[3] \<mapsto> 0], cg_results = [] \<rparr>"

abbreviation sum_ins :: "nat tx_inputs" where
  "sum_ins \<equiv> [([1], Some (TxCompressed 2 (replicate 3 0) True)), ([2], Some (TxCompressed 2 (replicate 4 0) True))]"

lemma sum_graph_built:
  assumes "t_ciphertexts t = sum_inputs"
  shows "build_transaction_graph path_check (wk_iter sum_worker) 1 [sum_component] (at_tables t)
    = Ok (at_tables t, sum_graph sum_ins)"
proof -
  have "build_graph path_check [sum_component] = Ok (sum_graph [([1], None), ([2], None)])"
    by (simp add: build_graph_def sum_component_def sum_graph_def insert_results_def note_need_def fun_upd_twist)
  moreover have "query_ciphertexts (dom (cg_needed (sum_graph [([1], None), ([2], None)]))) 1 t
      = [[1] \<mapsto> (2, replicate 3 0), [2] \<mapsto> (2, replicate 4 0)]"
    by (simp add: query_ciphertexts_def assms sum_graph_def sum_input_def)
  moreover have "add_inputs [([1], 2, replicate 3 0), ([2], 2, replicate 4 0)] (sum_graph [([1], None), ([2], None)])
      = Ok (sum_graph sum_ins)"
    by (simp add: add_input_def sum_graph_def modify_input_def sum_component_def)
  ultimately show ?thesis
    by (simp add: build_transaction_graph_def of_db_def sum_worker_def)
qed

definition sum_exec :: exec_graph where
  "sum_exec = \<lparr> exec_nodes = [\<lparr> df_nodes = [0], dependence_counter = 0 \<rparr>], exec_edges = [] \<rparr>"

definition sum_running :: "nat sched" where
  "sum_running =
     \<lparr> sc_graph = (sum_graph [])\<lparr>cg_nodes := [sum_component\<lparr>c_graph := empty_dfgraph, c_inputs := []\<rparr>]\<rparr>,
       sc_counters = [0],
       sc_running = [(0, [(c_graph sum_component, sum_ins, [9], 0)])] \<rparr>"

lemma sum_started: "start_schedule sum_exec (sum_graph sum_ins) = Ok sum_running"
  by (simp add: start_schedule_def initial_sched_def sum_exec_def sum_graph_def start_task_def sum_running_def
      sum_component_def)

definition sum_result :: "nat task_result" where
  "sum_result = \<lparr> tr_ct = FheUint8 7, tr_compressed = Some (2, replicate 7 0), tr_is_allowed = True \<rparr>"

lemma sum_executed:
  "execute_partition unary_engine [(c_graph sum_component, sum_ins, [9], 0)] Map.empty
     = Ok [[3] \<mapsto> Ok sum_result]"
proof -
  have rr: "re_randomise_transaction_inputs unary_engine sum_ins [9] 0
      = Ok [([1], Some (TxValue (FheUint8 3) True)), ([2], Some (TxValue (FheUint8 4) True))]"
    by (simp add: re_randomise_transaction_inputs_def unary_engine_def clear_engine_def decompress_ct_def
        decompress_impl_def get_or_missing_def of_fhevm_def re_randomise_def rerandomised_def)

  have p: "perform_fhe_operation clear_lib 0 [FheUint8 3, FheUint8 4] 0 = Ok (FheUint8 7)"
    by code_simp
  have r: "run_computation unary_engine 0 [FheUint8 3, FheUint8 4] True = Ok (FheUint8 7, Some (2, replicate 7 0))"
    by (simp add: run_computation_def proto_try_from_def i32_as_i16_def of_fhevm_def unary_engine_def clear_engine_def
        p compress_ct_def safe_serialize_def)
  have z: "i16_as_i32 0 = 0" by (simp add: i16_as_i32_def)
  show ?thesis
    by (simp add: execute_transaction_def rr sum_component_def sum_op_def op_node_of_def try_execute_node_def
        z r task_outcome_def sum_result_def)
qed

definition sum_done :: "nat sched" where
  "sum_done =
     \<lparr> sc_graph = (sc_graph sum_running)\<lparr>cg_results :=
         [\<lparr> txr_handle = [3], txr_transaction_id = [9], txr_compressed = Ok (2, replicate 7 0) \<rparr>]\<rparr>,
       sc_counters = [0], sc_running = [] \<rparr>"

lemma sum_joined:
  "joins unary_engine k (out_edges (list_gview 1 [])) sum_exec sum_running [0] sum_done"
proof -
  have l: "listing [[3] \<mapsto> Ok sum_result] [([3], Ok sum_result)]" by (simp add: listing_def)
  have r: "sc_running sum_running = [] @ (0, [(c_graph sum_component, sum_ins, [9], 0)]) # []"
    by (simp add: sum_running_def)
  have "join_task k (out_edges (list_gview 1 [])) sum_exec 0 [([3], Ok sum_result)] (sum_running\<lparr>sc_running := [] @ []\<rparr>)
      = Some (Ok sum_done)"
    by (simp add: join_task_def add_output_def propagate_def sum_running_def sum_graph_def sum_result_def
        save_result_def record_result_def sum_done_def exec_out_def sum_exec_def list_gview_def sum_component_def)
  from joins_task [OF joins_start r sum_executed l this] show ?thesis by simp
qed

definition sum_output :: ciphertext_row where
  "sum_output = (sum_input [3] 7)"

lemma sum_worked:
  assumes "t_computations t = [sum_row]" "t_ciphertexts t = sum_inputs"
  shows "\<exists>t'. worker_iteration sum_worker 1 (\<lambda>_. False) (at_tables t) t' \<and> sum_output \<in> set (t_ciphertexts t')"
proof -
  have W: "wk_build_fuel sum_worker = 2" "wk_dag sum_worker = list_dag" "wk_groups sum_worker = same_order"
    "wk_cycle_check sum_worker = path_check" "wk_strategy sum_worker = MaxParallelism"
    "wk_engine sum_worker 1 = unary_engine" "wk_view sum_worker (sum_graph sum_ins) = list_gview 1 []"
    by (simp_all add: sum_worker_def sum_graph_def)
  have eg: "make_execution_graph MaxParallelism path_check (list_gview 1 []) = Ok sum_exec"
    by (simp add: make_execution_graph_def sum_partition [unfolded One_nat_def] sum_exec_def)
  let ?up = "upload_transaction_graph_results 1 (sc_graph sum_done) [] (at_tables t)"
  let ?hs = "fst (get_handles (sc_graph sum_done)) @ []"
  let ?u = "update_uncomputable_handles 1 1 [] (set_completed 1 ?hs (insert_ciphertexts [sum_output] t))"
  have "collect_results 1 (cg_results (sc_graph sum_done)) [] [] (at_tables t) = Ok ([sum_output], [], at_tables t)"
    by (simp add: sum_done_def sum_output_def sum_input_def current_ciphertext_version_def)
  then have "?up = Ok (at_tables ?u)"
    by (simp add: upload_transaction_graph_results_def get_results_def get_handles_def of_db_def)
  moreover have "t_ciphertexts ?u = sum_inputs @ [sum_output]"
    by (simp add: update_uncomputable_handles_def set_completed_def update_where_def insert_ciphertexts_def
        insert_new_def ciphertext_key_def assms sum_output_def sum_input_def)
  ultimately have "\<exists>u. ?up = Ok (at_tables u) \<and> sum_output \<in> set (t_ciphertexts u)"
    by (intro exI [of _ ?u]) simp
  then obtain u where u: "?up = Ok (at_tables u)" "sum_output \<in> set (t_ciphertexts u)" by blast
  have "tenant_step sum_worker 1 [sum_component] [] (at_tables t) (at_tables u)"
  proof (rule tenant_done)
    show "build_transaction_graph (wk_cycle_check sum_worker) (wk_iter sum_worker) 1 [sum_component] (at_tables t)
        = Ok (at_tables t, sum_graph sum_ins)"
      unfolding W by (rule sum_graph_built [OF assms(2)])
    show "make_execution_graph (wk_strategy sum_worker) (wk_cycle_check sum_worker)
        (wk_view sum_worker (sum_graph sum_ins)) = Ok sum_exec"
      unfolding W by (rule eg)
    show "start_schedule sum_exec (sum_graph sum_ins) = Ok sum_running" by (rule sum_started)
    show "joins (wk_engine sum_worker 1) (wk_mark_fuel sum_worker) (out_edges (wk_view sum_worker (sum_graph sum_ins)))
        sum_exec sum_running [0] sum_done"
      unfolding W by (rule sum_joined)
    show "sc_running sum_done = []" by (simp add: sum_done_def)
    show "?up = Ok (at_tables u)" by (rule u(1))
  qed
  from tenants_next [OF this tenants_done]
  have "tenants_run sum_worker [(1, [sum_component])] [] (at_tables t) (at_tables u)" .
  from iteration_work [OF _ _ this at_statement [where f = id]]
  have "worker_iteration sum_worker 1 (\<lambda>_. False) (at_tables t) (x_tables (at_tables (id u)))"
    unfolding W using sum_query [OF assms(1)] by simp
  with u(2) show ?thesis by auto
qed

section \<open>The property\<close>

text \<open>
  C1. The ciphertexts of the coprocessor are right: whatever blocks the listener inserts and batches
  the server accepts, however the cycles of the workers interleave with them, order their
  transactions and tasks, lock, fail and re-randomise, every ciphertext stored for a handle decrypts
  to the value the events and requests define for the handle: the clear arithmetic of the operation on
  the values of its operands.
\<close>

theorem stored_ciphertexts_meant:
  assumes "worker_laws W dec sh V"
    and "(coprocessor_step W dec sh V K L A acl tfhe)\<^sup>*\<^sup>* no_tables t"
    and "r \<in> set (t_ciphertexts t)"
  shows "\<exists>x. eng_decompress (wk_engine W (ct_tenant_id r)) (ct_type r) (ct_ciphertext r) = Ok x
     \<and> V (ct_tenant_id r) (ct_handle r) = Some (abs_ct (dec (ct_tenant_id r)) x)"
proof -
  have "tables_meant W dec sh V no_tables" by (simp add: tables_meant_def no_tables_def)
  from coprocessor_meant [OF assms(1,2) this] assms(3) show ?thesis
    by (auto simp: tables_meant_def ciphertext_meant_def stored_meant_def means_def)
qed

text \<open>3 + 4 is stored as 7 for the handle of the sum.\<close>

theorem stored_ciphertexts_meant_witness:
  "\<exists>t. (coprocessor_step sum_worker sum_dec no_shift sum_meaning sample_auth (list_lru 16) example_abi None (Some [7]))\<^sup>*\<^sup>*
         no_tables t
     \<and> sum_output \<in> set (t_ciphertexts t) \<and> ct_handle sum_output = [3]
     \<and> (\<exists>x. eng_decompress unary_engine (ct_type sum_output) (ct_ciphertext sum_output) = Ok x
          \<and> abs_ct clear_dec x = Val TUint8 7)"
proof -
  let ?step = "coprocessor_step sum_worker sum_dec no_shift sum_meaning sample_auth (list_lru 16) example_abi None (Some [7])"
  have s1: "?step no_tables sum_start" unfolding sum_start_def by (rule step_inputs [OF sum_inputs_meant])
  obtain t D where b: "db_insert_block BLOCK_RETRIES [] (list_lru 16) example_abi None (Some [7]) example_block 0
      example_host sum_start = (Ok (), t, D)" and t: "t_computations t = [sum_row]" "t_ciphertexts t = sum_inputs"
    using sum_block by blast
  have "\<forall>log \<in> set (tfhe_events example_abi None (Some [7]) (bk_logs example_block)).
      event_meant sum_worker sum_dec no_shift sum_meaning (hd_tenant_id example_host) (lt_event log)"
    by (simp add: example_block_def example_log_def example_abi_def as_acl_def as_tfhe_def example_host_def
        sum_event_meant)
  from step_block [OF b this] have s2: "?step sum_start t" .
  obtain t' where w: "worker_iteration sum_worker 1 (\<lambda>_. False) (at_tables t) t'"
    and o: "sum_output \<in> set (t_ciphertexts t')" using sum_worked [OF t] by blast
  have "sum_worker\<lparr>wk_build_fuel := 2, wk_mark_fuel := 2\<rparr> = sum_worker" by (simp add: sum_worker_def)
  with w have "?step t t'" by (intro step_work [where k = 2 and m = 2 and batch_size = 1 and locked = "\<lambda>_. False" and x = "at_tables t"])
      (simp_all add: t)
  moreover have "?step\<^sup>*\<^sup>* no_tables t"
    using r_into_rtranclp [where r = ?step, OF s1] s2 by (rule rtranclp.rtrancl_into_rtrancl)
  ultimately have run: "?step\<^sup>*\<^sup>* no_tables t'" by (rule rtranclp.rtrancl_into_rtrancl [rotated])
  have h: "ct_handle sum_output = [3]" "sum_meaning (ct_tenant_id sum_output) [3] = Some (Val TUint8 7)"
    "wk_engine sum_worker (ct_tenant_id sum_output) = unary_engine"
    by (simp_all add: sum_output_def sum_input_def sum_meaning_def sum_worker_def)
  from stored_ciphertexts_meant [OF sum_laws run o] have
    "\<exists>x. eng_decompress unary_engine (ct_type sum_output) (ct_ciphertext sum_output) = Ok x
       \<and> abs_ct clear_dec x = Val TUint8 7"
    unfolding h by auto
  with run o h(1) show ?thesis by (intro exI [of _ t'] conjI)
qed

end
