(* ===== verification/TxnSender.thy ===== *)
theory TxnSender
  imports Tables
begin

text \<open>
  The transaction sender (\<open>transaction-sender/src\<close>): what the coprocessor has computed, allowed and
  verified is sent to the contracts of the gateway, row by row, and each row keeps an account of
  how often that failed. The answers of the gateway, of the database and of the signer are values
  the definitions take; the gas, the calls, the retries and the order of events are the code's.
\<close>

section \<open>Configuration and library\<close>

text \<open>\<open>ConfigSettings\<close>, the fields that decide anything, with the address and gas of the operations.\<close>

record sender_conf =
  sc_gas :: "u64 option"
  sc_gw_chain_id :: u64
  sc_input_verification :: bytes
  sc_proof_batch_limit :: u32
  sc_proof_max_retries :: u32
  sc_proof_remove :: bool
  sc_add_batch_limit :: u32
  sc_add_max_retries :: i32
  sc_allow_batch_limit :: u32
  sc_allow_max_retries :: i32
  sc_sleep_initial :: u16
  sc_sleep_max :: u16
  sc_overprovision_percent :: u32

text \<open>The errors of the contracts the code knows (\<open>contracts/*.sol\<close>).\<close>

datatype commits_error = CoprocessorAlreadyAdded bytes

datatype acl_error =
    CoprocessorAlreadyAllowedAccount bytes
  | CoprocessorAlreadyAllowedPublicDecrypt bytes

datatype input_error = CoprocessorAlreadyVerified | CoprocessorAlreadyRejected

text \<open>
  The errors of the crate \<open>alloy\<close>: a call fails in the transport, through a wrong use of the local
  provider, with an error response that carries a payload, or otherwise.
\<close>

datatype transport_kind = BackendGone | OtherTransport bytes

datatype gateway_error =
    Transport transport_kind
  | LocalUsageError
  | ErrorResp bytes
  | OtherRpcError bytes

text \<open>
  What the sender takes from its crates: the decoding of the errors of the contracts, which
  transport errors are worth a retry, the parsing of addresses, the hash of EIP-712 and whether
  the chain of causes of a missing receipt contains a \<open>BackendGone\<close>.
\<close>

record 'p sender_lib =
  decode_commits :: "bytes \<Rightarrow> commits_error option"
  decode_acl :: "bytes \<Rightarrow> acl_error option"
  decode_input :: "bytes \<Rightarrow> input_error option"
  is_retry_err :: "transport_kind \<Rightarrow> bool"
  address_from_str :: "string \<Rightarrow> bytes option"
  signing_hash :: "u64 \<Rightarrow> bytes \<Rightarrow> bytes list \<Rightarrow> bytes \<Rightarrow> bytes \<Rightarrow> nat \<Rightarrow> bytes \<Rightarrow> bytes"
  pending_backend_gone :: "'p \<Rightarrow> bool"

section \<open>Calls and answers\<close>

datatype gateway_call =
    AddCiphertextMaterial bytes nat bytes bytes
  | AllowPublicDecrypt bytes bytes
  | AllowAccount bytes bytes bytes
  | VerifyProofResponse nat "bytes list" bytes bytes
  | RejectProofResponse nat bytes

record txn_request =
  tr_call :: gateway_call
  tr_gas :: "u64 option"

record receipt =
  rc_status :: bool
  rc_transaction_hash :: bytes
  rc_block_number :: "u64 option"

text \<open>
  What a task is answered while it runs: the estimated gas, the outcome of sending, the receipt,
  and the faults of its update and of the query that closes the trace of a transaction.
\<close>

record 'p answers =
  an_estimate :: "txn_request \<Rightarrow> u64 option"
  an_send :: "txn_request \<Rightarrow> gateway_error option"
  an_receipt :: "txn_request \<Rightarrow> 'p + receipt"
  an_update :: "sqlx_error option"
  an_trace_lost :: bool

datatype 'p sender_error =
    RpcFailed gateway_error
  | ReceiptMissing 'p
  | TransactionFailed bytes
  | SenderSql sqlx_error
  | InvalidLen nat
  | HandlesNone
  | SigningFailed
  | TaskPanicked panic_reason

text \<open>\<open>is_backend_gone\<close>: the error that stops all operations.\<close>

fun is_backend_gone :: "'p sender_lib \<Rightarrow> 'p sender_error \<Rightarrow> bool" where
  "is_backend_gone L (RpcFailed (Transport BackendGone)) = True"
| "is_backend_gone L (ReceiptMissing p) = pending_backend_gone L p"
| "is_backend_gone L e = False"

text \<open>
  \<open>try_overprovision_gas_limit\<close>: the product is taken in 128 bits, the quotient is cut to 64. A
  failed estimate leaves the request without a gas limit.
\<close>

definition overprovision :: "u32 \<Rightarrow> u64 \<Rightarrow> u64" where
  "overprovision percent gas = of_nat (unat gas * unat percent div 100)"

definition try_overprovision_gas_limit ::
  "u32 \<Rightarrow> (txn_request \<Rightarrow> u64 option) \<Rightarrow> txn_request \<Rightarrow> ('e, txn_request) res" where
  "try_overprovision_gas_limit percent estimate q =
     assert_then (100 \<le> percent)
       (Ok (case map_option (overprovision percent)
                   (case tr_gas q of Some g \<Rightarrow> Some g | None \<Rightarrow> estimate q) of
              Some g \<Rightarrow> q\<lparr>tr_gas := Some g\<rparr>
            | None \<Rightarrow> q))"

text \<open>\<open>try_into_array::<32>\<close>.\<close>

definition try_into_array32 :: "bytes \<Rightarrow> ('p sender_error, bytes) res" where
  "try_into_array32 v = (if length v \<noteq> 32 then Err (InvalidLen (length v)) else Ok v)"

text \<open>
  Errors that are tried again without a limit: the transport's retryable ones, \<open>BackendGone\<close> and
  local usage errors.
\<close>

fun unlimited_retry :: "'p sender_lib \<Rightarrow> gateway_error \<Rightarrow> bool" where
  "unlimited_retry L (Transport k) \<longleftrightarrow> is_retry_err L k \<or> k = BackendGone"
| "unlimited_retry L LocalUsageError \<longleftrightarrow> True"
| "unlimited_retry L _ \<longleftrightarrow> False"

fun as_error_resp :: "gateway_error \<Rightarrow> bytes option" where
  "as_error_resp (ErrorResp b) = Some b"
| "as_error_resp _ = None"

section \<open>Rows\<close>

text \<open>
  A last error is kept as text; the model keeps the error. The counters are columns of type
  \<open>INTEGER\<close>, and an update that would leave their range fails as a whole.
\<close>

datatype 'p last_error = LastRpc gateway_error | LastPending 'p | ReceiptStatusFalse

record 'p txn_row =
  tx_is_sent :: bool
  tx_hash :: "bytes option"
  tx_block_number :: "u64 option"
  tx_limited :: int
  tx_unlimited :: int
  tx_last_error :: "'p last_error option"

record 'p digest_row = "'p txn_row" +
  dg_tenant_id :: i32
  dg_handle :: bytes
  dg_ciphertext :: "bytes option"
  dg_ciphertext128 :: "bytes option"
  dg_transaction_id :: "bytes option"

record 'p acl_row = "'p txn_row" +
  ac_tenant_id :: i32
  ac_handle :: bytes
  ac_account_address :: string
  ac_event_type :: i16
  ac_transaction_id :: "bytes option"

record 'p proof_row =
  pf_zk_proof_id :: nat
  pf_chain_id :: nat
  pf_contract_address :: string
  pf_user_address :: string
  pf_input :: "bytes option"
  pf_handles :: "bytes option"
  pf_verified :: "bool option"
  pf_retry_count :: int
  pf_extra_data :: bytes
  pf_transaction_id :: "bytes option"
  pf_last_error :: "'p last_error option"

definition int_max :: int where
  "int_max = 2 ^ 31 - 1"

definition out_of_range :: sqlx_error where
  "out_of_range = SqlDatabase (Some ''22003'')"

text \<open>\<open>UPDATE .. SET .. WHERE ..\<close>, one statement: it fails and changes nothing, or changes every row.\<close>

definition update_rows ::
  "sqlx_error option \<Rightarrow> ('r \<Rightarrow> bool) \<Rightarrow> ('r \<Rightarrow> 'r option) \<Rightarrow> 'r list \<Rightarrow>
   ('p sender_error, unit) res \<times> 'r list" where
  "update_rows fault P f t =
     (case fault of
        Some e \<Rightarrow> (Err (SenderSql e), t)
      | None \<Rightarrow>
         (case those (map (\<lambda>r. if P r then f r else Some r) t) of
            None \<Rightarrow> (Err (SenderSql out_of_range), t)
          | Some t' \<Rightarrow> (Ok (), t')))"

definition delete_rows ::
  "sqlx_error option \<Rightarrow> ('r \<Rightarrow> bool) \<Rightarrow> 'r list \<Rightarrow> ('p sender_error, unit) res \<times> 'r list" where
  "delete_rows fault P t =
     (case fault of Some e \<Rightarrow> (Err (SenderSql e), t) | None \<Rightarrow> (Ok (), filter (\<lambda>r. \<not> P r) t))"

text \<open>A statement with \<open>?\<close>, followed by the rest of the body.\<close>

definition and_then ::
  "('e, unit) res \<times> 't \<Rightarrow> ('t \<Rightarrow> ('e, unit) res \<times> 't) \<Rightarrow> ('e, unit) res \<times> 't" where
  "and_then u f = (case u of (Ok _, t) \<Rightarrow> f t | (r, t) \<Rightarrow> (r, t))"

text \<open>The columns the updates of both tables set.\<close>

definition mark_sent ::
  "bytes option \<Rightarrow> u64 option \<Rightarrow> ('p, 'z) txn_row_scheme \<Rightarrow> ('p, 'z) txn_row_scheme option" where
  "mark_sent hash block_number r =
     Some (r\<lparr>tx_is_sent := True, tx_hash := hash, tx_block_number := block_number\<rparr>)"

definition count_limited ::
  "'p last_error \<Rightarrow> ('p, 'z) txn_row_scheme \<Rightarrow> ('p, 'z) txn_row_scheme option" where
  "count_limited e r =
     (if tx_limited r < int_max
      then Some (r\<lparr>tx_limited := tx_limited r + 1, tx_last_error := Some e\<rparr>) else None)"

definition count_unlimited ::
  "'p last_error \<Rightarrow> ('p, 'z) txn_row_scheme \<Rightarrow> ('p, 'z) txn_row_scheme option" where
  "count_unlimited e r =
     (if tx_unlimited r < int_max
      then Some (r\<lparr>tx_unlimited := tx_unlimited r + 1, tx_last_error := Some e\<rparr>) else None)"

text \<open>
  \<open>try_end_l1_transaction\<close> asks whether everything of a transaction is done; when the question
  fails it panics (\<open>unwrap\<close>).
\<close>

definition end_l1_transaction :: "'p answers \<Rightarrow> 't \<Rightarrow> ('e, unit) res \<times> 't" where
  "end_l1_transaction a t = (if an_trace_lost a then Panic ExpectFailed else Ok (), t)"

section \<open>Adding ciphertexts\<close>

record digest_task =
  dt_handle :: bytes
  dt_request :: txn_request
  dt_src_transaction_id :: "bytes option"

definition already_added_error :: "'p sender_lib \<Rightarrow> gateway_error \<Rightarrow> bytes option" where
  "already_added_error L e =
     map_option (\<lambda>x. case x of CoprocessorAlreadyAdded a \<Rightarrow> a)
       (Option.bind (as_error_resp e) (decode_commits L))"

text \<open>\<open>set_txn_is_sent\<close>, \<open>increment_txn_limited_retries_count\<close>, \<open>increment_txn_unlimited_retries_count\<close>.\<close>

definition digest_set_sent ::
  "'p answers \<Rightarrow> digest_task \<Rightarrow> bytes option \<Rightarrow> u64 option \<Rightarrow> 'p digest_row list \<Rightarrow>
   ('p sender_error, unit) res \<times> 'p digest_row list" where
  "digest_set_sent a k hash block_number t =
     and_then (update_rows (an_update a) (\<lambda>r. dg_handle r = dt_handle k)
                 (mark_sent hash block_number) t)
       (\<lambda>t'. case dt_src_transaction_id k of
               Some _ \<Rightarrow> end_l1_transaction a t'
             | None \<Rightarrow> (Ok (), t'))"

definition digest_count_limited ::
  "'p answers \<Rightarrow> digest_task \<Rightarrow> 'p last_error \<Rightarrow> 'p digest_row list \<Rightarrow>
   ('p sender_error, unit) res \<times> 'p digest_row list" where
  "digest_count_limited a k e =
     update_rows (an_update a) (\<lambda>r. dg_handle r = dt_handle k) (count_limited e)"

definition digest_count_unlimited ::
  "'p answers \<Rightarrow> digest_task \<Rightarrow> 'p last_error \<Rightarrow> 'p digest_row list \<Rightarrow>
   ('p sender_error, unit) res \<times> 'p digest_row list" where
  "digest_count_unlimited a k e =
     update_rows (an_update a) (\<lambda>r. dg_handle r = dt_handle k) (count_unlimited e)"

text \<open>\<open>AddCiphertextOperation::send_transaction\<close>.\<close>

definition digest_send ::
  "'p sender_lib \<Rightarrow> sender_conf \<Rightarrow> 'p answers \<Rightarrow> digest_task \<Rightarrow> 'p digest_row list \<Rightarrow>
   ('p sender_error, unit) res \<times> 'p digest_row list" where
  "digest_send L C a k t =
     (case try_overprovision_gas_limit (sc_overprovision_percent C) (an_estimate a) (dt_request k) of
        Ok q \<Rightarrow>
         (case an_send a q of
            Some e \<Rightarrow>
              (if already_added_error L e \<noteq> None then digest_set_sent a k None None t
               else if unlimited_retry L e
               then and_then (digest_count_unlimited a k (LastRpc e) t) (Pair (Err (RpcFailed e)))
               else and_then (digest_count_limited a k (LastRpc e) t) (Pair (Err (RpcFailed e))))
          | None \<Rightarrow>
             (case an_receipt a q of
                Inl p \<Rightarrow>
                  and_then (digest_count_limited a k (LastPending p) t)
                    (Pair (Err (ReceiptMissing p)))
              | Inr rc \<Rightarrow>
                 (if rc_status rc
                  then digest_set_sent a k (Some (rc_transaction_hash rc)) (rc_block_number rc) t
                  else and_then (digest_count_limited a k ReceiptStatusFalse t)
                         (Pair (Err (TransactionFailed (rc_transaction_hash rc)))))))
      | Err e \<Rightarrow> (Err e, t)
      | Panic p \<Rightarrow> (Panic p, t))"

text \<open>
  What \<open>execute\<close> does with one selected row: the tenant's key identifier (\<open>None\<close>: the query
  failed), the digests and the handle at their length, the call, and the task that is spawned.
  \<open>None\<close> stands for \<open>continue\<close>.
\<close>

definition with_gas :: "u64 option \<Rightarrow> gateway_call \<Rightarrow> txn_request" where
  "with_gas gas c = \<lparr> tr_call = c, tr_gas = gas \<rparr>"

definition digest_prepare ::
  "sender_conf \<Rightarrow> (i32 \<Rightarrow> bytes option) \<Rightarrow> 'p digest_row \<Rightarrow> 'p digest_row list \<Rightarrow>
   ('p sender_error, digest_task option \<times> 'p digest_row list) res" where
  "digest_prepare C tenant_key r t =
     (case tenant_key (dg_tenant_id r) of
        None \<Rightarrow> Ok (None, t)
      | Some key_id \<Rightarrow>
         (case (dg_ciphertext r, dg_ciphertext128 r) of
            (Some ct, Some ct128) \<Rightarrow>
              bind_res (try_into_array32 ct) (\<lambda>d64.
              bind_res (try_into_array32 ct128) (\<lambda>d128.
              bind_res (try_into_array32 (dg_handle r)) (\<lambda>h.
                Ok (Some \<lparr> dt_handle = dg_handle r,
                           dt_request = with_gas (sc_gas C)
                             (AddCiphertextMaterial h (be_val key_id) d64 d128),
                           dt_src_transaction_id = dg_transaction_id r \<rparr>, t))))
          | _ \<Rightarrow> Ok (None, t)))"

text \<open>The condition of the query.\<close>

definition digest_to_send :: "sender_conf \<Rightarrow> 'p digest_row \<Rightarrow> bool" where
  "digest_to_send C r \<longleftrightarrow>
     \<not> tx_is_sent r \<and> dg_ciphertext r \<noteq> None \<and> dg_ciphertext128 r \<noteq> None
     \<and> tx_limited r < sint (sc_add_max_retries C)"

section \<open>Allowing handles\<close>

record acl_task =
  at_handle :: bytes
  at_account_addr :: string
  at_tenant_id :: i32
  at_request :: txn_request
  at_src_transaction_id :: "bytes option"

definition already_allowed_error :: "'p sender_lib \<Rightarrow> gateway_error \<Rightarrow> bytes option" where
  "already_allowed_error L e =
     map_option (\<lambda>x. case x of
         CoprocessorAlreadyAllowedAccount a \<Rightarrow> a
       | CoprocessorAlreadyAllowedPublicDecrypt a \<Rightarrow> a)
       (Option.bind (as_error_resp e) (decode_acl L))"

text \<open>The rows of a \<open>Key\<close>.\<close>

definition acl_matches :: "acl_task \<Rightarrow> 'p acl_row \<Rightarrow> bool" where
  "acl_matches k r \<longleftrightarrow>
     ac_handle r = at_handle k \<and> ac_account_address r = at_account_addr k
     \<and> ac_tenant_id r = at_tenant_id k"

definition acl_set_sent ::
  "'p answers \<Rightarrow> acl_task \<Rightarrow> bytes option \<Rightarrow> u64 option \<Rightarrow> 'p acl_row list \<Rightarrow>
   ('p sender_error, unit) res \<times> 'p acl_row list" where
  "acl_set_sent a k hash block_number t =
     and_then (update_rows (an_update a) (acl_matches k) (mark_sent hash block_number) t)
       (end_l1_transaction a)"

definition acl_count_limited ::
  "'p answers \<Rightarrow> acl_task \<Rightarrow> 'p last_error \<Rightarrow> 'p acl_row list \<Rightarrow>
   ('p sender_error, unit) res \<times> 'p acl_row list" where
  "acl_count_limited a k e = update_rows (an_update a) (acl_matches k) (count_limited e)"

definition acl_count_unlimited ::
  "'p answers \<Rightarrow> acl_task \<Rightarrow> 'p last_error \<Rightarrow> 'p acl_row list \<Rightarrow>
   ('p sender_error, unit) res \<times> 'p acl_row list" where
  "acl_count_unlimited a k e = update_rows (an_update a) (acl_matches k) (count_unlimited e)"

text \<open>\<open>MultichainACLOperation::send_transaction\<close>.\<close>

definition acl_send ::
  "'p sender_lib \<Rightarrow> sender_conf \<Rightarrow> 'p answers \<Rightarrow> acl_task \<Rightarrow> 'p acl_row list \<Rightarrow>
   ('p sender_error, unit) res \<times> 'p acl_row list" where
  "acl_send L C a k t =
     (case try_overprovision_gas_limit (sc_overprovision_percent C) (an_estimate a) (at_request k) of
        Ok q \<Rightarrow>
         (case an_send a q of
            Some e \<Rightarrow>
              (if already_allowed_error L e \<noteq> None then acl_set_sent a k None None t
               else if unlimited_retry L e
               then and_then (acl_count_unlimited a k (LastRpc e) t) (Pair (Err (RpcFailed e)))
               else and_then (acl_count_limited a k (LastRpc e) t) (Pair (Err (RpcFailed e))))
          | None \<Rightarrow>
             (case an_receipt a q of
                Inl p \<Rightarrow>
                  and_then (acl_count_limited a k (LastPending p) t)
                    (Pair (Err (ReceiptMissing p)))
              | Inr rc \<Rightarrow>
                 (if rc_status rc
                  then acl_set_sent a k (Some (rc_transaction_hash rc)) (rc_block_number rc) t
                  else and_then (acl_count_limited a k ReceiptStatusFalse t)
                         (Pair (Err (TransactionFailed (rc_transaction_hash rc)))))))
      | Err e \<Rightarrow> (Err e, t)
      | Panic p \<Rightarrow> (Panic p, t))"

definition acl_prepare ::
  "'p sender_lib \<Rightarrow> sender_conf \<Rightarrow> (i32 \<Rightarrow> bool) \<Rightarrow> 'p acl_row \<Rightarrow> 'p acl_row list \<Rightarrow>
   ('p sender_error, acl_task option \<times> 'p acl_row list) res" where
  "acl_prepare L C tenant_known r t =
     (let spawn = (\<lambda>c. Ok (Some \<lparr> at_handle = ac_handle r, at_account_addr = ac_account_address r,
                                  at_tenant_id = ac_tenant_id r, at_request = with_gas (sc_gas C) c,
                                  at_src_transaction_id = ac_transaction_id r \<rparr>, t))
      in if \<not> tenant_known (ac_tenant_id r) then Ok (None, t)
         else (case allow_events_try_from_i16 (ac_event_type r) of
             Ok ev \<Rightarrow>
               bind_res (try_into_array32 (ac_handle r)) (\<lambda>h.
                 case ev of
                   AllowedForDecryption \<Rightarrow> spawn (AllowPublicDecrypt h [])
                 | AllowedAccount \<Rightarrow>
                    (case address_from_str L (ac_account_address r) of
                       Some addr \<Rightarrow> spawn (AllowAccount h addr [])
                     | None \<Rightarrow> Ok (None, t)))
           | _ \<Rightarrow> Ok (None, t)))"

definition acl_to_send :: "sender_conf \<Rightarrow> 'p acl_row \<Rightarrow> bool" where
  "acl_to_send C r \<longleftrightarrow> \<not> tx_is_sent r \<and> tx_limited r < sint (sc_allow_max_retries C)"

section \<open>Answering proofs\<close>

record proof_task =
  pt_zk_proof_id :: nat
  pt_request :: txn_request
  pt_src_transaction_id :: "bytes option"

definition remove_proof_by_id ::
  "sqlx_error option \<Rightarrow> nat \<Rightarrow> 'p proof_row list \<Rightarrow>
   ('p sender_error, unit) res \<times> 'p proof_row list" where
  "remove_proof_by_id fault i = delete_rows fault (\<lambda>r. pf_zk_proof_id r = i)"

definition count_retry :: "'p last_error \<Rightarrow> 'p proof_row \<Rightarrow> 'p proof_row option" where
  "count_retry e r =
     (if pf_retry_count r < int_max
      then Some (r\<lparr>pf_retry_count := pf_retry_count r + 1, pf_last_error := Some e\<rparr>) else None)"

definition update_retry_count_by_proof_id ::
  "sqlx_error option \<Rightarrow> nat \<Rightarrow> 'p last_error \<Rightarrow> 'p proof_row list \<Rightarrow>
   ('p sender_error, unit) res \<times> 'p proof_row list" where
  "update_retry_count_by_proof_id fault i e =
     update_rows fault (\<lambda>r. pf_zk_proof_id r = i) (count_retry e)"

definition remove_proofs_by_retry_count ::
  "sender_conf \<Rightarrow> sqlx_error option \<Rightarrow> 'p proof_row list \<Rightarrow>
   ('p sender_error, unit) res \<times> 'p proof_row list" where
  "remove_proofs_by_retry_count C fault =
     delete_rows fault (\<lambda>r. int (unat (sc_proof_max_retries C)) \<le> pf_retry_count r)"

text \<open>\<open>process_proof\<close>.\<close>

definition process_proof ::
  "'p sender_lib \<Rightarrow> sender_conf \<Rightarrow> 'p answers \<Rightarrow> proof_task \<Rightarrow> 'p proof_row list \<Rightarrow>
   ('p sender_error, unit) res \<times> 'p proof_row list" where
  "process_proof L C a k t =
     (let i = pt_zk_proof_id k
      in case try_overprovision_gas_limit (sc_overprovision_percent C) (an_estimate a)
               (pt_request k) of
        Ok q \<Rightarrow>
         (case an_send a q of
            Some e \<Rightarrow>
              (case Option.bind (as_error_resp e) (decode_input L) of
                 Some CoprocessorAlreadyVerified \<Rightarrow> remove_proof_by_id (an_update a) i t
               | Some CoprocessorAlreadyRejected \<Rightarrow> remove_proof_by_id (an_update a) i t
               | None \<Rightarrow>
                   and_then (update_retry_count_by_proof_id (an_update a) i (LastRpc e) t)
                     (Pair (Err (RpcFailed e))))
          | None \<Rightarrow>
             (case an_receipt a q of
                Inl p \<Rightarrow>
                  and_then (update_retry_count_by_proof_id (an_update a) i (LastPending p) t)
                    (Pair (Err (ReceiptMissing p)))
              | Inr rc \<Rightarrow>
                 (if rc_status rc then remove_proof_by_id (an_update a) i t
                  else and_then (update_retry_count_by_proof_id (an_update a) i ReceiptStatusFalse t)
                         (Pair (Err (TransactionFailed (rc_transaction_hash rc)))))))
      | Err e \<Rightarrow> (Err e, t)
      | Panic p \<Rightarrow> (Panic p, t))"

text \<open>\<open>handles.chunks(32)\<close>.\<close>

fun chunks32 :: "bytes \<Rightarrow> bytes list" where
  "chunks32 [] = []"
| "chunks32 (b # bs) = take 32 (b # bs) # chunks32 (drop 31 bs)"

text \<open>
  One row of \<open>execute\<close>: the signer answers with a signature or fails; the removal of a row whose
  handles have a bad length may fail.
\<close>

record preparation =
  pr_sign :: "bytes \<Rightarrow> bytes option"
  pr_remove :: "sqlx_error option"

definition proof_prepare ::
  "'p sender_lib \<Rightarrow> sender_conf \<Rightarrow> preparation \<Rightarrow> 'p proof_row \<Rightarrow> 'p proof_row list \<Rightarrow>
   ('p sender_error, proof_task option \<times> 'p proof_row list) res" where
  "proof_prepare L C b r t =
     (let spawn = (\<lambda>c. Ok (Some \<lparr> pt_zk_proof_id = pf_zk_proof_id r,
                                  pt_request = with_gas (sc_gas C) c,
                                  pt_src_transaction_id = pf_transaction_id r \<rparr>, t))
      in case pf_verified r of
        Some True \<Rightarrow>
         (case pf_handles r of
            None \<Rightarrow> Err HandlesNone
          | Some handles \<Rightarrow>
              (if length handles mod 32 \<noteq> 0
               then (case remove_proof_by_id (pr_remove b) (pf_zk_proof_id r) t of
                       (Ok _, t') \<Rightarrow> Ok (None, t')
                     | (Err e, _) \<Rightarrow> Err e
                     | (Panic p, _) \<Rightarrow> Panic p)
               else (case address_from_str L (pf_user_address r) of
                  None \<Rightarrow> Panic ExpectFailed
                | Some user \<Rightarrow>
                   (case address_from_str L (pf_contract_address r) of
                      None \<Rightarrow> Panic ExpectFailed
                    | Some contract \<Rightarrow>
                       (case pr_sign b (signing_hash L (sc_gw_chain_id C) (sc_input_verification C)
                               (chunks32 handles) user contract (pf_chain_id r) (pf_extra_data r)) of
                          None \<Rightarrow> Err SigningFailed
                        | Some signature \<Rightarrow>
                            spawn (VerifyProofResponse (pf_zk_proof_id r) (chunks32 handles)
                                     signature (pf_extra_data r)))))))
      | Some False \<Rightarrow> spawn (RejectProofResponse (pf_zk_proof_id r) (pf_extra_data r))
      | None \<Rightarrow> Ok (None, t))"

definition proof_to_send :: "sender_conf \<Rightarrow> 'p proof_row \<Rightarrow> bool" where
  "proof_to_send C r \<longleftrightarrow>
     pf_verified r \<noteq> None \<and> pf_retry_count r < int (unat (sc_proof_max_retries C))"

section \<open>A batch of tasks\<close>

text \<open>
  The rest of \<open>execute\<close> is the same in the three operations. Rows are prepared one after the other
  and their tasks run meanwhile, in any order and interleaved with what the other services do to
  the table (\<open>others\<close>); then the results are joined in any order. The first error ends the call,
  of the preparation as of a task, and drops the set: tasks that run are aborted, before or after
  their statement took effect.
\<close>

datatype ('k, 'e) slot = Running 'k | Finished "('e, unit) res"

record ('r, 'k, 'e) batch =
  ba_todo :: "'r list"
  ba_slots :: "('k, 'e) slot list"
  ba_table :: "'r list"

inductive task_step ::
  "('a \<Rightarrow> bool) \<Rightarrow> ('a \<Rightarrow> 'k \<Rightarrow> 'r list \<Rightarrow> ('e, unit) res \<times> 'r list) \<Rightarrow>
   ('r, 'k, 'e) batch \<Rightarrow> ('r, 'k, 'e) batch \<Rightarrow> bool"
  for answer run where
  progressed:
    "ba_slots s = us @ Running k # vs \<Longrightarrow> answer a \<Longrightarrow> run a k (ba_table s) = (r, t') \<Longrightarrow>
     task_step answer run s (s\<lparr>ba_slots := us @ Finished r # vs, ba_table := t'\<rparr>)"

inductive batch_step ::
  "('b \<Rightarrow> bool) \<Rightarrow> ('b \<Rightarrow> 'r \<Rightarrow> 'r list \<Rightarrow> ('e, 'k option \<times> 'r list) res) \<Rightarrow>
   ('a \<Rightarrow> bool) \<Rightarrow> ('a \<Rightarrow> 'k \<Rightarrow> 'r list \<Rightarrow> ('e, unit) res \<times> 'r list) \<Rightarrow>
   ('r list \<Rightarrow> 'r list \<Rightarrow> bool) \<Rightarrow> ('r, 'k, 'e) batch \<Rightarrow> ('r, 'k, 'e) batch \<Rightarrow> bool"
  for setting prep answer run others where
  skipped:
    "ba_todo s = r # todo \<Longrightarrow> setting b \<Longrightarrow> prep b r (ba_table s) = Ok (None, t') \<Longrightarrow>
     batch_step setting prep answer run others s (s\<lparr>ba_todo := todo, ba_table := t'\<rparr>)"
| spawned:
    "ba_todo s = r # todo \<Longrightarrow> setting b \<Longrightarrow> prep b r (ba_table s) = Ok (Some k, t') \<Longrightarrow>
     batch_step setting prep answer run others s
       (s\<lparr>ba_todo := todo, ba_slots := ba_slots s @ [Running k], ba_table := t'\<rparr>)"
| running:
    "task_step answer run s s' \<Longrightarrow> batch_step setting prep answer run others s s'"
| joined:
    "ba_todo s = [] \<Longrightarrow> ba_slots s = us @ Finished (Ok ()) # vs \<Longrightarrow>
     batch_step setting prep answer run others s (s\<lparr>ba_slots := us @ vs\<rparr>)"
| elsewhere:
    "others (ba_table s) t' \<Longrightarrow>
     batch_step setting prep answer run others s (s\<lparr>ba_table := t'\<rparr>)"

text \<open>How \<open>execute\<close> ends; a task that panicked gives the error of the join.\<close>

inductive batch_end ::
  "('b \<Rightarrow> bool) \<Rightarrow> ('b \<Rightarrow> 'r \<Rightarrow> 'r list \<Rightarrow> ('p sender_error, 'k option \<times> 'r list) res) \<Rightarrow>
   ('r, 'k, 'p sender_error) batch \<Rightarrow> ('p sender_error, unit) res \<Rightarrow> bool"
  for setting prep where
  all_joined: "ba_todo s = [] \<Longrightarrow> ba_slots s = [] \<Longrightarrow> batch_end setting prep s (Ok ())"
| task_failed:
    "ba_todo s = [] \<Longrightarrow> Finished (Err e) \<in> set (ba_slots s) \<Longrightarrow> batch_end setting prep s (Err e)"
| task_panicked:
    "ba_todo s = [] \<Longrightarrow> Finished (Panic p) \<in> set (ba_slots s) \<Longrightarrow>
     batch_end setting prep s (Err (TaskPanicked p))"
| preparation_failed:
    "ba_todo s = r # todo \<Longrightarrow> setting b \<Longrightarrow> prep b r (ba_table s) = Err e \<Longrightarrow>
     batch_end setting prep s (Err e)"
| preparation_panicked:
    "ba_todo s = r # todo \<Longrightarrow> setting b \<Longrightarrow> prep b r (ba_table s) = Panic p \<Longrightarrow>
     batch_end setting prep s (Panic p)"

text \<open>A whole batch; aborted tasks may still take effect.\<close>

inductive batch_runs ::
  "('b \<Rightarrow> bool) \<Rightarrow> ('b \<Rightarrow> 'r \<Rightarrow> 'r list \<Rightarrow> ('p sender_error, 'k option \<times> 'r list) res) \<Rightarrow>
   ('a \<Rightarrow> bool) \<Rightarrow> ('a \<Rightarrow> 'k \<Rightarrow> 'r list \<Rightarrow> ('p sender_error, unit) res \<times> 'r list) \<Rightarrow>
   ('r list \<Rightarrow> 'r list \<Rightarrow> bool) \<Rightarrow> 'r list \<Rightarrow> 'r list \<Rightarrow> ('p sender_error, unit) res \<Rightarrow>
   'r list \<Rightarrow> bool"
  for setting prep answer run others where
  ran:
    "(batch_step setting prep answer run others)\<^sup>*\<^sup>*
        \<lparr> ba_todo = rows, ba_slots = [], ba_table = t \<rparr> s \<Longrightarrow>
     batch_end setting prep s r \<Longrightarrow> (task_step answer run)\<^sup>*\<^sup>* s s' \<Longrightarrow>
     batch_runs setting prep answer run others rows t r (ba_table s')"

section \<open>Execution of the operations\<close>

text \<open>
  \<open>SELECT .. WHERE .. LIMIT\<close>: without an order, any rows that fulfil the condition, as many as
  there are up to the limit.
\<close>

definition selects :: "('r \<Rightarrow> bool) \<Rightarrow> nat \<Rightarrow> 'r list \<Rightarrow> 'r list \<Rightarrow> bool" where
  "selects P n t rows \<longleftrightarrow> (\<exists>xs. mset xs = mset (filter P t) \<and> rows = take n xs)"

text \<open>\<open>maybe_has_more_work\<close> after the last join.\<close>

definition more_work ::
  "nat \<Rightarrow> 'r list \<Rightarrow> ('p sender_error, unit) res \<Rightarrow> ('p sender_error, bool) res" where
  "more_work limit rows r = bind_res r (\<lambda>_. Ok (length rows = limit))"

inductive add_execute ::
  "'p sender_lib \<Rightarrow> sender_conf \<Rightarrow> ('p answers \<Rightarrow> bool) \<Rightarrow>
   ('p digest_row list \<Rightarrow> 'p digest_row list \<Rightarrow> bool) \<Rightarrow> 'p digest_row list \<Rightarrow>
   ('p sender_error, bool) res \<Rightarrow> 'p digest_row list \<Rightarrow> bool"
  for L C answer others where
  add_query_failed: "add_execute L C answer others t (Err (SenderSql e)) t"
| add_executed:
    "selects (digest_to_send C) (unat (sc_add_batch_limit C)) t rows \<Longrightarrow>
     batch_runs (\<lambda>_. True) (digest_prepare C) answer (digest_send L C) others rows t r t' \<Longrightarrow>
     add_execute L C answer others t (more_work (unat (sc_add_batch_limit C)) rows r) t'"

text \<open>Here the limit is passed as an \<open>i32\<close>; a negative limit is an error of the query.\<close>

inductive allow_execute ::
  "'p sender_lib \<Rightarrow> sender_conf \<Rightarrow> ('p answers \<Rightarrow> bool) \<Rightarrow>
   ('p acl_row list \<Rightarrow> 'p acl_row list \<Rightarrow> bool) \<Rightarrow> 'p acl_row list \<Rightarrow>
   ('p sender_error, bool) res \<Rightarrow> 'p acl_row list \<Rightarrow> bool"
  for L C answer others where
  allow_query_failed: "allow_execute L C answer others t (Err (SenderSql e)) t"
| allow_executed:
    "0 \<le> sint (sc_allow_batch_limit C) \<Longrightarrow>
     selects (acl_to_send C) (unat (sc_allow_batch_limit C)) t rows \<Longrightarrow>
     batch_runs (\<lambda>_. True) (acl_prepare L C) answer (acl_send L C) others rows t r t' \<Longrightarrow>
     allow_execute L C answer others t (more_work (unat (sc_allow_batch_limit C)) rows r) t'"

text \<open>
  The answers to proofs: rows that have used up their retries are removed first (if so
  configured); the rest is taken in the order of their identifiers.
\<close>

definition proof_rows :: "sender_conf \<Rightarrow> 'p proof_row list \<Rightarrow> 'p proof_row list" where
  "proof_rows C t =
     take (unat (sc_proof_batch_limit C)) (sort_key pf_zk_proof_id (filter (proof_to_send C) t))"

definition proof_cleanup ::
  "sender_conf \<Rightarrow> sqlx_error option \<Rightarrow> 'p proof_row list \<Rightarrow>
   ('p sender_error, unit) res \<times> 'p proof_row list" where
  "proof_cleanup C fault t =
     (if sc_proof_remove C then remove_proofs_by_retry_count C fault t else (Ok (), t))"

inductive proof_execute ::
  "'p sender_lib \<Rightarrow> sender_conf \<Rightarrow> (sqlx_error option \<Rightarrow> bool) \<Rightarrow> (preparation \<Rightarrow> bool) \<Rightarrow>
   ('p answers \<Rightarrow> bool) \<Rightarrow> ('p proof_row list \<Rightarrow> 'p proof_row list \<Rightarrow> bool) \<Rightarrow>
   'p proof_row list \<Rightarrow> ('p sender_error, bool) res \<Rightarrow> 'p proof_row list \<Rightarrow> bool"
  for L C fault setting answer others where
  cleanup_failed:
    "fault f \<Longrightarrow> proof_cleanup C f t = (Err e, t') \<Longrightarrow>
     proof_execute L C fault setting answer others t (Err e) t'"
| proof_query_failed:
    "fault f \<Longrightarrow> proof_cleanup C f t = (Ok (), t') \<Longrightarrow> fault (Some e) \<Longrightarrow>
     proof_execute L C fault setting answer others t (Err (SenderSql e)) t'"
| proof_executed:
    "fault f \<Longrightarrow> proof_cleanup C f t = (Ok (), t1) \<Longrightarrow>
     batch_runs setting (proof_prepare L C) answer (process_proof L C) others
       (proof_rows C t1) t1 r t' \<Longrightarrow>
     proof_execute L C fault setting answer others t
       (more_work (unat (sc_proof_batch_limit C)) (proof_rows C t1) r) t'"

section \<open>The loop of an operation\<close>

text \<open>
  One turn of the loop that \<open>run\<close> spawns for each operation: whether the token is cancelled, how
  \<open>execute\<close> ended and what the wait after an idle turn came back with. The loop goes on with a
  value of \<open>sleep_duration\<close>, stops, stops everything, or dies of a panic.
\<close>

datatype notification = StopRequested | Notified | EmptyNotification | ListenerError | PollTimeout

datatype 'p turn_end = Again u64 | Stopped | CancelAll "'p sender_error" | Died panic_reason

definition reset_sleep_duration :: "sender_conf \<Rightarrow> u64" where
  "reset_sleep_duration C = ucast (sc_sleep_initial C)"

definition sleep_with_backoff :: "sender_conf \<Rightarrow> u64 \<Rightarrow> u64" where
  "sleep_with_backoff C d = min (d * 2) (ucast (sc_sleep_max C))"

definition operation_turn ::
  "'p sender_lib \<Rightarrow> sender_conf \<Rightarrow> bool \<Rightarrow> ('p sender_error, bool) res \<Rightarrow> notification \<Rightarrow> u64 \<Rightarrow>
   'p turn_end" where
  "operation_turn L C cancelled executed wake d =
     (if cancelled then Stopped
      else (case executed of
          Err e \<Rightarrow> if is_backend_gone L e then CancelAll e else Again (sleep_with_backoff C d)
        | Panic p \<Rightarrow> Died p
        | Ok True \<Rightarrow> Again (reset_sleep_duration C)
        | Ok False \<Rightarrow>
           (case wake of
              StopRequested \<Rightarrow> Stopped
            | Notified \<Rightarrow> Again (reset_sleep_duration C)
            | EmptyNotification \<Rightarrow> Again (sleep_with_backoff C (reset_sleep_duration C))
            | ListenerError \<Rightarrow> Again (sleep_with_backoff C (reset_sleep_duration C))
            | PollTimeout \<Rightarrow> Again (reset_sleep_duration C))))"

text \<open>The turns of a loop, as long as they go on.\<close>

fun operation_loop ::
  "'p sender_lib \<Rightarrow> sender_conf \<Rightarrow> (bool \<times> ('p sender_error, bool) res \<times> notification) list \<Rightarrow>
   u64 \<Rightarrow> 'p turn_end" where
  "operation_loop L C [] d = Again d"
| "operation_loop L C ((c, x, w) # turns) d =
     (case operation_turn L C c x w d of
        Again d' \<Rightarrow> operation_loop L C turns d'
      | e \<Rightarrow> e)"

end
