(* ===== verification/TxnSenderCorrect.thy ===== *)
theory TxnSenderCorrect
  imports TxnSender
begin

text \<open>
  What the transaction sender promises: a batch always comes to an end, a row is marked as sent only
  after the gateway has taken a call about it, no row is lost or forgets what has failed, and
  verified proofs leave the table after a bounded number of executions. The locale \<open>batch_invariant\<close>
  has what a batch keeps, whatever the order of its tasks and what the other services do meanwhile.
\<close>

section \<open>Batches\<close>

inductive_cases task_stepE: "task_step answer run s s'"
inductive_cases batch_runsE: "batch_runs setting prep answer run others rows t r t'"

lemmas batch_step_intros = batch_step.intros
lemmas batch_end_intros = batch_end.intros

text \<open>
  An invariant of the table, kept by preparations, by tasks that fulfil \<open>J\<close> and by the others, holds
  after the batch.
\<close>

locale batch_invariant =
  fixes setting :: "'b \<Rightarrow> bool"
    and prep :: "'b \<Rightarrow> 'r \<Rightarrow> 'r list \<Rightarrow> ('p sender_error, 'k option \<times> 'r list) res"
    and answer :: "'a \<Rightarrow> bool"
    and run :: "'a \<Rightarrow> 'k \<Rightarrow> 'r list \<Rightarrow> ('p sender_error, unit) res \<times> 'r list"
    and others :: "'r list \<Rightarrow> 'r list \<Rightarrow> bool"
    and I :: "'r list \<Rightarrow> bool" and J :: "'k \<Rightarrow> bool"
  assumes prep_keeps: "setting b \<Longrightarrow> prep b r t = Ok (k, t') \<Longrightarrow> I t \<Longrightarrow> I t'"
    and prep_task: "setting b \<Longrightarrow> prep b r t = Ok (Some k', t') \<Longrightarrow> J k'"
    and run_keeps: "answer a \<Longrightarrow> J k' \<Longrightarrow> I t \<Longrightarrow> run a k' t = (res, t') \<Longrightarrow> I t'"
    and others_keep: "others t t' \<Longrightarrow> I t \<Longrightarrow> I t'"
begin

definition kept :: "('r, 'k, 'p sender_error) batch \<Rightarrow> bool" where
  "kept s \<longleftrightarrow> I (ba_table s) \<and> (\<forall>k. Running k \<in> set (ba_slots s) \<longrightarrow> J k)"

lemma task_step_keeps: "task_step answer run s s' \<Longrightarrow> kept s \<Longrightarrow> kept s'"
  by (erule task_stepE) (auto simp: kept_def dest: run_keeps)

lemma batch_step_keeps:
  "batch_step setting prep answer run others s s' \<Longrightarrow> kept s \<Longrightarrow> kept s'"
proof (induction rule: batch_step.induct)
  case (skipped s r todo b t')
  then show ?case by (auto simp: kept_def dest: prep_keeps)
next
  case (spawned s r todo b k t')
  then have "I t'" "J k" by (auto simp: kept_def dest: prep_keeps prep_task)
  then show ?case using spawned.prems by (auto simp: kept_def)
next
  case (running s s')
  then show ?case by (blast intro: task_step_keeps)
next
  case (joined s us vs)
  then show ?case by (auto simp: kept_def)
next
  case (elsewhere s t')
  then show ?case by (auto simp: kept_def dest: others_keep)
qed

lemma batch_steps_keep:
  "(batch_step setting prep answer run others)\<^sup>*\<^sup>* s s' \<Longrightarrow> kept s \<Longrightarrow> kept s'"
  by (induction rule: rtranclp_induct) (blast intro: batch_step_keeps)+

lemma task_steps_keep: "(task_step answer run)\<^sup>*\<^sup>* s s' \<Longrightarrow> kept s \<Longrightarrow> kept s'"
  by (induction rule: rtranclp_induct) (blast intro: task_step_keeps)+

lemma batch_runs_keeps:
  assumes "batch_runs setting prep answer run others rows t r t'" and "I t"
  shows "I t'"
  using assms(1)
proof (rule batch_runsE)
  fix s s'
  assume s: "(batch_step setting prep answer run others)\<^sup>*\<^sup>*
      \<lparr>ba_todo = rows, ba_slots = [], ba_table = t\<rparr> s"
    "(task_step answer run)\<^sup>*\<^sup>* s s'" "t' = ba_table s'"
  have "kept \<lparr>ba_todo = rows, ba_slots = [], ba_table = t\<rparr>" using assms(2) by (simp add: kept_def)
  then have "kept s'" using s by (blast intro: batch_steps_keep task_steps_keep)
  then show "I t'" by (simp add: kept_def s(3))
qed

end

section \<open>Termination of a batch\<close>

definition slot_work :: "('k, 'e) slot \<Rightarrow> nat" where
  "slot_work x = (case x of Running _ \<Rightarrow> 2 | Finished _ \<Rightarrow> 1)"

definition batch_work :: "('r, 'k, 'e) batch \<Rightarrow> nat" where
  "batch_work s = 3 * length (ba_todo s) + sum_list (map slot_work (ba_slots s))"

lemma batch_step_work:
  "batch_step setting prep answer run (\<lambda>_ _. False) s s' \<Longrightarrow> batch_work s' < batch_work s"
  by (induction rule: batch_step.induct)
    (auto simp: batch_work_def slot_work_def elim!: task_stepE)

lemma batch_moves_or_ends:
  fixes s :: "('r, 'k, 'p sender_error) batch"
  assumes b: "setting b" and a: "answer a"
  shows "(\<exists>s'. batch_step setting prep answer run others s s') \<or> (\<exists>r. batch_end setting prep s r)"
proof (cases "ba_todo s")
  case (Cons r todo)
  show ?thesis
  proof (cases "prep b r (ba_table s)")
    case (Ok p)
    obtain k t' where p: "p = (k, t')" by (cases p)
    show ?thesis
      by (cases k) (use Ok p Cons b in \<open>auto intro: batch_step.skipped batch_step.spawned\<close>)
  next
    case (Err e)
    then show ?thesis using Cons b by (blast intro: preparation_failed)
  next
    case (Panic p)
    then show ?thesis using Cons b by (blast intro: preparation_panicked)
  qed
next
  case Nil
  show ?thesis
  proof (cases "ba_slots s")
    case Nil': Nil
    then show ?thesis using Nil by (blast intro: all_joined)
  next
    case (Cons x xs)
    then have sl: "ba_slots s = [] @ x # xs" by simp
    show ?thesis
    proof (cases x)
      case (Running k)
      obtain r t' where "run a k (ba_table s) = (r, t')" by (cases "run a k (ba_table s)")
      then show ?thesis
        using progressed [of s "[]" k xs answer a run r t'] sl a Running
        by (blast intro: batch_step.running)
    next
      case (Finished r)
      show ?thesis
      proof (cases r)
        case (Ok u)
        then show ?thesis using joined [of s "[]" xs] sl Nil Finished by fastforce
      next
        case (Err e)
        then have "batch_end setting prep s (Err e)"
          using Nil Cons Finished by (intro task_failed) simp_all
        then show ?thesis by blast
      next
        case (Panic p)
        then have "batch_end setting prep s (Err (TaskPanicked p))"
          using Nil Cons Finished by (intro task_panicked) simp_all
        then show ?thesis by blast
      qed
    qed
  qed
qed

lemma batch_reaches_end:
  fixes s :: "('r, 'k, 'p sender_error) batch"
  assumes "setting b" "answer a"
  shows "\<exists>s' r. (batch_step setting prep answer run (\<lambda>_ _. False))\<^sup>*\<^sup>* s s'
           \<and> batch_end setting prep s' r"
proof (induction "batch_work s" arbitrary: s rule: less_induct)
  case less
  from batch_moves_or_ends [where setting = setting and answer = answer and b = b and a = a
      and prep = prep and run = run and others = "\<lambda>_ _. False" and s = s, OF assms]
  show ?case
  proof
    assume "\<exists>s'. batch_step setting prep answer run (\<lambda>_ _. False) s s'"
    then obtain s1 where s1: "batch_step setting prep answer run (\<lambda>_ _. False) s s1" by blast
    from less [OF batch_step_work [OF s1]] show ?case
      using converse_rtranclp_into_rtranclp [of "batch_step setting prep answer run (\<lambda>_ _. False)", OF s1]
      by blast
  qed blast
qed

text \<open>
  Whatever the operation, its rows and the answers: a batch that is left alone by the other
  services cannot run for ever, since every step takes work away from it, and it does not get stuck:
  wherever it stands it can go on to an end (that is, all its tasks joined, or an error).
\<close>

theorem batch_terminates:
  fixes prep :: "'b \<Rightarrow> 'r \<Rightarrow> 'r list \<Rightarrow> ('p sender_error, 'k option \<times> 'r list) res"
  assumes "setting b" "answer a"
  shows "wfP (\<lambda>s' s. batch_step setting prep answer run (\<lambda>_ _. False) s s')
    \<and> (\<exists>s' r. (batch_step setting prep answer run (\<lambda>_ _. False))\<^sup>*\<^sup>* s s'
              \<and> batch_end setting prep s' r)"
proof
  show "wfP (\<lambda>s' s. batch_step setting prep answer run (\<lambda>_ _. False) s s')"
    by (rule wfp_if_convertible_to_nat [where f = batch_work]) (rule batch_step_work)
  show "\<exists>s' r. (batch_step setting prep answer run (\<lambda>_ _. False))\<^sup>*\<^sup>* s s' \<and> batch_end setting prep s' r"
    by (rule batch_reaches_end [where b = b and a = a]) (fact assms)+
qed

section \<open>Statements\<close>

lemma those_map_all2: "those (map g t) = Some t' \<Longrightarrow> list_all2 (\<lambda>x y. g x = Some y) t t'"
proof (induction t arbitrary: t')
  case (Cons x t)
  then show ?case by (auto split: option.splits)
qed simp

lemma update_rows_all2:
  "update_rows fault P f t = (r, t') \<Longrightarrow>
   list_all2 (\<lambda>x y. y = x \<or> (P x \<and> f x = Some y)) t t'"
proof -
  assume u: "update_rows fault P f t = (r, t')"
  have same: "list_all2 (\<lambda>x y. y = x \<or> (P x \<and> f x = Some y)) t t"
    by (simp add: list.rel_refl)
  have some: "list_all2 (\<lambda>x y. y = x \<or> (P x \<and> f x = Some y)) t u"
    if "those (map (\<lambda>r. if P r then f r else Some r) t) = Some u" for u
    by (rule list_all2_mono [OF those_map_all2 [OF that]]) (simp split: if_splits)
  show ?thesis
    using u same some by (auto simp: update_rows_def split: option.splits)
qed

lemma and_then_pair: "snd (and_then u (Pair r)) = snd u"
  by (cases u; cases "fst u") (auto simp: and_then_def)

lemma end_l1_table: "snd (end_l1_transaction a t) = t"
  by (simp add: end_l1_transaction_def)

lemma and_then_table: "(\<And>t. snd (f t) = t) \<Longrightarrow> snd (and_then u f) = snd u"
  by (cases u; cases "fst u") (auto simp: and_then_def)

lemma update_rows_table:
  "list_all2 (\<lambda>x y. y = x \<or> (P x \<and> f x = Some y)) t (snd (update_rows fault P f t))"
  by (rule update_rows_all2 [OF prod.collapse [symmetric]])

section \<open>Only what the gateway took is sent\<close>

text \<open>The gateway takes a call: a receipt of success, or the error that it has been taken before.\<close>

definition accepts :: "(gateway_error \<Rightarrow> bool) \<Rightarrow> 'p answers \<Rightarrow> txn_request \<Rightarrow> bool" where
  "accepts already a q \<longleftrightarrow>
     (case an_send a q of
        Some e \<Rightarrow> already e
      | None \<Rightarrow> (case an_receipt a q of Inl _ \<Rightarrow> False | Inr rc \<Rightarrow> rc_status rc))"

definition commit_of :: "bytes \<Rightarrow> gateway_call \<Rightarrow> bool" where
  "commit_of h c \<longleftrightarrow> (\<exists>key d64 d128. c = AddCiphertextMaterial h key d64 d128)"

definition access_of :: "'p sender_lib \<Rightarrow> bytes \<Rightarrow> string \<Rightarrow> gateway_call \<Rightarrow> bool" where
  "access_of L h account c \<longleftrightarrow>
     c = AllowPublicDecrypt h []
     \<or> (\<exists>addr. address_from_str L account = Some addr \<and> c = AllowAccount h addr [])"

text \<open>No call of a kind is taken.\<close>

definition refuses ::
  "(gateway_error \<Rightarrow> bool) \<Rightarrow> (gateway_call \<Rightarrow> bool) \<Rightarrow> 'p answers \<Rightarrow> bool" where
  "refuses already K a \<longleftrightarrow> (\<forall>q. K (tr_call q) \<longrightarrow> \<not> accepts already a q)"

definition unsent :: "(('p, 'z) txn_row_scheme \<Rightarrow> bool) \<Rightarrow> ('p, 'z) txn_row_scheme list \<Rightarrow> bool" where
  "unsent Q t \<longleftrightarrow> (\<forall>r \<in> set t. Q r \<longrightarrow> \<not> tx_is_sent r)"

lemma accepts_iff:
  "accepts already a q \<longleftrightarrow>
     (case an_send a q of
        Some e \<Rightarrow> already e
      | None \<Rightarrow> (\<exists>rc. an_receipt a q = Inr rc \<and> rc_status rc))"
  by (auto simp: accepts_def split: option.splits sum.splits)

lemma overprovision_call:
  "try_overprovision_gas_limit percent est q = Ok q' \<Longrightarrow> tr_call q' = tr_call q"
  by (auto simp: try_overprovision_gas_limit_def assert_then_def split: if_splits option.splits)

lemma unsent_all2:
  assumes "unsent Q t" and "list_all2 (\<lambda>x y. y = x \<or> (P x \<and> f x = Some y)) t t'"
    and "\<And>x y. x \<in> set t \<Longrightarrow> P x \<Longrightarrow> f x = Some y \<Longrightarrow> Q y \<Longrightarrow>
           Q x \<and> (tx_is_sent y \<longrightarrow> tx_is_sent x)"
  shows "unsent Q t'"
  unfolding unsent_def
proof (intro ballI impI)
  fix y assume y: "y \<in> set t'" "Q y"
  then obtain i where i: "i < length t'" "t' ! i = y" by (auto simp: in_set_conv_nth)
  define x where "x = t ! i"
  have x: "x \<in> set t" "y = x \<or> (P x \<and> f x = Some y)"
    using i list_all2_nthD2 [OF assms(2) i(1)] list_all2_lengthD [OF assms(2)]
    by (auto simp: x_def)
  then show "\<not> tx_is_sent y" using assms(1,3) y unfolding unsent_def by blast
qed

lemma unsent_count_limited:
  assumes "unsent Q t" and "\<And>x y. Q (y) \<Longrightarrow> count_limited e x = Some y \<Longrightarrow> Q x"
  shows "unsent Q (snd (update_rows fault P (count_limited e) t))"
  by (rule unsent_all2 [OF assms(1) update_rows_table])
    (auto dest: assms(2), auto simp: count_limited_def split: if_splits)

lemma unsent_count_unlimited:
  assumes "unsent Q t" and "\<And>x y. Q (y) \<Longrightarrow> count_unlimited e x = Some y \<Longrightarrow> Q x"
  shows "unsent Q (snd (update_rows fault P (count_unlimited e) t))"
  by (rule unsent_all2 [OF assms(1) update_rows_table])
    (auto dest: assms(2), auto simp: count_unlimited_def split: if_splits)

text \<open>The commits of ciphertexts.\<close>

definition already_added :: "'p sender_lib \<Rightarrow> gateway_error \<Rightarrow> bool" where
  "already_added L e \<longleftrightarrow> already_added_error L e \<noteq> None"

definition of_handle :: "bytes \<Rightarrow> 'p digest_row \<Rightarrow> bool" where
  "of_handle h r \<longleftrightarrow> dg_handle r = h"

definition digest_task_ok :: "digest_task \<Rightarrow> bool" where
  "digest_task_ok k \<longleftrightarrow> commit_of (dt_handle k) (tr_call (dt_request k))"

lemma digest_prepare_keeps: "digest_prepare C key r t = Ok (k, t') \<Longrightarrow> t' = t"
  by (auto simp: digest_prepare_def bind_res_eq_Ok split: option.splits)

lemma digest_prepare_task: "digest_prepare C key r t = Ok (Some k, t') \<Longrightarrow> digest_task_ok k"
  by (auto simp: digest_prepare_def digest_task_ok_def commit_of_def with_gas_def
      try_into_array32_def bind_res_eq_Ok split: option.splits if_splits)

lemma digest_set_sent_table:
  fixes t :: "'p digest_row list"
  shows "list_all2 (\<lambda>x y. y = x \<or> (dg_handle x = dt_handle k \<and> mark_sent hash bn x = Some y)) t
     (snd (digest_set_sent a k hash bn t))"
proof -
  have "snd (digest_set_sent a k hash bn t)
      = snd (update_rows (an_update a) (\<lambda>r. dg_handle r = dt_handle k) (mark_sent hash bn) t
             :: ('p sender_error, unit) res \<times> 'p digest_row list)"
    unfolding digest_set_sent_def
    by (rule and_then_table) (simp add: end_l1_table split: option.splits)
  then show ?thesis by (simp only: update_rows_table)
qed

lemma digest_send_table:
  assumes "(try_overprovision_gas_limit (sc_overprovision_percent C) (an_estimate a) (dt_request k)
             :: ('p sender_error, txn_request) res) = Ok q"
  shows "(accepts (already_added L) a q
          \<and> (\<exists>hash bn. digest_send L C a k (t :: 'p digest_row list) = digest_set_sent a k hash bn t))
    \<or> (\<not> accepts (already_added L) a q
       \<and> (\<exists>e. snd (digest_send L C a k t) = snd (digest_count_limited a k e t)
               \<or> snd (digest_send L C a k t) = snd (digest_count_unlimited a k e t)))"
proof (cases "an_send a q")
  case None
  then show ?thesis
    unfolding digest_send_def assms
    by (cases "an_receipt a q") (auto simp: accepts_def and_then_pair)
next
  case (Some e)
  then show ?thesis
    unfolding digest_send_def assms
    by (auto simp: accepts_def already_added_def and_then_pair)
qed

lemma digest_send_refused:
  fixes t :: "'p digest_row list"
  assumes "refuses (already_added L) (commit_of h) a" "digest_task_ok k" "unsent (of_handle h) t"
  shows "unsent (of_handle h) (snd (digest_send L C a k t))"
proof (cases "try_overprovision_gas_limit (sc_overprovision_percent C) (an_estimate a) (dt_request k)
    :: ('p sender_error, txn_request) res")
  case (Ok q)
  have lim: "unsent (of_handle h) (snd (digest_count_limited a k e t))" for e
    unfolding digest_count_limited_def
    by (rule unsent_count_limited [OF assms(3)])
      (auto simp: of_handle_def count_limited_def split: if_splits)
  have unl: "unsent (of_handle h) (snd (digest_count_unlimited a k e t))" for e
    unfolding digest_count_unlimited_def
    by (rule unsent_count_unlimited [OF assms(3)])
      (auto simp: of_handle_def count_unlimited_def split: if_splits)
  have sent: "unsent (of_handle h) (snd (digest_set_sent a k hash bn t))"
    if "accepts (already_added L) a q" for hash bn
  proof -
    have "dt_handle k \<noteq> h"
      using assms(1,2) that overprovision_call [OF Ok]
      by (auto simp: refuses_def digest_task_ok_def)
    then show ?thesis
      by (intro unsent_all2 [OF assms(3) digest_set_sent_table])
        (auto simp: of_handle_def mark_sent_def)
  qed
  from digest_send_table [OF Ok, of L t] show ?thesis using lim unl sent by (elim disjE) auto
qed (use assms(3) in \<open>simp_all add: digest_send_def\<close>)

interpretation digest_unsent: batch_invariant "\<lambda>_. True" "digest_prepare C"
    "refuses (already_added L) (commit_of h)"
    "digest_send L C :: _ \<Rightarrow> _ \<Rightarrow> 'p digest_row list \<Rightarrow> _"
    "\<lambda>t t'. unsent (of_handle h) t \<longrightarrow> unsent (of_handle h) t'"
    "unsent (of_handle h)" digest_task_ok for C L h
proof unfold_locales
  fix a k and t t' :: "'p digest_row list" and res :: "('p sender_error, unit) res"
  assume "refuses (already_added L) (commit_of h) a" "digest_task_ok k" "unsent (of_handle h) t"
    "digest_send L C a k t = (res, t')"
  then show "unsent (of_handle h) t'" by (metis digest_send_refused snd_conv)
qed (blast dest: digest_prepare_keeps digest_prepare_task)+

text \<open>The access rights.\<close>

definition already_allowed :: "'p sender_lib \<Rightarrow> gateway_error \<Rightarrow> bool" where
  "already_allowed L e \<longleftrightarrow> already_allowed_error L e \<noteq> None"

definition of_access :: "i32 \<Rightarrow> bytes \<Rightarrow> string \<Rightarrow> 'p acl_row \<Rightarrow> bool" where
  "of_access tenant h account r \<longleftrightarrow>
     ac_tenant_id r = tenant \<and> ac_handle r = h \<and> ac_account_address r = account"

definition acl_task_ok :: "'p sender_lib \<Rightarrow> acl_task \<Rightarrow> bool" where
  "acl_task_ok L k \<longleftrightarrow> access_of L (at_handle k) (at_account_addr k) (tr_call (at_request k))"

lemma acl_prepare_keeps: "acl_prepare L C known r t = Ok (k, t') \<Longrightarrow> t' = t"
  by (auto simp: acl_prepare_def bind_res_eq_Ok
      split: option.splits res.splits allow_events.splits if_splits)

lemma acl_prepare_task: "acl_prepare L C known r t = Ok (Some k, t') \<Longrightarrow> acl_task_ok L k"
  by (auto simp: acl_prepare_def acl_task_ok_def access_of_def with_gas_def try_into_array32_def
      bind_res_eq_Ok split: option.splits res.splits allow_events.splits if_splits)

lemma acl_set_sent_table:
  fixes t :: "'p acl_row list"
  shows "list_all2 (\<lambda>x y. y = x \<or> (acl_matches k x \<and> mark_sent hash bn x = Some y)) t
     (snd (acl_set_sent a k hash bn t))"
proof -
  have "snd (acl_set_sent a k hash bn t)
      = snd (update_rows (an_update a) (acl_matches k) (mark_sent hash bn) t
             :: ('p sender_error, unit) res \<times> 'p acl_row list)"
    unfolding acl_set_sent_def by (rule and_then_table) (rule end_l1_table)
  then show ?thesis by (simp only: update_rows_table)
qed

lemma acl_send_table:
  assumes "(try_overprovision_gas_limit (sc_overprovision_percent C) (an_estimate a) (at_request k)
             :: ('p sender_error, txn_request) res) = Ok q"
  shows "(accepts (already_allowed L) a q
          \<and> (\<exists>hash bn. acl_send L C a k (t :: 'p acl_row list) = acl_set_sent a k hash bn t))
    \<or> (\<not> accepts (already_allowed L) a q
       \<and> (\<exists>e. snd (acl_send L C a k t) = snd (acl_count_limited a k e t)
               \<or> snd (acl_send L C a k t) = snd (acl_count_unlimited a k e t)))"
proof (cases "an_send a q")
  case None
  then show ?thesis
    unfolding acl_send_def assms
    by (cases "an_receipt a q") (auto simp: accepts_def and_then_pair)
next
  case (Some e)
  then show ?thesis
    unfolding acl_send_def assms
    by (auto simp: accepts_def already_allowed_def and_then_pair)
qed

lemma acl_send_refused:
  fixes t :: "'p acl_row list"
  assumes "refuses (already_allowed L) (access_of L h account) a" "acl_task_ok L k"
    "unsent (of_access tenant h account) t"
  shows "unsent (of_access tenant h account) (snd (acl_send L C a k t))"
proof (cases "try_overprovision_gas_limit (sc_overprovision_percent C) (an_estimate a) (at_request k)
    :: ('p sender_error, txn_request) res")
  case (Ok q)
  have lim: "unsent (of_access tenant h account) (snd (acl_count_limited a k e t))" for e
    unfolding acl_count_limited_def
    by (rule unsent_count_limited [OF assms(3)])
      (auto simp: of_access_def count_limited_def split: if_splits)
  have unl: "unsent (of_access tenant h account) (snd (acl_count_unlimited a k e t))" for e
    unfolding acl_count_unlimited_def
    by (rule unsent_count_unlimited [OF assms(3)])
      (auto simp: of_access_def count_unlimited_def split: if_splits)
  have sent: "unsent (of_access tenant h account) (snd (acl_set_sent a k hash bn t))"
    if "accepts (already_allowed L) a q" for hash bn
  proof -
    have "\<not> (at_handle k = h \<and> at_account_addr k = account)"
      using assms(1,2) that overprovision_call [OF Ok]
      by (auto simp: refuses_def acl_task_ok_def)
    then show ?thesis
      by (intro unsent_all2 [OF assms(3) acl_set_sent_table])
        (auto simp: of_access_def mark_sent_def acl_matches_def)
  qed
  from acl_send_table [OF Ok, of L t] show ?thesis using lim unl sent by (elim disjE) auto
qed (use assms(3) in \<open>simp_all add: acl_send_def\<close>)

interpretation acl_unsent: batch_invariant "\<lambda>_. True" "acl_prepare L C"
    "refuses (already_allowed L) (access_of L h account)"
    "acl_send L C :: _ \<Rightarrow> _ \<Rightarrow> 'p acl_row list \<Rightarrow> _"
    "\<lambda>t t'. unsent (of_access tenant h account) t \<longrightarrow> unsent (of_access tenant h account) t'"
    "unsent (of_access tenant h account)" "acl_task_ok L" for C L tenant h account
proof unfold_locales
  fix a k and t t' :: "'p acl_row list" and res :: "('p sender_error, unit) res"
  assume "refuses (already_allowed L) (access_of L h account) a" "acl_task_ok L k"
    "unsent (of_access tenant h account) t" "acl_send L C a k t = (res, t')"
  then show "unsent (of_access tenant h account) t'" by (metis acl_send_refused snd_conv)
qed (blast dest: acl_prepare_keeps acl_prepare_task)+

text \<open>Fewer answers and fewer things done by others make fewer executions.\<close>

lemma task_step_mono:
  "task_step answer run s s' \<Longrightarrow> (\<And>a. answer a \<Longrightarrow> answer' a) \<Longrightarrow> task_step answer' run s s'"
  by (induction rule: task_step.induct) (rule progressed)

lemma batch_step_mono:
  assumes "batch_step setting prep answer run others s s'"
    and "\<And>a. answer a \<Longrightarrow> answer' a" "\<And>u u'. others u u' \<Longrightarrow> others' u u'"
  shows "batch_step setting prep answer' run others' s s'"
  using assms(1)
proof (induction rule: batch_step.induct)
  case (running s s')
  show ?case by (rule batch_step.running, rule task_step_mono [OF running], rule assms(2))
next
  case (elsewhere s t')
  show ?case by (rule batch_step.elsewhere, rule assms(3), rule elsewhere)
qed (rule batch_step.skipped batch_step.spawned batch_step.joined; assumption)+

lemma batch_runs_mono:
  assumes "batch_runs setting prep answer run others rows t r t'"
    and "\<And>a. answer a \<Longrightarrow> answer' a" "\<And>u u'. others u u' \<Longrightarrow> others' u u'"
  shows "batch_runs setting prep answer' run others' rows t r t'"
  using assms(1)
proof (rule batch_runsE)
  fix s s'
  assume s: "(batch_step setting prep answer run others)\<^sup>*\<^sup>*
      \<lparr>ba_todo = rows, ba_slots = [], ba_table = t\<rparr> s"
    "batch_end setting prep s r" "(task_step answer run)\<^sup>*\<^sup>* s s'" "t' = ba_table s'"
  have "batch_step setting prep answer run others \<le> batch_step setting prep answer' run others'"
    by (rule predicate2I, rule batch_step_mono, assumption) (rule assms(2,3), assumption)+
  moreover have "task_step answer run \<le> task_step answer' run"
    by (rule predicate2I, rule task_step_mono, assumption) (rule assms(2))
  ultimately show ?thesis
    unfolding s(4)
    by (intro ran [OF rtranclp_mono [THEN predicate2D, rotated, OF s(1)] s(2)
          rtranclp_mono [THEN predicate2D, rotated, OF s(3)]])
qed

lemma add_execute_unsent:
  assumes "add_execute L C answer others t r t'"
    and "\<And>a. answer a \<Longrightarrow> refuses (already_added L) (commit_of h) a"
    and "\<And>u u'. others u u' \<Longrightarrow> unsent (of_handle h) u \<Longrightarrow> unsent (of_handle h) u'"
    and "unsent (of_handle h) t"
  shows "unsent (of_handle h) t'"
  using assms
proof (induction rule: add_execute.induct)
  case (add_executed t rows r t')
  show ?case
    by (rule digest_unsent.batch_runs_keeps [OF batch_runs_mono [OF add_executed(2)]])
      (use add_executed in auto)
qed

lemma allow_execute_unsent:
  assumes "allow_execute L C answer others t r t'"
    and "\<And>a. answer a \<Longrightarrow> refuses (already_allowed L) (access_of L h account) a"
    and "\<And>u u'. others u u' \<Longrightarrow> unsent (of_access tenant h account) u \<Longrightarrow>
           unsent (of_access tenant h account) u'"
    and "unsent (of_access tenant h account) t"
  shows "unsent (of_access tenant h account) t'"
  using assms
proof (induction rule: allow_execute.induct)
  case (allow_executed t rows r t')
  show ?case
    by (rule acl_unsent.batch_runs_keeps [OF batch_runs_mono [OF allow_executed(3)]])
      (use allow_executed in auto)
qed

text \<open>
  C35. However the tasks of an execution, its failures and the work of the other services interleave:
  if no row of a handle was marked as sent before and one is marked afterwards (by this operation,
  since the others leave unsent what is unsent), the gateway has taken a call that adds the
  ciphertext of this very handle: it gave a receipt of success, or it answered that the coprocessor
  has added it already.
\<close>

theorem commit_sent_only_if_taken:
  assumes "add_execute L C answer others t r t'"
    and "\<And>u u'. others u u' \<Longrightarrow> (\<forall>x \<in> set u. dg_handle x = h \<longrightarrow> \<not> tx_is_sent x) \<Longrightarrow>
           (\<forall>x \<in> set u'. dg_handle x = h \<longrightarrow> \<not> tx_is_sent x)"
    and "\<forall>x \<in> set t. dg_handle x = h \<longrightarrow> \<not> tx_is_sent x"
    and "y \<in> set t'" "dg_handle y = h" "tx_is_sent y"
  shows "\<exists>a q key d64 d128. answer a \<and> tr_call q = AddCiphertextMaterial h key d64 d128
    \<and> (case an_send a q of
         Some e \<Rightarrow> already_added_error L e \<noteq> None
       | None \<Rightarrow> (\<exists>rc. an_receipt a q = Inr rc \<and> rc_status rc))"
proof (rule ccontr)
  assume none: "\<not> ?thesis"
  have "refuses (already_added L) (commit_of h) a" if "answer a" for a
    using none that unfolding refuses_def accepts_iff commit_of_def already_added_def by blast
  then have "unsent (of_handle h) t'"
    using assms(2,3) by (intro add_execute_unsent [OF assms(1)]) (auto simp: unsent_def of_handle_def)
  then show False using assms(4-6) by (auto simp: unsent_def of_handle_def)
qed

text \<open>
  C36. The same for access rights, row by row: the row of a tenant, a handle and an account becomes
  sent only after the gateway has taken a call that allows the handle for this account, or for
  public decryption.
\<close>

theorem access_sent_only_if_taken:
  assumes "allow_execute L C answer others t r t'"
    and "\<And>u u'. others u u' \<Longrightarrow>
           (\<forall>x \<in> set u. of_access tenant h account x \<longrightarrow> \<not> tx_is_sent x) \<Longrightarrow>
           (\<forall>x \<in> set u'. of_access tenant h account x \<longrightarrow> \<not> tx_is_sent x)"
    and "\<forall>x \<in> set t. of_access tenant h account x \<longrightarrow> \<not> tx_is_sent x"
    and "y \<in> set t'" "of_access tenant h account y" "tx_is_sent y"
  shows "\<exists>a q. answer a \<and> access_of L h account (tr_call q)
    \<and> (case an_send a q of
         Some e \<Rightarrow> already_allowed_error L e \<noteq> None
       | None \<Rightarrow> (\<exists>rc. an_receipt a q = Inr rc \<and> rc_status rc))"
proof (rule ccontr)
  assume none: "\<not> ?thesis"
  have "refuses (already_allowed L) (access_of L h account) a" if "answer a" for a
    using none that unfolding refuses_def accepts_iff already_allowed_def by blast
  then have "unsent (of_access tenant h account) t'"
    using assms(2,3) by (intro allow_execute_unsent [OF assms(1)]) (auto simp: unsent_def)
  then show False using assms(4-6) by (auto simp: unsent_def)
qed

section \<open>Proofs are answered or given up\<close>

text \<open>The attempts a verified proof has left, and one more for its removal.\<close>

definition max_retries :: "sender_conf \<Rightarrow> int" where
  "max_retries C = int (unat (sc_proof_max_retries C))"

definition attempts_left :: "sender_conf \<Rightarrow> 'p proof_row \<Rightarrow> nat" where
  "attempts_left C r =
     (if pf_verified r = None then 0 else Suc (nat (max_retries C - pf_retry_count r)))"

definition proof_weight :: "sender_conf \<Rightarrow> 'p proof_row list \<Rightarrow> nat" where
  "proof_weight C t = sum_list (map (attempts_left C) t)"

definition proof_ok :: "'p sender_lib \<Rightarrow> 'p proof_row \<Rightarrow> bool" where
  "proof_ok L r \<longleftrightarrow>
     (pf_verified r = Some True \<longrightarrow>
        pf_handles r \<noteq> None \<and> address_from_str L (pf_user_address r) \<noteq> None
        \<and> address_from_str L (pf_contract_address r) \<noteq> None)"

definition signs :: "preparation \<Rightarrow> bool" where
  "signs b \<longleftrightarrow> pr_remove b = None \<and> (\<forall>h. pr_sign b h \<noteq> None)"

definition updates :: "'p answers \<Rightarrow> bool" where
  "updates a \<longleftrightarrow> an_update a = None"

lemma attempts_left_zero: "attempts_left C r = 0 \<longleftrightarrow> pf_verified r = None"
  by (simp add: attempts_left_def)

lemma proof_weight_zero: "proof_weight C t = 0 \<longleftrightarrow> (\<forall>r \<in> set t. pf_verified r = None)"
  by (auto simp: proof_weight_def attempts_left_zero sum_list_eq_0_iff)

lemma weight_filter: "proof_weight C (filter P t) \<le> proof_weight C t"
  by (induction t) (simp_all add: proof_weight_def)

lemma weight_filter_less:
  "r \<in> set t \<Longrightarrow> \<not> P r \<Longrightarrow> pf_verified r \<noteq> None \<Longrightarrow> proof_weight C (filter P t) < proof_weight C t"
proof (induction t)
  case (Cons x t)
  have le: "proof_weight C (filter P t) \<le> proof_weight C t" by (rule weight_filter)
  show ?case
  proof (cases "x = r")
    case True
    have "0 < attempts_left C r" using Cons.prems(3) by (simp add: attempts_left_def)
    then show ?thesis using True le Cons.prems(2) by (simp add: proof_weight_def)
  next
    case False
    then have "proof_weight C (filter P t) < proof_weight C t" using Cons by simp
    then show ?thesis by (simp add: proof_weight_def)
  qed
qed simp

lemma weight_all2:
  "list_all2 (\<lambda>x y. attempts_left C y \<le> attempts_left C x) t t' \<Longrightarrow>
   proof_weight C t' \<le> proof_weight C t"
  by (induction rule: list_all2_induct) (simp_all add: proof_weight_def)

lemma weight_all2_less:
  "list_all2 (\<lambda>x y. attempts_left C y \<le> attempts_left C x) t t' \<Longrightarrow>
   i < length t \<Longrightarrow> attempts_left C (t' ! i) < attempts_left C (t ! i) \<Longrightarrow>
   proof_weight C t' < proof_weight C t"
proof (induction arbitrary: i rule: list_all2_induct)
  case (Cons x t y t')
  show ?case
  proof (cases i)
    case 0
    then show ?thesis
      using weight_all2 [OF Cons.hyps(2)] Cons.prems by (simp add: proof_weight_def)
  next
    case (Suc j)
    then have "proof_weight C t' < proof_weight C t" using Cons by simp
    then show ?thesis using Cons.hyps(1) by (simp add: proof_weight_def)
  qed
qed simp

lemma count_retry_weight: "count_retry e x = Some y \<Longrightarrow> attempts_left C y \<le> attempts_left C x"
  by (auto simp: count_retry_def attempts_left_def split: if_splits)

lemma count_retry_less:
  "count_retry e x = Some y \<Longrightarrow> proof_to_send C x \<Longrightarrow> attempts_left C y < attempts_left C x"
  by (auto simp: count_retry_def attempts_left_def proof_to_send_def max_retries_def split: if_splits)

lemma count_retry_ok: "count_retry e x = Some y \<Longrightarrow> proof_ok L x \<Longrightarrow> proof_ok L y"
  by (auto simp: count_retry_def proof_ok_def split: if_splits)

text \<open>What an answer does to the table, on every branch.\<close>

lemma process_proof_table:
  fixes t :: "'p proof_row list"
  assumes "100 \<le> sc_overprovision_percent C" "an_update a = None"
  shows "snd (process_proof L C a k t) = filter (\<lambda>r. pf_zk_proof_id r \<noteq> pt_zk_proof_id k) t
    \<or> (\<exists>e. snd (process_proof L C a k t)
            = snd (update_rows None (\<lambda>r. pf_zk_proof_id r = pt_zk_proof_id k) (count_retry e) t
                   :: ('p sender_error, unit) res \<times> 'p proof_row list))"
proof -
  obtain q :: txn_request where q:
    "(try_overprovision_gas_limit (sc_overprovision_percent C) (an_estimate a) (pt_request k)
      :: ('p sender_error, txn_request) res) = Ok q"
    using assms(1) by (simp add: try_overprovision_gas_limit_def)
  have del: "snd (remove_proof_by_id None i t :: ('p sender_error, unit) res \<times> _)
      = filter (\<lambda>r. pf_zk_proof_id r \<noteq> i) t" for i
    by (simp add: remove_proof_by_id_def delete_rows_def)
  show ?thesis
  proof (cases "an_send a q")
    case None
    show ?thesis
    proof (cases "an_receipt a q")
      case (Inl p)
      then show ?thesis using None assms(2)
        by (auto simp: process_proof_def q and_then_pair update_retry_count_by_proof_id_def)
    next
      case (Inr rc)
      then show ?thesis using None assms(2)
        by (cases "rc_status rc")
          (auto simp: process_proof_def Let_def q and_then_pair update_retry_count_by_proof_id_def
            del)
    qed
  next
    case (Some e)
    show ?thesis
    proof (cases "Option.bind (as_error_resp e) (decode_input L)")
      case None
      then show ?thesis using Some assms(2)
        by (auto simp: process_proof_def q and_then_pair update_retry_count_by_proof_id_def)
    next
      case dec: (Some d)
      then show ?thesis using Some by (cases d) (simp_all add: process_proof_def q del assms(2))
    qed
  qed
qed

definition draining :: "'p sender_lib \<Rightarrow> sender_conf \<Rightarrow> nat \<Rightarrow> 'p proof_row list \<Rightarrow> bool" where
  "draining L C w t \<longleftrightarrow> proof_weight C t \<le> w \<and> (\<forall>r \<in> set t. proof_ok L r)"

lemma counted_weight:
  "list_all2 (\<lambda>x y. y = x \<or> (P x \<and> count_retry e x = Some y)) t t' \<Longrightarrow>
   list_all2 (\<lambda>x y. attempts_left C y \<le> attempts_left C x) t t'"
  by (erule list_all2_mono) (auto dest: count_retry_weight)

lemma counted_ok:
  "list_all2 (\<lambda>x y. y = x \<or> (P x \<and> count_retry e x = Some y)) t t' \<Longrightarrow>
   \<forall>r \<in> set t. proof_ok L r \<Longrightarrow> \<forall>r \<in> set t'. proof_ok L r"
  by (induction rule: list_all2_induct) (auto dest: count_retry_ok)

lemma draining_counted:
  assumes "draining L C w t"
    and u: "list_all2 (\<lambda>x y. y = x \<or> (P x \<and> count_retry e x = Some y)) t t'"
  shows "draining L C w t'"
proof -
  have "proof_weight C t' \<le> w"
    using weight_all2 [OF counted_weight [OF u], of C] assms(1) by (simp add: draining_def)
  moreover have "\<forall>r \<in> set t'. proof_ok L r"
    by (rule counted_ok [OF u]) (use assms(1) in \<open>simp add: draining_def\<close>)
  ultimately show ?thesis by (simp add: draining_def)
qed

lemma draining_filter: "draining L C w t \<Longrightarrow> draining L C w (filter P t)"
  using weight_filter [of C P t] by (auto simp: draining_def)

lemma process_proof_draining:
  fixes t :: "'p proof_row list"
  assumes "100 \<le> sc_overprovision_percent C" "updates a" "draining L C w t"
  shows "draining L C w (snd (process_proof L C a k t))"
proof -
  have "an_update a = None" using assms(2) by (simp add: updates_def)
  from process_proof_table [OF assms(1) this, of L k t] show ?thesis
  proof
    assume "snd (process_proof L C a k t) = filter (\<lambda>r. pf_zk_proof_id r \<noteq> pt_zk_proof_id k) t"
    then show ?thesis using draining_filter [OF assms(3)] by simp
  next
    assume "\<exists>e. snd (process_proof L C a k t)
        = snd (update_rows None (\<lambda>r. pf_zk_proof_id r = pt_zk_proof_id k) (count_retry e) t
               :: ('p sender_error, unit) res \<times> 'p proof_row list)"
    then show ?thesis
      by (elim exE) (simp only:, rule draining_counted [OF assms(3) update_rows_table])
  qed
qed

lemma proof_prepare_table:
  "proof_prepare L C b r t = Ok (k, t') \<Longrightarrow>
   (k \<noteq> None \<longrightarrow> t' = t \<and> pt_zk_proof_id (the k) = pf_zk_proof_id r)
   \<and> (k = None \<longrightarrow> (pf_verified r = None \<and> t' = t)
        \<or> t' = filter (\<lambda>x. pf_zk_proof_id x \<noteq> pf_zk_proof_id r) t)"
  by (auto simp: proof_prepare_def remove_proof_by_id_def delete_rows_def
      split: option.splits if_splits bool.splits)

lemma proof_prepare_draining:
  "proof_prepare L C b r t = Ok (k, t') \<Longrightarrow> draining L C w t \<Longrightarrow> draining L C w t'"
  using weight_filter [of C "\<lambda>x. pf_zk_proof_id x \<noteq> pf_zk_proof_id r" t]
  by (cases k) (auto dest!: proof_prepare_table simp: draining_def)

interpretation proofs_drain_locale: batch_invariant setting "proof_prepare L C" updates
    "process_proof L C :: _ \<Rightarrow> _ \<Rightarrow> 'p proof_row list \<Rightarrow> _" "(=)"
    "\<lambda>t. 100 \<le> sc_overprovision_percent C \<longrightarrow> draining L C w t" "\<lambda>_. True" for setting C L w
proof unfold_locales
  fix a k and t t' :: "'p proof_row list" and res :: "('p sender_error, unit) res"
  assume "updates a" "100 \<le> sc_overprovision_percent C \<longrightarrow> draining L C w t"
    "process_proof L C a k t = (res, t')"
  then show "100 \<le> sc_overprovision_percent C \<longrightarrow> draining L C w t'"
    by (metis process_proof_draining snd_conv)
qed (auto dest: proof_prepare_draining)

text \<open>A row to send: its preparation spawns or removes it, and its task makes progress.\<close>

lemma proof_prepare_signs:
  assumes "signs b" "proof_ok L r" "pf_verified r \<noteq> None"
  shows "\<exists>k t'. proof_prepare L C b r t = Ok (k, t')"
proof (cases "pf_verified r")
  case (Some v)
  show ?thesis
  proof (cases v)
    case True
    then obtain hs u c where row: "pf_handles r = Some hs"
      "address_from_str L (pf_user_address r) = Some u" "address_from_str L (pf_contract_address r) = Some c"
      using assms(2) Some by (auto simp: proof_ok_def)
    obtain sig where "pr_sign b (signing_hash L (sc_gw_chain_id C) (sc_input_verification C)
        (chunks32 hs) u c (pf_chain_id r) (pf_extra_data r)) = Some sig"
      using assms(1) unfolding signs_def by blast
    then show ?thesis
      using Some True row assms(1)
      by (simp add: proof_prepare_def signs_def remove_proof_by_id_def delete_rows_def Let_def)
  next
    case False
    then show ?thesis using Some by (simp add: proof_prepare_def Let_def)
  qed
qed (use assms(3) in simp)

lemma counted_less:
  assumes "r \<in> set t" "proof_to_send C r" "pf_zk_proof_id r = i"
    and "\<forall>x \<in> set t. pf_retry_count x < max_retries C" "max_retries C \<le> int_max"
  shows "proof_weight C (snd (update_rows None (\<lambda>r. pf_zk_proof_id r = i) (count_retry e) t))
    < proof_weight C t"
proof -
  define g where "g = (\<lambda>r :: 'a proof_row. if pf_zk_proof_id r = i then count_retry e r else Some r)"
  have "\<forall>x \<in> set t. g x \<noteq> None"
    using assms(4,5) by (auto simp: g_def count_retry_def)
  then have "those (map g t) \<noteq> None" by (induction t) auto
  then obtain t' where t': "those (map g t) = Some t'" by blast
  then have upd: "snd (update_rows None (\<lambda>r. pf_zk_proof_id r = i) (count_retry e) t) = t'"
    by (simp add: update_rows_def g_def)
  have all2: "list_all2 (\<lambda>x y. g x = Some y) t t'" by (rule those_map_all2 [OF t'])
  obtain n where n: "n < length t" "t ! n = r" using assms(1) by (auto simp: in_set_conv_nth)
  have "count_retry e r = Some (t' ! n)"
    using list_all2_nthD [OF all2 n(1)] n(2) assms(3) by (simp add: g_def)
  then have "attempts_left C (t' ! n) < attempts_left C (t ! n)"
    using count_retry_less assms(2) n(2) by blast
  moreover have "list_all2 (\<lambda>x y. attempts_left C y \<le> attempts_left C x) t t'"
    by (rule list_all2_mono [OF all2]) (auto simp: g_def dest: count_retry_weight split: if_splits)
  ultimately show ?thesis unfolding upd by (rule weight_all2_less [OF _ n(1), rotated])
qed

lemma process_proof_less:
  fixes t :: "'p proof_row list"
  assumes "100 \<le> sc_overprovision_percent C" "updates a"
    and r: "r \<in> set t" "proof_to_send C r" "pf_zk_proof_id r = pt_zk_proof_id k"
    and "\<forall>x \<in> set t. pf_retry_count x < max_retries C" "max_retries C \<le> int_max"
  shows "proof_weight C (snd (process_proof L C a k t)) < proof_weight C t"
proof -
  have "an_update a = None" using assms(2) by (simp add: updates_def)
  from process_proof_table [OF assms(1) this, of L k t] show ?thesis
  proof
    assume "snd (process_proof L C a k t) = filter (\<lambda>r. pf_zk_proof_id r \<noteq> pt_zk_proof_id k) t"
    then show ?thesis
      using weight_filter_less [OF r(1), of "\<lambda>r. pf_zk_proof_id r \<noteq> pt_zk_proof_id k" C] r(2,3)
      by (simp add: proof_to_send_def)
  next
    assume "\<exists>e. snd (process_proof L C a k t)
        = snd (update_rows None (\<lambda>r. pf_zk_proof_id r = pt_zk_proof_id k) (count_retry e) t
               :: ('p sender_error, unit) res \<times> 'p proof_row list)"
    then show ?thesis
      by (elim exE) (simp only:, rule counted_less [OF r assms(6,7)])
  qed
qed

text \<open>
  One execution: until something has happened the table is the one it started with and every task
  of the set is a row to send that still runs.
\<close>

definition waiting ::
  "sender_conf \<Rightarrow> 'p proof_row list \<Rightarrow> ('p proof_row, proof_task, 'p sender_error) batch \<Rightarrow> bool" where
  "waiting C t s \<longleftrightarrow>
     ba_table s = t \<and> set (ba_todo s) \<subseteq> set (filter (proof_to_send C) t)
     \<and> (\<forall>x \<in> set (ba_slots s). \<exists>k. x = Running k
          \<and> (\<exists>r \<in> set t. proof_to_send C r \<and> pf_zk_proof_id r = pt_zk_proof_id k))
     \<and> (ba_todo s \<noteq> [] \<or> ba_slots s \<noteq> [])"

definition advanced ::
  "'p sender_lib \<Rightarrow> sender_conf \<Rightarrow> 'p proof_row list \<Rightarrow>
   ('p proof_row, proof_task, 'p sender_error) batch \<Rightarrow> bool" where
  "advanced L C t s \<longleftrightarrow>
     proof_weight C (ba_table s) < proof_weight C t \<and> (\<forall>r \<in> set (ba_table s). proof_ok L r)"

lemma advanced_draining:
  "advanced L C t s \<longleftrightarrow>
   0 < proof_weight C t \<and> draining L C (proof_weight C t - 1) (ba_table s)"
  by (auto simp: advanced_def draining_def)

lemma waiting_step:
  fixes t :: "'p proof_row list"
  assumes conf: "100 \<le> sc_overprovision_percent C" "max_retries C \<le> int_max"
    and t: "\<forall>x \<in> set t. pf_retry_count x < max_retries C" "\<forall>x \<in> set t. proof_ok L x"
    and "batch_step signs (proof_prepare L C) updates (process_proof L C) (=) s s'" "waiting C t s"
  shows "waiting C t s' \<or> advanced L C t s'"
  using assms(5,6)
proof (induction rule: batch_step.induct)
  case (skipped s r todo b t')
  have r: "r \<in> set t" "proof_to_send C r" and s: "ba_table s = t"
    using skipped by (auto simp: waiting_def)
  have "pf_verified r \<noteq> None" using r(2) by (simp add: proof_to_send_def)
  then have t': "t' = filter (\<lambda>x. pf_zk_proof_id x \<noteq> pf_zk_proof_id r) t"
    using proof_prepare_table [OF skipped(3)] s by auto
  then show ?case
    using weight_filter_less [OF r(1), of "\<lambda>x. pf_zk_proof_id x \<noteq> pf_zk_proof_id r" C] t(2)
      \<open>pf_verified r \<noteq> None\<close>
    by (simp add: advanced_def)
next
  case (spawned s r todo b k t')
  then have "t' = t" "pt_zk_proof_id k = pf_zk_proof_id r" "r \<in> set t" "proof_to_send C r"
    using proof_prepare_table [OF spawned(3)] by (auto simp: waiting_def)
  then show ?case using spawned by (auto simp: waiting_def)
next
  case (running s s')
  from running(1) show ?case
  proof (rule task_stepE)
    fix us k vs a r t'
    assume p: "s' = s\<lparr>ba_slots := us @ Finished r # vs, ba_table := t'\<rparr>"
      "ba_slots s = us @ Running k # vs" "updates a" "process_proof L C a k (ba_table s) = (r, t')"
    obtain x where x: "x \<in> set t" "proof_to_send C x" "pf_zk_proof_id x = pt_zk_proof_id k"
      using running(2) p(2) by (auto simp: waiting_def)
    have s: "ba_table s = t" using running(2) by (simp add: waiting_def)
    have "proof_weight C t' < proof_weight C t"
      using process_proof_less [OF conf(1) p(3) x t(1) conf(2), of L] p(4) s by simp
    moreover have "draining L C (proof_weight C t) t'"
      using process_proof_draining [OF conf(1) p(3), of L "proof_weight C t" t k] t(2) p(4) s
      by (simp add: draining_def)
    ultimately show ?thesis by (simp add: p(1) advanced_def draining_def)
  qed
next
  case (joined s us vs)
  then show ?case by (auto simp: waiting_def)
next
  case (elsewhere s t')
  then show ?case by (simp add: waiting_def)
qed

lemma advanced_step:
  assumes "100 \<le> sc_overprovision_percent C"
    and "batch_step signs (proof_prepare L C) updates (process_proof L C) (=) s s'" "advanced L C t s"
  shows "advanced L C t s'"
proof -
  have "proofs_drain_locale.kept C L (proof_weight C t - 1) s"
    using assms(3) by (simp add: proofs_drain_locale.kept_def advanced_draining)
  from proofs_drain_locale.batch_step_keeps [OF assms(2) this]
  have "draining L C (proof_weight C t - 1) (ba_table s')"
    unfolding proofs_drain_locale.kept_def using assms(1) by blast
  then show ?thesis using assms(3) by (simp add: advanced_draining)
qed

lemma waiting_no_end:
  fixes t :: "'p proof_row list"
  assumes "\<forall>x \<in> set t. proof_ok L x" "waiting C t s"
  shows "\<not> batch_end signs (proof_prepare L C) s r"
proof
  assume "batch_end signs (proof_prepare L C) s r"
  then show False
  proof cases
    case (preparation_failed r todo b e)
    then have "proof_ok L r" "pf_verified r \<noteq> None"
      using assms by (auto simp: waiting_def proof_to_send_def)
    then show False
      using proof_prepare_signs [OF preparation_failed(3), of L r C "ba_table s"] preparation_failed(4)
      by auto
  next
    case (preparation_panicked r todo b p)
    then have "proof_ok L r" "pf_verified r \<noteq> None"
      using assms by (auto simp: waiting_def proof_to_send_def)
    then show False
      using proof_prepare_signs [OF preparation_panicked(3), of L r C "ba_table s"] preparation_panicked(4)
      by auto
  qed (use assms(2) in \<open>auto simp: waiting_def\<close>)
qed

lemma batch_runs_advanced:
  fixes t :: "'p proof_row list"
  assumes conf: "100 \<le> sc_overprovision_percent C" "max_retries C \<le> int_max"
    and t: "\<forall>x \<in> set t. pf_retry_count x < max_retries C" "\<forall>x \<in> set t. proof_ok L x"
    and rows: "rows \<noteq> []" "set rows \<subseteq> set (filter (proof_to_send C) t)"
    and run: "batch_runs signs (proof_prepare L C) updates (process_proof L C) (=) rows t r t'"
  shows "proof_weight C t' < proof_weight C t \<and> (\<forall>r \<in> set t'. proof_ok L r)"
  using run
proof (rule batch_runsE)
  fix s s'
  let ?s = "\<lparr>ba_todo = rows, ba_slots = [], ba_table = t\<rparr>"
  assume s: "(batch_step signs (proof_prepare L C) updates (process_proof L C) (=))\<^sup>*\<^sup>* ?s s"
    "batch_end signs (proof_prepare L C) s r"
    "(task_step updates (process_proof L C))\<^sup>*\<^sup>* s s'" "t' = ba_table s'"
  have "waiting C t ?s" using rows by (simp add: waiting_def)
  with s(1) have "waiting C t s \<or> advanced L C t s"
    by (induction rule: rtranclp_induct)
      (use waiting_step [OF conf t] advanced_step [OF conf(1)] in blast)+
  then have "advanced L C t s" using waiting_no_end [OF t(2)] s(2) by blast
  with s(3) have "advanced L C t s'"
    by (induction rule: rtranclp_induct)
      (use advanced_step [OF conf(1) batch_step.running] in blast)+
  then show ?thesis by (simp add: advanced_def s(4))
qed

lemma cleanup_ok:
  assumes "proof_cleanup C None t = (r, t1)" "sc_proof_remove C"
  shows "r = Ok () \<and> t1 = filter (\<lambda>x. \<not> max_retries C \<le> pf_retry_count x) t"
  using assms
  by (simp add: proof_cleanup_def remove_proofs_by_retry_count_def delete_rows_def max_retries_def)

lemma proof_execute_drains:
  assumes conf: "100 \<le> sc_overprovision_percent C" "max_retries C \<le> int_max"
      "sc_proof_batch_limit C \<noteq> 0" "sc_proof_remove C"
    and ok: "\<forall>x \<in> set t. proof_ok L x"
    and run: "proof_execute L C (\<lambda>f. f = None) signs updates (=) t r t'"
  shows "(\<forall>x \<in> set t'. proof_ok L x)
    \<and> (0 < proof_weight C t \<longrightarrow> proof_weight C t' < proof_weight C t)
    \<and> proof_weight C t' \<le> proof_weight C t"
  using run
proof cases
  case (proof_executed f t1 r')
  define P where "P = (\<lambda>x :: 'a proof_row. \<not> max_retries C \<le> pf_retry_count x)"
  have t1: "t1 = filter P t"
    using cleanup_ok [of C t "Ok ()" t1] proof_executed(2,3) conf(4) by (simp add: P_def)
  have low: "\<forall>x \<in> set t1. pf_retry_count x < max_retries C" by (auto simp: t1 P_def)
  have ok1: "\<forall>x \<in> set t1. proof_ok L x" using ok by (simp add: t1)
  have le: "proof_weight C t1 \<le> proof_weight C t" by (simp add: t1 weight_filter)
  show ?thesis
  proof (cases "proof_rows C t1 = []")
    case False
    have "set (proof_rows C t1) \<subseteq> set (filter (proof_to_send C) t1)"
      unfolding proof_rows_def by (rule subset_trans [OF set_take_subset]) simp
    from batch_runs_advanced [OF conf(1,2) low ok1 False this proof_executed(4)] show ?thesis
      using le by linarith
  next
    case True
    have lim: "unat (sc_proof_batch_limit C) \<noteq> 0" using conf(3) by (simp add: unat_eq_zero)
    have none: "\<forall>x \<in> set t1. pf_verified x = None"
    proof
      fix x assume x: "x \<in> set t1"
      have "sort_key pf_zk_proof_id (filter (proof_to_send C) t1) = []"
        using True lim by (simp add: proof_rows_def)
      then have "set (sort_key pf_zk_proof_id (filter (proof_to_send C) t1)) = {}" by simp
      then have "filter (proof_to_send C) t1 = []" by (simp only: set_sort set_empty)
      then have "\<not> proof_to_send C x" using x by (auto simp: filter_empty_conv)
      then show "pf_verified x = None"
        using low x by (auto simp: proof_to_send_def max_retries_def)
    qed
    then have zero: "proof_weight C t1 = 0" by (simp add: proof_weight_zero)
    have "100 \<le> sc_overprovision_percent C \<longrightarrow> draining L C 0 t1"
      using zero ok1 by (simp add: draining_def)
    from proofs_drain_locale.batch_runs_keeps [OF proof_executed(4) this]
    have "draining L C 0 t'" using conf(1) by blast
    then show ?thesis by (simp add: draining_def)
  qed
next
  case (cleanup_failed f e)
  then show ?thesis using cleanup_ok [of C t "Err e" t'] conf(4) by simp
qed simp

lemma proof_executions_drain:
  assumes "100 \<le> sc_overprovision_percent C" "max_retries C \<le> int_max"
      "sc_proof_batch_limit C \<noteq> 0" "sc_proof_remove C"
    and "\<forall>x \<in> set t. proof_ok L x"
    and "((\<lambda>t t'. \<exists>r. proof_execute L C (\<lambda>f. f = None) signs updates (=) t r t') ^^ n) t t'"
  shows "(\<forall>x \<in> set t'. proof_ok L x) \<and> proof_weight C t' \<le> proof_weight C t - n"
  using assms(6)
proof (induction n arbitrary: t')
  case (Suc n)
  from Suc.prems obtain u r where
    u: "((\<lambda>t t'. \<exists>r. proof_execute L C (\<lambda>f. f = None) signs updates (=) t r t') ^^ n) t u"
      "proof_execute L C (\<lambda>f. f = None) signs updates (=) u r t'"
    by (auto elim: relpow_Suc_E)
  from Suc.IH [OF u(1)] have ih: "\<forall>x \<in> set u. proof_ok L x" "proof_weight C u \<le> proof_weight C t - n"
    by blast+
  from proof_execute_drains [OF assms(1-4) ih(1) u(2)] show ?case using ih(2) by linarith
qed (use assms(5) in simp)


section \<open>A row that cannot be prepared\<close>

lemma first_sorted:
  fixes f :: "'r \<Rightarrow> nat"
  assumes "x \<in> set t" "\<forall>y \<in> set t. y \<noteq> x \<longrightarrow> f x < f y"
  shows "\<exists>ys. sort_key f t = x # ys"
proof (cases "sort_key f t")
  case Nil
  then have "set (sort_key f t) = {}" by simp
  then show ?thesis using assms(1) by simp
next
  case (Cons y ys)
  have in_t: "x \<in> set (y # ys)" "y \<in> set t"
    using assms(1) set_sort [of f t] Cons by auto
  have "f y \<le> f x"
    using in_t(1) sorted_sort_key [of f t] Cons by auto
  then have "y = x" using assms(2) in_t(2) by (metis not_less)
  then show ?thesis using Cons by simp
qed

lemma blocked_batch:
  assumes "\<And>b t. setting b \<Longrightarrow> prep b r t = Err e"
    and "batch_runs setting prep answer run (=) (r # rows) t res t'"
  shows "res = Err e \<and> t' = t"
  using assms(2)
proof (rule batch_runsE)
  fix s s'
  let ?s = "\<lparr>ba_todo = r # rows, ba_slots = [], ba_table = t\<rparr>"
  assume s: "(batch_step setting prep answer run (=))\<^sup>*\<^sup>* ?s s" "batch_end setting prep s res"
    "(task_step answer run)\<^sup>*\<^sup>* s s'" "t' = ba_table s'"
  have stuck: "s2 = ?s" if "batch_step setting prep answer run (=) ?s s2" for s2
    using that by cases (auto simp: assms(1) elim: task_stepE)
  from s(1) have "s = ?s" by (induction rule: rtranclp_induct) (auto dest: stuck)
  moreover from s(3) this have "s' = ?s"
    by (induction rule: rtranclp_induct) (auto elim: task_stepE)
  ultimately show ?thesis using s(2,4) by (auto simp: assms(1) elim!: batch_end.cases)
qed

text \<open>
  A verified proof without handles that is first in the order blocks the operation: every
  execution ends with an error before it answers any proof, the attempts of the proofs to answer
  are not counted, and all of them are still to answer afterwards. (With retries left it is not
  removed, and it is never retried.)
\<close>

theorem unprepared_proof_blocks:
  assumes "x \<in> set t" "proof_to_send C x" "pf_verified x = Some True" "pf_handles x = None"
    and "\<forall>y \<in> set t. proof_to_send C y \<longrightarrow> y \<noteq> x \<longrightarrow> pf_zk_proof_id x < pf_zk_proof_id y"
    and "sc_proof_batch_limit C \<noteq> 0"
    and "proof_execute L C fault setting answer (=) t r t'"
  shows "is_err r \<and> filter (proof_to_send C) t' = filter (proof_to_send C) t"
proof -
  have kept: "filter (proof_to_send C) t1 = filter (proof_to_send C) t"
    if "proof_cleanup C f t = (q, t1)" for f t1 and q :: "('a sender_error, unit) res"
  proof -
    have "filter (proof_to_send C) (filter (\<lambda>r. \<not> int (unat (sc_proof_max_retries C)) \<le> pf_retry_count r) t)
        = filter (proof_to_send C) t"
      unfolding filter_filter by (rule filter_cong) (auto simp: proof_to_send_def)
    then show ?thesis
      using that by (auto simp: proof_cleanup_def remove_proofs_by_retry_count_def delete_rows_def
          split: if_splits option.splits)
  qed
  from assms(7) show ?thesis
  proof cases
    case (proof_executed f t1 r')
    have lim: "0 < unat (sc_proof_batch_limit C)"
      using assms(6) by (simp add: unat_gt_0)
    obtain ys where "sort_key pf_zk_proof_id (filter (proof_to_send C) t) = x # ys"
      using first_sorted [of x "filter (proof_to_send C) t" pf_zk_proof_id] assms(1,2,5) by auto
    then have rows: "proof_rows C t1 = x # take (unat (sc_proof_batch_limit C) - 1) ys"
      using lim by (simp add: proof_rows_def kept [OF proof_executed(3)] take_Cons')
    have prep: "proof_prepare L C b x u = Err HandlesNone" for b u
      by (simp add: proof_prepare_def assms(3,4) Let_def)
    from blocked_batch [OF prep proof_executed(4) [unfolded rows]]
    show ?thesis using kept [OF proof_executed(3)] proof_executed(1) by (simp add: more_work_def)
  qed (use kept in simp_all)
qed

section \<open>Backing off\<close>

lemma unat_u16_bound: "unat (v :: u16) \<le> 65535"
proof -
  have "unat v < 2 ^ LENGTH(16)" by (rule unsigned_less)
  then show ?thesis by simp
qed

lemma unat_u16_as_u64: "unat (ucast (v :: u16) :: u64) = unat v"
  using unat_u16_bound [of v] by (simp add: unsigned_ucast_eq take_bit_nat_eq_self_iff)

lemma backoff_double:
  assumes "unat d \<le> 65535"
  shows "unat (sleep_with_backoff C d) = min (unat d * 2) (unat (sc_sleep_max C))"
proof -
  have d2: "unat (d * 2) = unat d * 2"
    using assms by (simp add: unat_word_ariths)
  have m: "unat (ucast (sc_sleep_max C) :: u64) = unat (sc_sleep_max C)"
    by (rule unat_u16_as_u64)
  show ?thesis
    unfolding sleep_with_backoff_def
    by (cases "d * 2 \<le> ucast (sc_sleep_max C)")
      (auto simp: min_def word_le_nat_alt d2 m)
qed

lemma operation_turn_error:
  "\<not> is_backend_gone L e \<Longrightarrow>
   operation_turn L C False (Err e) w d = Again (sleep_with_backoff C d)"
  by (simp add: operation_turn_def)

lemma backoff_loop:
  assumes "\<And>c x w. (c, x, w) \<in> set turns \<Longrightarrow> \<not> c \<and> (\<exists>e. x = Err e \<and> \<not> is_backend_gone L e)"
    and "unat d \<le> unat (sc_sleep_max C)"
  shows "\<exists>d'. operation_loop L C turns d = Again d'
    \<and> unat d' = min (unat d * 2 ^ length turns) (unat (sc_sleep_max C))"
  using assms
proof (induction turns arbitrary: d)
  case Nil
  then show ?case by simp
next
  case (Cons turn turns)
  obtain c x w where turn: "turn = (c, x, w)" by (cases turn)
  have first: "\<not> c \<and> (\<exists>e. x = Err e \<and> \<not> is_backend_gone L e)"
    by (rule Cons.prems(1) [of c x w]) (simp add: turn)
  then have step: "operation_loop L C (turn # turns) d
      = operation_loop L C turns (sleep_with_backoff C d)"
    by (auto simp: turn operation_turn_error)
  have "unat (sc_sleep_max C) \<le> 65535" by (rule unat_u16_bound)
  then have d1: "unat (sleep_with_backoff C d) = min (unat d * 2) (unat (sc_sleep_max C))"
    using Cons.prems(2) by (intro backoff_double) linarith
  obtain d' where d': "operation_loop L C turns (sleep_with_backoff C d) = Again d'"
    "unat d' = min (min (unat d * 2) (unat (sc_sleep_max C)) * 2 ^ length turns) (unat (sc_sleep_max C))"
  proof -
    have all: "\<not> c' \<and> (\<exists>e. x' = Err e \<and> \<not> is_backend_gone L e)"
      if "(c', x', w') \<in> set turns" for c' x' w'
      by (rule Cons.prems(1) [of c' x' w']) (use that in simp)
    have le: "unat (sleep_with_backoff C d) \<le> unat (sc_sleep_max C)" by (simp add: d1)
    have "\<exists>d'. operation_loop L C turns (sleep_with_backoff C d) = Again d'
        \<and> unat d' = min (unat (sleep_with_backoff C d) * 2 ^ length turns) (unat (sc_sleep_max C))"
      by (rule Cons.IH [OF _ le]) (rule all)
    with that show thesis unfolding d1 by blast
  qed
  have "min (min p m * q) m = min (p * q) m" if "0 < q" for p m q :: nat
  proof -
    have le: "p \<le> p * q" "m \<le> m * q" using that by simp_all
    show ?thesis
    proof (cases "p \<le> m")
      case False
      then have "m \<le> p * q" using le(1) by linarith
      then show ?thesis using le(2) False by (simp add: min_absorb2)
    qed (simp add: min_absorb1)
  qed
  then show ?case using step d' by (simp add: mult.assoc)
qed

text \<open>
  An operation that keeps failing is never given up (unless the connection is gone for good or
  the service stops) and backs off: after any number of failing executions in a row its wait is the
  initial wait doubled as often, capped by the configured maximum, and the product does not wrap.
\<close>

theorem operation_backs_off:
  assumes "\<And>c x w. (c, x, w) \<in> set turns \<Longrightarrow> \<not> c \<and> (\<exists>e. x = Err e \<and> \<not> is_backend_gone L e)"
    and "sc_sleep_initial C \<le> sc_sleep_max C"
  shows "\<exists>d'. operation_loop L C turns (reset_sleep_duration C) = Again d'
    \<and> unat d' = min (unat (sc_sleep_initial C) * 2 ^ length turns) (unat (sc_sleep_max C))"
proof -
  have i: "unat (reset_sleep_duration C) = unat (sc_sleep_initial C)"
    by (simp add: reset_sleep_duration_def unat_u16_as_u64)
  have "unat (reset_sleep_duration C) \<le> unat (sc_sleep_max C)"
    using assms(2) by (simp add: i word_le_nat_alt)
  from backoff_loop [OF assms(1) this] show ?thesis by (simp add: i)
qed

section \<open>Witnesses\<close>

definition sample_sender_lib :: "unit sender_lib" where
  "sample_sender_lib =
     \<lparr> decode_commits = (\<lambda>b. Some (CoprocessorAlreadyAdded b)),
       decode_acl = (\<lambda>b. Some (CoprocessorAlreadyAllowedAccount b)),
       decode_input = (\<lambda>b. Some CoprocessorAlreadyVerified),
       is_retry_err = (\<lambda>_. False), address_from_str = (\<lambda>s. Some []),
       signing_hash = (\<lambda>_ _ _ _ _ _ _. []), pending_backend_gone = (\<lambda>_. False) \<rparr>"

definition sample_sender_conf :: sender_conf where
  "sample_sender_conf =
     \<lparr> sc_gas = None, sc_gw_chain_id = 1, sc_input_verification = [],
       sc_proof_batch_limit = 128, sc_proof_max_retries = 6, sc_proof_remove = True,
       sc_add_batch_limit = 10, sc_add_max_retries = 5, sc_allow_batch_limit = 10,
       sc_allow_max_retries = 5, sc_sleep_initial = 1, sc_sleep_max = 300,
       sc_overprovision_percent = 120 \<rparr>"

text \<open>An answer with a receipt of success, and one with the error that all is done already.\<close>

definition sample_taken :: "unit answers" where
  "sample_taken =
     \<lparr> an_estimate = (\<lambda>_. Some 1000), an_send = (\<lambda>_. None),
       an_receipt = (\<lambda>_. Inr \<lparr> rc_status = True, rc_transaction_hash = [1], rc_block_number = Some 7 \<rparr>),
       an_update = None, an_trace_lost = False \<rparr>"

definition sample_digest_row :: "unit digest_row" where
  "sample_digest_row =
     \<lparr> tx_is_sent = False, tx_hash = None, tx_block_number = None, tx_limited = 0,
       tx_unlimited = 0, tx_last_error = None, dg_tenant_id = 1, dg_handle = replicate 32 2,
       dg_ciphertext = Some (replicate 32 3), dg_ciphertext128 = Some (replicate 32 4),
       dg_transaction_id = None \<rparr>"

definition sample_acl_row :: "unit acl_row" where
  "sample_acl_row =
     \<lparr> tx_is_sent = False, tx_hash = None, tx_block_number = None, tx_limited = 0,
       tx_unlimited = 0, tx_last_error = None, ac_tenant_id = 1, ac_handle = replicate 32 2,
       ac_account_address = ''0xaa'', ac_event_type = 0, ac_transaction_id = None \<rparr>"

text \<open>A batch of one row whose task succeeds.\<close>

lemma single_run:
  assumes "setting b" "prep b r t = Ok (Some k, t)" "answer a" "run a k t = (Ok (), t')"
  shows "batch_runs setting prep answer run others [r] t (Ok ()) t'"
proof -
  let ?step = "batch_step setting prep answer run others"
  let ?s0 = "\<lparr>ba_todo = [r], ba_slots = [], ba_table = t\<rparr>"
  let ?s1 = "\<lparr>ba_todo = [], ba_slots = [Running k], ba_table = t\<rparr>"
  let ?s2 = "\<lparr>ba_todo = [], ba_slots = [Finished (Ok ())], ba_table = t'\<rparr>"
  let ?s3 = "\<lparr>ba_todo = [], ba_slots = [], ba_table = t'\<rparr>"
  have "?step ?s0 ?s1"
    using batch_step.spawned [of ?s0 r "[]" setting b prep k t] assms(1,2) by simp
  moreover have "?step ?s1 ?s2"
    using batch_step.running [OF progressed [of ?s1 "[]" k "[]" answer a run "Ok ()" t']] assms(3,4)
    by simp
  moreover have "?step ?s2 ?s3"
    using batch_step.joined [of ?s2 "[]" "[]"] by simp
  ultimately have "?step\<^sup>*\<^sup>* ?s0 ?s3" by (meson converse_rtranclp_into_rtranclp rtranclp.rtrancl_refl)
  from ran [OF this all_joined rtranclp.rtrancl_refl] show ?thesis by simp
qed

lemmas sample_sender_defs = sample_sender_lib_def sample_sender_conf_def sample_taken_def
  sample_digest_row_def sample_acl_row_def

lemma sample_commit:
  "add_execute sample_sender_lib sample_sender_conf (\<lambda>a. a = sample_taken) (=) [sample_digest_row]
     (Ok False) [sample_digest_row\<lparr>tx_is_sent := True, tx_hash := Some [1], tx_block_number := Some 7\<rparr>]"
proof -
  let ?C = "sample_sender_conf" and ?L = "sample_sender_lib" and ?r = "sample_digest_row"
  let ?t = "[?r\<lparr>tx_is_sent := True, tx_hash := Some [1], tx_block_number := Some 7\<rparr>]"
  define k where "k = \<lparr> dt_handle = replicate 32 2, dt_request = with_gas None
      (AddCiphertextMaterial (replicate 32 2) (be_val [5]) (replicate 32 3) (replicate 32 4)),
      dt_src_transaction_id = None \<rparr>"
  have "digest_prepare ?C (\<lambda>_. Some [5]) ?r [?r] = Ok (Some k, [?r])"
    by (simp add: digest_prepare_def sample_sender_defs try_into_array32_def k_def)
  moreover have "digest_send ?L ?C sample_taken k [?r] = (Ok (), ?t)"
    by (simp add: digest_send_def sample_sender_defs k_def try_overprovision_gas_limit_def
        with_gas_def assert_then_def digest_set_sent_def update_rows_def and_then_def mark_sent_def)
  ultimately have run: "batch_runs (\<lambda>_. True) (digest_prepare ?C) (\<lambda>a. a = sample_taken)
      (digest_send ?L ?C) (=) [?r] [?r] (Ok ()) ?t"
    by (intro single_run) simp_all
  have sel: "selects (digest_to_send ?C) (unat (sc_add_batch_limit ?C)) [?r] [?r]"
    by (auto simp: selects_def digest_to_send_def sample_sender_defs intro!: exI [of _ "[?r]"])
  have "more_work (unat (sc_add_batch_limit ?C)) [?r] (Ok ()) = (Ok False :: (unit sender_error, bool) res)"
    by (simp add: more_work_def sample_sender_defs)
  then show ?thesis using add_executed [OF sel run] by simp
qed

lemma commit_sent_only_if_taken_witness:
  "\<exists>a q key d64 d128. a = sample_taken
    \<and> tr_call q = AddCiphertextMaterial (replicate 32 2) key d64 d128
    \<and> (case an_send a q of
         Some e \<Rightarrow> already_added_error sample_sender_lib e \<noteq> None
       | None \<Rightarrow> (\<exists>rc. an_receipt a q = Inr rc \<and> rc_status rc))"
  by (rule commit_sent_only_if_taken [OF sample_commit, where h = "replicate 32 2"
        and y = "sample_digest_row\<lparr>tx_is_sent := True, tx_hash := Some [1], tx_block_number := Some 7\<rparr>"])
    (simp_all add: sample_digest_row_def)

lemma sample_access:
  "allow_execute sample_sender_lib sample_sender_conf (\<lambda>a. a = sample_taken) (=) [sample_acl_row]
     (Ok False) [sample_acl_row\<lparr>tx_is_sent := True, tx_hash := Some [1], tx_block_number := Some 7\<rparr>]"
proof -
  let ?C = "sample_sender_conf" and ?L = "sample_sender_lib" and ?r = "sample_acl_row"
  let ?t = "[?r\<lparr>tx_is_sent := True, tx_hash := Some [1], tx_block_number := Some 7\<rparr>]"
  define k where "k = \<lparr> at_handle = replicate 32 2, at_account_addr = ''0xaa'', at_tenant_id = 1,
      at_request = with_gas None (AllowAccount (replicate 32 2) [] []),
      at_src_transaction_id = None \<rparr>"
  have "acl_prepare ?L ?C (\<lambda>_. True) ?r [?r] = Ok (Some k, [?r])"
    by (simp add: acl_prepare_def sample_sender_defs try_into_array32_def k_def
        allow_events_try_from_i16_def)
  moreover have "acl_send ?L ?C sample_taken k [?r] = (Ok (), ?t)"
    by (simp add: acl_send_def sample_sender_defs k_def try_overprovision_gas_limit_def
        with_gas_def assert_then_def acl_set_sent_def update_rows_def and_then_def mark_sent_def
        acl_matches_def end_l1_transaction_def)
  ultimately have run: "batch_runs (\<lambda>_. True) (acl_prepare ?L ?C) (\<lambda>a. a = sample_taken)
      (acl_send ?L ?C) (=) [?r] [?r] (Ok ()) ?t"
    by (intro single_run) simp_all
  have sel: "selects (acl_to_send ?C) (unat (sc_allow_batch_limit ?C)) [?r] [?r]"
    by (auto simp: selects_def acl_to_send_def sample_sender_defs intro!: exI [of _ "[?r]"])
  have lim: "0 \<le> sint (sc_allow_batch_limit ?C)" by (simp add: sample_sender_defs)
  have "more_work (unat (sc_allow_batch_limit ?C)) [?r] (Ok ()) = (Ok False :: (unit sender_error, bool) res)"
    by (simp add: more_work_def sample_sender_defs)
  then show ?thesis using allow_executed [OF lim sel run] by simp
qed

lemma access_sent_only_if_taken_witness:
  "\<exists>a q. a = sample_taken \<and> access_of sample_sender_lib (replicate 32 2) ''0xaa'' (tr_call q)
    \<and> (case an_send a q of
         Some e \<Rightarrow> already_allowed_error sample_sender_lib e \<noteq> None
       | None \<Rightarrow> (\<exists>rc. an_receipt a q = Inr rc \<and> rc_status rc))"
  by (rule access_sent_only_if_taken [OF sample_access, where h = "replicate 32 2" and tenant = 1
        and account = "''0xaa''"
        and y = "sample_acl_row\<lparr>tx_is_sent := True, tx_hash := Some [1], tx_block_number := Some 7\<rparr>"])
    (simp_all add: sample_acl_row_def of_access_def)

lemma batch_terminates_witness:
  "wfP (\<lambda>s' s. batch_step (\<lambda>_. True) (digest_prepare sample_sender_conf) (\<lambda>a. a = sample_taken)
      (digest_send sample_sender_lib sample_sender_conf) (\<lambda>_ _. False) s s')
   \<and> (\<exists>s' r. (batch_step (\<lambda>_. True) (digest_prepare sample_sender_conf) (\<lambda>a. a = sample_taken)
        (digest_send sample_sender_lib sample_sender_conf) (\<lambda>_ _. False))\<^sup>*\<^sup>*
        \<lparr>ba_todo = [sample_digest_row], ba_slots = [], ba_table = [sample_digest_row]\<rparr> s'
      \<and> batch_end (\<lambda>_. True) (digest_prepare sample_sender_conf) s' r)"
  by (rule batch_terminates [where b = "\<lambda>_. None" and a = sample_taken]) simp_all

definition sample_proof_row :: "bool \<Rightarrow> bytes option \<Rightarrow> unit proof_row" where
  "sample_proof_row v hs =
     \<lparr> pf_zk_proof_id = 3, pf_chain_id = 1, pf_contract_address = ''c'', pf_user_address = ''u'',
       pf_input = None, pf_handles = hs, pf_verified = Some v, pf_retry_count = 5, pf_extra_data = [],
       pf_transaction_id = None, pf_last_error = None \<rparr>"

definition sample_preparation :: preparation where
  "sample_preparation = \<lparr> pr_sign = (\<lambda>_. Some []), pr_remove = None \<rparr>"

definition sample_open_row :: "unit proof_row" where
  "sample_open_row =
     (sample_proof_row False None)\<lparr>pf_zk_proof_id := 4, pf_verified := None, pf_retry_count := 0\<rparr>"

text \<open>A rejected proof is answered and removed, one that is not verified yet stays.\<close>

lemma sample_execution:
  fixes t :: "unit proof_row list"
  assumes clean: "proof_cleanup sample_sender_conf None t = (Ok () :: (unit sender_error, unit) res, t)"
    and b: "batch_runs signs (proof_prepare sample_sender_lib sample_sender_conf) updates
      (process_proof sample_sender_lib sample_sender_conf) (=) (proof_rows sample_sender_conf t) t (Ok ()) t'"
  shows "\<exists>r. proof_execute sample_sender_lib sample_sender_conf (\<lambda>f. f = None) signs updates (=) t r t'"
  using proof_executed [where fault = "\<lambda>f. f = None" and f = None, OF refl clean b] by blast

lemma sample_clean:
  "set t \<subseteq> {sample_proof_row v hs, sample_open_row} \<Longrightarrow>
   proof_cleanup sample_sender_conf None t = (Ok () :: (unit sender_error, unit) res, t)"
  by (auto simp: proof_cleanup_def remove_proofs_by_retry_count_def delete_rows_def
      sample_sender_conf_def sample_open_row_def sample_proof_row_def filter_id_conv)

lemma sample_answered:
  "\<exists>r. proof_execute sample_sender_lib sample_sender_conf (\<lambda>f. f = None) signs updates (=)
     [sample_proof_row False None, sample_open_row] r [sample_open_row]"
proof (rule sample_execution)
  let ?C = "sample_sender_conf" and ?L = "sample_sender_lib" and ?r = "sample_proof_row False None"
  let ?t = "[?r, sample_open_row]"
  define k where "k = \<lparr> pt_zk_proof_id = 3, pt_request = with_gas None (RejectProofResponse 3 []),
      pt_src_transaction_id = None \<rparr>"
  have rows: "proof_rows ?C ?t = [?r]"
    by (simp add: proof_rows_def proof_to_send_def sample_sender_defs sample_proof_row_def
        sample_open_row_def)
  have prep: "proof_prepare ?L ?C sample_preparation ?r ?t = Ok (Some k, ?t)"
    by (simp add: proof_prepare_def sample_proof_row_def k_def sample_sender_defs)
  have run: "process_proof ?L ?C sample_taken k ?t = (Ok (), [sample_open_row])"
    by (simp add: process_proof_def sample_sender_defs k_def try_overprovision_gas_limit_def
        with_gas_def assert_then_def remove_proof_by_id_def delete_rows_def sample_proof_row_def
        sample_open_row_def)
  have set: "signs sample_preparation" by (simp add: signs_def sample_preparation_def)
  have ans: "updates sample_taken" by (simp add: updates_def sample_taken_def)
  show "batch_runs signs (proof_prepare ?L ?C) updates (process_proof ?L ?C) (=)
      (proof_rows ?C ?t) ?t (Ok ()) [sample_open_row]"
    unfolding rows
    by (rule single_run [where setting = signs and answer = updates and b = sample_preparation
          and a = sample_taken and k = k]) (rule set prep ans run)+
  show "proof_cleanup ?C None ?t = (Ok () :: (unit sender_error, unit) res, ?t)"
    by (rule sample_clean [of _ False None]) simp
qed

lemma sample_idle:
  "\<exists>r. proof_execute sample_sender_lib sample_sender_conf (\<lambda>f. f = None) signs updates (=)
     [sample_open_row] r [sample_open_row]"
proof (rule sample_execution)
  have rows: "proof_rows sample_sender_conf [sample_open_row] = []"
    by (simp add: proof_rows_def proof_to_send_def sample_open_row_def)
  have "batch_end signs (proof_prepare sample_sender_lib sample_sender_conf)
      \<lparr>ba_todo = [], ba_slots = [], ba_table = [sample_open_row]\<rparr> (Ok ())"
    by (rule all_joined) simp_all
  from ran [OF rtranclp.rtrancl_refl this rtranclp.rtrancl_refl]
  show "batch_runs signs (proof_prepare sample_sender_lib sample_sender_conf) updates
      (process_proof sample_sender_lib sample_sender_conf) (=)
      (proof_rows sample_sender_conf [sample_open_row]) [sample_open_row] (Ok ()) [sample_open_row]"
    unfolding rows by simp
  show "proof_cleanup sample_sender_conf None [sample_open_row]
      = (Ok () :: (unit sender_error, unit) res, [sample_open_row])"
    by (rule sample_clean [of _ False None]) simp
qed


text \<open>A verified proof without handles.\<close>

lemma unprepared_proof_blocks_witness:
  "\<exists>r t'. proof_execute sample_sender_lib sample_sender_conf (\<lambda>f. f = None) signs updates (=)
       [sample_proof_row True None] r t'
     \<and> is_err r \<and> filter (proof_to_send sample_sender_conf) t' = [sample_proof_row True None]"
proof -
  let ?C = "sample_sender_conf" and ?L = "sample_sender_lib" and ?r = "sample_proof_row True None"
  have send: "proof_to_send ?C ?r"
    by (simp add: proof_to_send_def sample_sender_defs sample_proof_row_def)
  have rows: "proof_rows ?C [?r] = [?r]"
    using send by (simp add: proof_rows_def, simp add: sample_sender_conf_def)
  have clean: "proof_cleanup ?C None [?r] = (Ok () :: (unit sender_error, unit) res, [?r])"
    by (simp add: proof_cleanup_def remove_proofs_by_retry_count_def delete_rows_def
        sample_sender_defs sample_proof_row_def)
  have set: "signs sample_preparation" by (simp add: signs_def sample_preparation_def)
  have "batch_end signs (proof_prepare ?L ?C)
      \<lparr>ba_todo = [?r], ba_slots = [], ba_table = [?r]\<rparr> (Err HandlesNone)"
    using preparation_failed [of "\<lparr>ba_todo = [?r], ba_slots = [], ba_table = [?r]\<rparr>" ?r "[]" signs
        sample_preparation "proof_prepare ?L ?C" HandlesNone] set
    by (simp add: proof_prepare_def sample_proof_row_def)
  from ran [OF rtranclp.rtrancl_refl this rtranclp.rtrancl_refl]
  have b: "batch_runs signs (proof_prepare ?L ?C) updates (process_proof ?L ?C) (=)
      (proof_rows ?C [?r]) [?r] (Err HandlesNone) [?r]"
    unfolding rows by simp
  note exec = proof_executed [where fault = "\<lambda>f. f = None" and f = None, OF refl clean b]
  have "is_err (more_work (unat (sc_proof_batch_limit ?C)) (proof_rows ?C [?r])
      (Err HandlesNone :: (unit sender_error, unit) res))
    \<and> filter (proof_to_send ?C) [?r] = filter (proof_to_send ?C) [?r]"
    by (rule unprepared_proof_blocks [OF _ send _ _ _ _ exec])
      (simp_all add: sample_proof_row_def sample_sender_conf_def)
  then show ?thesis using exec send by fastforce
qed

lemma operation_backs_off_witness:
  "\<exists>d'. operation_loop sample_sender_lib sample_sender_conf
       (replicate 9 (False, Err SigningFailed, Notified)) (reset_sleep_duration sample_sender_conf)
       = Again d' \<and> unat d' = 300"
  using operation_backs_off [where turns = "replicate 9 (False, Err SigningFailed, Notified)"
      and L = sample_sender_lib and C = sample_sender_conf]
  by (simp add: sample_sender_conf_def)

end
