(* ===== verification/ZkProof.thy ===== *)
theory ZkProof
  imports Server TxnSender
begin

text \<open>
  The way of an input with its proof: the gateway listener stores the request
  (\<open>gw-listener/src/gw_listener.rs\<close>), the zkproof worker checks the proof, derives the handles and stores
  the ciphertexts (\<open>zkproof-worker/src/verifier.rs\<close>, \<open>auxiliary.rs\<close>), and the transaction sender answers.
  The deserialisation of a list, the check of the proof, the engine and the hash are parameters.
\<close>

section \<open>The request\<close>

text \<open>\<open>VerifyProofRequest\<close>: the fields of the event, numbers of 256 bits as naturals.\<close>

record proof_request =
  rq_zk_proof_id :: nat
  rq_contract_chain_id :: nat
  rq_contract_address :: bytes
  rq_user_address :: bytes
  rq_ciphertext_with_proof :: bytes
  rq_extra_data :: bytes

text \<open>
  \<open>verify_proof_request\<close>: \<open>to::<i64>()\<close> panics on a number that does not fit; a request that is known
  already is left alone.
\<close>

definition to_i64 :: "nat \<Rightarrow> ('e, nat) res" where
  "to_i64 n = (if n < 2 ^ 63 then Ok n else Panic LibraryPanic)"

definition verify_proof_request ::
  "(bytes \<Rightarrow> string) \<Rightarrow> sqlx_error option \<Rightarrow> proof_request \<Rightarrow> bytes option \<Rightarrow> 'p proof_row list \<Rightarrow>
   (sqlx_error, 'p proof_row list) res" where
  "verify_proof_request address_text fault q transaction_hash t =
     bind_res (to_i64 (rq_contract_chain_id q)) (\<lambda>chain_id.
     bind_res (to_i64 (rq_zk_proof_id q)) (\<lambda>i.
       case fault of
         Some e \<Rightarrow> Err e
       | None \<Rightarrow> Ok (insert_new pf_zk_proof_id
           \<lparr> pf_zk_proof_id = i, pf_chain_id = chain_id,
             pf_contract_address = address_text (rq_contract_address q),
             pf_user_address = address_text (rq_user_address q),
             pf_input = Some (rq_ciphertext_with_proof q), pf_handles = None, pf_verified = None,
             pf_retry_count = 0, pf_extra_data = rq_extra_data q,
             pf_transaction_id = Some (case transaction_hash of Some h \<Rightarrow> h | None \<Rightarrow> []),
             pf_last_error = None \<rparr> t)))"

section \<open>Keys\<close>

record zk_keys =
  zk_tenant_id :: i32
  zk_chain_id :: i64
  zk_acl_contract_address :: string

text \<open>
  \<open>fetch_tenant_server_key\<close> by chain: the cache is asked, filled from the rows of the chain (whose
  keys may not deserialise) and asked again; without any row an assertion fails.
\<close>

definition populate_cache ::
  "string option \<Rightarrow> (nat \<times> (string + zk_keys)) list \<Rightarrow> nat \<Rightarrow> (nat \<rightharpoonup> zk_keys) \<Rightarrow>
   (string, nat \<rightharpoonup> zk_keys) res" where
  "populate_cache fault tenants chain_id cache =
     (case fault of
        Some e \<Rightarrow> Err e
      | None \<Rightarrow>
         (let rows = map snd (filter (\<lambda>r. fst r = chain_id) tenants)
          in case List.find isl rows of
               Some (Inl e) \<Rightarrow> Err e
             | _ \<Rightarrow> assert_then (rows \<noteq> [])
                     (Ok (fold (\<lambda>k c. c(chain_id \<mapsto> projr k)) rows cache))))"

definition fetch_tenant_server_key ::
  "string option \<Rightarrow> (nat \<times> (string + zk_keys)) list \<Rightarrow> nat \<Rightarrow> (nat \<rightharpoonup> zk_keys) \<Rightarrow>
   (string, zk_keys \<times> (nat \<rightharpoonup> zk_keys)) res" where
  "fetch_tenant_server_key fault tenants chain_id cache =
     (case cache chain_id of
        Some k \<Rightarrow> Ok (k, cache)
      | None \<Rightarrow> bind_res (populate_cache fault tenants chain_id cache) (\<lambda>c.
          case c chain_id of Some k \<Rightarrow> Ok (k, c) | None \<Rightarrow> Err ''''))"

section \<open>Verification\<close>

datatype zk_error =
    ZkDb sqlx_error
  | ZkFhevm fhevm_error
  | InvalidProof nat string
  | ServerKeysNotFound string
  | InvalidAuxData string
  | ZkJoinError panic_reason
  | TooManyInputs nat

text \<open>
  The library: the hash, addresses, the conformant deserialisation of a list and its length, the
  check and expansion with the keys of the tenant, and what compression needs.
\<close>

record ('l, 'c, 'b) zk_lib =
  zl_keccak :: "bytes \<Rightarrow> bytes"
  zl_address :: "string \<Rightarrow> bytes option"
  zl_deserialize :: "zk_keys \<Rightarrow> bytes \<Rightarrow> fhevm_error + 'l"
  zl_len :: "'l \<Rightarrow> nat"
  zl_verify_and_expand :: "zk_keys \<Rightarrow> 'l \<Rightarrow> bytes \<Rightarrow> string + 'c expander"
  zl_set_data :: "fhe_ty \<Rightarrow> 'c \<Rightarrow> bytes \<Rightarrow> 'c"
  zl_build :: "fhe_ty \<Rightarrow> 'c \<Rightarrow> 'b option"
  zl_ser :: "'b \<Rightarrow> bytes option"

record zk_data =
  zd_contract_address :: string
  zd_user_address :: string
  zd_acl_contract_address :: string
  zd_chain_id :: i64

text \<open>\<open>U256::from(chain_id)\<close> panics on a negative number; its bytes are 24 zeros and the number's.\<close>

definition u256_chain_bytes :: "i64 \<Rightarrow> ('e, bytes) res" where
  "u256_chain_bytes v =
     (if sint v < 0 then Panic LibraryPanic else Ok (replicate 24 0 @ u64_to_be_bytes v))"

definition aux_address :: "('l, 'c, 'b) zk_lib \<Rightarrow> string \<Rightarrow> (zk_error, bytes) res" where
  "aux_address Z s =
     (case zl_address Z s of None \<Rightarrow> Err (InvalidAuxData s) | Some a \<Rightarrow> Ok a)"

definition assemble :: "('l, 'c, 'b) zk_lib \<Rightarrow> zk_data \<Rightarrow> (zk_error, bytes) res" where
  "assemble Z d =
     bind_res (aux_address Z (zd_contract_address d)) (\<lambda>contract.
     bind_res (aux_address Z (zd_user_address d)) (\<lambda>user.
     bind_res (aux_address Z (zd_acl_contract_address d)) (\<lambda>acl.
     bind_res (u256_chain_bytes (zd_chain_id d)) (\<lambda>chain.
       Ok (contract @ user @ acl @ chain)))))"

definition MAX_INPUT_INDEX :: nat where
  "MAX_INPUT_INDEX = 254"

definition try_verify_and_expand_ciphertext_list ::
  "('l, 'c, 'b) zk_lib \<Rightarrow> nat \<Rightarrow> bytes \<Rightarrow> zk_keys \<Rightarrow> zk_data \<Rightarrow> (zk_error, 'c sfc list) res" where
  "try_verify_and_expand_ciphertext_list Z request_id raw_ct keys d =
     bind_res (assemble Z d) (\<lambda>aux_data_bytes.
       case zl_deserialize Z keys raw_ct of
         Inl e \<Rightarrow> Err (ZkFhevm e)
       | Inr the_list \<Rightarrow>
          (if zl_len Z the_list = 0 then Ok []
           else if MAX_INPUT_INDEX + 1 < zl_len Z the_list then Err (TooManyInputs (zl_len Z the_list))
           else (case zl_verify_and_expand Z keys the_list aux_data_bytes of
               Inl e \<Rightarrow> Err (InvalidProof request_id e)
             | Inr expanded \<Rightarrow> map_err ZkFhevm (extract_ct_list expanded))))"

text \<open>\<open>b"ZK-w_rct"\<close> and \<open>b"ZK-w_hdl"\<close>.\<close>

definition RAW_CT_HASH_DOMAIN_SEPARATOR :: bytes where
  "RAW_CT_HASH_DOMAIN_SEPARATOR = [0x5A, 0x4B, 0x2D, 0x77, 0x5F, 0x72, 0x63, 0x74]"

definition HANDLE_HASH_DOMAIN_SEPARATOR :: bytes where
  "HANDLE_HASH_DOMAIN_SEPARATOR = [0x5A, 0x4B, 0x2D, 0x77, 0x5F, 0x68, 0x64, 0x6C]"

record zk_ciphertext =
  zc_handle :: bytes
  zc_compressed :: bytes
  zc_type :: i16
  zc_version :: i16

text \<open>The bytes written over the hash: index, chain, type and version.\<close>

definition write_handle :: "bytes \<Rightarrow> nat \<Rightarrow> i64 \<Rightarrow> i16 \<Rightarrow> bytes" where
  "write_handle handle ct_idx chain_id serialized_type =
     (let h = handle[21 := of_nat ct_idx];
          h = take 22 h @ u64_to_be_bytes chain_id @ drop 30 h
      in h[30 := ucast serialized_type, 31 := ucast current_ciphertext_version])"

definition create_ciphertext ::
  "('l, 'c, 'b) zk_lib \<Rightarrow> bytes \<Rightarrow> nat \<Rightarrow> 'c sfc \<Rightarrow> zk_data \<Rightarrow> (zk_error, zk_ciphertext) res" where
  "create_ciphertext Z blob_hash ct_idx the_ct d =
     (if MAX_INPUT_INDEX < ct_idx then Err (TooManyInputs ct_idx)
      else bind_res (u256_chain_bytes (zd_chain_id d)) (\<lambda>chain_id_bytes.
        case zl_address Z (zd_acl_contract_address d) of
          None \<Rightarrow> Panic ExpectFailed
        | Some acl \<Rightarrow>
           (let handle = zl_keccak Z (HANDLE_HASH_DOMAIN_SEPARATOR @ blob_hash @ [of_nat ct_idx]
                           @ acl @ chain_id_bytes)
            in assert_then (length handle = 32)
                 (bind_res (compress_ct (zl_build Z) (zl_ser Z)
                     (add_re_randomization_metadata (zl_set_data Z) the_ct handle))
                   (\<lambda>(serialized_type, compressed).
                     Ok \<lparr> zc_handle = write_handle handle ct_idx (zd_chain_id d) serialized_type,
                          zc_compressed = compressed, zc_type = serialized_type,
                          zc_version = current_ciphertext_version \<rparr>)))))"

fun create_ciphertexts ::
  "('l, 'c, 'b) zk_lib \<Rightarrow> bytes \<Rightarrow> nat \<Rightarrow> 'c sfc list \<Rightarrow> zk_data \<Rightarrow> (zk_error, zk_ciphertext list) res" where
  "create_ciphertexts Z blob_hash idx [] d = Ok []"
| "create_ciphertexts Z blob_hash idx (ct # cts) d =
     bind_res (create_ciphertext Z blob_hash idx ct d) (\<lambda>c.
     bind_res (create_ciphertexts Z blob_hash (Suc idx) cts d) (\<lambda>cs. Ok (c # cs)))"

definition verify_proof ::
  "('l, 'c, 'b) zk_lib \<Rightarrow> nat \<Rightarrow> zk_keys \<Rightarrow> zk_data \<Rightarrow> bytes \<Rightarrow> (zk_error, zk_ciphertext list \<times> bytes) res" where
  "verify_proof Z request_id keys d raw_ct =
     bind_res (try_verify_and_expand_ciphertext_list Z request_id raw_ct keys d) (\<lambda>cts.
       let blob_hash = zl_keccak Z (RAW_CT_HASH_DOMAIN_SEPARATOR @ raw_ct) in
       bind_res (create_ciphertexts Z blob_hash 0 cts d) (\<lambda>cs. Ok (cs, blob_hash)))"

section \<open>The worker\<close>

definition zk_ciphertext_row :: "i32 \<Rightarrow> bytes \<Rightarrow> nat \<times> zk_ciphertext \<Rightarrow> ciphertext_row" where
  "zk_ciphertext_row tenant_id blob_hash c =
     \<lparr> ct_tenant_id = tenant_id, ct_handle = zc_handle (snd c), ct_ciphertext = zc_compressed (snd c),
       ct_version = zc_version (snd c), ct_type = zc_type (snd c),
       ct_input_blob_hash = Some blob_hash, ct_input_blob_index = of_nat (fst c) \<rparr>"

definition insert_zk_ciphertexts ::
  "i32 \<Rightarrow> zk_ciphertext list \<Rightarrow> bytes \<Rightarrow> trx \<Rightarrow> (sqlx_error, trx) res" where
  "insert_zk_ciphertexts tenant_id cts blob_hash x =
     bind_res (for_each (\<lambda>c. statement (\<lambda>t. t\<lparr>t_ciphertexts :=
         insert_new ciphertext_key (zk_ciphertext_row tenant_id blob_hash c) (t_ciphertexts t)\<rparr>))
         (enumerate 0 cts) x)
       (statement id)"

text \<open>
  What a run of the routine meets: whether the transaction begins, the fault of the query (an error
  there counts as no work), the rows other workers hold, and the fault of the query for keys.
\<close>

record zk_env =
  ze_begin :: "sqlx_error option"
  ze_query :: "sqlx_error option"
  ze_locked :: "nat list"
  ze_keys :: "string option"

definition next_proof :: "nat list \<Rightarrow> 'p proof_row list \<Rightarrow> 'p proof_row option" where
  "next_proof locked t =
     (case sort_key pf_zk_proof_id
        (filter (\<lambda>r. pf_verified r = None \<and> pf_zk_proof_id r \<notin> set locked) t) of
        [] \<Rightarrow> None
      | r # _ \<Rightarrow> Some r)"

definition set_verified :: "nat \<Rightarrow> bytes \<Rightarrow> bool \<Rightarrow> 'p proof_row list \<Rightarrow> 'p proof_row list" where
  "set_verified i handles verified =
     map (\<lambda>r. if pf_zk_proof_id r = i
              then r\<lparr>pf_handles := Some handles, pf_verified := Some verified\<rparr> else r)"

text \<open>
  The end of the routine: the outcome of the check is stored with the ciphertexts, in the
  transaction that holds the row; a panic of the check is the error of the join.
\<close>

definition settle_proof ::
  "i32 \<Rightarrow> nat \<Rightarrow> (zk_error, zk_ciphertext list \<times> bytes) res \<Rightarrow> 'p proof_row list \<Rightarrow> trx \<Rightarrow>
   (zk_error, 'p proof_row list \<times> tables) res" where
  "settle_proof tenant_id request_id outcome t x =
     map_err ZkDb (bind_res
       (case outcome of
          Ok (cts, blob_hash) \<Rightarrow>
            bind_res (insert_zk_ciphertexts tenant_id cts blob_hash x)
              (\<lambda>y. Ok (concat (map zc_handle cts), True, y))
        | _ \<Rightarrow> Ok ([], False, x))
       (\<lambda>(handles_bytes, verified, y).
          bind_res (statement id y) (\<lambda>y.
          bind_res (statement id y) (\<lambda>y.
          bind_res (statement id y) (\<lambda>y.
            Ok (set_verified request_id handles_bytes verified t, x_tables y))))))"

text \<open>
  \<open>execute_verify_proof_routine\<close>: one proof, with the keys of its chain; the result is what a
  commit makes visible, and nothing on an error.
\<close>

definition execute_verify_proof_routine ::
  "('l, 'c, 'b) zk_lib \<Rightarrow> (nat \<times> (string + zk_keys)) list \<Rightarrow> zk_env \<Rightarrow> 'p proof_row list \<Rightarrow> trx \<Rightarrow>
   (nat \<rightharpoonup> zk_keys) \<Rightarrow> (zk_error, 'p proof_row list \<times> tables \<times> (nat \<rightharpoonup> zk_keys)) res" where
  "execute_verify_proof_routine Z tenants env t x cache =
     (case ze_begin env of
        Some e \<Rightarrow> Err (ZkDb e)
      | None \<Rightarrow>
         (case (ze_query env, next_proof (ze_locked env) t) of
            (None, Some r) \<Rightarrow>
              (case pf_input r of
                 None \<Rightarrow> Panic LibraryPanic
               | Some input \<Rightarrow>
                   bind_res (map_err ServerKeysNotFound
                       (fetch_tenant_server_key (ze_keys env) tenants (pf_chain_id r) cache))
                     (\<lambda>(keys, cache').
                        let outcome = verify_proof Z (pf_zk_proof_id r) keys
                              \<lparr> zd_contract_address = pf_contract_address r,
                                zd_user_address = pf_user_address r,
                                zd_acl_contract_address = zk_acl_contract_address keys,
                                zd_chain_id = zk_chain_id keys \<rparr> input
                        in case outcome of
                             Panic p \<Rightarrow> Err (ZkJoinError p)
                           | _ \<Rightarrow> bind_res (settle_proof (zk_tenant_id keys) (pf_zk_proof_id r) outcome t x)
                                    (\<lambda>(t', tables'). Ok (t', tables', cache'))))
          | _ \<Rightarrow> Ok (t, x_tables x, cache)))"

text \<open>
  \<open>run_with_db_retry\<close> starts a worker again after an error of the database that may pass; any other
  error ends it, as a panic does.
\<close>

fun worker_restarts :: "(zk_error, 'a) res \<Rightarrow> bool" where
  "worker_restarts (Err (ZkDb (SqlDatabase code))) \<longleftrightarrow> code = Some ''40P01''"
| "worker_restarts (Err (ZkDb e)) \<longleftrightarrow> True"
| "worker_restarts (Err e) \<longleftrightarrow> False"
| "worker_restarts (Panic p) \<longleftrightarrow> False"
| "worker_restarts (Ok x) \<longleftrightarrow> True"

section \<open>The services on the table of proofs\<close>

text \<open>What arrives in the table: requests of the gateway, and outcomes of the worker.\<close>

inductive proof_arrives ::
  "(bytes \<Rightarrow> string) \<Rightarrow> ('l, 'c, 'b) zk_lib \<Rightarrow> (nat \<times> (string + zk_keys)) list \<Rightarrow>
   'p proof_row list \<Rightarrow> 'p proof_row list \<Rightarrow> bool"
  for address_text Z tenants where
  proof_requested:
    "verify_proof_request address_text fault q h t = Ok t' \<Longrightarrow> proof_arrives address_text Z tenants t t'"
| proof_checked:
    "execute_verify_proof_routine Z tenants env t x cache = Ok (t', tables', cache') \<Longrightarrow>
     proof_arrives address_text Z tenants t t'"

text \<open>The whole: executions of the sender, during which requests and outcomes keep arriving.\<close>

inductive proof_service ::
  "(bytes \<Rightarrow> string) \<Rightarrow> ('l, 'c, 'b) zk_lib \<Rightarrow> (nat \<times> (string + zk_keys)) list \<Rightarrow>
   'p sender_lib \<Rightarrow> sender_conf \<Rightarrow> 'p proof_row list \<Rightarrow> 'p proof_row list \<Rightarrow> bool"
  for address_text Z tenants L C where
  proof_arrived: "proof_arrives address_text Z tenants t t' \<Longrightarrow> proof_service address_text Z tenants L C t t'"
| proof_answered:
    "proof_execute L C fault setting answer (proof_arrives address_text Z tenants) t r t' \<Longrightarrow>
     proof_service address_text Z tenants L C t t'"

end
