(* ===== verification/ZkProofCorrect.thy ===== *)
theory ZkProofCorrect
  imports ZkProof TxnSenderCorrect
begin

text \<open>
  A proof on its way: the worker stores exactly the ciphertexts whose handles it writes into the
  row, the sender answers with these handles, and the rows the sender meets never have the defects
  it cannot cope with. A chain without keys is what stops the way.
\<close>

section \<open>Handles\<close>

lemma length_u64_to_be_bytes [simp]: "length (u64_to_be_bytes v) = 8"
  by (simp add: u64_to_be_bytes_def)

lemma write_handle_length: "length h = 32 \<Longrightarrow> length (write_handle h i c ty) = 32"
  by (simp add: write_handle_def Let_def)

lemma write_handle_index: "length h = 32 \<Longrightarrow> write_handle h i c ty ! 21 = of_nat i"
  by (simp add: write_handle_def Let_def nth_append)

lemma create_ciphertext_Ok:
  "create_ciphertext Z blob_hash i ct d = Ok c \<Longrightarrow>
   i \<le> MAX_INPUT_INDEX \<and> length (zc_handle c) = 32 \<and> zc_handle c ! 21 = of_nat i
   \<and> zc_version c = current_ciphertext_version"
  by (auto simp: create_ciphertext_def assert_then_def bind_res_eq_Ok write_handle_length
      write_handle_index Let_def split: if_splits option.splits)

lemma create_ciphertexts_Ok:
  assumes "create_ciphertexts Z blob_hash n cts d = Ok cs"
  shows "length cs = length cts
    \<and> (\<forall>j < length cs. n + j \<le> MAX_INPUT_INDEX \<and> length (zc_handle (cs ! j)) = 32
        \<and> zc_handle (cs ! j) ! 21 = of_nat (n + j) \<and> zc_version (cs ! j) = current_ciphertext_version)"
  using assms
proof (induction cts arbitrary: n cs)
  case (Cons ct cts)
  then obtain c cs' where c: "create_ciphertext Z blob_hash n ct d = Ok c"
    "create_ciphertexts Z blob_hash (Suc n) cts d = Ok cs'" "cs = c # cs'"
    by (auto simp: bind_res_eq_Ok)
  from Cons.IH [OF c(2)] create_ciphertext_Ok [OF c(1)] c(3) show ?case
    by (auto simp: nth_Cons split: nat.splits)
qed simp

lemma index_byte_inj:
  assumes "(of_nat i :: u8) = of_nat j" "i \<le> 254" "j \<le> 254"
  shows "i = j"
proof -
  have "unat (of_nat i :: u8) = unat (of_nat j :: u8)" using assms(1) by simp
  then show ?thesis using assms(2,3) by (simp add: unat_of_nat take_bit_eq_mod)
qed

lemma created_handles:
  assumes "create_ciphertexts Z blob_hash 0 cts d = Ok cs"
  shows "distinct (map zc_handle cs)" "\<forall>c \<in> set cs. length (zc_handle c) = 32"
proof -
  note ok = create_ciphertexts_Ok [OF assms]
  show "\<forall>c \<in> set cs. length (zc_handle c) = 32" using ok by (auto simp: in_set_conv_nth)
  show "distinct (map zc_handle cs)"
    unfolding distinct_conv_nth
  proof (intro allI impI)
    fix i j assume ij: "i < length (map zc_handle cs)" "j < length (map zc_handle cs)" "i \<noteq> j"
    then have "(of_nat i :: u8) \<noteq> of_nat j"
      using ok index_byte_inj [of i j] by (auto simp: MAX_INPUT_INDEX_def)
    moreover have "zc_handle (cs ! i) ! 21 = of_nat i" "zc_handle (cs ! j) ! 21 = of_nat j"
      using ok ij by auto
    ultimately have "zc_handle (cs ! i) \<noteq> zc_handle (cs ! j)" by metis
    then show "map zc_handle cs ! i \<noteq> map zc_handle cs ! j" using ij by simp
  qed
qed

text \<open>The sender cuts the handles of a row where the worker joined them.\<close>

lemma chunks32_append: "length h = 32 \<Longrightarrow> chunks32 (h @ bs) = h # chunks32 bs"
  by (cases h) simp_all

lemma chunks32_concat: "\<forall>h \<in> set hs. length h = 32 \<Longrightarrow> chunks32 (concat hs) = hs"
  by (induction hs) (simp_all add: chunks32_append)

lemma concat_length_32: "\<forall>h \<in> set hs. length h = 32 \<Longrightarrow> 32 dvd length (concat hs)"
  by (induction hs) simp_all

section \<open>A run of the worker\<close>

lemma next_proof_Some:
  assumes "next_proof locked t = Some r"
  shows "r \<in> set t" "pf_verified r = None"
proof -
  obtain rs where "sort_key pf_zk_proof_id
      (filter (\<lambda>r. pf_verified r = None \<and> pf_zk_proof_id r \<notin> set locked) t) = r # rs"
    using assms by (auto simp: next_proof_def split: list.splits)
  then have "r \<in> set (sort_key pf_zk_proof_id
      (filter (\<lambda>r. pf_verified r = None \<and> pf_zk_proof_id r \<notin> set locked) t))"
    by (simp only: list.set_intros)
  then show "r \<in> set t" "pf_verified r = None" by auto
qed

lemma insert_zk_ciphertexts_ok:
  assumes "insert_zk_ciphertexts tenant cts h x = Ok y"
  shows "x_tables y = (x_tables x)\<lparr>t_ciphertexts := fold (insert_new ciphertext_key)
      (map (zk_ciphertext_row tenant h) (enumerate 0 cts)) (t_ciphertexts (x_tables x))\<rparr>"
proof -
  define g :: "nat \<times> zk_ciphertext \<Rightarrow> tables \<Rightarrow> tables" where "g = (\<lambda>c t. t\<lparr>t_ciphertexts :=
      insert_new ciphertext_key (zk_ciphertext_row tenant h c) (t_ciphertexts t)\<rparr>)"
  obtain z where z: "for_each (\<lambda>c. statement (g c)) (enumerate 0 cts) x = Ok z" "statement id z = Ok y"
    using assms by (auto simp: insert_zk_ciphertexts_def g_def bind_res_eq_Ok)
  have "x_tables z = fold g (enumerate 0 cts) (x_tables x) \<and> x_now z = x_now x"
    by (rule for_each_tables [OF z(1)]) (rule statement_ok)
  moreover have "x_tables y = x_tables z" using statement_ok [OF z(2)] by simp
  moreover have "fold g cs t = t\<lparr>t_ciphertexts := fold (insert_new ciphertext_key)
      (map (zk_ciphertext_row tenant h) cs) (t_ciphertexts t)\<rparr>" for cs t
    by (induction cs arbitrary: t) (simp_all add: g_def)
  ultimately show ?thesis by simp
qed

lemma settle_proof_ok:
  assumes "settle_proof tenant i outcome t x = Ok (t', tables')" "\<not> panics outcome"
  shows "(\<exists>cts h. outcome = Ok (cts, h) \<and> t' = set_verified i (concat (map zc_handle cts)) True t
      \<and> tables' = (x_tables x)\<lparr>t_ciphertexts := fold (insert_new ciphertext_key)
          (map (zk_ciphertext_row tenant h) (enumerate 0 cts)) (t_ciphertexts (x_tables x))\<rparr>)
    \<or> (is_err outcome \<and> t' = set_verified i [] False t \<and> tables' = x_tables x)"
proof (cases outcome)
  case (Ok p)
  obtain cts h where p: "p = (cts, h)" by (cases p)
  from assms(1) obtain y where
    "insert_zk_ciphertexts tenant cts h x = Ok y" "x_tables y = tables'"
    "t' = set_verified i (concat (map zc_handle cts)) True t"
    by (auto simp: settle_proof_def Ok p bind_res_eq_Ok dest!: statement_ok)
  then show ?thesis using insert_zk_ciphertexts_ok [of tenant cts h x y] Ok p by auto
next
  case (Err e)
  then show ?thesis
    using assms(1) by (auto simp: settle_proof_def bind_res_eq_Ok dest!: statement_ok)
qed (use assms(2) in simp)

text \<open>What a run that commits has done.\<close>

lemma routine_ok:
  assumes "execute_verify_proof_routine Z tenants env t x cache = Ok (t', tables', cache')"
  shows "(t' = t \<and> tables' = x_tables x)
    \<or> (\<exists>r input keys outcome. next_proof (ze_locked env) t = Some r \<and> pf_input r = Some input
        \<and> outcome = verify_proof Z (pf_zk_proof_id r) keys
              \<lparr> zd_contract_address = pf_contract_address r, zd_user_address = pf_user_address r,
                zd_acl_contract_address = zk_acl_contract_address keys,
                zd_chain_id = zk_chain_id keys \<rparr> input
        \<and> \<not> panics outcome
        \<and> settle_proof (zk_tenant_id keys) (pf_zk_proof_id r) outcome t x = Ok (t', tables'))"
proof -
  have idle: "t' = t \<and> tables' = x_tables x"
    if "ze_begin env = None" "ze_query env \<noteq> None \<or> next_proof (ze_locked env) t = None"
    using assms that
    by (auto simp: execute_verify_proof_routine_def split: option.splits)
  have busy: ?thesis
    if b: "ze_begin env = None" "ze_query env = None" "next_proof (ze_locked env) t = Some r" for r
  proof -
    obtain input keys c where k: "pf_input r = Some input"
      "fetch_tenant_server_key (ze_keys env) tenants (pf_chain_id r) cache = Ok (keys, c)"
      using assms b
      by (auto simp: execute_verify_proof_routine_def bind_res_eq_Ok split: option.splits)
    define outcome where "outcome = verify_proof Z (pf_zk_proof_id r) keys
        \<lparr> zd_contract_address = pf_contract_address r, zd_user_address = pf_user_address r,
          zd_acl_contract_address = zk_acl_contract_address keys,
          zd_chain_id = zk_chain_id keys \<rparr> input"
    have run: "(case outcome of Panic p \<Rightarrow> Err (ZkJoinError p)
         | _ \<Rightarrow> bind_res (settle_proof (zk_tenant_id keys) (pf_zk_proof_id r) outcome t x)
                  (\<lambda>(t', tables'). Ok (t', tables', c))) = Ok (t', tables', cache')"
      using assms unfolding outcome_def by (simp add: execute_verify_proof_routine_def b k Let_def)
    then have "\<not> panics outcome" by (cases outcome) simp_all
    moreover from run this
    have "settle_proof (zk_tenant_id keys) (pf_zk_proof_id r) outcome t x = Ok (t', tables')"
      by (cases outcome) (auto simp: bind_res_eq_Ok)
    ultimately show ?thesis using b(3) k(1) outcome_def by blast
  qed
  show ?thesis
    by (cases "ze_begin env"; cases "ze_query env"; cases "next_proof (ze_locked env) t")
      (use assms idle busy in \<open>auto simp: execute_verify_proof_routine_def\<close>)
qed

text \<open>What the check of a proof gives.\<close>

lemma verify_proof_ok:
  assumes "verify_proof Z i keys d raw = Ok (cs, h)"
  shows "distinct (map zc_handle cs)" "\<forall>c \<in> set cs. length (zc_handle c) = 32"
    "zl_address Z (zd_contract_address d) \<noteq> None" "zl_address Z (zd_user_address d) \<noteq> None"
    "\<forall>c \<in> set cs. zc_version c = current_ciphertext_version"
proof -
  obtain cts where c: "try_verify_and_expand_ciphertext_list Z i raw keys d = Ok cts"
    "create_ciphertexts Z h 0 cts d = Ok cs"
    using assms by (auto simp: verify_proof_def Let_def bind_res_eq_Ok)
  show "distinct (map zc_handle cs)" "\<forall>c \<in> set cs. length (zc_handle c) = 32"
    by (fact created_handles [OF c(2)])+
  show "\<forall>c \<in> set cs. zc_version c = current_ciphertext_version"
    using create_ciphertexts_Ok [OF c(2)] by (auto simp: in_set_conv_nth)
  obtain aux where aux: "assemble Z d = Ok aux"
    using c(1) by (auto simp: try_verify_and_expand_ciphertext_list_def bind_res_eq_Ok)
  then obtain a b where ab: "aux_address Z (zd_contract_address d) = Ok a"
    "aux_address Z (zd_user_address d) = Ok b"
    by (auto simp: assemble_def bind_res_eq_Ok)
  then show "zl_address Z (zd_contract_address d) \<noteq> None" "zl_address Z (zd_user_address d) \<noteq> None"
    by (auto simp: aux_address_def split: option.splits)
qed

lemma set_verified_new:
  assumes "r' \<in> set (set_verified i hs v t)" "r' \<notin> set t"
  obtains r0 where "r0 \<in> set t" "pf_zk_proof_id r0 = i"
    "r' = r0\<lparr>pf_handles := Some hs, pf_verified := Some v\<rparr>"
  using assms by (auto simp: set_verified_def split: if_splits)

text \<open>The row a run has marked as verified.\<close>

lemma routine_verified:
  assumes run: "execute_verify_proof_routine Z tenants env t x cache = Ok (t', tables', cache')"
    and ids: "distinct (map pf_zk_proof_id t)"
    and r': "r' \<in> set t'" "pf_verified r' = Some True" "r' \<notin> set t"
  shows "\<exists>r (cs :: zk_ciphertext list) (keys :: zk_keys). r \<in> set t
    \<and> r' = r\<lparr>pf_handles := Some (concat (map zc_handle cs)), pf_verified := Some True\<rparr>
    \<and> distinct (map zc_handle cs) \<and> (\<forall>g \<in> set (map zc_handle cs). length g = 32)
    \<and> zl_address Z (pf_contract_address r) \<noteq> None \<and> zl_address Z (pf_user_address r) \<noteq> None
    \<and> (\<forall>c \<in> set cs. (zk_tenant_id keys, zc_handle c, current_ciphertext_version)
          \<in> ciphertext_key ` set (t_ciphertexts tables'))"
proof -
  have "t' \<noteq> t" using r' by auto
  then obtain r input keys outcome where o: "next_proof (ze_locked env) t = Some r"
    "outcome = verify_proof Z (pf_zk_proof_id r) keys
       \<lparr> zd_contract_address = pf_contract_address r, zd_user_address = pf_user_address r,
         zd_acl_contract_address = zk_acl_contract_address keys,
         zd_chain_id = zk_chain_id keys \<rparr> input"
    "\<not> panics outcome"
    "settle_proof (zk_tenant_id keys) (pf_zk_proof_id r) outcome t x = Ok (t', tables')"
    using routine_ok [OF run] by blast
  from settle_proof_ok [OF o(4,3)] obtain cs h where cs: "outcome = Ok (cs, h)"
    "t' = set_verified (pf_zk_proof_id r) (concat (map zc_handle cs)) True t"
    "tables' = (x_tables x)\<lparr>t_ciphertexts := fold (insert_new ciphertext_key)
       (map (zk_ciphertext_row (zk_tenant_id keys) h) (enumerate 0 cs)) (t_ciphertexts (x_tables x))\<rparr>"
  proof
    assume "is_err outcome \<and> t' = set_verified (pf_zk_proof_id r) [] False t \<and> tables' = x_tables x"
    then have "r' \<in> set (set_verified (pf_zk_proof_id r) [] False t)" using r'(1) by simp
    then have False using r'(2,3) by (elim set_verified_new) simp_all
    then show thesis ..
  qed blast
  obtain r0 where r0: "r0 \<in> set t" "pf_zk_proof_id r0 = pf_zk_proof_id r"
    "r' = r0\<lparr>pf_handles := Some (concat (map zc_handle cs)), pf_verified := Some True\<rparr>"
    using r'(1,3) unfolding cs(2) by (elim set_verified_new)
  have "r0 = r"
    using ids r0(1,2) next_proof_Some(1) [OF o(1)] by (auto simp: distinct_map inj_on_def)
  then have row: "r' = r\<lparr>pf_handles := Some (concat (map zc_handle cs)), pf_verified := Some True\<rparr>"
    using r0(3) by simp
  note v = verify_proof_ok [OF o(2) [symmetric, unfolded cs(1)]]
  have handles: "\<forall>g \<in> set (map zc_handle cs). length g = 32" using v(2) by auto
  have stored: "(zk_tenant_id keys, zc_handle c, current_ciphertext_version)
      \<in> ciphertext_key ` set (t_ciphertexts tables')" if c: "c \<in> set cs" for c
  proof -
    obtain j where j: "j < length cs" "cs ! j = c" using c by (auto simp: in_set_conv_nth)
    then have "(j, c) \<in> set (enumerate 0 cs)" by (auto simp: in_set_enumerate_eq)
    then have "zk_ciphertext_row (zk_tenant_id keys) h (j, c)
        \<in> set (map (zk_ciphertext_row (zk_tenant_id keys) h) (enumerate 0 cs))" by auto
    then have "ciphertext_key (zk_ciphertext_row (zk_tenant_id keys) h (j, c))
        \<in> ciphertext_key ` set (t_ciphertexts tables')"
      unfolding cs(3) by (auto simp: ciphertexts.fold_keys)
    then show ?thesis using v(5) c by (simp add: ciphertext_key_def zk_ciphertext_row_def)
  qed
  show ?thesis
    using next_proof_Some(1) [OF o(1)] row v(1) handles v(3,4) stored
    by (intro exI [of _ r] exI [of _ cs] exI [of _ keys]) simp
qed


section \<open>No answer gets stuck on a row\<close>

definition answerable :: "'p sender_lib \<Rightarrow> 'p proof_row \<Rightarrow> bool" where
  "answerable L r \<longleftrightarrow>
     (pf_verified r = Some True \<longrightarrow>
        (\<exists>hs. pf_handles r = Some hs \<and> length hs mod 32 = 0)
        \<and> address_from_str L (pf_user_address r) \<noteq> None
        \<and> address_from_str L (pf_contract_address r) \<noteq> None)"

definition recounted :: "'p proof_row \<Rightarrow> 'p proof_row \<Rightarrow> bool" where
  "recounted x y \<longleftrightarrow> y = x \<or> (\<exists>e. count_retry e x = Some y)"

lemma recounted_answerable: "recounted x y \<Longrightarrow> answerable L x \<Longrightarrow> answerable L y"
  by (auto simp: recounted_def answerable_def count_retry_def split: if_splits)

definition recounting :: "'p proof_row list \<Rightarrow> 'p proof_row list \<Rightarrow> bool" where
  "recounting t t' \<longleftrightarrow> (\<exists>P. list_all2 recounted (filter P t) t')"

lemma recounting_refl: "recounting t t"
  unfolding recounting_def
  by (intro exI [of _ "\<lambda>_. True"]) (simp add: recounted_def list.rel_refl)

lemma recounting_filter: "recounting t (filter P t)"
  unfolding recounting_def
  by (intro exI [of _ P]) (simp add: recounted_def list.rel_refl)

lemma recounting_delete: "recounting t (snd (delete_rows fault P t))"
  by (simp add: delete_rows_def recounting_refl recounting_filter split: option.splits)

lemma recounting_update: "recounting t (snd (update_retry_count_by_proof_id fault i e t))"
proof -
  have "list_all2 (\<lambda>x y. y = x \<or> (pf_zk_proof_id x = i \<and> count_retry e x = Some y)) t
      (snd (update_retry_count_by_proof_id fault i e t))"
    unfolding update_retry_count_by_proof_id_def by (rule update_rows_table)
  then have "list_all2 recounted t (snd (update_retry_count_by_proof_id fault i e t))"
    by (rule list_all2_mono) (auto simp: recounted_def)
  then show ?thesis unfolding recounting_def by (intro exI [of _ "\<lambda>_. True"]) simp
qed

lemma recounting_answerable:
  "recounting t t' \<Longrightarrow> \<forall>r \<in> set t. answerable L r \<Longrightarrow> \<forall>r \<in> set t'. answerable L r"
proof -
  assume "recounting t t'" and t: "\<forall>r \<in> set t. answerable L r"
  then obtain P where P: "list_all2 recounted (filter P t) t'" by (auto simp: recounting_def)
  have "\<forall>r \<in> set t'. answerable L r" if "list_all2 recounted u t'" "\<forall>r \<in> set u. answerable L r" for u
    using that by (induction rule: list_all2_induct) (auto dest: recounted_answerable)
  from this [OF P] show ?thesis using t by simp
qed

lemma recounting_ids:
  "recounting t t' \<Longrightarrow> distinct (map pf_zk_proof_id t) \<Longrightarrow> distinct (map pf_zk_proof_id t')"
proof -
  assume "recounting t t'" and t: "distinct (map pf_zk_proof_id t)"
  then obtain P where P: "list_all2 recounted (filter P t) t'" by (auto simp: recounting_def)
  have "map pf_zk_proof_id t' = map pf_zk_proof_id u" if "list_all2 recounted u t'" for u
    using that by (induction rule: list_all2_induct)
      (auto simp: recounted_def count_retry_def split: if_splits)
  from this [OF P] show ?thesis using distinct_map_filter [OF t] by simp
qed

text \<open>Whatever an answer meets, the rows left are rows of before, some counted once more.\<close>

lemma process_proof_recounting:
  fixes t :: "'p proof_row list"
  shows "recounting t (snd (process_proof L C a k t))"
proof (cases "try_overprovision_gas_limit (sc_overprovision_percent C) (an_estimate a) (pt_request k)
    :: ('p sender_error, txn_request) res")
  case (Ok q)
  show ?thesis
  proof (cases "an_send a q")
    case None
    show ?thesis
    proof (cases "an_receipt a q")
      case (Inl p)
      then show ?thesis using None
        by (simp add: process_proof_def Let_def Ok and_then_pair recounting_update)
    next
      case (Inr rc)
      then show ?thesis using None
        by (simp add: process_proof_def Let_def Ok and_then_pair recounting_update recounting_delete
            remove_proof_by_id_def)
    qed
  next
    case (Some e)
    show ?thesis
    proof (cases "Option.bind (as_error_resp e) (decode_input L)")
      case None
      then show ?thesis using Some
        by (simp add: process_proof_def Let_def Ok and_then_pair recounting_update)
    next
      case dec: (Some d)
      then show ?thesis using Some
        by (cases d) (simp_all add: process_proof_def Let_def Ok recounting_delete remove_proof_by_id_def)
    qed
  qed
qed (simp_all add: process_proof_def Let_def recounting_refl)

lemma proof_prepare_recounting: "proof_prepare L C b r t = Ok (k, t') \<Longrightarrow> recounting t t'"
  by (cases k) (auto dest!: proof_prepare_table simp: recounting_refl recounting_filter)

lemma proof_cleanup_recounting: "recounting t (snd (proof_cleanup C fault t))"
  by (simp add: proof_cleanup_def remove_proofs_by_retry_count_def recounting_refl recounting_delete)

text \<open>What arrives is answerable.\<close>

definition all_answerable :: "'p sender_lib \<Rightarrow> 'p proof_row list \<Rightarrow> bool" where
  "all_answerable L t \<longleftrightarrow> distinct (map pf_zk_proof_id t) \<and> (\<forall>r \<in> set t. answerable L r)"

lemma recounting_all: "recounting t t' \<Longrightarrow> all_answerable L t \<Longrightarrow> all_answerable L t'"
  unfolding all_answerable_def using recounting_ids recounting_answerable by blast

interpretation proofs: conflict_table pf_zk_proof_id "insert_new pf_zk_proof_id"
  by unfold_locales (simp_all add: insert_new_def)

lemma request_answerable:
  assumes "verify_proof_request shown fault q h t = Ok t'" "all_answerable L t"
  shows "all_answerable L t'"
proof -
  obtain r where r: "t' = insert_new pf_zk_proof_id r t" "pf_verified r = None"
    using assms(1) by (auto simp: verify_proof_request_def bind_res_eq_Ok split: option.splits)
  have "answerable L r" by (simp add: answerable_def r(2))
  then show ?thesis
    using assms(2) proofs.ins_distinct proofs.ins_rows [of r t] r(1)
    by (auto simp: all_answerable_def)
qed

lemma routine_answerable:
  assumes run: "execute_verify_proof_routine Z tenants env t x cache = Ok (t', tables', cache')"
    and t: "all_answerable L t" and "address_from_str L = zl_address Z"
  shows "all_answerable L t'"
proof -
  have ids: "distinct (map pf_zk_proof_id t)" using t by (simp add: all_answerable_def)
  have "map pf_zk_proof_id (set_verified i hs v t) = map pf_zk_proof_id t" for i hs v
    by (simp add: set_verified_def)
  then have "map pf_zk_proof_id t' = map pf_zk_proof_id t"
    using routine_ok [OF run] by (auto dest!: settle_proof_ok)
  moreover have "answerable L r'" if r': "r' \<in> set t'" for r'
  proof (cases "r' \<in> set t \<or> pf_verified r' \<noteq> Some True")
    case True
    then show ?thesis using t by (auto simp: all_answerable_def answerable_def)
  next
    case False
    then obtain r and cs :: "zk_ciphertext list" where row:
      "r' = r\<lparr>pf_handles := Some (concat (map zc_handle cs)), pf_verified := Some True\<rparr>"
      "\<forall>g \<in> set (map zc_handle cs). length g = 32"
      "zl_address Z (pf_contract_address r) \<noteq> None" "zl_address Z (pf_user_address r) \<noteq> None"
      using routine_verified [OF run ids r'] by blast
    then show ?thesis
      using concat_length_32 [OF row(2)] assms(3)
      by (simp add: answerable_def dvd_eq_mod_eq_0)
  qed
  ultimately show ?thesis using ids by (simp add: all_answerable_def)
qed

lemma arrives_answerable:
  "proof_arrives shown Z tenants t t' \<Longrightarrow> address_from_str L = zl_address Z \<Longrightarrow>
   all_answerable L t \<Longrightarrow> all_answerable L t'"
  by (induction rule: proof_arrives.induct) (blast intro: request_answerable routine_answerable)+

interpretation answerable: batch_invariant setting "proof_prepare L C" answer
    "process_proof L C :: _ \<Rightarrow> _ \<Rightarrow> 'p proof_row list \<Rightarrow> _" "proof_arrives shown Z tenants"
    "\<lambda>t. address_from_str L = zl_address Z \<longrightarrow> all_answerable L t" "\<lambda>_. True"
    for setting L C answer shown Z tenants
proof unfold_locales
  fix a k and t t' :: "'p proof_row list" and res :: "('p sender_error, unit) res"
  assume "address_from_str L = zl_address Z \<longrightarrow> all_answerable L t" "process_proof L C a k t = (res, t')"
  then show "address_from_str L = zl_address Z \<longrightarrow> all_answerable L t'"
    using recounting_all process_proof_recounting by (metis snd_conv)
next
  fix b r k and t t' :: "'p proof_row list"
  assume "proof_prepare L C b r t = Ok (k, t')" "address_from_str L = zl_address Z \<longrightarrow> all_answerable L t"
  then show "address_from_str L = zl_address Z \<longrightarrow> all_answerable L t'"
    using recounting_all proof_prepare_recounting by blast
qed (simp_all add: arrives_answerable)

lemma proof_execute_answerable:
  assumes "proof_execute L C fault setting answer (proof_arrives shown Z tenants) t r t'"
    and "address_from_str L = zl_address Z" "all_answerable L t"
  shows "all_answerable L t'"
  using assms(1)
proof cases
  case (proof_executed f t1 r')
  have "all_answerable L t1"
    using recounting_all [OF proof_cleanup_recounting [of t C f] assms(3)] proof_executed(3) by simp
  then show ?thesis
    using answerable.batch_runs_keeps [OF proof_executed(4)] assms(2) by blast
next
  case (cleanup_failed f e)
  then show ?thesis using recounting_all [OF proof_cleanup_recounting [of t C f] assms(3)] by simp
next
  case (proof_query_failed f e)
  then show ?thesis using recounting_all [OF proof_cleanup_recounting [of t C f] assms(3)] by simp
qed

lemma proof_service_answerable:
  "(proof_service shown Z tenants L C)\<^sup>*\<^sup>* t t' \<Longrightarrow> address_from_str L = zl_address Z \<Longrightarrow>
   all_answerable L t \<Longrightarrow> all_answerable L t'"
proof (induction rule: rtranclp_induct)
  case (step u v)
  from step(2) show ?case
  proof cases
    case proof_arrived
    then show ?thesis using arrives_answerable step(3-5) by blast
  next
    case (proof_answered fault setting answer r)
    then show ?thesis using proof_execute_answerable step(3-5) by blast
  qed
qed simp

text \<open>
  C39. However requests, runs of the worker and executions of the sender interleave, starting from an
  empty table and with any failures in between: the identifiers of the proofs stay distinct, and a
  verified proof has handles in whole pieces of 32 bytes and addresses that parse. So preparing its
  answer neither fails for missing handles, nor drops the proof for handles of a bad length, nor
  panics on an address; it can only fail to be signed.
\<close>

theorem verified_proofs_answerable:
  assumes "(proof_service shown Z tenants L C)\<^sup>*\<^sup>* [] t"
    and "address_from_str L = zl_address Z"
    and "r \<in> set t" "pf_verified r = Some True"
  shows "distinct (map pf_zk_proof_id t)
    \<and> (\<exists>hs. pf_handles r = Some hs \<and> length hs mod 32 = 0)
    \<and> (proof_prepare L C b r u = Err SigningFailed
       \<or> (\<exists>k. proof_prepare L C b r u = Ok (Some k, u) \<and> pt_zk_proof_id k = pf_zk_proof_id r))"
proof -
  have "all_answerable L []" by (simp add: all_answerable_def)
  then have all: "all_answerable L t" using proof_service_answerable [OF assms(1,2)] by blast
  then have "answerable L r" using assms(3) by (simp add: all_answerable_def)
  then obtain hs user contract where r: "pf_handles r = Some hs" "length hs mod 32 = 0"
    "address_from_str L (pf_user_address r) = Some user"
    "address_from_str L (pf_contract_address r) = Some contract"
    using assms(4) by (auto simp: answerable_def)
  have prep: "proof_prepare L C b r u = Err SigningFailed
       \<or> (\<exists>k. proof_prepare L C b r u = Ok (Some k, u) \<and> pt_zk_proof_id k = pf_zk_proof_id r)"
    using r assms(4)
    by (cases "pr_sign b (signing_hash L (sc_gw_chain_id C) (sc_input_verification C)
          (chunks32 hs) user contract (pf_chain_id r) (pf_extra_data r))")
      (simp_all add: proof_prepare_def Let_def)
  have "distinct (map pf_zk_proof_id t)" using all by (simp add: all_answerable_def)
  with r(1,2) prep show ?thesis by simp
qed

section \<open>A chain without keys\<close>

lemma populate_without_tenant:
  assumes "\<forall>k. (chain_id, k) \<notin> set tenants"
  shows "populate_cache fault tenants chain_id cache
    = (case fault of None \<Rightarrow> Panic AssertionFailed | Some e \<Rightarrow> Err e)"
proof -
  have "filter (\<lambda>r. fst r = chain_id) tenants = []"
    using assms by (auto simp: filter_empty_conv)
  then show ?thesis by (simp add: populate_cache_def split: option.splits)
qed

text \<open>
  C40. A proof for a chain without a tenant that is first among the open ones ends every worker that
  comes to it: with the transaction begun and the row read, the worker panics on the assertion about
  the keys, or fails because the keys cannot be queried, and is not started again in either case;
  and no run of any worker changes anything while the row is first, so that the proofs behind it
  stay open.
\<close>

theorem unknown_chain_ends_workers:
  assumes "next_proof (ze_locked env) t = Some r" "pf_input r \<noteq> None"
    and "cache (pf_chain_id r) = None" "\<forall>k. (pf_chain_id r, k) \<notin> set tenants"
  shows "(ze_begin env = None \<and> ze_query env = None \<longrightarrow>
      \<not> is_ok (execute_verify_proof_routine Z tenants env t x cache)
      \<and> \<not> worker_restarts (execute_verify_proof_routine Z tenants env t x cache)
      \<and> (ze_keys env = None \<longrightarrow>
           execute_verify_proof_routine Z tenants env t x cache = Panic AssertionFailed))
    \<and> (is_ok (execute_verify_proof_routine Z tenants env t x cache) \<longrightarrow>
       execute_verify_proof_routine Z tenants env t x cache = Ok (t, x_tables x, cache))"
proof -
  obtain input where input: "pf_input r = Some input" using assms(2) by auto
  have keys: "fetch_tenant_server_key f tenants (pf_chain_id r) cache
      = (case f of None \<Rightarrow> Panic AssertionFailed | Some e \<Rightarrow> Err e)" for f
    using populate_without_tenant [OF assms(4), of f cache]
    by (simp add: fetch_tenant_server_key_def assms(3) split: option.splits)
  show ?thesis
  proof (cases "ze_begin env")
    case (Some e)
    then show ?thesis by (simp add: execute_verify_proof_routine_def)
  next
    case begun: None
    show ?thesis
    proof (cases "ze_query env")
      case (Some e)
      then show ?thesis by (simp add: execute_verify_proof_routine_def begun)
    next
      case None
      then show ?thesis
        by (cases "ze_keys env")
          (simp_all add: execute_verify_proof_routine_def begun assms(1) input keys)
    qed
  qed
qed

section \<open>Witnesses\<close>

definition sample_zk_lib :: "(nat, nat, nat) zk_lib" where
  "sample_zk_lib =
     \<lparr> zl_keccak = (\<lambda>_. replicate 32 9), zl_address = (\<lambda>s. Some []),
       zl_deserialize = (\<lambda>_ _. Inr 2), zl_len = id,
       zl_verify_and_expand = (\<lambda>_ _ _. Inr \<lparr> ex_len = 2, ex_kind = (\<lambda>_. Some (Kind TUint8)),
          ex_get = (\<lambda>i _. Inr (Some i)) \<rparr>),
       zl_set_data = (\<lambda>_ c _. c), zl_build = (\<lambda>_ c. Some c), zl_ser = (\<lambda>c. Some [of_nat c]) \<rparr>"

definition sample_zk_keys :: zk_keys where
  "sample_zk_keys = \<lparr> zk_tenant_id = 1, zk_chain_id = 5, zk_acl_contract_address = ''acl'' \<rparr>"

definition sample_zk_env :: zk_env where
  "sample_zk_env = \<lparr> ze_begin = None, ze_query = None, ze_locked = [], ze_keys = None \<rparr>"

definition sample_zk_request :: proof_request where
  "sample_zk_request =
     \<lparr> rq_zk_proof_id = 4, rq_contract_chain_id = 5, rq_contract_address = [], rq_user_address = [],
       rq_ciphertext_with_proof = [1, 2, 3], rq_extra_data = [] \<rparr>"

definition sample_zk_row :: "unit proof_row" where
  "sample_zk_row =
     \<lparr> pf_zk_proof_id = 4, pf_chain_id = 5, pf_contract_address = ''0x'', pf_user_address = ''0x'',
       pf_input = Some [1, 2, 3], pf_handles = None, pf_verified = None, pf_retry_count = 0,
       pf_extra_data = [], pf_transaction_id = Some [], pf_last_error = None \<rparr>"

definition sample_zk_trx :: trx where
  "sample_zk_trx =
     \<lparr> x_tables = \<lparr> t_computations = [], t_ciphertexts = [], t_allowed = [], t_pbs = [],
         t_blocks = [], t_blobs = [] \<rparr>, x_now = 0, x_faults = [] \<rparr>"

definition sample_zk_run :: "(zk_error, unit proof_row list \<times> tables \<times> (nat \<rightharpoonup> zk_keys)) res" where
  "sample_zk_run = execute_verify_proof_routine sample_zk_lib [(5, Inr sample_zk_keys)] sample_zk_env
     [sample_zk_row] sample_zk_trx (\<lambda>_. None)"

lemma sample_zk_requested:
  "verify_proof_request (\<lambda>_. ''0x'') None sample_zk_request None [] = Ok [sample_zk_row]"
  by (simp add: verify_proof_request_def sample_zk_request_def to_i64_def insert_new_def
      sample_zk_row_def)

lemma sample_zk_verified:
  "case sample_zk_run of Ok (t', _, _) \<Rightarrow> map pf_verified t' = [Some True] | _ \<Rightarrow> False"
  by code_simp

lemma sample_zk_outcome:
  obtains r' tables' cache' where
    "execute_verify_proof_routine sample_zk_lib [(5, Inr sample_zk_keys)] sample_zk_env
       [sample_zk_row] sample_zk_trx (\<lambda>_. None) = Ok ([r'], tables', cache')"
    "pf_verified r' = Some True"
proof -
  obtain t' tables' cache' where "sample_zk_run = Ok (t', tables', cache')"
    "map pf_verified t' = [Some True]"
    using sample_zk_verified by (auto split: res.split_asm prod.split_asm)
  then show ?thesis using that by (auto simp: sample_zk_run_def)
qed

lemma sample_addresses: "address_from_str sample_sender_lib = zl_address sample_zk_lib"
  by (simp add: sample_sender_lib_def sample_zk_lib_def)


lemma verified_proofs_answerable_witness:
  "\<exists>r u. (proof_service (\<lambda>_. ''0x'') sample_zk_lib [(5, Inr sample_zk_keys)] sample_sender_lib
        sample_sender_conf)\<^sup>*\<^sup>* [] [r]
     \<and> pf_verified r = Some True
     \<and> (proof_prepare sample_sender_lib sample_sender_conf sample_preparation r u = Err SigningFailed
        \<or> (\<exists>k. proof_prepare sample_sender_lib sample_sender_conf sample_preparation r u = Ok (Some k, u)
             \<and> pt_zk_proof_id k = pf_zk_proof_id r))"
proof -
  let ?step = "proof_service (\<lambda>_. ''0x'') sample_zk_lib [(5, Inr sample_zk_keys)] sample_sender_lib
      sample_sender_conf"
  obtain r tables' cache' where run:
    "execute_verify_proof_routine sample_zk_lib [(5, Inr sample_zk_keys)] sample_zk_env
       [sample_zk_row] sample_zk_trx (\<lambda>_. None) = Ok ([r], tables', cache')"
    and v: "pf_verified r = Some True"
    by (rule sample_zk_outcome)
  have "?step [] [sample_zk_row]"
    by (rule proof_arrived, rule proof_requested, rule sample_zk_requested)
  moreover have "?step [sample_zk_row] [r]"
    by (rule proof_arrived, rule proof_checked, rule run)
  ultimately have steps: "?step\<^sup>*\<^sup>* [] [r]" by (rule converse_rtranclp_into_rtranclp [OF _ r_into_rtranclp])
  from verified_proofs_answerable [OF steps sample_addresses _ v, where b = sample_preparation
      and u = "[r]"] steps v
  show ?thesis by (intro exI [of _ r] exI [of _ "[r]"]) simp
qed

lemma unknown_chain_ends_workers_witness:
  "\<not> worker_restarts (execute_verify_proof_routine sample_zk_lib [] sample_zk_env [sample_zk_row]
       sample_zk_trx (\<lambda>_. None))
   \<and> execute_verify_proof_routine sample_zk_lib [] sample_zk_env [sample_zk_row] sample_zk_trx (\<lambda>_. None)
     = Panic AssertionFailed"
proof -
  have "next_proof (ze_locked sample_zk_env) [sample_zk_row] = Some sample_zk_row"
    by (simp add: next_proof_def sample_zk_env_def sample_zk_row_def)
  from unknown_chain_ends_workers [OF this, of "\<lambda>_. None" "[]" sample_zk_lib sample_zk_trx]
  show ?thesis by (simp add: sample_zk_row_def sample_zk_env_def)
qed

end
