(* ===== verification/Spec2Isabelle.thy ===== *)
theory Spec2Isabelle
  imports PerformCorrect PerformPanic EngineSafety CiphertextStorage DependencySort Partition
    ExecutionCorrect SchedulerCorrect ComponentBuildCorrect HostEventsCorrect
    WorkCycleCorrect BlockListenerCorrect ServerCorrect Coprocessor TxnSenderCorrect ZkProofCorrect
begin

text \<open>
  The coprocessor of fhevm (\<open>src/coprocessor/fhevm-engine\<close>) executes the symbolic operations a
  host chain emits: every event names a result handle, an operation and operand handles or clear
  scalars, and the coprocessor computes the ciphertext the result handle stands for. This library
  models the code that decides what is computed, on what and in which order, and proves it correct.
  The homomorphic library, the graph crates, the database and the network are not code of the
  repository: they appear as parameters of the definitions, with what is documented of them as
  named hypotheses.

  \<^bold>\<open>Conventions.\<close> \<open>Prelude\<close> has the outcome of a Rust function (\<open>res\<close>: a value, an error, a
  panic with what raised it), the \<open>?\<close> operator (\<open>bind_res\<close>), the integers at their width, big-endian
  byte strings and the collections of facts \<open>arms_simps\<close> (what the match statements of the
  operations give), \<open>res_simps\<close> (chains of \<open>?\<close>) and \<open>be_simps\<close> (values of byte strings). A Rust
  \<open>HashMap\<close> is a map; where the code iterates over one, the order is a list the statement
  quantifies over. Loops that may not end take fuel and return \<open>None\<close> when it runs out, and the
  properties prove that it does not.

  \<^bold>\<open>Engine\<close> (\<open>fhevm-engine-common/src\<close>).
    \<^item> \<open>FheTypes\<close> (\<open>types.rs\<close>, \<open>utils.rs\<close>): errors, \<open>SupportedFheCiphertexts\<close> as \<open>sfc\<close>, type
      numbers and names, serialisation, compression, re-randomisation.
    \<^item> \<open>FheOperations\<close> (\<open>types.rs\<close>): operation codes and their tables, access kinds; the locale
      \<open>tag_codec\<close> states what a numbering of constructors promises and is interpreted on both.
    \<^item> \<open>ScalarBytes\<close> (the \<open>to_be_u*_bit\<close> readers of \<open>tfhe_ops.rs\<close>): the locale \<open>scalar_reader\<close>
      states that a reader gives the big-endian number modulo its width; every reader interprets it.
    \<^item> \<open>TfheLibrary\<close>: the functions of the crate \<open>tfhe\<close> as a record, and \<open>tfhe_laws\<close>: decryption
      of what an operator returns is the operator of the same name on clear values.
    \<^item> \<open>OperationArms\<close>, \<open>CastArms\<close>, \<open>Creation\<close>, \<open>PerformOperation\<close> (\<open>tfhe_ops.rs\<close>): the match
      arms of every operation, casts, trivial encryption, random values, input lists and
      \<open>perform_fhe_operation_impl\<close>; \<open>OperandCheck\<close> has \<open>check_fhe_operand_types\<close>.
    \<^item> \<open>PerformCorrect\<close> (the engine refines clear arithmetic), \<open>PerformPanic\<close> (exactly when it
      panics), \<open>EngineSafety\<close> (what the operand check leaves possible, result types, random bounds,
      scalars against trivial encryptions), \<open>CiphertextStorage\<close> (what is stored reads back).

  \<^bold>\<open>Scheduler\<close> (\<open>scheduler/src/dfg.rs\<close>, \<open>dfg/scheduler.rs\<close>, \<open>dfg/types.rs\<close>). The operations of a
  transaction become components (\<open>ComponentBuild\<close>), the components of a batch a graph
  (\<open>ComponentGraph\<close>), the graph is partitioned into units of execution (\<open>Partition\<close>), the units
  are spawned and joined (\<open>Scheduler\<close>), and a unit executes the operations of its components
  (\<open>Execution\<close>).
    \<^item> \<open>ComponentBuild\<close>, \<open>ComponentBuildCorrect\<close>: \<open>build_component_nodes\<close>, \<open>finalize\<close>,
      \<open>is_needed\<close>, \<open>ComponentNode::build\<close>. The graph crates are the record \<open>dag_lib\<close> with the laws
      \<open>queries_ok\<close>, which \<open>list_dag\<close> shows satisfiable. \<open>is_needed\<close> recurses over the consumers of an
      operation: fuel above the number of operations is enough, because the graph has no cycle.
    \<^item> \<open>ComponentGraph\<close>, \<open>ComponentGraphCorrect\<close>: \<open>DFComponentGraph\<close>, with \<open>set_uncomputable\<close>,
      whose fuel has to exceed the number of components, since the marked set grows in every call.
    \<^item> \<open>Partition\<close>: both strategies and the counters of the execution graph. A graph is known by its
      queries (\<open>gview\<close>), with \<open>gview_ok\<close> stating their contract.
    \<^item> \<open>Scheduler\<close>, \<open>SchedulerCorrect\<close>: the state of \<open>schedule_coarse_grain\<close> and its rounds as the
      relation \<open>joins\<close>, over every order in which tasks may finish and results may be read out.
    \<^item> \<open>Execution\<close>, \<open>ExecutionCorrect\<close>: \<open>execute_partition\<close> and what it calls, equal to an
      evaluation that looks every operand up by its handle, and correct for clear arithmetic.

  \<^bold>\<open>Database\<close> (\<open>db-migration/migrations\<close>). \<open>Tables\<close> has the rows of the tables the services
  share, with their keys, and the insertion that keeps the row already there (\<open>insert_new\<close>); the
  locale \<open>conflict_table\<close> proves it once for every key and is interpreted on all six tables. A
  transaction is a record of the tables and of the faults its statements meet; a statement fails or
  applies, and nothing is visible before the commit.

  \<^bold>\<open>Host listener\<close> (\<open>host-listener/src\<close>).
    \<^item> \<open>BlockListener\<close>, \<open>BlockListenerCorrect\<close> (\<open>cmd/block_history.rs\<close>, \<open>InfiniteLogIter\<close> of
      \<open>cmd/mod.rs\<close>): the history of recent blocks, the catch-up in pages, missing ancestors and the
      iterator. The node is a record of functions whose answers may change with every question.
      The paging loop and the iterator take fuel: 65 steps are enough for a page when the node does
      not refuse two blocks, since the page is halved at most as often as \<open>u64\<close> has bits; the
      iterator waits for ever on a silent node, so that no fuel is enough for it.
    \<^item> \<open>HostEvents\<close>, \<open>HostEventsCorrect\<close> (\<open>database/tfhe_event_propagate.rs\<close>, \<open>db_insert_block\<close> of
      \<open>cmd/mod.rs\<close>): the events of a block become rows of computations, access rights and the queue
      of the next service, with the bucket of each transaction, in one database transaction that is
      tried again on a failure. The decoding of a log and the cache of buckets are parameters.

  \<^bold>\<open>Worker\<close> (\<open>tfhe-worker/src\<close>).
    \<^item> \<open>DependencySort\<close> (\<open>utils.rs\<close>): the order in which a batch of computations is processed.
    \<^item> \<open>WorkCycle\<close>, \<open>WorkCycleCorrect\<close> (\<open>tfhe_worker.rs\<close>): the query for work, the operations of
      the rows, the graph of a tenant and its inputs, and what is written back; an iteration is the
      relation \<open>worker_iteration\<close> over the runs of the scheduler. The fuel of the construction of
      components has to exceed the number of rows, that of marking the number of components.
    \<^item> \<open>Server\<close>, \<open>ServerCorrect\<close> (\<open>server.rs\<close>, \<open>db_queries.rs\<close>): the requests of the gRPC service:
      batches of computations, inputs with proofs, trivial encryptions and reads of ciphertexts,
      each with its checks, in one database transaction. The decoding of the request's header, the
      hash function, addresses, signatures and the loading of keys are parameters.

  \<^bold>\<open>Transaction sender\<close> (\<open>transaction-sender/src\<close>).
    \<^item> \<open>TxnSender\<close>, \<open>TxnSenderCorrect\<close> (\<open>ops/*.rs\<close>, \<open>overprovision_gas_limit.rs\<close>,
      \<open>transaction_sender.rs\<close>): commits of ciphertexts, access rights and answers to proofs are sent
      to the gateway. A batch is the relation \<open>batch_step\<close>, in which rows are prepared, tasks run and
      are joined in any order, and other services change the table; \<open>batch_end\<close> says how it ends.
      The locale \<open>batch_invariant\<close> carries an invariant of the table through a batch and is
      interpreted on all three operations. The answers of the gateway, faults of statements, the
      signer, address parsing and the hash of EIP-712 are parameters. The sender works on tables
      of its own with the columns for retries and is not a step of \<open>coprocessor_step\<close>.

  \<^bold>\<open>Proofs of inputs\<close> (\<open>zkproof-worker/src\<close>, \<open>gw-listener/src/gw_listener.rs\<close>).
    \<^item> \<open>ZkProof\<close>, \<open>ZkProofCorrect\<close> (\<open>verifier.rs\<close>, \<open>auxiliary.rs\<close>, \<open>tenant_keys.rs\<close>,
      \<open>pg_pool.rs\<close>): a request enters the table of proofs, a worker checks it and stores its
      ciphertexts, the sender answers. \<open>proof_service\<close> is the relation of the three on that table, with
      the sender's batches open to what arrives meanwhile. The hash, the deserialisation of a list
      and the check of a proof are parameters.

  \<^bold>\<open>The services together.\<close> \<open>WorkSoundness\<close> carries a meaning of the handles (clear values that
  fit the operations of the rows) through a node, a component, a task, the component graph, every
  run of the scheduler and an iteration of the worker. \<open>Coprocessor\<close> has the relation
  \<open>coprocessor_step\<close>, in which blocks are inserted, the server takes batches, inputs are stored and
  workers run in any order, each step atomic on the tables, and shows that every stored ciphertext
  decrypts to what the events and the requests mean for its handle.

  \<^bold>\<open>Not modelled.\<close> Tracing, metrics, health checks, connection pools, HTTP and gRPC transport, key
  loading and configuration, which have no logic of their own; the bindings generated for the
  gateway contracts; the numerical content of the crate \<open>tfhe\<close>; the benchmarks and test tools. The
  cache of nonces of the sender is the library's; the noise squashing and uploads of \<open>sns-worker\<close>,
  the downloads of keys of \<open>gw-listener\<close> and the pipeline of the KMS connector are calls of libraries
  and services between queries.
\<close>

end
